(* ===== verification/Rust_Text.thy ===== *)
theory Rust_Text
  imports Prelude
begin

text \<open>
  The part of the Rust standard library's text types that the sources use. A \<open>str\<close> is the list
  of its Unicode scalar values (\<open>char\<close>s, here natural numbers); its UTF-8 bytes, which
  \<open>len\<close>, \<open>as_bytes\<close> and the wire see, are computed by \<open>utf8_encode\<close>, and
  \<open>str::from_utf8\<close> is \<open>utf8_decode\<close>. The main results are that the two are inverse on scalar
  values and that decoding only produces scalar values.
\<close>

section \<open>Scalar values and UTF-8\<close>

type_synonym rchar = nat
type_synonym rstr = "nat list"

definition is_scalar :: "rchar \<Rightarrow> bool" where
  "is_scalar c \<longleftrightarrow> c < 0xD800 \<or> (0xE000 \<le> c \<and> c < 0x110000)"

abbreviation valid_str :: "rstr \<Rightarrow> bool" where
  "valid_str s \<equiv> list_all is_scalar s"

definition utf8_char :: "rchar \<Rightarrow> bytes" where
  "utf8_char c =
     (if c < 0x80 then [byte_of c]
      else if c < 0x800 then [byte_of (0xC0 + c div 64), byte_of (0x80 + c mod 64)]
      else if c < 0x10000 then
        [byte_of (0xE0 + c div 4096), byte_of (0x80 + c div 64 mod 64), byte_of (0x80 + c mod 64)]
      else
        [byte_of (0xF0 + c div 262144), byte_of (0x80 + c div 4096 mod 64),
         byte_of (0x80 + c div 64 mod 64), byte_of (0x80 + c mod 64)])"

definition utf8_encode :: "rstr \<Rightarrow> bytes" where
  "utf8_encode s = concat (map utf8_char s)"

text \<open>\<open>str::len\<close> counts bytes.\<close>

definition str_len :: "rstr \<Rightarrow> nat" where
  "str_len s = length (utf8_encode s)"

definition continuation :: "u8 \<Rightarrow> bool" where
  "continuation b \<longleftrightarrow> 0x80 \<le> unat b \<and> unat b < 0xC0"

definition low6 :: "u8 \<Rightarrow> nat" where
  "low6 b = unat b - 0x80"

text \<open>
  One scalar value off the front: the lead byte gives the length, every further byte must be a
  continuation byte, and overlong forms, surrogates and values past U+10FFFF are refused.
\<close>

fun utf8_take :: "bytes \<Rightarrow> (rchar \<times> bytes) option" where
  "utf8_take [] = None"
| "utf8_take (b # bs) =
     (if unat b < 0x80 then Some (unat b, bs)
      else if unat b < 0xC0 then None
      else if unat b < 0xE0 then
        (case bs of
           b1 # rest \<Rightarrow>
             (let c = (unat b - 0xC0) * 64 + low6 b1
              in if continuation b1 \<and> 0x80 \<le> c then Some (c, rest) else None)
         | _ \<Rightarrow> None)
      else if unat b < 0xF0 then
        (case bs of
           b1 # b2 # rest \<Rightarrow>
             (let c = (unat b - 0xE0) * 4096 + low6 b1 * 64 + low6 b2
              in if continuation b1 \<and> continuation b2 \<and> 0x800 \<le> c \<and> is_scalar c
                 then Some (c, rest) else None)
         | _ \<Rightarrow> None)
      else if unat b < 0xF8 then
        (case bs of
           b1 # b2 # b3 # rest \<Rightarrow>
             (let c = (unat b - 0xF0) * 262144 + low6 b1 * 4096 + low6 b2 * 64 + low6 b3
              in if continuation b1 \<and> continuation b2 \<and> continuation b3
                    \<and> 0x10000 \<le> c \<and> is_scalar c
                 then Some (c, rest) else None)
         | _ \<Rightarrow> None)
      else None)"

lemma utf8_take_shorter: "utf8_take bs = Some (c, rest) \<Longrightarrow> length rest < length bs"
  by (cases bs) (auto simp: Let_def split: if_splits list.splits)

function utf8_decode :: "bytes \<Rightarrow> rstr option" where
  "utf8_decode bs =
     (if bs = [] then Some []
      else case utf8_take bs of
             None \<Rightarrow> None
           | Some (c, rest) \<Rightarrow> map_option ((#) c) (utf8_decode rest))"
  by pat_completeness auto
termination
  by (relation "measure length") (auto dest: utf8_take_shorter)

declare utf8_decode.simps [simp del]

lemma utf8_decode_Nil [simp]: "utf8_decode [] = Some []"
  by (simp add: utf8_decode.simps)

lemma utf8_char_nonempty [simp]: "utf8_char c \<noteq> []"
  by (simp add: utf8_char_def)

lemma length_utf8_char: "length (utf8_char c) \<le> 4"
  by (simp add: utf8_char_def)

lemma base64_digits:
  "c div 4096 * 4096 + c div 64 mod 64 * 64 + c mod 64 = (c :: nat)"
  "c div 262144 * 262144 + c div 4096 mod 64 * 4096 + c div 64 mod 64 * 64 + c mod 64 = c"
proof -
  have 1: "c div 64 = c div 4096 * 64 + c div 64 mod 64"
    using div_mult_mod_eq [of "c div 64" 64] div_mult2_eq [of c 64 64] by simp
  have 2: "c div 4096 = c div 262144 * 64 + c div 4096 mod 64"
    using div_mult_mod_eq [of "c div 4096" 64] div_mult2_eq [of c 4096 64] by simp
  show "c div 4096 * 4096 + c div 64 mod 64 * 64 + c mod 64 = c"
    using 1 div_mult_mod_eq [of c 64] by linarith
  then show "c div 262144 * 262144 + c div 4096 mod 64 * 4096 + c div 64 mod 64 * 64 + c mod 64 = c"
    using 2 by linarith
qed

lemma utf8_take_char:
  assumes "is_scalar c"
  shows "utf8_take (utf8_char c @ rest) = Some (c, rest)"
proof -
  consider (one) "c < 0x80" | (two) "0x80 \<le> c" "c < 0x800" | (three) "0x800 \<le> c" "c < 0x10000"
    | (four) "0x10000 \<le> c" "c < 0x110000"
    using assms by (force simp: is_scalar_def)
  then show ?thesis
  proof cases
    case one
    then show ?thesis by (simp add: utf8_char_def unat_byte_of)
  next
    case two
    then have "c div 64 < 32" by auto
    moreover have "2 \<le> c div 64" using two by auto
    ultimately show ?thesis
      using two by (simp add: utf8_char_def unat_byte_of low6_def continuation_def Let_def)
  next
    case three
    then have "c div 4096 < 16" by auto
    moreover have "c div 4096 * 4096 + c div 64 mod 64 * 64 + c mod 64 = c"
      by (rule base64_digits)
    ultimately show ?thesis
      using three assms
      by (simp add: utf8_char_def unat_byte_of low6_def continuation_def Let_def)
  next
    case four
    then have "c div 262144 < 5" by auto
    moreover have "c div 262144 * 262144 + c div 4096 mod 64 * 4096 + c div 64 mod 64 * 64 + c mod 64 = c"
      by (rule base64_digits)
    ultimately show ?thesis
      using four assms
      by (simp add: utf8_char_def unat_byte_of low6_def continuation_def Let_def)
  qed
qed

lemma utf8_take_scalar: "utf8_take bs = Some (c, rest) \<Longrightarrow> is_scalar c"
  by (cases bs)
    (auto simp: Let_def is_scalar_def low6_def continuation_def split: if_splits list.splits)

lemma utf8_roundtrip: "valid_str s \<Longrightarrow> utf8_decode (utf8_encode s) = Some s"
proof (induction s)
  case Nil
  then show ?case by (simp add: utf8_encode_def)
next
  case (Cons c s)
  then have "utf8_take (utf8_encode (c # s)) = Some (c, utf8_encode s)"
    by (simp add: utf8_encode_def utf8_take_char)
  with Cons show ?case
    by (subst utf8_decode.simps) (simp add: utf8_encode_def)
qed

lemma utf8_decode_valid: "utf8_decode bs = Some s \<Longrightarrow> valid_str s"
proof (induction bs arbitrary: s rule: utf8_decode.induct)
  case (1 bs)
  show ?case
  proof (cases "bs = []")
    case True
    with "1.prems" show ?thesis by simp
  next
    case False
    with "1.prems" obtain c rest t
      where "utf8_take bs = Some (c, rest)" "utf8_decode rest = Some t" "s = c # t"
      by (subst (asm) utf8_decode.simps) (auto split: option.splits)
    with "1.IH" False show ?thesis by (auto dest: utf8_take_scalar)
  qed
qed

lemma utf8_encode_inj: "valid_str s \<Longrightarrow> valid_str t \<Longrightarrow> utf8_encode s = utf8_encode t \<longleftrightarrow> s = t"
  by (metis option.inject utf8_roundtrip)

lemma str_len_le: "str_len s \<le> 4 * length s"
proof (induction s)
  case (Cons c s)
  then show ?case
    using length_utf8_char [of c] by (simp add: str_len_def utf8_encode_def)
qed (simp add: str_len_def utf8_encode_def)

section \<open>Character classes and trimming\<close>

text \<open>\<open>char::is_whitespace\<close> (Unicode White\_Space) and \<open>char::is_control\<close> (category Cc).\<close>

definition is_whitespace :: "rchar \<Rightarrow> bool" where
  "is_whitespace c \<longleftrightarrow>
     (0x09 \<le> c \<and> c \<le> 0x0D) \<or> c = 0x20 \<or> c = 0x85 \<or> c = 0xA0 \<or> c = 0x1680
     \<or> (0x2000 \<le> c \<and> c \<le> 0x200A) \<or> c = 0x2028 \<or> c = 0x2029 \<or> c = 0x202F
     \<or> c = 0x205F \<or> c = 0x3000"

definition is_control :: "rchar \<Rightarrow> bool" where
  "is_control c \<longleftrightarrow> c < 0x20 \<or> (0x7F \<le> c \<and> c < 0xA0)"

definition trim_start :: "rstr \<Rightarrow> rstr" where
  "trim_start s = dropWhile is_whitespace s"

definition trim_end :: "rstr \<Rightarrow> rstr" where
  "trim_end s = rev (dropWhile is_whitespace (rev s))"

definition trim :: "rstr \<Rightarrow> rstr" where
  "trim s = trim_end (trim_start s)"

definition is_ascii :: "rstr \<Rightarrow> bool" where
  "is_ascii s \<longleftrightarrow> list_all (\<lambda>c. c < 0x80) s"

text \<open>The \<open>str\<close> an ASCII literal of the sources denotes.\<close>

definition str_of :: "string \<Rightarrow> rstr" where
  "str_of s = map of_char s"

lemma set_trim: "set (trim s) \<subseteq> set s"
  unfolding trim_def trim_start_def trim_end_def by (metis set_dropWhileD set_rev subsetI)

lemma valid_str_trim: "valid_str s \<Longrightarrow> valid_str (trim s)"
  using set_trim [of s] by (auto simp: list_all_iff)

lemma trim_start_noop: "s = [] \<or> \<not> is_whitespace (hd s) \<Longrightarrow> trim_start s = s"
  by (cases s) (auto simp: trim_start_def)

lemma trim_end_noop: "s = [] \<or> \<not> is_whitespace (last s) \<Longrightarrow> trim_end s = s"
  by (cases s rule: rev_cases) (auto simp: trim_end_def)

lemma hd_trim_start: "trim_start s \<noteq> [] \<Longrightarrow> \<not> is_whitespace (hd (trim_start s))"
  by (simp add: trim_start_def hd_dropWhile)

lemma last_trim_end: "trim_end s \<noteq> [] \<Longrightarrow> \<not> is_whitespace (last (trim_end s))"
  by (simp add: trim_end_def last_rev hd_dropWhile)

lemma trim_end_prefix: "\<exists>ws. s = trim_end s @ ws"
  by (metis trim_end_def rev_append rev_rev_ident takeWhile_dropWhile_id)

lemma trim_ends:
  assumes "trim s \<noteq> []"
  shows "\<not> is_whitespace (hd (trim s))" "\<not> is_whitespace (last (trim s))"
proof -
  obtain ws where ws: "trim_start s = trim s @ ws"
    using trim_end_prefix [of "trim_start s"] by (auto simp: trim_def)
  then have "hd (trim_start s) = hd (trim s)" "trim_start s \<noteq> []"
    using assms by auto
  then show "\<not> is_whitespace (hd (trim s))"
    using hd_trim_start [of s] by auto
  show "\<not> is_whitespace (last (trim s))"
    using assms by (simp add: trim_def last_trim_end)
qed

lemma trim_nil [simp]: "trim [] = []"
  by (simp add: trim_def trim_start_def trim_end_def)

lemma trim_idem: "trim (trim s) = trim s"
proof (cases "trim s = []")
  case False
  from trim_ends [OF False] show ?thesis
    by (metis trim_def trim_end_noop trim_start_noop)
next
  case True
  then show ?thesis by (simp add: trim_nil)
qed

lemma dropWhile_all: "list_all P xs \<Longrightarrow> dropWhile P (xs @ ys) = dropWhile P ys"
  by (induction xs) auto

lemma trim_surround:
  assumes "list_all is_whitespace before" "list_all is_whitespace after" "trim s = s"
  shows "trim (before @ s @ after) = s"
proof (cases "s = []")
  case True
  with assms show ?thesis
    using dropWhile_all [of is_whitespace after "[]"]
    by (auto simp: trim_def trim_start_def trim_end_def dropWhile_all dest: set_dropWhileD)
next
  case False
  with assms(3) have ends: "\<not> is_whitespace (hd s)" "\<not> is_whitespace (last s)"
    using trim_ends [of s] by auto
  have "trim_start (before @ s @ after) = s @ after"
    using assms(1) ends False by (cases s) (auto simp: trim_start_def dropWhile_all)
  moreover have "trim_end (s @ after) = s"
    using assms(2) ends False by (cases s rule: rev_cases) (auto simp: trim_end_def dropWhile_all)
  ultimately show ?thesis by (simp add: trim_def)
qed

lemma is_ascii_utf8:
  assumes "is_ascii s"
  shows "utf8_encode s = map byte_of s" "str_len s = length s" "valid_str s"
  using assms
  by (induction s)
    (auto simp: is_ascii_def utf8_encode_def utf8_char_def str_len_def is_scalar_def)

section \<open>Integers in text\<close>

text \<open>\<open>char::to_digit\<close> for a radix of at most 36.\<close>

definition to_digit :: "nat \<Rightarrow> rchar \<Rightarrow> nat option" where
  "to_digit radix c =
     (let d = (if 0x30 \<le> c \<and> c \<le> 0x39 then Some (c - 0x30)
               else if 0x61 \<le> c \<and> c \<le> 0x7A then Some (c - 0x61 + 10)
               else if 0x41 \<le> c \<and> c \<le> 0x5A then Some (c - 0x41 + 10)
               else None)
      in case d of Some n \<Rightarrow> if n < radix then Some n else None | None \<Rightarrow> None)"

fun parse_digits :: "nat \<Rightarrow> nat \<Rightarrow> nat \<Rightarrow> rstr \<Rightarrow> nat option" where
  "parse_digits radix bound acc [] = Some acc"
| "parse_digits radix bound acc (c # cs) =
     (case to_digit radix c of
        None \<Rightarrow> None
      | Some d \<Rightarrow>
          if acc * radix + d < bound then parse_digits radix bound (acc * radix + d) cs else None)"

text \<open>
  \<open>from_str_radix\<close> of an unsigned type with values below \<open>bound\<close>: an empty string and a lone
  sign are errors, one leading plus sign is skipped, a minus sign is not a digit, and a digit
  that would overflow the type is an error.
\<close>

definition from_str_radix :: "nat \<Rightarrow> nat \<Rightarrow> rstr \<Rightarrow> nat option" where
  "from_str_radix radix bound s =
     (case s of
        [] \<Rightarrow> None
      | c # cs \<Rightarrow>
          if (c = 0x2B \<or> c = 0x2D) \<and> cs = [] then None
          else if c = 0x2B then parse_digits radix bound 0 cs
          else parse_digits radix bound 0 s)"

definition hex_u8 :: "rstr \<Rightarrow> u8 option" where
  "hex_u8 s = map_option byte_of (from_str_radix 16 256 s)"

text \<open>The lower-case hexadecimal digit of a number below 16, and \<open>format!("{byte:02x}")\<close>.\<close>

definition hex_digit :: "nat \<Rightarrow> rchar" where
  "hex_digit n = (if n < 10 then 0x30 + n else 0x61 + (n - 10))"

definition hex_byte :: "u8 \<Rightarrow> rstr" where
  "hex_byte b = [hex_digit (unat b div 16), hex_digit (unat b mod 16)]"

definition hex_string :: "bytes \<Rightarrow> rstr" where
  "hex_string bs = concat (map hex_byte bs)"

text \<open>
  The loop of every hexadecimal parser of the sources: byte \<open>i\<close> is read from the two
  characters at offset \<open>2 * i\<close>, the first failure ends the loop.
\<close>

fun hex_pairs :: "rstr \<Rightarrow> bytes option" where
  "hex_pairs [] = Some []"
| "hex_pairs [c] = None"
| "hex_pairs (c # d # cs) =
     do { b \<leftarrow> hex_u8 [c, d]; bs \<leftarrow> hex_pairs cs; Some (b # bs) }"

lemma to_digit_hex_digit: "n < 16 \<Longrightarrow> to_digit 16 (hex_digit n) = Some n"
  by (auto simp: to_digit_def hex_digit_def)

lemma hex_digit_props: "n < 16 \<Longrightarrow> hex_digit n \<noteq> 0x2B \<and> hex_digit n \<noteq> 0x2D \<and> hex_digit n < 0x80"
  by (auto simp: hex_digit_def)

lemma nibbles: "unat (b :: u8) div 16 < 16" "unat b mod 16 < 16"
  using less_mult_imp_div_less [of "unat b" 16 16] by simp_all

lemma hex_u8_hex_byte: "hex_u8 (hex_byte b) = Some b"
proof -
  have "from_str_radix 16 256 (hex_byte b) = Some (unat b div 16 * 16 + unat b mod 16)"
    using nibbles [of b]
    by (auto simp: from_str_radix_def hex_byte_def hex_digit_props to_digit_hex_digit)
  then show ?thesis
    by (simp add: hex_u8_def byte_of_def)
qed

lemma hex_pairs_hex_string: "hex_pairs (hex_string bs) = Some bs"
proof (induction bs)
  case (Cons b bs)
  then show ?case
    using hex_u8_hex_byte [of b] by (simp add: hex_string_def hex_byte_def)
qed (simp add: hex_string_def)

lemma length_hex_string [simp]: "length (hex_string bs) = 2 * length bs"
  by (induction bs) (auto simp: hex_string_def hex_byte_def)

lemma is_ascii_hex_string: "is_ascii (hex_string bs)"
proof (induction bs)
  case (Cons b bs)
  then show ?case
    using nibbles [of b] by (auto simp: is_ascii_def hex_string_def hex_byte_def hex_digit_props)
qed (simp add: is_ascii_def hex_string_def)

lemma hex_pairs_length: "hex_pairs cs = Some bs \<Longrightarrow> length cs = 2 * length bs"
  by (induction cs arbitrary: bs rule: hex_pairs.induct) (auto simp: bind_Some_iff)

lemma trim_hex_string: "trim (hex_string bs) = hex_string bs"
proof (cases bs rule: rev_cases)
  case (snoc cs b)
  have ws: "n < 16 \<Longrightarrow> \<not> is_whitespace (hex_digit n)" for n
    by (auto simp: hex_digit_def is_whitespace_def)
  have "\<not> is_whitespace (last (hex_string bs))"
    using snoc ws nibbles by (simp add: hex_string_def hex_byte_def)
  moreover have "\<not> is_whitespace (hd (hex_string bs))"
    using snoc ws nibbles by (cases cs) (auto simp: hex_string_def hex_byte_def)
  ultimately show ?thesis
    by (simp add: trim_def trim_start_noop trim_end_noop)
qed (simp add: hex_string_def trim_def trim_start_def trim_end_def)

end
