(* ===== verification/Wire.thy ===== *)
theory Wire
  imports Rust_Text
begin

text \<open>
  The serialization layer below the protocol types. The crate \<open>postcard\<close> is not part of the
  repository: its primitive encoders and decoders are the fields of the record \<open>postcard\<close>, a
  parameter of everything that encodes or decodes, and what the sources rely on is the locale
  \<open>postcard_wire\<close>: each primitive decoder undoes its encoder and leaves the following bytes
  alone, and the encodings have the lengths of postcard's documented wire format (one byte for
  \<open>u8\<close>, \<open>bool\<close> and the option tag, base-128 varints for the wider integers, lengths and enum
  indices). Structs and tuples are the concatenation of their fields, as that format fixes.
  The theory also holds the two helpers of the protocol crate through which every manual Serde
  implementation goes, \<open>serialize_tagged\<close> and \<open>required\<close>, and it ends with the varint codec of
  the documented format, an instance of the locale.
\<close>

section \<open>The interface of a codec\<close>

type_synonym 'a encoder = "'a \<Rightarrow> bytes"
type_synonym 'a decoder = "bytes \<Rightarrow> ('a \<times> bytes) option"

text \<open>
  \<open>valid\<close> says which values the encoder is meant for: the fixed array lengths and collection
  limits that Rust's types and the bounded deserializers enforce.
\<close>

locale codec =
  fixes ser :: "'a encoder" and take_v :: "'a decoder" and valid :: "'a \<Rightarrow> bool"
  assumes take_ser: "valid v \<Longrightarrow> take_v (ser v @ rest) = Some (v, rest)"
    and take_valid: "take_v bs = Some (v, rest) \<Longrightarrow> valid v"
begin

lemma take_ser_all: "valid v \<Longrightarrow> take_v (ser v) = Some (v, [])"
  using take_ser [of v "[]"] by simp

lemma ser_prefix_free:
  assumes "valid v" "valid w" "ser v @ xs = ser w @ ys"
  shows "v = w \<and> xs = ys"
  using take_ser [OF assms(1), of xs] take_ser [OF assms(2), of ys] unfolding assms(3) by simp

lemma ser_inject: "valid v \<Longrightarrow> valid w \<Longrightarrow> ser v = ser w \<longleftrightarrow> v = w"
  using ser_prefix_free [of v w "[]" "[]"] by auto

end

section \<open>Postcard's primitives as parameters\<close>

record postcard =
  pc_u8 :: "u8 encoder"
  pc_take_u8 :: "u8 decoder"
  pc_u16 :: "u16 encoder"
  pc_take_u16 :: "u16 decoder"
  pc_u64 :: "u64 encoder"
  pc_take_u64 :: "u64 decoder"
  pc_bool :: "bool encoder"
  pc_take_bool :: "bool decoder"
  pc_variant :: "nat encoder" \<comment> \<open>index of a unit variant of a derived enum\<close>
  pc_take_variant :: "nat decoder"
  pc_len :: "nat encoder" \<comment> \<open>length prefix of a sequence or string\<close>
  pc_take_len :: "nat decoder"
  pc_opt :: "bool encoder" \<comment> \<open>option tag: False for None, True for Some\<close>
  pc_take_opt :: "bool decoder"
  pc_size_hint :: "nat \<Rightarrow> nat option" \<comment> \<open>the sequence access's hint for a declared length\<close>

text \<open>The number of base-128 digits of a number, the length of its varint.\<close>

fun varint_len :: "nat \<Rightarrow> nat" where
  "varint_len n = (if n < 128 then 1 else Suc (varint_len (n div 128)))"

declare varint_len.simps [simp del]

abbreviation usize_range :: "nat \<Rightarrow> bool" where
  "usize_range n \<equiv> n < 18446744073709551616"

abbreviation u32_range :: "nat \<Rightarrow> bool" where
  "u32_range n \<equiv> n < 4294967296"

locale postcard_wire =
  u8: codec "pc_u8 pc" "pc_take_u8 pc" "\<lambda>_. True"
  + u16: codec "pc_u16 pc" "pc_take_u16 pc" "\<lambda>_. True"
  + u64: codec "pc_u64 pc" "pc_take_u64 pc" "\<lambda>_. True"
  + bool: codec "pc_bool pc" "pc_take_bool pc" "\<lambda>_. True"
  + variant: codec "pc_variant pc" "pc_take_variant pc" u32_range
  + len: codec "pc_len pc" "pc_take_len pc" usize_range
  + opt: codec "pc_opt pc" "pc_take_opt pc" "\<lambda>_. True"
  for pc :: postcard +
  assumes size_u8: "length (pc_u8 pc b) = 1"
    and size_u16: "length (pc_u16 pc v16) = varint_len (unat v16)"
    and size_u64: "length (pc_u64 pc v64) = varint_len (unat v64)"
    and size_bool: "length (pc_bool pc t) = 1"
    and size_variant: "length (pc_variant pc n) = varint_len n"
    and size_len: "length (pc_len pc n) = varint_len n"
    and size_opt: "length (pc_opt pc t) = 1"
    and size_hint_exact: "pc_size_hint pc n = Some m \<Longrightarrow> m = n"

section \<open>Sequences, arrays, strings and options\<close>

text \<open>A fixed array \<open>[u8; N]\<close> is a tuple of \<open>N\<close> bytes: no length prefix.\<close>

definition ser_array :: "postcard \<Rightarrow> bytes encoder" where
  "ser_array pc bs = concat (map (pc_u8 pc) bs)"

fun take_array :: "postcard \<Rightarrow> nat \<Rightarrow> bytes decoder" where
  "take_array pc 0 bs = Some ([], bs)"
| "take_array pc (Suc n) bs =
     do { (b, bs) \<leftarrow> pc_take_u8 pc bs;
          (xs, bs) \<leftarrow> take_array pc n bs;
          Some (b # xs, bs) }"

definition ser_seq :: "postcard \<Rightarrow> 'a encoder \<Rightarrow> 'a list encoder" where
  "ser_seq pc ser xs = pc_len pc (length xs) @ concat (map ser xs)"

definition ser_vec_u8 :: "postcard \<Rightarrow> bytes encoder" where
  "ser_vec_u8 pc bs = ser_seq pc (pc_u8 pc) bs"

definition ser_str :: "postcard \<Rightarrow> rstr encoder" where
  "ser_str pc s = pc_len pc (str_len s) @ utf8_encode s"

text \<open>A borrowed \<open>&str\<close>: the declared number of bytes, which must be present and be UTF-8.\<close>

definition take_str :: "postcard \<Rightarrow> rstr decoder" where
  "take_str pc bs =
     do { (n, bs) \<leftarrow> pc_take_len pc bs;
          if n \<le> length bs
          then do { s \<leftarrow> utf8_decode (take n bs); Some (s, drop n bs) }
          else None }"

definition ser_option :: "postcard \<Rightarrow> 'a encoder \<Rightarrow> 'a option encoder" where
  "ser_option pc ser v =
     (case v of None \<Rightarrow> pc_opt pc False | Some x \<Rightarrow> pc_opt pc True @ ser x)"

definition take_option :: "postcard \<Rightarrow> 'a decoder \<Rightarrow> 'a option decoder" where
  "take_option pc d bs =
     do { (present, bs) \<leftarrow> pc_take_opt pc bs;
          if present then do { (x, bs) \<leftarrow> d bs; Some (Some x, bs) } else Some (None, bs) }"

section \<open>The tagged-tuple helpers of the protocol crate\<close>

text \<open>
  \<open>serialize_tagged\<close> writes the tag and the tuple of fields. \<open>deserialize_tuple(n, visitor)\<close>
  gives the visitor a sequence access of at most \<open>n\<close> elements; \<open>required\<close> takes the next one
  and fails when the access is exhausted.
\<close>

type_synonym seq_access = "nat \<times> bytes"

definition serialize_tagged :: "postcard \<Rightarrow> u8 \<Rightarrow> bytes \<Rightarrow> bytes" where
  "serialize_tagged pc tag fs = pc_u8 pc tag @ fs"

fun required :: "'a decoder \<Rightarrow> seq_access \<Rightarrow> ('a \<times> seq_access) option" where
  "required d (0, bs) = None"
| "required d (Suc n, bs) = do { (v, bs) \<leftarrow> d bs; Some (v, (n, bs)) }"

text \<open>The value a visitor returns leaves the rest of the input to whatever follows the tuple.\<close>

definition visited :: "'a \<Rightarrow> seq_access \<Rightarrow> ('a \<times> bytes) option" where
  "visited v acc = Some (v, snd acc)"

lemma required_numeral [simp]:
  "required d (numeral k, bs) = do { (v, bs) \<leftarrow> d bs; Some (v, (pred_numeral k, bs)) }"
  by (simp add: numeral_eq_Suc)

lemma required_one [simp]: "required d (1, bs) = do { (v, bs) \<leftarrow> d bs; Some (v, (0, bs)) }"
  using required.simps(2) [of d 0 bs] by simp

lemma required_Some_iff:
  "required d acc = Some (v, acc') \<longleftrightarrow>
     (\<exists>n bs bs'. acc = (Suc n, bs) \<and> d bs = Some (v, bs') \<and> acc' = (n, bs'))"
  by (cases acc; cases "fst acc") (auto simp: bind_Some_iff)

text \<open>Decoder laws of the protocol types, collected for the round-trip and validity proofs.\<close>

named_theorems roundtrip \<open>a decoder applied to its encoder's output\<close>
named_theorems decoded \<open>what a successful decoder says of the value\<close>

lemmas decode_iffs = bind_Some_iff visited_def required_Some_iff split_beta

context postcard_wire
begin

lemmas primitive_roundtrip [roundtrip] =
  u8.take_ser [OF TrueI] u16.take_ser [OF TrueI] u64.take_ser [OF TrueI] bool.take_ser [OF TrueI]
  variant.take_ser len.take_ser opt.take_ser [OF TrueI]

lemmas primitive_sizes = size_u8 size_u16 size_u64 size_bool size_variant size_len size_opt

lemma array_roundtrip [roundtrip]:
  "length xs = n \<Longrightarrow> take_array pc n (ser_array pc xs @ rest) = Some (xs, rest)"
proof (induction xs arbitrary: n)
  case (Cons x xs)
  then show ?case
    by (cases n) (auto simp: ser_array_def primitive_roundtrip)
qed (simp add: ser_array_def)

lemma array_length [decoded]: "take_array pc n bs = Some (xs, rest) \<Longrightarrow> length xs = n"
  by (induction n arbitrary: bs xs) (auto simp: bind_Some_iff)

lemma array_codec: "codec (ser_array pc) (take_array pc n) (\<lambda>xs. length xs = n)"
  by unfold_locales (auto intro: array_roundtrip dest: array_length)

lemma str_roundtrip [roundtrip]:
  "valid_str s \<Longrightarrow> usize_range (str_len s) \<Longrightarrow> take_str pc (ser_str pc s @ rest) = Some (s, rest)"
  by (simp add: ser_str_def take_str_def primitive_roundtrip str_len_def utf8_roundtrip)

lemma str_valid [decoded]: "take_str pc bs = Some (s, rest) \<Longrightarrow> valid_str s"
  by (auto simp: take_str_def bind_Some_iff split: if_splits dest: utf8_decode_valid)

lemma option_roundtrip [roundtrip]:
  "(\<And>x. v = Some x \<Longrightarrow> d (ser x @ rest) = Some (x, rest)) \<Longrightarrow>
   take_option pc d (ser_option pc ser v @ rest) = Some (v, rest)"
  by (cases v) (auto simp: ser_option_def take_option_def primitive_roundtrip)

lemma option_valid [decoded]:
  "take_option pc d bs = Some (Some x, rest) \<Longrightarrow> \<exists>bs'. d bs' = Some (x, rest)"
  by (auto simp: take_option_def bind_Some_iff split: if_splits)

lemma size_array: "length (ser_array pc xs) = length xs"
  by (induction xs) (auto simp: ser_array_def size_u8)

lemma size_vec_u8: "length (ser_vec_u8 pc xs) = varint_len (length xs) + length xs"
  using size_array [of xs] by (simp add: ser_vec_u8_def ser_seq_def size_len ser_array_def)

lemma size_str: "length (ser_str pc s) = varint_len (str_len s) + str_len s"
  by (simp add: ser_str_def size_len str_len_def)

lemma size_seq:
  "length (ser_seq pc ser xs) = varint_len (length xs) + sum_list (map (length \<circ> ser) xs)"
  by (simp add: ser_seq_def size_len length_concat)

end

section \<open>Bounds on varint lengths\<close>

lemma varint_len_pos: "0 < varint_len n"
  by (subst varint_len.simps) simp

lemma varint_len_le: "n < 128 ^ Suc k \<Longrightarrow> varint_len n \<le> Suc k"
proof (induction k arbitrary: n)
  case 0
  then show ?case by (subst varint_len.simps) simp
next
  case (Suc k)
  then have "n div 128 < 128 ^ Suc k"
    by (simp add: less_mult_imp_div_less mult.commute)
  then have "varint_len (n div 128) \<le> Suc k" by (rule Suc.IH)
  then show ?case by (subst varint_len.simps) simp
qed

lemma varint_len_bounds:
  "n < 128 \<Longrightarrow> varint_len n = 1"
  "n < 16384 \<Longrightarrow> varint_len n \<le> 2"
  "n < 2097152 \<Longrightarrow> varint_len n \<le> 3"
  "n < 9223372036854775808 \<Longrightarrow> varint_len n \<le> 9"
  "usize_range n \<Longrightarrow> varint_len n \<le> 10"
  using varint_len_le [of n 1] varint_len_le [of n 2] varint_len_le [of n 8] varint_len_le [of n 9]
  by (simp_all add: varint_len.simps)

section \<open>The documented wire format as an instance\<close>

text \<open>
  The varint codec of postcard's published format: seven bits per byte, least significant first,
  the top bit set on every byte but the last; a decoder reads at most the bytes its type can
  need and refuses a value out of the type's range.
\<close>

fun varint :: "nat \<Rightarrow> bytes" where
  "varint n = (if n < 128 then [byte_of n] else byte_of (128 + n mod 128) # varint (n div 128))"

declare varint.simps [simp del]

fun take_varint :: "nat \<Rightarrow> nat decoder" where
  "take_varint 0 bs = None"
| "take_varint (Suc k) [] = None"
| "take_varint (Suc k) (b # bs) =
     (if unat b < 128 then Some (unat b, bs)
      else do { (n, bs) \<leftarrow> take_varint k bs; Some (unat b - 128 + 128 * n, bs) })"

lemma take_varint_numeral [simp]:
  "take_varint (numeral k) [] = None"
  "take_varint (numeral k) (b # bs) =
     (if unat b < 128 then Some (unat b, bs)
      else do { (n, bs) \<leftarrow> take_varint (pred_numeral k) bs; Some (unat b - 128 + 128 * n, bs) })"
  by (simp_all add: numeral_eq_Suc)

definition take_below :: "nat \<Rightarrow> nat \<Rightarrow> nat decoder" where
  "take_below k bound bs =
     do { (n, bs) \<leftarrow> take_varint k bs; if n < bound then Some (n, bs) else None }"

fun take_flag :: "bool decoder" where
  "take_flag [] = None"
| "take_flag (b # bs) = (if b = 0 then Some (False, bs) else if b = 1 then Some (True, bs) else None)"

fun take_byte :: "u8 decoder" where
  "take_byte [] = None"
| "take_byte (b # bs) = Some (b, bs)"

definition postcard_v1 :: postcard where
  "postcard_v1 = \<lparr>
     pc_u8 = (\<lambda>b. [b]), pc_take_u8 = take_byte,
     pc_u16 = (\<lambda>v. varint (unat v)),
     pc_take_u16 = (\<lambda>bs. map_option (apfst of_nat) (take_below 3 65536 bs)),
     pc_u64 = (\<lambda>v. varint (unat v)),
     pc_take_u64 = (\<lambda>bs. map_option (apfst of_nat) (take_below 10 18446744073709551616 bs)),
     pc_bool = (\<lambda>t. [if t then 1 else 0]), pc_take_bool = take_flag,
     pc_variant = varint, pc_take_variant = take_below 5 4294967296,
     pc_len = varint, pc_take_len = take_below 10 18446744073709551616,
     pc_opt = (\<lambda>t. [if t then 1 else 0]), pc_take_opt = take_flag,
     pc_size_hint = Some \<rparr>"

lemma length_varint: "length (varint n) = varint_len n"
proof (induction n rule: varint.induct)
  case (1 n)
  then show ?case
    by (subst varint.simps, subst varint_len.simps) auto
qed

lemma take_varint_varint:
  "n < 128 ^ Suc k \<Longrightarrow> take_varint (Suc k) (varint n @ rest) = Some (n, rest)"
proof (induction n arbitrary: k rule: varint.induct)
  case (1 n)
  show ?case
  proof (cases "n < 128")
    case True
    then show ?thesis by (subst varint.simps) (simp add: unat_byte_of)
  next
    case False
    with "1.prems" obtain m where k: "k = Suc m" by (cases k) auto
    with "1.prems" have "n div 128 < 128 ^ Suc m"
      by (simp add: less_mult_imp_div_less mult.commute)
    then have "take_varint (Suc m) (varint (n div 128) @ rest) = Some (n div 128, rest)"
      using False "1.IH" by blast
    with False show ?thesis
      by (subst varint.simps) (simp add: k unat_byte_of)
  qed
qed

lemma take_below_varint:
  "n < bound \<Longrightarrow> bound \<le> 128 ^ k \<Longrightarrow> 0 < k \<Longrightarrow> take_below k bound (varint n @ rest) = Some (n, rest)"
  by (cases k) (auto simp: take_below_def take_varint_varint simp del: take_varint.simps)

lemma take_below_less: "take_below k bound bs = Some (n, rest) \<Longrightarrow> n < bound"
  by (auto simp: take_below_def bind_Some_iff split: if_splits)

interpretation postcard_v1: postcard_wire postcard_v1
  by unfold_locales
    (auto simp: postcard_v1_def take_below_varint length_varint dest: take_below_less)

end
