(* ===== verification/Protocol_Ids.thy ===== *)
theory Protocol_Ids
  imports Wire
begin

text \<open>
  The first half of \<open>grotto-protocol/src/lib.rs\<close>: identifiers and fixed byte arrays, their text
  forms, room names, the authentication transcript and certificate fingerprints. SHA-256 comes
  from the crate \<open>sha2\<close> and is a parameter; where its digest length matters it is a hypothesis.
\<close>

unbundle bit_operations_syntax

section \<open>Constants\<close>

definition MAX_FRAME_SIZE :: u32 where
  "MAX_FRAME_SIZE = 1024 * 1024"

definition MAX_ROOM_NAME_CHARS :: nat where
  "MAX_ROOM_NAME_CHARS = 100"

definition MAX_KEY_PACKAGE_BYTES :: nat where
  "MAX_KEY_PACKAGE_BYTES = 16 * 1024"

definition MAX_MLS_BLOB_BYTES :: nat where
  "MAX_MLS_BLOB_BYTES = 512 * 1024"

definition PROTOCOL_VERSION :: u16 where
  "PROTOCOL_VERSION = 9"

definition AUTHENTICATION_DOMAIN :: bytes where
  "AUTHENTICATION_DOMAIN = map of_char ''GROTTO-AUTH-V1''"

definition AUTHENTICATION_TRANSCRIPT_LENGTH :: nat where
  "AUTHENTICATION_TRANSCRIPT_LENGTH = 14 + 2 + 16 + 32 + 32"

section \<open>Identifiers and keys\<close>

datatype UserId = UserId (UserId_to_bytes: bytes)
datatype RoomId = RoomId (RoomId_to_bytes: bytes)
datatype MessageId = MessageId (MessageId_to_bytes: bytes)
datatype Ed25519PublicKeyBytes = Ed25519PublicKeyBytes (public_key_bytes: bytes)
datatype AuthenticationChallenge = AuthenticationChallenge (challenge_bytes: bytes)
datatype Ed25519SignatureBytes = Ed25519SignatureBytes (signature_bytes: bytes)

datatype ParseIdError = ParseId_InvalidLength | ParseId_InvalidHex

text \<open>The array lengths Rust's types fix.\<close>

definition wf_user :: "UserId \<Rightarrow> bool" where
  "wf_user u \<longleftrightarrow> length (UserId_to_bytes u) = 16"

definition wf_room :: "RoomId \<Rightarrow> bool" where
  "wf_room r \<longleftrightarrow> length (RoomId_to_bytes r) = 16"

definition wf_message :: "MessageId \<Rightarrow> bool" where
  "wf_message m \<longleftrightarrow> length (MessageId_to_bytes m) = 16"

definition wf_public_key :: "Ed25519PublicKeyBytes \<Rightarrow> bool" where
  "wf_public_key k \<longleftrightarrow> length (public_key_bytes k) = 32"

definition wf_challenge :: "AuthenticationChallenge \<Rightarrow> bool" where
  "wf_challenge c \<longleftrightarrow> length (challenge_bytes c) = 32"

definition wf_signature :: "Ed25519SignatureBytes \<Rightarrow> bool" where
  "wf_signature s \<longleftrightarrow> length (signature_bytes s) = 64"

lemmas wf_ids = wf_user_def wf_room_def wf_message_def wf_public_key_def wf_challenge_def
  wf_signature_def

text \<open>
  The macro \<open>impl_id\<close>: \<open>Display\<close> prints each byte as two lower-case digits, \<open>FromStr\<close> checks the
  length and that the text is ASCII, then reads byte \<open>i\<close> from characters \<open>2i\<close> and \<open>2i + 1\<close>. It is
  generic in the identifier, here in its constructor.
\<close>

definition id_fmt :: "bytes \<Rightarrow> rstr" where
  "id_fmt bs = hex_string bs"

definition id_from_str :: "(bytes \<Rightarrow> 'id) \<Rightarrow> rstr \<Rightarrow> ParseIdError + 'id" where
  "id_from_str from_bytes value =
     (if str_len value \<noteq> 32 \<or> \<not> is_ascii value then Inl ParseId_InvalidLength
      else case hex_pairs value of
             None \<Rightarrow> Inl ParseId_InvalidHex
           | Some bs \<Rightarrow> Inr (from_bytes bs))"

section \<open>Room names\<close>

datatype RoomNameError = Empty | TooLong | ControlCharacter

definition normalize_room_name :: "rstr \<Rightarrow> RoomNameError + rstr" where
  "normalize_room_name name =
     (let normalized = trim name in
      if normalized = [] then Inl Empty
      else if length normalized > MAX_ROOM_NAME_CHARS then Inl TooLong
      else if list_ex is_control normalized then Inl ControlCharacter
      else Inr normalized)"

section \<open>The authentication transcript\<close>

text \<open>
  The loop of \<open>authentication_transcript\<close>: each field is copied into the zeroed array at the
  running offset.
\<close>

definition copy_field :: "bytes \<times> nat \<Rightarrow> bytes \<Rightarrow> bytes \<times> nat" where
  "copy_field st f =
     (let (transcript, offset) = st; stop = offset + length f
      in (take offset transcript @ f @ drop stop transcript, stop))"

definition authentication_transcript ::
  "u16 \<Rightarrow> UserId \<Rightarrow> Ed25519PublicKeyBytes \<Rightarrow> AuthenticationChallenge \<Rightarrow> bytes" where
  "authentication_transcript version user_id public_key challenge =
     fst (foldl copy_field (replicate AUTHENTICATION_TRANSCRIPT_LENGTH 0, 0)
       [AUTHENTICATION_DOMAIN, u16_to_be_bytes version, UserId_to_bytes user_id,
        public_key_bytes public_key, challenge_bytes challenge])"

section \<open>Fingerprints\<close>

definition hex_nibble :: "u8 \<Rightarrow> rchar" where
  "hex_nibble value = unat (if value \<le> 9 then 0x30 + value else 0x61 + (value - 10))"

definition cert_fingerprint_sha256_hex :: "(bytes \<Rightarrow> bytes) \<Rightarrow> bytes \<Rightarrow> rstr" where
  "cert_fingerprint_sha256_hex sha256 cert_der =
     concat (map (\<lambda>byte. [hex_nibble (drop_bit 4 byte), hex_nibble (byte AND 0x0f)])
       (sha256 cert_der))"

datatype ParseFingerprintError = Fingerprint_InvalidLength | Fingerprint_InvalidHex

definition parse_fingerprint_hex :: "rstr \<Rightarrow> ParseFingerprintError + bytes" where
  "parse_fingerprint_hex text =
     (let encoded = trim text in
      if str_len encoded \<noteq> 64 \<or> \<not> is_ascii encoded then Inl Fingerprint_InvalidLength
      else case hex_pairs encoded of
             None \<Rightarrow> Inl Fingerprint_InvalidHex
           | Some bs \<Rightarrow> Inr bs)"

section \<open>Text forms of identifiers\<close>

lemma id_from_str_fmt:
  assumes "length bs = 16"
  shows "id_from_str mk (id_fmt bs) = Inr (mk bs)"
  using assms is_ascii_hex_string [of bs]
  by (simp add: id_from_str_def id_fmt_def is_ascii_utf8 hex_pairs_hex_string)

lemma id_from_str_wf:
  assumes "id_from_str mk s = Inr v"
  obtains bs where "v = mk bs" "length bs = 16"
proof -
  from assms obtain bs where bs: "hex_pairs s = Some bs" "v = mk bs" "is_ascii s" "str_len s = 32"
    by (auto simp: id_from_str_def split: if_splits option.splits)
  then have "length s = 32" by (simp add: is_ascii_utf8)
  with hex_pairs_length [OF bs(1)] bs(2) that show thesis by simp
qed

section \<open>Properties of room names\<close>

lemma normalize_room_name_Inr:
  "normalize_room_name s = Inr n \<longleftrightarrow>
     n = trim s \<and> n \<noteq> [] \<and> length n \<le> 100 \<and> \<not> list_ex is_control n"
  by (auto simp: normalize_room_name_def Let_def MAX_ROOM_NAME_CHARS_def)

lemma normalize_room_name_valid:
  assumes "normalize_room_name s = Inr n" "valid_str s"
  shows "valid_str n" "str_len n \<le> 400"
  using assms str_len_le [of n] valid_str_trim [of s]
  by (auto simp: normalize_room_name_Inr)

section \<open>Properties of the transcript and of fingerprints\<close>

lemma length_AUTHENTICATION_DOMAIN [simp]: "length AUTHENTICATION_DOMAIN = 14"
  by (simp add: AUTHENTICATION_DOMAIN_def)

lemma authentication_transcript_eq:
  assumes "wf_user u" "wf_public_key k" "wf_challenge c"
  shows "authentication_transcript v u k c =
    AUTHENTICATION_DOMAIN @ u16_to_be_bytes v @ UserId_to_bytes u @ public_key_bytes k
    @ challenge_bytes c"
  using assms
  by (simp add: authentication_transcript_def AUTHENTICATION_TRANSCRIPT_LENGTH_def wf_ids
      copy_field_def)

lemma hex_nibble_hex_digit: "value < 16 \<Longrightarrow> hex_nibble value = hex_digit (unat value)"
  by (auto simp: hex_nibble_def hex_digit_def word_le_nat_alt word_less_nat_alt unat_word_ariths
      unat_sub_if')

lemma fingerprint_eq_hex_string:
  "cert_fingerprint_sha256_hex sha256 cert = hex_string (sha256 cert)"
proof -
  have "[hex_nibble (drop_bit 4 byte), hex_nibble (byte AND 0x0f)] = hex_byte byte" for byte :: u8
  proof -
    have "unat (drop_bit 4 byte) = unat byte div 16"
      by (simp add: drop_bit_eq_div unat_div)
    moreover have "unat (byte AND 0x0f) = unat byte mod 16"
      using take_bit_eq_mask [of 4 byte, symmetric]
      by (simp add: mask_eq_exp_minus_1 take_bit_eq_mod unat_mod)
    ultimately show ?thesis
      using nibbles [of byte] by (simp add: hex_byte_def hex_nibble_hex_digit word_less_nat_alt)
  qed
  then show ?thesis
    by (simp add: cert_fingerprint_sha256_hex_def hex_string_def)
qed

lemma parse_fingerprint_of_digest:
  assumes "length (sha256 cert) = 32"
  shows "parse_fingerprint_hex (cert_fingerprint_sha256_hex sha256 cert) = Inr (sha256 cert)"
  using assms is_ascii_hex_string [of "sha256 cert"]
  by (simp add: parse_fingerprint_hex_def fingerprint_eq_hex_string trim_hex_string
      is_ascii_utf8 hex_pairs_hex_string)

lemma parse_fingerprint_length: "parse_fingerprint_hex s = Inr bs \<Longrightarrow> length bs = 32"
  using hex_pairs_length [of "trim s" bs]
  by (auto simp: parse_fingerprint_hex_def Let_def is_ascii_utf8 split: if_splits option.splits)

section \<open>Serde for the fixed arrays\<close>

text \<open>The newtype structs derive their serialization: the array alone.\<close>

definition ser_user :: "postcard \<Rightarrow> UserId encoder" where
  "ser_user pc u = ser_array pc (UserId_to_bytes u)"

definition take_user :: "postcard \<Rightarrow> UserId decoder" where
  "take_user pc bs = do { (xs, bs) \<leftarrow> take_array pc 16 bs; Some (UserId xs, bs) }"

definition ser_room :: "postcard \<Rightarrow> RoomId encoder" where
  "ser_room pc r = ser_array pc (RoomId_to_bytes r)"

definition take_room :: "postcard \<Rightarrow> RoomId decoder" where
  "take_room pc bs = do { (xs, bs) \<leftarrow> take_array pc 16 bs; Some (RoomId xs, bs) }"

definition ser_message :: "postcard \<Rightarrow> MessageId encoder" where
  "ser_message pc m = ser_array pc (MessageId_to_bytes m)"

definition take_message :: "postcard \<Rightarrow> MessageId decoder" where
  "take_message pc bs = do { (xs, bs) \<leftarrow> take_array pc 16 bs; Some (MessageId xs, bs) }"

definition ser_public_key :: "postcard \<Rightarrow> Ed25519PublicKeyBytes encoder" where
  "ser_public_key pc k = ser_array pc (public_key_bytes k)"

definition take_public_key :: "postcard \<Rightarrow> Ed25519PublicKeyBytes decoder" where
  "take_public_key pc bs =
     do { (xs, bs) \<leftarrow> take_array pc 32 bs; Some (Ed25519PublicKeyBytes xs, bs) }"

definition ser_challenge :: "postcard \<Rightarrow> AuthenticationChallenge encoder" where
  "ser_challenge pc c = ser_array pc (challenge_bytes c)"

definition take_challenge :: "postcard \<Rightarrow> AuthenticationChallenge decoder" where
  "take_challenge pc bs =
     do { (xs, bs) \<leftarrow> take_array pc 32 bs; Some (AuthenticationChallenge xs, bs) }"

definition ser_signature :: "postcard \<Rightarrow> Ed25519SignatureBytes encoder" where
  "ser_signature pc s = ser_array pc (signature_bytes s)"

definition take_signature :: "postcard \<Rightarrow> Ed25519SignatureBytes decoder" where
  "take_signature pc bs =
     do { (xs, bs) \<leftarrow> take_array pc 64 bs; Some (Ed25519SignatureBytes xs, bs) }"

lemmas ser_ids = ser_user_def ser_room_def ser_message_def ser_public_key_def ser_challenge_def
  ser_signature_def

lemmas take_ids = take_user_def take_room_def take_message_def take_public_key_def
  take_challenge_def take_signature_def

context postcard_wire
begin

lemma ids_roundtrip [roundtrip]:
  "wf_user u \<Longrightarrow> take_user pc (ser_user pc u @ rest) = Some (u, rest)"
  "wf_room r \<Longrightarrow> take_room pc (ser_room pc r @ rest) = Some (r, rest)"
  "wf_message m \<Longrightarrow> take_message pc (ser_message pc m @ rest) = Some (m, rest)"
  "wf_public_key k \<Longrightarrow> take_public_key pc (ser_public_key pc k @ rest) = Some (k, rest)"
  "wf_challenge c \<Longrightarrow> take_challenge pc (ser_challenge pc c @ rest) = Some (c, rest)"
  "wf_signature s \<Longrightarrow> take_signature pc (ser_signature pc s @ rest) = Some (s, rest)"
  by (simp_all add: ser_ids take_ids wf_ids array_roundtrip)

lemma ids_decoded [decoded]:
  "take_user pc bs = Some (u, rest) \<Longrightarrow> wf_user u"
  "take_room pc bs = Some (r, rest) \<Longrightarrow> wf_room r"
  "take_message pc bs = Some (m, rest) \<Longrightarrow> wf_message m"
  "take_public_key pc bs = Some (k, rest) \<Longrightarrow> wf_public_key k"
  "take_challenge pc bs = Some (c, rest) \<Longrightarrow> wf_challenge c"
  "take_signature pc bs = Some (s, rest) \<Longrightarrow> wf_signature s"
  by (auto simp: take_ids wf_ids bind_Some_iff dest: array_length)

lemma size_ids:
  "wf_user u \<Longrightarrow> length (ser_user pc u) = 16"
  "wf_room r \<Longrightarrow> length (ser_room pc r) = 16"
  "wf_message m \<Longrightarrow> length (ser_message pc m) = 16"
  "wf_signature s \<Longrightarrow> length (ser_signature pc s) = 64"
  by (simp_all add: ser_ids wf_ids size_array)

end

end
