(* ===== verification/Protocol_Delivery.thy ===== *)
theory Protocol_Delivery
  imports Protocol_Ids
begin

text \<open>
  \<open>grotto-protocol/src/delivery.rs\<close>: the V9 delivery records, the requests and responses of the
  relay with their explicitly tagged encodings and bounded decoders, and the byte strings that
  are hashed or signed. \<open>encode_message\<close> and \<open>decode_message\<close> of the crate root are here
  because the request hash needs them. The results: every decoder undoes its encoder on vals
  within the wire limits, whatever a decoder accepts is within them, and bounds on the encoded
  lengths.
\<close>

section \<open>Records\<close>

definition MAX_PAYLOAD :: nat where
  "MAX_PAYLOAD = 768 * 1024"

definition PAGE_SIZE :: nat where
  "PAGE_SIZE = 100"

datatype MlsContentType = Application | Proposal | Commit

record WelcomeAttachment =
  wa_recipient :: UserId
  wa_body :: bytes
  wa_signature :: Ed25519SignatureBytes

record Append =
  ap_room :: RoomId
  ap_parent :: u64
  ap_epoch :: u64
  ap_content_type :: MlsContentType
  ap_body :: bytes
  ap_welcome :: "WelcomeAttachment option"

record Event =
  ev_id :: MessageId
  ev_sender :: UserId
  ev_operation :: Append

record WelcomeDelivery =
  wd_room_name :: rstr
  wd_cursor :: u64
  wd_event :: MessageId
  wd_room :: RoomId
  wd_sequence :: u64
  wd_inviter :: UserId
  wd_attachment :: WelcomeAttachment

record RoomHead =
  rh_room :: RoomId
  rh_name :: rstr
  rh_sequence :: u64

definition event_sequence :: "Event \<Rightarrow> u64 option" where
  "event_sequence e = checked_add (ap_parent (ev_operation e)) 1"

datatype Request =
    CreateRoom rstr
  | PublishKeyPackages "bytes list"
  | Acknowledge "MessageId list" "u64 list"
  | AppendRoomOperation Append
  | FetchRoomEvents RoomId u64
  | SyncIndex "RoomId option"
  | FetchWelcomes u64
  | ReserveKeyPackage UserId
  | SetFetchGrant UserId bool

datatype Rejection =
  Invalid | Unauthorized | NotFound | RequestConflict | Overloaded | Quota | Internal

datatype Response =
    RoomCreated RoomId
  | KeyPackagesPublished u64
  | Acknowledged
  | AppendAccepted Event
  | HeadConflict RoomId u64
  | RoomEvents RoomId u64 "Event list" bool
  | SyncIndexPage "RoomHead list" bool
  | Welcomes u64 "WelcomeDelivery list" bool
  | KeyPackage UserId bytes
  | FetchGrantSet
  | Rejected Rejection

section \<open>Encoding and decoding a whole message\<close>

datatype postcard_error = SerializeBufferFull

definition encode_message :: "'a encoder \<Rightarrow> 'a \<Rightarrow> postcard_error + bytes" where
  "encode_message ser message =
     (let sz = length (ser message)
      in if sz > MAX_PAYLOAD then Inl SerializeBufferFull else Inr (ser message))"

datatype DecodeMessageError = PayloadLimit | Postcard | TrailingBytes

definition decode_message :: "'a decoder \<Rightarrow> bytes \<Rightarrow> DecodeMessageError + 'a" where
  "decode_message d bs =
     (if length bs > MAX_PAYLOAD then Inl PayloadLimit
      else case d bs of
             None \<Rightarrow> Inl Postcard
           | Some (message, remaining) \<Rightarrow>
               if remaining \<noteq> [] then Inl TrailingBytes else Inr message)"

section \<open>Hashed and signed byte strings\<close>

definition event_authenticated_data :: "RoomId \<Rightarrow> MessageId \<Rightarrow> u64 \<Rightarrow> bytes" where
  "event_authenticated_data room event parent =
     concat [map of_char ''GROTTO-EVENT-V9'' @ [0], RoomId_to_bytes room, MessageId_to_bytes event,
       u64_to_be_bytes parent]"

definition welcome_transcript ::
  "(bytes \<Rightarrow> bytes) \<Rightarrow> UserId \<Rightarrow> RoomId \<Rightarrow> MessageId \<Rightarrow> u64 \<Rightarrow> bytes \<Rightarrow> bytes" where
  "welcome_transcript sha256 recipient room event sequence body =
     concat [map of_char ''GROTTO-WELCOME-V9'' @ [0], UserId_to_bytes recipient,
       RoomId_to_bytes room, MessageId_to_bytes event, u64_to_be_bytes sequence, sha256 body]"

definition acknowledgement_id ::
  "(bytes \<Rightarrow> bytes) \<Rightarrow> UserId \<Rightarrow> MessageId list \<Rightarrow> u64 list \<Rightarrow> MessageId" where
  "acknowledgement_id sha256 user events welcomes =
     (let digest = sha256 (map of_char ''GROTTO-RECEIPT-V9'' @ [0]
            @ UserId_to_bytes user
            @ u64_to_be_bytes (of_nat (length events))
            @ concat (map MessageId_to_bytes events)
            @ u64_to_be_bytes (of_nat (length welcomes))
            @ concat (map u64_to_be_bytes welcomes))
      in MessageId (take 16 digest))"

section \<open>Bounded collections\<close>

text \<open>
  The visitor of \<open>bounded_vec\<close>: the hint is checked first, then elements are read until the
  declared length is used up, and an element beyond the limit is an error.
\<close>

fun bounded_loop :: "nat \<Rightarrow> 'a decoder \<Rightarrow> nat \<Rightarrow> 'a list \<Rightarrow> 'a list decoder" where
  "bounded_loop N d 0 vals bs = Some (vals, bs)"
| "bounded_loop N d (Suc n) vals bs =
     do { (v, bs) \<leftarrow> d bs;
          if length vals = N then None else bounded_loop N d n (vals @ [v]) bs }"

definition bounded_vec :: "postcard \<Rightarrow> nat \<Rightarrow> 'a decoder \<Rightarrow> 'a list decoder" where
  "bounded_vec pc N d bs =
     do { (n, bs) \<leftarrow> pc_take_len pc bs;
          if (case pc_size_hint pc n of Some m \<Rightarrow> m > N | None \<Rightarrow> False) then None
          else bounded_loop N d n [] bs }"

definition take_body :: "postcard \<Rightarrow> bytes decoder" where
  "take_body pc = bounded_vec pc (512 * 1024) (pc_take_u8 pc)"

definition take_package :: "postcard \<Rightarrow> bytes decoder" where
  "take_package pc = bounded_vec pc (16 * 1024) (pc_take_u8 pc)"

definition take_packages :: "postcard \<Rightarrow> bytes list decoder" where
  "take_packages pc = bounded_vec pc 64 (take_package pc)"

definition take_ids_100 :: "postcard \<Rightarrow> MessageId list decoder" where
  "take_ids_100 pc = bounded_vec pc 100 (take_message pc)"

definition take_cursors :: "postcard \<Rightarrow> u64 list decoder" where
  "take_cursors pc = bounded_vec pc 100 (pc_take_u64 pc)"

definition take_name :: "postcard \<Rightarrow> rstr decoder" where
  "take_name pc bs =
     do { (t, bs) \<leftarrow> take_str pc bs; if str_len t > 400 then None else Some (t, bs) }"

section \<open>Serde for the records\<close>

definition ser_content_type :: "postcard \<Rightarrow> MlsContentType encoder" where
  "ser_content_type pc t =
     pc_variant pc (case t of Application \<Rightarrow> 0 | Proposal \<Rightarrow> 1 | Commit \<Rightarrow> 2)"

definition take_content_type :: "postcard \<Rightarrow> MlsContentType decoder" where
  "take_content_type pc bs =
     do { (i, bs) \<leftarrow> pc_take_variant pc bs;
          if i = 0 then Some (Application, bs)
          else if i = 1 then Some (Proposal, bs)
          else if i = 2 then Some (Commit, bs)
          else None }"

definition ser_attachment :: "postcard \<Rightarrow> WelcomeAttachment encoder" where
  "ser_attachment pc w =
     ser_user pc (wa_recipient w) @ ser_vec_u8 pc (wa_body w) @ ser_signature pc (wa_signature w)"

definition take_attachment :: "postcard \<Rightarrow> WelcomeAttachment decoder" where
  "take_attachment pc bs =
     do { (recipient, bs) \<leftarrow> take_user pc bs;
          (body, bs) \<leftarrow> take_body pc bs;
          (signature, bs) \<leftarrow> take_signature pc bs;
          Some (\<lparr>wa_recipient = recipient, wa_body = body, wa_signature = signature\<rparr>, bs) }"

definition ser_append :: "postcard \<Rightarrow> Append encoder" where
  "ser_append pc a =
     ser_room pc (ap_room a) @ pc_u64 pc (ap_parent a) @ pc_u64 pc (ap_epoch a)
     @ ser_content_type pc (ap_content_type a) @ ser_vec_u8 pc (ap_body a)
     @ ser_option pc (ser_attachment pc) (ap_welcome a)"

definition take_append :: "postcard \<Rightarrow> Append decoder" where
  "take_append pc bs =
     do { (room, bs) \<leftarrow> take_room pc bs;
          (parent, bs) \<leftarrow> pc_take_u64 pc bs;
          (epoch, bs) \<leftarrow> pc_take_u64 pc bs;
          (content_type, bs) \<leftarrow> take_content_type pc bs;
          (body, bs) \<leftarrow> take_body pc bs;
          (welcome, bs) \<leftarrow> take_option pc (take_attachment pc) bs;
          Some (\<lparr>ap_room = room, ap_parent = parent, ap_epoch = epoch,
                  ap_content_type = content_type, ap_body = body, ap_welcome = welcome\<rparr>, bs) }"

definition ser_event :: "postcard \<Rightarrow> Event encoder" where
  "ser_event pc e =
     ser_message pc (ev_id e) @ ser_user pc (ev_sender e) @ ser_append pc (ev_operation e)"

definition take_event :: "postcard \<Rightarrow> Event decoder" where
  "take_event pc bs =
     do { (i, bs) \<leftarrow> take_message pc bs;
          (sender, bs) \<leftarrow> take_user pc bs;
          (operation, bs) \<leftarrow> take_append pc bs;
          Some (\<lparr>ev_id = i, ev_sender = sender, ev_operation = operation\<rparr>, bs) }"

definition ser_welcome :: "postcard \<Rightarrow> WelcomeDelivery encoder" where
  "ser_welcome pc w =
     ser_str pc (wd_room_name w) @ pc_u64 pc (wd_cursor w) @ ser_message pc (wd_event w)
     @ ser_room pc (wd_room w) @ pc_u64 pc (wd_sequence w) @ ser_user pc (wd_inviter w)
     @ ser_attachment pc (wd_attachment w)"

definition take_welcome :: "postcard \<Rightarrow> WelcomeDelivery decoder" where
  "take_welcome pc bs =
     do { (room_name, bs) \<leftarrow> take_name pc bs;
          (cursor, bs) \<leftarrow> pc_take_u64 pc bs;
          (event, bs) \<leftarrow> take_message pc bs;
          (room, bs) \<leftarrow> take_room pc bs;
          (sequence, bs) \<leftarrow> pc_take_u64 pc bs;
          (inviter, bs) \<leftarrow> take_user pc bs;
          (attachment, bs) \<leftarrow> take_attachment pc bs;
          Some (\<lparr>wd_room_name = room_name, wd_cursor = cursor, wd_event = event, wd_room = room,
                  wd_sequence = sequence, wd_inviter = inviter, wd_attachment = attachment\<rparr>, bs) }"

definition ser_room_head :: "postcard \<Rightarrow> RoomHead encoder" where
  "ser_room_head pc h =
     ser_room pc (rh_room h) @ ser_str pc (rh_name h) @ pc_u64 pc (rh_sequence h)"

definition take_room_head :: "postcard \<Rightarrow> RoomHead decoder" where
  "take_room_head pc bs =
     do { (room, bs) \<leftarrow> take_room pc bs;
          (name, bs) \<leftarrow> take_name pc bs;
          (sequence, bs) \<leftarrow> pc_take_u64 pc bs;
          Some (\<lparr>rh_room = room, rh_name = name, rh_sequence = sequence\<rparr>, bs) }"

definition take_events :: "postcard \<Rightarrow> Event list decoder" where
  "take_events pc = bounded_vec pc 100 (take_event pc)"

definition take_rooms :: "postcard \<Rightarrow> RoomHead list decoder" where
  "take_rooms pc = bounded_vec pc 100 (take_room_head pc)"

definition take_welcomes :: "postcard \<Rightarrow> WelcomeDelivery list decoder" where
  "take_welcomes pc = bounded_vec pc 100 (take_welcome pc)"

section \<open>Serde for requests, rejections and responses\<close>

definition ser_request :: "postcard \<Rightarrow> Request encoder" where
  "ser_request pc r =
     (case r of
        CreateRoom name \<Rightarrow> serialize_tagged pc 0 (ser_str pc name)
      | PublishKeyPackages packages \<Rightarrow>
          serialize_tagged pc 1 (ser_seq pc (ser_vec_u8 pc) packages)
      | Acknowledge events welcomes \<Rightarrow>
          serialize_tagged pc 2 (ser_seq pc (ser_message pc) events @ ser_seq pc (pc_u64 pc) welcomes)
      | AppendRoomOperation operation \<Rightarrow> serialize_tagged pc 3 (ser_append pc operation)
      | FetchRoomEvents room after_sequence \<Rightarrow>
          serialize_tagged pc 4 (ser_room pc room @ pc_u64 pc after_sequence)
      | SyncIndex after_room \<Rightarrow> serialize_tagged pc 5 (ser_option pc (ser_room pc) after_room)
      | FetchWelcomes after_cursor \<Rightarrow> serialize_tagged pc 6 (pc_u64 pc after_cursor)
      | ReserveKeyPackage recipient \<Rightarrow> serialize_tagged pc 7 (ser_user pc recipient)
      | SetFetchGrant requester allowed \<Rightarrow>
          serialize_tagged pc 8 (ser_user pc requester @ pc_bool pc allowed))"

definition take_request :: "postcard \<Rightarrow> Request decoder" where
  "take_request pc bs =
     do { (tag, sq) \<leftarrow> required (pc_take_u8 pc) (3, bs);
       if tag = 0 then
         do { (name, sq) \<leftarrow> required (take_name pc) sq; visited (CreateRoom name) sq }
       else if tag = 1 then
         do { (packages, sq) \<leftarrow> required (take_packages pc) sq;
              visited (PublishKeyPackages packages) sq }
       else if tag = 2 then
         do { (events, sq) \<leftarrow> required (take_ids_100 pc) sq;
              (welcomes, sq) \<leftarrow> required (take_cursors pc) sq;
              visited (Acknowledge events welcomes) sq }
       else if tag = 3 then
         do { (operation, sq) \<leftarrow> required (take_append pc) sq;
              visited (AppendRoomOperation operation) sq }
       else if tag = 4 then
         do { (room, sq) \<leftarrow> required (take_room pc) sq;
              (after_sequence, sq) \<leftarrow> required (pc_take_u64 pc) sq;
              visited (FetchRoomEvents room after_sequence) sq }
       else if tag = 5 then
         do { (after_room, sq) \<leftarrow> required (take_option pc (take_room pc)) sq;
              visited (SyncIndex after_room) sq }
       else if tag = 6 then
         do { (after_cursor, sq) \<leftarrow> required (pc_take_u64 pc) sq;
              visited (FetchWelcomes after_cursor) sq }
       else if tag = 7 then
         do { (recipient, sq) \<leftarrow> required (take_user pc) sq;
              visited (ReserveKeyPackage recipient) sq }
       else if tag = 8 then
         do { (requester, sq) \<leftarrow> required (take_user pc) sq;
              (allowed, sq) \<leftarrow> required (pc_take_bool pc) sq;
              visited (SetFetchGrant requester allowed) sq }
       else None }"

definition ser_rejection :: "postcard \<Rightarrow> Rejection encoder" where
  "ser_rejection pc r =
     pc_u8 pc (case r of Invalid \<Rightarrow> 0 | Unauthorized \<Rightarrow> 1 | NotFound \<Rightarrow> 2 | RequestConflict \<Rightarrow> 3
       | Overloaded \<Rightarrow> 4 | Quota \<Rightarrow> 5 | Internal \<Rightarrow> 6)"

definition take_rejection :: "postcard \<Rightarrow> Rejection decoder" where
  "take_rejection pc bs =
     do { (tag, bs) \<leftarrow> pc_take_u8 pc bs;
          if tag = 0 then Some (Invalid, bs)
          else if tag = 1 then Some (Unauthorized, bs)
          else if tag = 2 then Some (NotFound, bs)
          else if tag = 3 then Some (RequestConflict, bs)
          else if tag = 4 then Some (Overloaded, bs)
          else if tag = 5 then Some (Quota, bs)
          else if tag = 6 then Some (Internal, bs)
          else None }"

definition ser_response :: "postcard \<Rightarrow> Response encoder" where
  "ser_response pc r =
     (case r of
        RoomCreated room \<Rightarrow> serialize_tagged pc 0 (ser_room pc room)
      | KeyPackagesPublished count \<Rightarrow> serialize_tagged pc 1 (pc_u64 pc count)
      | Acknowledged \<Rightarrow> serialize_tagged pc 2 []
      | AppendAccepted event \<Rightarrow> serialize_tagged pc 3 (ser_event pc event)
      | HeadConflict room head \<Rightarrow> serialize_tagged pc 4 (ser_room pc room @ pc_u64 pc head)
      | RoomEvents room after_sequence events has_more \<Rightarrow>
          serialize_tagged pc 5
            (ser_room pc room @ pc_u64 pc after_sequence @ ser_seq pc (ser_event pc) events
             @ pc_bool pc has_more)
      | SyncIndexPage rooms has_more \<Rightarrow>
          serialize_tagged pc 6 (ser_seq pc (ser_room_head pc) rooms @ pc_bool pc has_more)
      | Welcomes after_cursor welcomes has_more \<Rightarrow>
          serialize_tagged pc 7
            (pc_u64 pc after_cursor @ ser_seq pc (ser_welcome pc) welcomes @ pc_bool pc has_more)
      | KeyPackage recipient package \<Rightarrow>
          serialize_tagged pc 8 (ser_user pc recipient @ ser_vec_u8 pc package)
      | FetchGrantSet \<Rightarrow> serialize_tagged pc 9 []
      | Rejected reason \<Rightarrow> serialize_tagged pc 10 (ser_rejection pc reason))"

definition take_response :: "postcard \<Rightarrow> Response decoder" where
  "take_response pc bs =
     do { (tag, sq) \<leftarrow> required (pc_take_u8 pc) (5, bs);
       if tag = 0 then
         do { (room, sq) \<leftarrow> required (take_room pc) sq; visited (RoomCreated room) sq }
       else if tag = 1 then
         do { (count, sq) \<leftarrow> required (pc_take_u64 pc) sq; visited (KeyPackagesPublished count) sq }
       else if tag = 2 then visited Acknowledged sq
       else if tag = 3 then
         do { (event, sq) \<leftarrow> required (take_event pc) sq; visited (AppendAccepted event) sq }
       else if tag = 4 then
         do { (room, sq) \<leftarrow> required (take_room pc) sq;
              (head, sq) \<leftarrow> required (pc_take_u64 pc) sq;
              visited (HeadConflict room head) sq }
       else if tag = 5 then
         do { (room, sq) \<leftarrow> required (take_room pc) sq;
              (after_sequence, sq) \<leftarrow> required (pc_take_u64 pc) sq;
              (events, sq) \<leftarrow> required (take_events pc) sq;
              (has_more, sq) \<leftarrow> required (pc_take_bool pc) sq;
              visited (RoomEvents room after_sequence events has_more) sq }
       else if tag = 6 then
         do { (rooms, sq) \<leftarrow> required (take_rooms pc) sq;
              (has_more, sq) \<leftarrow> required (pc_take_bool pc) sq;
              visited (SyncIndexPage rooms has_more) sq }
       else if tag = 7 then
         do { (after_cursor, sq) \<leftarrow> required (pc_take_u64 pc) sq;
              (welcomes, sq) \<leftarrow> required (take_welcomes pc) sq;
              (has_more, sq) \<leftarrow> required (pc_take_bool pc) sq;
              visited (Welcomes after_cursor welcomes has_more) sq }
       else if tag = 8 then
         do { (recipient, sq) \<leftarrow> required (take_user pc) sq;
              (package, sq) \<leftarrow> required (take_package pc) sq;
              visited (KeyPackage recipient package) sq }
       else if tag = 9 then visited FetchGrantSet sq
       else if tag = 10 then
         do { (reason, sq) \<leftarrow> required (take_rejection pc) sq; visited (Rejected reason) sq }
       else None }"

definition payload_hash :: "postcard \<Rightarrow> (bytes \<Rightarrow> bytes) \<Rightarrow> Request \<Rightarrow> postcard_error + bytes" where
  "payload_hash pc sha256 request =
     (case encode_message (ser_request pc) request of
        Inl e \<Rightarrow> Inl e
      | Inr bs \<Rightarrow> Inr (sha256 bs))"

section \<open>Values within the wire limits\<close>

definition wf_name :: "rstr \<Rightarrow> bool" where
  "wf_name s \<longleftrightarrow> valid_str s \<and> str_len s \<le> 400"

definition wf_attachment :: "WelcomeAttachment \<Rightarrow> bool" where
  "wf_attachment w \<longleftrightarrow>
     wf_user (wa_recipient w) \<and> length (wa_body w) \<le> 512 * 1024 \<and> wf_signature (wa_signature w)"

definition wf_append :: "Append \<Rightarrow> bool" where
  "wf_append a \<longleftrightarrow>
     wf_room (ap_room a) \<and> length (ap_body a) \<le> 512 * 1024
     \<and> pred_option wf_attachment (ap_welcome a)"

definition wf_event :: "Event \<Rightarrow> bool" where
  "wf_event e \<longleftrightarrow> wf_message (ev_id e) \<and> wf_user (ev_sender e) \<and> wf_append (ev_operation e)"

definition wf_welcome :: "WelcomeDelivery \<Rightarrow> bool" where
  "wf_welcome w \<longleftrightarrow>
     wf_name (wd_room_name w) \<and> wf_message (wd_event w) \<and> wf_room (wd_room w)
     \<and> wf_user (wd_inviter w) \<and> wf_attachment (wd_attachment w)"

definition wf_room_head :: "RoomHead \<Rightarrow> bool" where
  "wf_room_head h \<longleftrightarrow> wf_room (rh_room h) \<and> wf_name (rh_name h)"

definition wf_request :: "Request \<Rightarrow> bool" where
  "wf_request r \<longleftrightarrow>
     (case r of
        CreateRoom name \<Rightarrow> wf_name name
      | PublishKeyPackages packages \<Rightarrow>
          length packages \<le> 64 \<and> list_all (\<lambda>p. length p \<le> 16 * 1024) packages
      | Acknowledge events welcomes \<Rightarrow>
          length events \<le> 100 \<and> list_all wf_message events \<and> length welcomes \<le> 100
      | AppendRoomOperation operation \<Rightarrow> wf_append operation
      | FetchRoomEvents room _ \<Rightarrow> wf_room room
      | SyncIndex after_room \<Rightarrow> pred_option wf_room after_room
      | FetchWelcomes _ \<Rightarrow> True
      | ReserveKeyPackage recipient \<Rightarrow> wf_user recipient
      | SetFetchGrant requester _ \<Rightarrow> wf_user requester)"

definition wf_response :: "Response \<Rightarrow> bool" where
  "wf_response r \<longleftrightarrow>
     (case r of
        RoomCreated room \<Rightarrow> wf_room room
      | AppendAccepted event \<Rightarrow> wf_event event
      | HeadConflict room _ \<Rightarrow> wf_room room
      | RoomEvents room _ events _ \<Rightarrow>
          wf_room room \<and> length events \<le> 100 \<and> list_all wf_event events
      | SyncIndexPage rooms _ \<Rightarrow> length rooms \<le> 100 \<and> list_all wf_room_head rooms
      | Welcomes _ welcomes _ \<Rightarrow> length welcomes \<le> 100 \<and> list_all wf_welcome welcomes
      | KeyPackage recipient package \<Rightarrow> wf_user recipient \<and> length package \<le> 16 * 1024
      | _ \<Rightarrow> True)"

section \<open>Decoding undoes encoding\<close>

lemma bounded_loop_ser:
  assumes "\<And>x rest. x \<in> set xs \<Longrightarrow> d (ser x @ rest) = Some (x, rest)"
    and "length vals + length xs \<le> N"
  shows "bounded_loop N d (length xs) vals (concat (map ser xs) @ rest) = Some (vals @ xs, rest)"
  using assms by (induction xs arbitrary: vals) auto

lemma bounded_loop_valid:
  assumes "bounded_loop N d n vals bs = Some (xs, rest)"
    and "\<And>bs v rest. d bs = Some (v, rest) \<Longrightarrow> P v" and "list_all P vals" "length vals \<le> N"
  shows "list_all P xs \<and> length xs \<le> N"
  using assms(1,3,4)
proof (induction n arbitrary: vals bs)
  case (Suc n)
  then obtain v bs' where "d bs = Some (v, bs')" "length vals \<noteq> N"
    "bounded_loop N d n (vals @ [v]) bs' = Some (xs, rest)"
    by (auto simp: bind_Some_iff split: if_splits)
  with Suc assms(2) show ?case by simp
qed simp

context postcard_wire
begin

lemma bounded_vec_ser:
  assumes "\<And>x rest. x \<in> set xs \<Longrightarrow> d (ser x @ rest) = Some (x, rest)"
    and "length xs \<le> N" "usize_range N"
  shows "bounded_vec pc N d (ser_seq pc ser xs @ rest) = Some (xs, rest)"
proof -
  have "\<not> (case pc_size_hint pc (length xs) of Some m \<Rightarrow> m > N | None \<Rightarrow> False)"
    using assms(2) by (auto split: option.splits dest: size_hint_exact)
  with assms show ?thesis
    by (simp add: bounded_vec_def ser_seq_def primitive_roundtrip bounded_loop_ser)
qed

lemma bounded_vec_valid:
  assumes "bounded_vec pc N d bs = Some (xs, rest)"
    and "\<And>bs v rest. d bs = Some (v, rest) \<Longrightarrow> P v"
  shows "list_all P xs" "length xs \<le> N"
  using assms bounded_loop_valid [of N d _ "[]" _ xs rest P]
  by (auto simp: bounded_vec_def bind_Some_iff split: if_splits)

lemma byte_vecs_roundtrip [roundtrip]:
  "length b \<le> 512 * 1024 \<Longrightarrow> take_body pc (ser_vec_u8 pc b @ rest) = Some (b, rest)"
  "length b \<le> 16 * 1024 \<Longrightarrow> take_package pc (ser_vec_u8 pc b @ rest) = Some (b, rest)"
  unfolding take_body_def take_package_def ser_vec_u8_def
  by (rule bounded_vec_ser; simp add: primitive_roundtrip)+

lemma byte_vecs_decoded [decoded]:
  "take_body pc bs = Some (b, rest) \<Longrightarrow> length b \<le> 512 * 1024"
  "take_package pc bs = Some (b, rest) \<Longrightarrow> length b \<le> 16 * 1024"
  unfolding take_body_def take_package_def by (blast dest: bounded_vec_valid)+

lemma name_roundtrip [roundtrip]: "wf_name s \<Longrightarrow> take_name pc (ser_str pc s @ rest) = Some (s, rest)"
  by (simp add: take_name_def wf_name_def str_roundtrip)

lemma name_decoded [decoded]: "take_name pc bs = Some (s, rest) \<Longrightarrow> wf_name s"
  by (auto simp: take_name_def wf_name_def bind_Some_iff split: if_splits dest: str_valid)

lemma content_type_roundtrip [roundtrip]:
  "take_content_type pc (ser_content_type pc t @ rest) = Some (t, rest)"
  by (cases t) (simp_all add: ser_content_type_def take_content_type_def primitive_roundtrip)

lemma attachment_roundtrip [roundtrip]:
  "wf_attachment w \<Longrightarrow> take_attachment pc (ser_attachment pc w @ rest) = Some (w, rest)"
  by (simp add: wf_attachment_def ser_attachment_def take_attachment_def roundtrip)

lemma attachment_decoded [decoded]: "take_attachment pc bs = Some (w, rest) \<Longrightarrow> wf_attachment w"
  by (auto simp: wf_attachment_def take_attachment_def bind_Some_iff dest: decoded)

lemma append_roundtrip [roundtrip]:
  "wf_append a \<Longrightarrow> take_append pc (ser_append pc a @ rest) = Some (a, rest)"
  by (simp add: wf_append_def ser_append_def take_append_def roundtrip option.pred_set)

lemma append_decoded [decoded]:
  assumes "take_append pc bs = Some (a, rest)"
  shows "wf_append a"
proof -
  from assms obtain bs' where w: "take_option pc (take_attachment pc) bs' = Some (ap_welcome a, rest)"
    and rest: "wf_room (ap_room a)" "length (ap_body a) \<le> 512 * 1024"
    by (auto simp: take_append_def bind_Some_iff dest!: ids_decoded byte_vecs_decoded)
  from w have "pred_option wf_attachment (ap_welcome a)"
    by (cases "ap_welcome a") (auto dest!: option_valid attachment_decoded)
  with rest show ?thesis by (simp add: wf_append_def)
qed

lemma event_roundtrip [roundtrip]:
  "wf_event e \<Longrightarrow> take_event pc (ser_event pc e @ rest) = Some (e, rest)"
  by (simp add: wf_event_def ser_event_def take_event_def roundtrip)

lemma event_decoded [decoded]: "take_event pc bs = Some (e, rest) \<Longrightarrow> wf_event e"
  by (auto simp: wf_event_def take_event_def bind_Some_iff dest: decoded)

lemma welcome_roundtrip [roundtrip]:
  "wf_welcome w \<Longrightarrow> take_welcome pc (ser_welcome pc w @ rest) = Some (w, rest)"
  by (simp add: wf_welcome_def ser_welcome_def take_welcome_def roundtrip)

lemma welcome_decoded [decoded]: "take_welcome pc bs = Some (w, rest) \<Longrightarrow> wf_welcome w"
  by (auto simp: wf_welcome_def take_welcome_def bind_Some_iff dest: decoded)

lemma room_head_roundtrip [roundtrip]:
  "wf_room_head h \<Longrightarrow> take_room_head pc (ser_room_head pc h @ rest) = Some (h, rest)"
  by (simp add: wf_room_head_def ser_room_head_def take_room_head_def roundtrip)

lemma room_head_decoded [decoded]: "take_room_head pc bs = Some (h, rest) \<Longrightarrow> wf_room_head h"
  by (auto simp: wf_room_head_def take_room_head_def bind_Some_iff dest: decoded)

lemma collections_roundtrip [roundtrip]:
  "length ps \<le> 64 \<Longrightarrow> list_all (\<lambda>p. length p \<le> 16 * 1024) ps \<Longrightarrow>
     take_packages pc (ser_seq pc (ser_vec_u8 pc) ps @ rest) = Some (ps, rest)"
  "length ms \<le> 100 \<Longrightarrow> list_all wf_message ms \<Longrightarrow>
     take_ids_100 pc (ser_seq pc (ser_message pc) ms @ rest) = Some (ms, rest)"
  "length cs \<le> 100 \<Longrightarrow> take_cursors pc (ser_seq pc (pc_u64 pc) cs @ rest) = Some (cs, rest)"
  "length es \<le> 100 \<Longrightarrow> list_all wf_event es \<Longrightarrow>
     take_events pc (ser_seq pc (ser_event pc) es @ rest) = Some (es, rest)"
  "length hs \<le> 100 \<Longrightarrow> list_all wf_room_head hs \<Longrightarrow>
     take_rooms pc (ser_seq pc (ser_room_head pc) hs @ rest) = Some (hs, rest)"
  "length ws \<le> 100 \<Longrightarrow> list_all wf_welcome ws \<Longrightarrow>
     take_welcomes pc (ser_seq pc (ser_welcome pc) ws @ rest) = Some (ws, rest)"
  unfolding take_packages_def take_ids_100_def take_cursors_def take_events_def take_rooms_def
    take_welcomes_def
  by (rule bounded_vec_ser; simp add: roundtrip list_all_iff)+

lemma collections_decoded [decoded]:
  "take_packages pc bs = Some (ps, rest) \<Longrightarrow> length ps \<le> 64 \<and> list_all (\<lambda>p. length p \<le> 16 * 1024) ps"
  "take_ids_100 pc bs = Some (ms, rest) \<Longrightarrow> length ms \<le> 100 \<and> list_all wf_message ms"
  "take_cursors pc bs = Some (cs, rest) \<Longrightarrow> length cs \<le> 100"
  "take_events pc bs = Some (es, rest) \<Longrightarrow> length es \<le> 100 \<and> list_all wf_event es"
  "take_rooms pc bs = Some (hs, rest) \<Longrightarrow> length hs \<le> 100 \<and> list_all wf_room_head hs"
  "take_welcomes pc bs = Some (ws, rest) \<Longrightarrow> length ws \<le> 100 \<and> list_all wf_welcome ws"
  unfolding take_packages_def take_ids_100_def take_cursors_def take_events_def take_rooms_def
    take_welcomes_def
  by (blast intro: bounded_vec_valid decoded)+

lemma option_room_decoded [decoded]:
  "take_option pc (take_room pc) bs = Some (r, rest) \<Longrightarrow> pred_option wf_room r"
  by (cases r) (auto dest!: option_valid ids_decoded)

lemma rejection_roundtrip [roundtrip]:
  "take_rejection pc (ser_rejection pc r @ rest) = Some (r, rest)"
  by (cases r) (simp_all add: ser_rejection_def take_rejection_def primitive_roundtrip)

lemma request_roundtrip [roundtrip]:
  "wf_request r \<Longrightarrow> take_request pc (ser_request pc r @ rest) = Some (r, rest)"
  by (cases r)
    (simp_all add: wf_request_def ser_request_def take_request_def serialize_tagged_def visited_def
      roundtrip option.pred_set)

lemma request_decoded [decoded]: "take_request pc bs = Some (r, rest) \<Longrightarrow> wf_request r"
  by (auto simp: wf_request_def take_request_def decode_iffs split: if_splits dest!: decoded)

lemma response_roundtrip [roundtrip]:
  "wf_response r \<Longrightarrow> take_response pc (ser_response pc r @ rest) = Some (r, rest)"
  by (cases r)
    (simp_all add: wf_response_def ser_response_def take_response_def serialize_tagged_def
      visited_def roundtrip)

lemma response_decoded [decoded]: "take_response pc bs = Some (r, rest) \<Longrightarrow> wf_response r"
  by (auto simp: wf_response_def take_response_def decode_iffs split: if_splits dest!: decoded)

end

sublocale postcard_wire \<subseteq> request: codec "ser_request pc" "take_request pc" wf_request
  by unfold_locales (auto intro: request_roundtrip request_decoded)

sublocale postcard_wire \<subseteq> response: codec "ser_response pc" "take_response pc" wf_response
  by unfold_locales (auto intro: response_roundtrip response_decoded)

sublocale postcard_wire \<subseteq> event: codec "ser_event pc" "take_event pc" wf_event
  by unfold_locales (auto intro: event_roundtrip event_decoded)

sublocale postcard_wire \<subseteq> welcome_delivery: codec "ser_welcome pc" "take_welcome pc" wf_welcome
  by unfold_locales (auto intro: welcome_roundtrip welcome_decoded)

section \<open>Whole messages\<close>

lemma encode_message_Inr:
  "encode_message ser v = Inr bs \<longleftrightarrow> bs = ser v \<and> length (ser v) \<le> MAX_PAYLOAD"
  by (auto simp: encode_message_def Let_def)

context codec
begin

lemma decode_encode: "valid v \<Longrightarrow> encode_message ser v = Inr bs \<Longrightarrow> decode_message take_v bs = Inr v"
  by (simp add: encode_message_Inr decode_message_def take_ser_all)

lemma decode_valid: "decode_message take_v bs = Inr v \<Longrightarrow> valid v"
  by (auto simp: decode_message_def split: if_splits option.splits dest: take_valid)

lemma decode_trailing:
  "valid v \<Longrightarrow> length (ser v @ t) \<le> MAX_PAYLOAD \<Longrightarrow> t \<noteq> [] \<Longrightarrow>
   decode_message take_v (ser v @ t) = Inl TrailingBytes"
  by (simp add: decode_message_def take_ser)

end

section \<open>Encoded lengths\<close>

definition welcome_body_length :: "Append \<Rightarrow> nat" where
  "welcome_body_length a = (case ap_welcome a of None \<Rightarrow> 0 | Some w \<Rightarrow> length (wa_body w))"

context postcard_wire
begin

lemma size_content_type: "length (ser_content_type pc t) = 1"
  by (cases t) (simp_all add: ser_content_type_def size_variant varint_len_bounds)

lemma size_body: "length b \<le> 512 * 1024 \<Longrightarrow> length (ser_vec_u8 pc b) \<le> length b + 3"
  using varint_len_bounds(3) [of "length b"] by (simp add: size_vec_u8)

lemma size_u64_le:
  "length (pc_u64 pc v) \<le> 10"
  "v \<le> i64_max \<Longrightarrow> length (pc_u64 pc v) \<le> 9"
  using varint_len_bounds(5) [of "unat v"] varint_len_bounds(4) [of "unat v"]
  by (simp_all add: size_u64 word_le_nat_alt)

lemma size_attachment: "wf_attachment w \<Longrightarrow> length (ser_attachment pc w) \<le> length (wa_body w) + 83"
  using size_body [of "wa_body w"] by (simp add: wf_attachment_def ser_attachment_def size_ids)

lemma size_append:
  assumes "wf_append a" "ap_parent a \<le> i64_max"
  shows "length (ser_append pc a) \<le> length (ap_body a) + welcome_body_length a + 123"
proof -
  have "length (ser_option pc (ser_attachment pc) (ap_welcome a)) \<le> welcome_body_length a + 84"
    using assms(1)
    by (auto simp: ser_option_def welcome_body_length_def size_opt wf_append_def add.commute
        split: option.splits dest!: size_attachment)
  then show ?thesis
    using assms size_body [of "ap_body a"] size_u64_le(1) [of "ap_epoch a"]
      size_u64_le(2) [of "ap_parent a"]
    by (simp add: ser_append_def wf_append_def size_ids size_content_type)
qed

lemma size_event:
  assumes "wf_event e" "ap_parent (ev_operation e) \<le> i64_max"
  shows "length (ser_event pc e)
    \<le> length (ap_body (ev_operation e)) + welcome_body_length (ev_operation e) + 155"
  using assms size_append [of "ev_operation e"] by (simp add: ser_event_def wf_event_def size_ids)

lemma size_name: "wf_name s \<Longrightarrow> length (ser_str pc s) \<le> 402"
  using varint_len_bounds(2) [of "str_len s"] by (simp add: size_str wf_name_def)

lemma size_room_head: "wf_room_head h \<Longrightarrow> length (ser_room_head pc h) \<le> 428"
  using size_name [of "rh_name h"] size_u64_le(1) [of "rh_sequence h"]
  by (simp add: ser_room_head_def wf_room_head_def size_ids)

lemma size_welcome:
  assumes "wf_welcome w"
  shows "length (ser_welcome pc w) \<le> length (wa_body (wd_attachment w)) + 553"
  using assms size_name [of "wd_room_name w"] size_u64_le(1) [of "wd_cursor w"]
    size_u64_le(1) [of "wd_sequence w"] size_attachment [of "wd_attachment w"]
  by (simp add: ser_welcome_def wf_welcome_def size_ids)

text \<open>Replacing the cursor of a stored welcome changes the record's length by the two varints.\<close>

lemma size_welcome_cursor:
  "length (ser_welcome pc (w\<lparr>wd_cursor := c\<rparr>)) + varint_len (unat (wd_cursor w))
   = length (ser_welcome pc w) + varint_len (unat c)"
  by (simp add: ser_welcome_def size_u64)

end

end
