(* ===== verification/Protocol_Messages.thy ===== *)
theory Protocol_Messages
  imports Protocol_Delivery
begin

text \<open>
  The second half of \<open>grotto-protocol/src/lib.rs\<close>: the messages of the two directions with their
  manual tagged encodings, and the length-prefixed framing. Reading is modelled over a script of
  what each \<open>read\<close> call of the transport returns, so that a result about \<open>read_frame\<close> covers
  every fragmentation of the byte stream.
\<close>

section \<open>Messages\<close>

datatype ClientMessageKind =
  Kind_ClientHello | Kind_ClientIdentify | Kind_ClientAuthenticationResponse | Kind_Delivery

datatype ClientMessage =
    ClientHello u16
  | ClientIdentify UserId Ed25519PublicKeyBytes "bytes option"
  | ClientAuthenticationResponse Ed25519SignatureBytes
  | ClientDelivery MessageId Request

definition kind :: "ClientMessage \<Rightarrow> ClientMessageKind" where
  "kind m =
     (case m of
        ClientHello _ \<Rightarrow> Kind_ClientHello
      | ClientIdentify _ _ _ \<Rightarrow> Kind_ClientIdentify
      | ClientAuthenticationResponse _ \<Rightarrow> Kind_ClientAuthenticationResponse
      | ClientDelivery _ _ \<Rightarrow> Kind_Delivery)"

datatype ProtocolError =
    UnsupportedVersion u16 u16 \<comment> \<open>supported, received\<close>
  | UnexpectedMessage ClientMessageKind ClientMessageKind \<comment> \<open>expected, received\<close>
  | InvalidPublicKey
  | IdentityKeyConflict
  | AuthenticationFailed

datatype RelayMessage =
    ServerHello u16
  | ServerIdentifyAccepted UserId
  | ServerAuthenticationChallenge AuthenticationChallenge
  | ProtocolErrorMessage "MessageId option" ProtocolError
  | RelayDelivery MessageId Response
  | DeliveryChanged

definition request_id_of :: "RelayMessage \<Rightarrow> MessageId option" where
  "request_id_of m =
     (case m of
        RelayDelivery request_id _ \<Rightarrow> Some request_id
      | ProtocolErrorMessage request_id _ \<Rightarrow> request_id
      | _ \<Rightarrow> None)"

record StoredRoomMessage =
  sm_message_id :: MessageId
  sm_room_id :: RoomId
  sm_sequence :: u64
  sm_sender_id :: UserId
  sm_epoch :: u64
  sm_content_type :: MlsContentType
  sm_body :: bytes

section \<open>Serde\<close>

definition ser_client_message :: "postcard \<Rightarrow> ClientMessage encoder" where
  "ser_client_message pc m =
     (case m of
        ClientHello version \<Rightarrow> serialize_tagged pc 1 (pc_u16 pc version)
      | ClientIdentify user_id public_key enrollment \<Rightarrow>
          serialize_tagged pc 102
            (ser_user pc user_id @ ser_public_key pc public_key
             @ ser_option pc (ser_array pc) enrollment)
      | ClientAuthenticationResponse signature \<Rightarrow> serialize_tagged pc 3 (ser_signature pc signature)
      | ClientDelivery request_id request \<Rightarrow>
          serialize_tagged pc 100 (ser_message pc request_id @ ser_request pc request))"

definition take_client_message :: "postcard \<Rightarrow> ClientMessage decoder" where
  "take_client_message pc bs =
     do { (tag, sq) \<leftarrow> required (pc_take_u8 pc) (4, bs);
       if tag = 1 then
         do { (version, sq) \<leftarrow> required (pc_take_u16 pc) sq; visited (ClientHello version) sq }
       else if tag = 102 then
         do { (user_id, sq) \<leftarrow> required (take_user pc) sq;
              (public_key, sq) \<leftarrow> required (take_public_key pc) sq;
              (enrollment, sq) \<leftarrow> required (take_option pc (take_array pc 32)) sq;
              visited (ClientIdentify user_id public_key enrollment) sq }
       else if tag = 3 then
         do { (signature, sq) \<leftarrow> required (take_signature pc) sq;
              visited (ClientAuthenticationResponse signature) sq }
       else if tag = 100 then
         do { (request_id, sq) \<leftarrow> required (take_message pc) sq;
              (request, sq) \<leftarrow> required (take_request pc) sq;
              visited (ClientDelivery request_id request) sq }
       else None }"

definition ser_kind :: "postcard \<Rightarrow> ClientMessageKind encoder" where
  "ser_kind pc k =
     pc_u8 pc (case k of Kind_ClientHello \<Rightarrow> 1 | Kind_ClientIdentify \<Rightarrow> 102
       | Kind_ClientAuthenticationResponse \<Rightarrow> 3 | Kind_Delivery \<Rightarrow> 100)"

definition take_kind :: "postcard \<Rightarrow> ClientMessageKind decoder" where
  "take_kind pc bs =
     do { (tag, bs) \<leftarrow> pc_take_u8 pc bs;
          if tag = 1 then Some (Kind_ClientHello, bs)
          else if tag = 102 then Some (Kind_ClientIdentify, bs)
          else if tag = 3 then Some (Kind_ClientAuthenticationResponse, bs)
          else if tag = 100 then Some (Kind_Delivery, bs)
          else None }"

definition ser_protocol_error :: "postcard \<Rightarrow> ProtocolError encoder" where
  "ser_protocol_error pc e =
     (case e of
        UnsupportedVersion supported received \<Rightarrow>
          serialize_tagged pc 1 (pc_u16 pc supported @ pc_u16 pc received)
      | UnexpectedMessage expected received \<Rightarrow>
          serialize_tagged pc 2 (ser_kind pc expected @ ser_kind pc received)
      | InvalidPublicKey \<Rightarrow> serialize_tagged pc 3 []
      | IdentityKeyConflict \<Rightarrow> serialize_tagged pc 4 []
      | AuthenticationFailed \<Rightarrow> serialize_tagged pc 5 [])"

definition take_protocol_error :: "postcard \<Rightarrow> ProtocolError decoder" where
  "take_protocol_error pc bs =
     do { (tag, sq) \<leftarrow> required (pc_take_u8 pc) (3, bs);
       if tag = 1 then
         do { (supported, sq) \<leftarrow> required (pc_take_u16 pc) sq;
              (received, sq) \<leftarrow> required (pc_take_u16 pc) sq;
              visited (UnsupportedVersion supported received) sq }
       else if tag = 2 then
         do { (expected, sq) \<leftarrow> required (take_kind pc) sq;
              (received, sq) \<leftarrow> required (take_kind pc) sq;
              visited (UnexpectedMessage expected received) sq }
       else if tag = 3 then visited InvalidPublicKey sq
       else if tag = 4 then visited IdentityKeyConflict sq
       else if tag = 5 then visited AuthenticationFailed sq
       else None }"

definition ser_room_name_error :: "postcard \<Rightarrow> RoomNameError encoder" where
  "ser_room_name_error pc e =
     pc_u8 pc (case e of Empty \<Rightarrow> 1 | TooLong \<Rightarrow> 2 | ControlCharacter \<Rightarrow> 3)"

definition take_room_name_error :: "postcard \<Rightarrow> RoomNameError decoder" where
  "take_room_name_error pc bs =
     do { (tag, bs) \<leftarrow> pc_take_u8 pc bs;
          if tag = 1 then Some (Empty, bs)
          else if tag = 2 then Some (TooLong, bs)
          else if tag = 3 then Some (ControlCharacter, bs)
          else None }"

definition ser_relay_message :: "postcard \<Rightarrow> RelayMessage encoder" where
  "ser_relay_message pc m =
     (case m of
        ServerHello version \<Rightarrow> serialize_tagged pc 1 (pc_u16 pc version)
      | ServerIdentifyAccepted user_id \<Rightarrow> serialize_tagged pc 2 (ser_user pc user_id)
      | ServerAuthenticationChallenge challenge \<Rightarrow> serialize_tagged pc 3 (ser_challenge pc challenge)
      | ProtocolErrorMessage request_id error \<Rightarrow>
          serialize_tagged pc 4
            (ser_option pc (ser_message pc) request_id @ ser_protocol_error pc error)
      | RelayDelivery request_id response \<Rightarrow>
          serialize_tagged pc 100 (ser_message pc request_id @ ser_response pc response)
      | DeliveryChanged \<Rightarrow> serialize_tagged pc 101 [])"

definition take_relay_message :: "postcard \<Rightarrow> RelayMessage decoder" where
  "take_relay_message pc bs =
     do { (tag, sq) \<leftarrow> required (pc_take_u8 pc) (4, bs);
       if tag = 1 then
         do { (version, sq) \<leftarrow> required (pc_take_u16 pc) sq; visited (ServerHello version) sq }
       else if tag = 2 then
         do { (user_id, sq) \<leftarrow> required (take_user pc) sq; visited (ServerIdentifyAccepted user_id) sq }
       else if tag = 3 then
         do { (challenge, sq) \<leftarrow> required (take_challenge pc) sq;
              visited (ServerAuthenticationChallenge challenge) sq }
       else if tag = 4 then
         do { (request_id, sq) \<leftarrow> required (take_option pc (take_message pc)) sq;
              (error, sq) \<leftarrow> required (take_protocol_error pc) sq;
              visited (ProtocolErrorMessage request_id error) sq }
       else if tag = 100 then
         do { (request_id, sq) \<leftarrow> required (take_message pc) sq;
              (response, sq) \<leftarrow> required (take_response pc) sq;
              visited (RelayDelivery request_id response) sq }
       else if tag = 101 then visited DeliveryChanged sq
       else None }"

section \<open>Messages within the wire limits\<close>

definition wf_client_message :: "ClientMessage \<Rightarrow> bool" where
  "wf_client_message m \<longleftrightarrow>
     (case m of
        ClientHello _ \<Rightarrow> True
      | ClientIdentify u k e \<Rightarrow> wf_user u \<and> wf_public_key k \<and> pred_option (\<lambda>t. length t = 32) e
      | ClientAuthenticationResponse s \<Rightarrow> wf_signature s
      | ClientDelivery i r \<Rightarrow> wf_message i \<and> wf_request r)"

definition wf_relay_message :: "RelayMessage \<Rightarrow> bool" where
  "wf_relay_message m \<longleftrightarrow>
     (case m of
        ServerIdentifyAccepted u \<Rightarrow> wf_user u
      | ServerAuthenticationChallenge c \<Rightarrow> wf_challenge c
      | ProtocolErrorMessage i _ \<Rightarrow> pred_option wf_message i
      | RelayDelivery i r \<Rightarrow> wf_message i \<and> wf_response r
      | _ \<Rightarrow> True)"

context postcard_wire
begin

lemma kind_roundtrip [roundtrip]: "take_kind pc (ser_kind pc k @ rest) = Some (k, rest)"
  by (cases k) (simp_all add: ser_kind_def take_kind_def primitive_roundtrip)

lemma room_name_error_roundtrip:
  "take_room_name_error pc (ser_room_name_error pc e @ rest) = Some (e, rest)"
  by (cases e) (simp_all add: ser_room_name_error_def take_room_name_error_def primitive_roundtrip)

lemma protocol_error_roundtrip [roundtrip]:
  "take_protocol_error pc (ser_protocol_error pc e @ rest) = Some (e, rest)"
  by (cases e)
    (simp_all add: ser_protocol_error_def take_protocol_error_def serialize_tagged_def visited_def
      roundtrip)

lemma client_message_roundtrip:
  "wf_client_message m \<Longrightarrow> take_client_message pc (ser_client_message pc m @ rest) = Some (m, rest)"
  by (cases m)
    (simp_all add: wf_client_message_def ser_client_message_def take_client_message_def
      serialize_tagged_def visited_def roundtrip option.pred_set)

lemma enrollment_decoded:
  "take_option pc (take_array pc 32) bs = Some (e, rest) \<Longrightarrow> pred_option (\<lambda>t. length t = 32) e"
  by (cases e) (auto dest!: option_valid array_length)

lemma client_message_decoded:
  "take_client_message pc bs = Some (m, rest) \<Longrightarrow> wf_client_message m"
  by (auto simp: wf_client_message_def take_client_message_def decode_iffs split: if_splits
      dest!: ids_decoded request_decoded enrollment_decoded)

lemma relay_message_roundtrip:
  "wf_relay_message m \<Longrightarrow> take_relay_message pc (ser_relay_message pc m @ rest) = Some (m, rest)"
  by (cases m)
    (simp_all add: wf_relay_message_def ser_relay_message_def take_relay_message_def
      serialize_tagged_def visited_def roundtrip option.pred_set)

lemma option_message_decoded:
  "take_option pc (take_message pc) bs = Some (i, rest) \<Longrightarrow> pred_option wf_message i"
  by (cases i) (auto dest!: option_valid ids_decoded)

lemma relay_message_decoded:
  "take_relay_message pc bs = Some (m, rest) \<Longrightarrow> wf_relay_message m"
  by (auto simp: wf_relay_message_def take_relay_message_def decode_iffs split: if_splits
      dest!: ids_decoded response_decoded option_message_decoded)

end

sublocale postcard_wire \<subseteq> client_message: codec "ser_client_message pc" "take_client_message pc"
  wf_client_message
  by unfold_locales (auto intro: client_message_roundtrip client_message_decoded)

sublocale postcard_wire \<subseteq> relay_message: codec "ser_relay_message pc" "take_relay_message pc"
  wf_relay_message
  by unfold_locales (auto intro: relay_message_roundtrip relay_message_decoded)

end
