(* ===== verification/Protocol_Frame.thy ===== *)
theory Protocol_Frame
  imports Protocol_Messages
begin

text \<open>
  \<open>read_frame\<close> and \<open>write_frame\<close> of the protocol crate. The transport is outside the repository:
  a reader is the list of results its \<open>read\<close> calls give, in order (a chunk of available bytes or
  an error; the end of the list is end of file), and a writer is given by its \<open>write_all\<close> and
  \<open>flush\<close>. The main result is that a frame is read back intact however the stream is cut up.
\<close>

section \<open>The transport\<close>

datatype io_kind =
    UnexpectedEof | InvalidData | InvalidInput | Interrupted | ConnectionReset | BrokenPipe
  | ConnectionRefused | ConnectionAborted | NotConnected
  | TimedOut | WouldBlock | AlreadyExists | FileNotFound | PermissionDenied | OtherIo

datatype io_error =
    TruncatedHeader nat
  | TruncatedPayload u32
  | FrameTooLarge u32
  | OutgoingTooLarge u32
  | PayloadTooLarge
  | Io io_kind

definition error_kind :: "io_error \<Rightarrow> io_kind" where
  "error_kind e =
     (case e of TruncatedHeader _ \<Rightarrow> UnexpectedEof | TruncatedPayload _ \<Rightarrow> UnexpectedEof
      | FrameTooLarge _ \<Rightarrow> InvalidData | OutgoingTooLarge _ \<Rightarrow> InvalidInput
      | PayloadTooLarge \<Rightarrow> InvalidInput | Io k \<Rightarrow> k)"

datatype read_event = Chunk bytes | ReadError io_kind

type_synonym reader = "read_event list"

text \<open>
  One \<open>read\<close> into a buffer of \<open>k\<close> bytes: at most \<open>k\<close> bytes of the next chunk, the rest of the
  chunk stays available; no bytes at end of file.
\<close>

fun read_some :: "nat \<Rightarrow> reader \<Rightarrow> (io_kind + bytes) \<times> reader" where
  "read_some k [] = (Inr [], [])"
| "read_some k (ReadError e # r) = (Inl e, r)"
| "read_some k (Chunk c # r) =
     (Inr (take k c), if k < length c then Chunk (drop k c) # r else r)"

lemma fills: "c \<noteq> [] \<Longrightarrow> length got < k \<Longrightarrow> k - (length got + length c) < k - length got"
  by (cases c) auto

text \<open>\<open>read_exact\<close>: read until the buffer is full; end of file before that is an error.\<close>

function read_exact :: "nat \<Rightarrow> bytes \<Rightarrow> reader \<Rightarrow> (io_kind + bytes) \<times> reader" where
  "read_exact k got r =
     (if length got < k
      then (case read_some (k - length got) r of
              (Inr c, r') \<Rightarrow>
                if c = [] then (Inl UnexpectedEof, r') else read_exact k (got @ c) r'
            | (Inl e, r') \<Rightarrow> (Inl e, r'))
      else (Inr got, r))"
  by pat_completeness auto
termination
  by (relation "measure (\<lambda>(k, got, r). k - length got)") (auto simp: fills)

section \<open>Reading a frame\<close>

text \<open>
  The header loop: an end of file before the first byte is an orderly end of the stream, later
  it is an error; interrupted reads are repeated.
\<close>

function read_header :: "bytes \<Rightarrow> reader \<Rightarrow> (io_error + bytes option) \<times> reader" where
  "read_header header r =
     (if length header < 4
      then (case read_some (4 - length header) r of
              (Inr c, r') \<Rightarrow>
                if c = [] \<and> header = [] then (Inr None, r')
                else if c = [] then (Inl (TruncatedHeader (length header)), r')
                else read_header (header @ c) r'
            | (Inl e, r') \<Rightarrow>
                if e = Interrupted then read_header header r' else (Inl (Io e), r'))
      else (Inr (Some header), r))"
  by pat_completeness auto

lemma read_some_error_shorter: "read_some k r = (Inl e, r') \<Longrightarrow> length r' < length r"
  by (cases r; cases "hd r") auto

termination read_header
  by (relation "measures [\<lambda>(h, r). 4 - length h, \<lambda>(h, r). length r]")
    (auto simp: fills dest: read_some_error_shorter [OF sym])

declare read_exact.simps [simp del] read_header.simps [simp del]

definition read_frame :: "reader \<Rightarrow> (io_error + bytes option) \<times> reader" where
  "read_frame r =
     (case read_header [] r of
        (Inl e, r') \<Rightarrow> (Inl e, r')
      | (Inr None, r') \<Rightarrow> (Inr None, r')
      | (Inr (Some header), r') \<Rightarrow>
          let len = u32_from_be_bytes header in
          if len > MAX_FRAME_SIZE then (Inl (FrameTooLarge len), r')
          else (case read_exact (unat len) [] r' of
                  (Inl e, r'') \<Rightarrow>
                    (Inl (if e = UnexpectedEof then TruncatedPayload len else Io e), r'')
                | (Inr payload, r'') \<Rightarrow> (Inr (Some payload), r'')))"

section \<open>Writing a frame\<close>

definition write_frame ::
  "('w \<Rightarrow> bytes \<Rightarrow> io_kind + 'w) \<Rightarrow> ('w \<Rightarrow> io_kind + 'w) \<Rightarrow> 'w \<Rightarrow> bytes \<Rightarrow> io_error + 'w" where
  "write_frame write_all flush w payload =
     (if length payload \<ge> 4294967296 then Inl PayloadTooLarge
      else let len = (of_nat (length payload) :: u32) in
        if len > MAX_FRAME_SIZE then Inl (OutgoingTooLarge len)
        else case write_all w (u32_to_be_bytes len) of
               Inl e \<Rightarrow> Inl (Io e)
             | Inr w \<Rightarrow>
                 (case write_all w payload of
                    Inl e \<Rightarrow> Inl (Io e)
                  | Inr w \<Rightarrow> (case flush w of Inl e \<Rightarrow> Inl (Io e) | Inr w \<Rightarrow> Inr w)))"

text \<open>A writer that collects what is written.\<close>

definition write_frame_buffer :: "bytes \<Rightarrow> bytes \<Rightarrow> io_error + bytes" where
  "write_frame_buffer = write_frame (\<lambda>w bs. Inr (w @ bs)) Inr"

section \<open>Fragmentation does not matter\<close>

text \<open>
  \<open>delivers r bs\<close>: the reader will hand out exactly the bytes \<open>bs\<close>, in chunks of any size but
  empty, and then end of file.
\<close>

definition delivers :: "reader \<Rightarrow> bytes \<Rightarrow> bool" where
  "delivers r bs \<longleftrightarrow> (\<exists>cs. r = map Chunk cs \<and> [] \<notin> set cs \<and> bs = concat cs)"

lemma delivers_read_some:
  assumes "delivers r bs" "bs \<noteq> []" "0 < k"
  obtains c r' where "read_some k r = (Inr c, r')" "c \<noteq> []" "length c \<le> k"
    "c = take (length c) bs" "delivers r' (drop (length c) bs)"
proof -
  from assms obtain c cs where r: "r = Chunk c # map Chunk cs" "c \<noteq> []" "[] \<notin> set cs"
    and bs: "bs = c @ concat cs"
    by (cases r) (auto simp: delivers_def)
  show thesis
  proof (cases "k < length c")
    case True
    then have "delivers (Chunk (drop k c) # map Chunk cs) (drop k bs)"
      unfolding delivers_def using r bs by (intro exI [of _ "drop k c # cs"]) auto
    with True r bs assms(3) show thesis by (intro that [of "take k c"]) auto
  next
    case False
    with r bs show thesis by (intro that [of c "map Chunk cs"]) (auto simp: delivers_def)
  qed
qed

lemma chunk_then_rest:
  assumes "length c \<le> n" "c = take (length c) bs"
  shows "c @ take (n - length c) (drop (length c) bs) = take n bs"
proof -
  have "take n bs = take (length c + (n - length c)) bs" using assms(1) by simp
  then show ?thesis using assms(2) by (metis take_add)
qed

lemma read_exact_delivers:
  assumes "delivers r bs" "length got \<le> k" "k - length got \<le> length bs"
  shows "\<exists>r'. read_exact k got r = (Inr (got @ take (k - length got) bs), r')
    \<and> delivers r' (drop (k - length got) bs)"
  using assms
proof (induction k got r arbitrary: bs rule: read_exact.induct)
  case (1 k got r)
  show ?case
  proof (cases "length got < k")
    case False
    with "1.prems" show ?thesis by (subst read_exact.simps) simp
  next
    case True
    then have "bs \<noteq> []" "0 < k - length got" using "1.prems" by auto
    with "1.prems"(1) obtain c r' where c: "read_some (k - length got) r = (Inr c, r')" "c \<noteq> []"
      "length c \<le> k - length got" "c = take (length c) bs" "delivers r' (drop (length c) bs)"
      by (rule delivers_read_some)
    have "\<exists>r''. read_exact k (got @ c) r' =
        (Inr ((got @ c) @ take (k - length (got @ c)) (drop (length c) bs)), r'')
        \<and> delivers r'' (drop (k - length (got @ c)) (drop (length c) bs))"
      using True c "1.prems" by (intro "1.IH" [OF True c(1) [symmetric] refl c(2)]) auto
    moreover have "(got @ c) @ take (k - length (got @ c)) (drop (length c) bs)
        = got @ take (k - length got) bs"
      using chunk_then_rest [OF c(3,4)] by simp
    ultimately show ?thesis
      using True c by (subst read_exact.simps) (simp add: add.commute)
  qed
qed

lemma read_header_delivers:
  assumes "delivers r bs" "length header \<le> 4" "4 - length header \<le> length bs"
  shows "\<exists>r'. read_header header r = (Inr (Some (header @ take (4 - length header) bs)), r')
    \<and> delivers r' (drop (4 - length header) bs)"
  using assms
proof (induction header r arbitrary: bs rule: read_header.induct)
  case (1 header r)
  show ?case
  proof (cases "length header < 4")
    case False
    with "1.prems" show ?thesis by (subst read_header.simps) simp
  next
    case True
    then have "bs \<noteq> []" "0 < 4 - length header" using "1.prems" by auto
    with "1.prems"(1) obtain c r' where c: "read_some (4 - length header) r = (Inr c, r')" "c \<noteq> []"
      "length c \<le> 4 - length header" "c = take (length c) bs" "delivers r' (drop (length c) bs)"
      by (rule delivers_read_some)
    have "\<exists>r''. read_header (header @ c) r' =
        (Inr (Some ((header @ c) @ take (4 - length (header @ c)) (drop (length c) bs))), r'')
        \<and> delivers r'' (drop (4 - length (header @ c)) (drop (length c) bs))"
      using True c "1.prems" by (intro "1.IH"(2) [OF True c(1) [symmetric] refl _ c(2)]) auto
    moreover have "(header @ c) @ take (4 - length (header @ c)) (drop (length c) bs)
        = header @ take (4 - length header) bs"
      using chunk_then_rest [OF c(3,4)] by simp
    ultimately show ?thesis
      using True c by (subst read_header.simps) (simp add: add.commute)
  qed
qed

lemma MAX_FRAME_SIZE_eq: "MAX_FRAME_SIZE = 1048576" "unat MAX_FRAME_SIZE = 1048576"
  by (simp_all add: MAX_FRAME_SIZE_def)

lemma u32_length:
  "length payload \<le> 1048576 \<Longrightarrow> unat (of_nat (length payload) :: u32) = length payload"
  by (simp add: unat_of_nat)

lemma write_frame_buffer_small:
  assumes "length payload \<le> 1048576"
  shows "write_frame_buffer w payload = Inr (w @ u32_to_be_bytes (of_nat (length payload)) @ payload)"
  using assms u32_length [OF assms]
  by (simp add: write_frame_buffer_def write_frame_def MAX_FRAME_SIZE_eq word_less_nat_alt)

text \<open>The bytes of a frame, and reading it back from any stream that starts with them.\<close>

definition frame_of :: "bytes \<Rightarrow> bytes" where
  "frame_of payload = u32_to_be_bytes (of_nat (length payload)) @ payload"

lemma read_frame_written:
  assumes "length payload \<le> 1048576" "delivers r (frame_of payload @ rest)"
  shows "\<exists>r'. read_frame r = (Inr (Some payload), r') \<and> delivers r' rest"
proof -
  let ?hdr = "u32_to_be_bytes (of_nat (length payload))"
  obtain r1 where r1: "read_header [] r = (Inr (Some ?hdr), r1)" "delivers r1 (payload @ rest)"
    using read_header_delivers [OF assms(2), of "[]"] by (auto simp: frame_of_def)
  obtain r2 where "read_exact (length payload) [] r1 = (Inr payload, r2)" "delivers r2 rest"
    using read_exact_delivers [OF r1(2), of "[]" "length payload"] by auto
  with r1 assms(1) u32_length [OF assms(1)] show ?thesis
    by (simp add: read_frame_def MAX_FRAME_SIZE_eq word_less_nat_alt)
qed

end
