(* ===== verification/Protocol_Claims.thy ===== *)
theory Protocol_Claims
  imports Protocol_Frame
begin

text \<open>
  The properties of the protocol crate: the byte fixtures of its test suite reproduced by the
  model, round trips and validity of decoded messages, framing, text forms, and the binding of
  the signed and hashed byte strings.
\<close>

section \<open>The V9 byte fixtures\<close>

text \<open>The values of the test \<open>every_delivery_tag_matches_sanitized_byte_fixtures\<close>.\<close>

definition fx_request_id :: MessageId where
  "fx_request_id = MessageId (replicate 16 0x11)"

definition fx_room :: RoomId where
  "fx_room = RoomId (replicate 16 0x22)"

definition fx_user :: UserId where
  "fx_user = UserId (replicate 16 0x33)"

definition fx_event_id :: MessageId where
  "fx_event_id = MessageId (replicate 16 0x44)"

definition fx_append :: Append where
  "fx_append = \<lparr>ap_room = fx_room, ap_parent = 7, ap_epoch = 3, ap_content_type = Commit,
     ap_body = [1, 2, 3], ap_welcome = None\<rparr>"

definition fx_event :: Event where
  "fx_event = \<lparr>ev_id = fx_event_id, ev_sender = fx_user, ev_operation = fx_append\<rparr>"

definition fx_welcome :: WelcomeDelivery where
  "fx_welcome = \<lparr>wd_room_name = str_of ''Cave'', wd_cursor = 1, wd_event = fx_event_id,
     wd_room = fx_room, wd_sequence = 8, wd_inviter = fx_user,
     wd_attachment = \<lparr>wa_recipient = UserId (replicate 16 0x55), wa_body = [0xaa, 0xbb],
       wa_signature = Ed25519SignatureBytes (replicate 64 0x66)\<rparr>\<rparr>"

definition fx_requests :: "Request list" where
  "fx_requests =
     [CreateRoom (str_of ''Cave''),
      PublishKeyPackages [[0xaa, 0xbb]],
      Acknowledge [fx_event_id] [],
      AppendRoomOperation fx_append,
      FetchRoomEvents fx_room 7,
      SyncIndex (Some fx_room),
      FetchWelcomes 7,
      ReserveKeyPackage fx_user,
      SetFetchGrant fx_user True]"

definition fx_responses :: "Response list" where
  "fx_responses =
     [RoomCreated fx_room,
      KeyPackagesPublished 2,
      Acknowledged,
      AppendAccepted fx_event,
      HeadConflict fx_room 9,
      RoomEvents fx_room 7 [fx_event] False,
      SyncIndexPage [\<lparr>rh_room = fx_room, rh_name = str_of ''Cave'', rh_sequence = 9\<rparr>] False,
      Welcomes 0 [fx_welcome] False,
      KeyPackage fx_user [0xaa, 0xbb],
      FetchGrantSet,
      Rejected RequestConflict]"

lemmas fx_defs = fx_requests_def fx_responses_def fx_request_id_def fx_room_def fx_user_def
  fx_event_id_def fx_append_def fx_event_def fx_welcome_def

lemmas wire_eval = ser_client_message_def ser_relay_message_def ser_request_def ser_response_def
  ser_append_def ser_event_def ser_welcome_def ser_attachment_def ser_room_head_def
  ser_rejection_def serialize_tagged_def postcard_v1_def varint.simps byte_of_def ser_ids
  ser_array_def ser_content_type_def ser_vec_u8_def ser_seq_def ser_option_def ser_str_def
  str_len_def utf8_encode_def utf8_char_def str_of_def replicate_unfold

lemmas hex_eval = hex_string_def hex_byte_def hex_digit_def

text \<open>
  With the documented postcard format, the model's encoders produce byte for byte
  the fixtures \<open>tests/fixtures/v9.hex\<close>: all nine request tags and all eleven response tags,
  inside their outer message, compared in hexadecimal as the test does.
\<close>

theorem v9_fixtures:
  "map (\<lambda>r. hex_string (ser_client_message postcard_v1 (ClientDelivery fx_request_id r))) fx_requests
   = map str_of
     [''6411111111111111111111111111111111000443617665'',
      ''6411111111111111111111111111111111010102aabb'',
      ''641111111111111111111111111111111102014444444444444444444444444444444400'',
      (''64111111111111111111111111111111110322222222222222222222222222222222070302030102''
        @ ''0300''),
      ''6411111111111111111111111111111111042222222222222222222222222222222207'',
      ''6411111111111111111111111111111111050122222222222222222222222222222222'',
      ''64111111111111111111111111111111110607'',
      ''64111111111111111111111111111111110733333333333333333333333333333333'',
      ''6411111111111111111111111111111111083333333333333333333333333333333301'']
   \<and> map (\<lambda>r. hex_string (ser_relay_message postcard_v1 (RelayDelivery fx_request_id r))) fx_responses
   = map str_of
     [''64111111111111111111111111111111110022222222222222222222222222222222'',
      ''64111111111111111111111111111111110102'',
      ''641111111111111111111111111111111102'',
      (''64111111111111111111111111111111110344444444444444444444444444444444333333333333''
        @ ''33333333333333333333222222222222222222222222222222220703020301020300''),
      ''6411111111111111111111111111111111042222222222222222222222222222222209'',
      (''64111111111111111111111111111111110522222222222222222222222222222222070144444444''
        @ ''44444444444444444444444433333333333333333333333333333333222222222222222222222222''
        @ ''22222222070302030102030000''),
      (''64111111111111111111111111111111110601222222222222222222222222222222220443617665''
        @ ''0900''),
      (''64111111111111111111111111111111110700010443617665014444444444444444444444444444''
        @ ''44442222222222222222222222222222222208333333333333333333333333333333335555555555''
        @ ''555555555555555555555502aabb6666666666666666666666666666666666666666666666666666''
        @ ''666666666666666666666666666666666666666666666666666666666666666666666666666600''),
      ''6411111111111111111111111111111111083333333333333333333333333333333302aabb'',
      ''641111111111111111111111111111111109'',
      ''64111111111111111111111111111111110a03'']"
  by (simp add: fx_defs wire_eval hex_eval)

section \<open>Whole messages\<close>

context postcard_wire
begin

lemma client_message_decode_encode:
  "wf_client_message m \<Longrightarrow> encode_message (ser_client_message pc) m = Inr bs \<Longrightarrow>
   decode_message (take_client_message pc) bs = Inr m"
  by (rule client_message.decode_encode)

lemma relay_message_decode_encode:
  "wf_relay_message m \<Longrightarrow> encode_message (ser_relay_message pc) m = Inr bs \<Longrightarrow>
   decode_message (take_relay_message pc) bs = Inr m"
  by (rule relay_message.decode_encode)

lemma client_message_limits: "decode_message (take_client_message pc) bs = Inr m \<Longrightarrow> wf_client_message m"
  by (rule client_message.decode_valid)

lemma request_inject: "wf_request r \<Longrightarrow> wf_request s \<Longrightarrow> ser_request pc r = ser_request pc s \<longleftrightarrow> r = s"
  by (rule request.ser_inject)

lemma client_message_trailing:
  assumes "wf_client_message m" "t \<noteq> []"
  shows "decode_message (take_client_message pc) (ser_client_message pc m @ t)
    = Inl (if length (ser_client_message pc m @ t) > MAX_PAYLOAD then PayloadLimit else TrailingBytes)"
  using assms client_message.decode_trailing [of m t] by (auto simp: decode_message_def)

end

text \<open>
  Property C34. A client message within the wire limits that the encoder accepts is decoded by
  the relay to the same message, for any postcard primitives that behave as documented.
\<close>

theorem client_messages_survive_the_wire:
  assumes "postcard_wire pc" "wf_client_message m"
    and "encode_message (ser_client_message pc) m = Inr bs"
  shows "decode_message (take_client_message pc) bs = Inr m"
  using assms by (rule postcard_wire.client_message_decode_encode)

theorem client_messages_survive_the_wire_witness:
  "decode_message (take_client_message postcard_v1) [1, 9] = Inr (ClientHello 9)"
proof (rule client_messages_survive_the_wire)
  show "postcard_wire postcard_v1" by unfold_locales
  show "wf_client_message (ClientHello 9)" by (simp add: wf_client_message_def)
  show "encode_message (ser_client_message postcard_v1) (ClientHello 9) = Inr [1, 9]"
    by (simp add: encode_message_def MAX_PAYLOAD_def wire_eval)
qed

text \<open>
  The same for the messages of the relay: what the encoder accepts, the client
  decodes to the same message, pages of events, welcomes and rooms included.
\<close>

theorem relay_messages_survive_the_wire:
  assumes "postcard_wire pc" "wf_relay_message m"
    and "encode_message (ser_relay_message pc) m = Inr bs"
  shows "decode_message (take_relay_message pc) bs = Inr m"
  using assms by (rule postcard_wire.relay_message_decode_encode)

theorem relay_messages_survive_the_wire_witness:
  "decode_message (take_relay_message postcard_v1) (100 # replicate 16 0x11 @ [5] @ replicate 16 0x22
     @ [7, 1] @ replicate 16 0x44 @ replicate 16 0x33 @ replicate 16 0x22
     @ [7, 3, 2, 3, 1, 2, 3, 0, 0])
   = Inr (RelayDelivery fx_request_id (RoomEvents fx_room 7 [fx_event] False))"
proof (rule relay_messages_survive_the_wire)
  show "postcard_wire postcard_v1" by unfold_locales
  show "wf_relay_message (RelayDelivery fx_request_id (RoomEvents fx_room 7 [fx_event] False))"
    by (simp add: wf_relay_message_def wf_response_def wf_event_def wf_append_def wf_ids fx_defs)
  show "encode_message (ser_relay_message postcard_v1)
      (RelayDelivery fx_request_id (RoomEvents fx_room 7 [fx_event] False))
    = Inr (100 # replicate 16 0x11 @ [5] @ replicate 16 0x22 @ [7, 1] @ replicate 16 0x44
        @ replicate 16 0x33 @ replicate 16 0x22 @ [7, 3, 2, 3, 1, 2, 3, 0, 0])"
    by (simp add: encode_message_def MAX_PAYLOAD_def wire_eval fx_defs)
qed

text \<open>
  Property C35. Whatever bytes a peer sends, a client message that the relay decodes is within
  the wire limits: identifiers of 16 bytes, keys of 32, at most 100 receipts, at most 64 packages
  of at most 16 KiB, bodies of at most 512 KiB, names of at most 400 bytes of valid UTF-8; and
  the payload itself is at most 768 KiB.
\<close>

theorem decoded_client_messages_are_bounded:
  assumes "postcard_wire pc" "decode_message (take_client_message pc) bs = Inr m"
  shows "wf_client_message m \<and> length bs \<le> MAX_PAYLOAD"
  using postcard_wire.client_message_limits [OF assms] assms(2)
  by (auto simp: decode_message_def split: if_splits)

theorem decoded_client_messages_are_bounded_witness:
  "wf_client_message (ClientHello 9) \<and> length [1, 9 :: u8] \<le> MAX_PAYLOAD"
proof (rule decoded_client_messages_are_bounded)
  show "postcard_wire postcard_v1" by unfold_locales
  show "decode_message (take_client_message postcard_v1) [1, 9] = Inr (ClientHello 9)"
    by (simp add: decode_message_def MAX_PAYLOAD_def take_client_message_def postcard_v1_def
        take_below_def visited_def)
qed

text \<open>
  Bytes after a complete client message are never ignored: decoding fails, with the
  payload limit checked first.
\<close>

theorem trailing_bytes_are_rejected:
  assumes "postcard_wire pc" "wf_client_message m" "t \<noteq> []"
  shows "decode_message (take_client_message pc) (ser_client_message pc m @ t)
    = Inl (if length (ser_client_message pc m @ t) > MAX_PAYLOAD then PayloadLimit else TrailingBytes)"
  using assms by (rule postcard_wire.client_message_trailing)

theorem trailing_bytes_are_rejected_witness:
  "decode_message (take_client_message postcard_v1) [1, 9, 0xff] = Inl TrailingBytes"
proof -
  have "postcard_wire postcard_v1" by unfold_locales
  moreover have "wf_client_message (ClientHello 9)" by (simp add: wf_client_message_def)
  moreover have "[0xff :: u8] \<noteq> []" by simp
  ultimately have "decode_message (take_client_message postcard_v1)
      (ser_client_message postcard_v1 (ClientHello 9) @ [0xff])
    = Inl (if length (ser_client_message postcard_v1 (ClientHello 9) @ [0xff]) > MAX_PAYLOAD
           then PayloadLimit else TrailingBytes)"
    by (rule trailing_bytes_are_rejected)
  then show ?thesis by (simp add: wire_eval MAX_PAYLOAD_def)
qed

text \<open>
  Two different requests within the wire limits have the same payload hash only if
  SHA-256 itself collides on two different byte strings: the hash the relay compares on a retry
  identifies the request.
\<close>

theorem payload_hash_identifies_the_request:
  assumes "postcard_wire pc" "wf_request r" "wf_request s" "r \<noteq> s"
    and "payload_hash pc sha256 r = Inr h" "payload_hash pc sha256 s = Inr h"
  shows "\<exists>x y. x \<noteq> y \<and> sha256 x = sha256 y \<and> sha256 x = h"
proof -
  have "ser_request pc r \<noteq> ser_request pc s"
    using postcard_wire.request_inject [OF assms(1-3)] assms(4) by simp
  moreover have "sha256 (ser_request pc r) = h" "sha256 (ser_request pc s) = h"
    using assms(5,6) by (auto simp: payload_hash_def encode_message_def Let_def split: if_splits)
  ultimately show ?thesis by metis
qed

theorem payload_hash_identifies_the_request_witness:
  "\<exists>x y :: bytes. x \<noteq> y \<and> (\<lambda>_. []) x = (\<lambda>_. [] :: bytes) y \<and> (\<lambda>_ :: bytes. [] :: bytes) x = []"
proof (rule payload_hash_identifies_the_request)
  show "postcard_wire postcard_v1" by unfold_locales
  show "wf_request (FetchWelcomes 1)" "wf_request (FetchWelcomes 2)" by (simp_all add: wf_request_def)
  show "FetchWelcomes 1 \<noteq> FetchWelcomes 2" by simp
  show "payload_hash postcard_v1 (\<lambda>_. []) (FetchWelcomes 1) = Inr []"
    "payload_hash postcard_v1 (\<lambda>_. []) (FetchWelcomes 2) = Inr []"
    by (simp_all add: payload_hash_def encode_message_def MAX_PAYLOAD_def wire_eval)
qed

section \<open>Framing\<close>

text \<open>
  Property C36. A payload of at most 1 MiB that \<open>write_frame\<close> put on the stream is read back by
  \<open>read_frame\<close> whatever sizes the transport's reads have, and what follows the frame stays on
  the stream for the next call.
\<close>

theorem frames_survive_fragmentation:
  assumes "length payload \<le> 1048576" "write_frame_buffer [] payload = Inr wire"
    and "delivers r (wire @ rest)"
  shows "\<exists>r'. read_frame r = (Inr (Some payload), r') \<and> delivers r' rest"
proof -
  have "wire = frame_of payload"
    using assms(2) write_frame_buffer_small [OF assms(1), of "[]"] by (simp add: frame_of_def)
  with assms(3) show ?thesis using read_frame_written [OF assms(1)] by blast
qed

theorem frames_survive_fragmentation_witness:
  "\<exists>r'. read_frame [Chunk [0, 0], Chunk [0, 1, 42], Chunk [7]] = (Inr (Some [42]), r')
     \<and> delivers r' [7]"
proof (rule frames_survive_fragmentation)
  show "length [42 :: u8] \<le> 1048576" by simp
  show "write_frame_buffer [] [42] = Inr [0, 0, 0, 1, 42]"
    by (simp add: write_frame_buffer_small u32_to_be_bytes_def be_bytes_numeral byte_of_def)
  show "delivers [Chunk [0, 0], Chunk [0, 1, 42], Chunk [7]] ([0, 0, 0, 1, 42] @ [7])"
    unfolding delivers_def by (intro exI [of _ "[[0, 0], [0, 1, 42], [7]]"]) simp
qed

lemma delivers_Nil: "bs = [] \<Longrightarrow> delivers r bs \<Longrightarrow> r = []"
  by (cases r) (auto simp: delivers_def)

lemma delivers_short:
  assumes "delivers r bs" "length header + length bs < 4"
  shows "\<exists>r'. read_header header r =
    ((if header @ bs = [] then Inr None else Inl (TruncatedHeader (length header + length bs))), r')"
  using assms
proof (induction "length bs" arbitrary: bs header r rule: less_induct)
  case less
  show ?case
  proof (cases "bs = []")
    case True
    then have "r = []" using less.prems(1) by (rule delivers_Nil)
    with True less.prems show ?thesis by (subst read_header.simps) simp
  next
    case False
    have "0 < 4 - length header" using less.prems(2) by simp
    with less.prems(1) False obtain c r' where c: "read_some (4 - length header) r = (Inr c, r')"
      "c \<noteq> []" "length c \<le> 4 - length header" "c = take (length c) bs"
      "delivers r' (drop (length c) bs)"
      by (rule delivers_read_some)
    have len: "length c \<le> length bs" using c(4) by (metis length_take min.cobounded1)
    have "length (drop (length c) bs) < length bs" using c(2) False by (cases c) auto
    then have "\<exists>r''. read_header (header @ c) r' = ((if (header @ c) @ drop (length c) bs = []
        then Inr None
        else Inl (TruncatedHeader (length (header @ c) + length (drop (length c) bs)))), r'')"
      by (rule less.hyps [OF _ c(5)]) (use less.prems(2) len in simp)
    moreover have "length header < 4" using less.prems(2) by simp
    ultimately show ?thesis using c(1,2) len False by (subst read_header.simps) auto
  qed
qed

lemma read_exact_short:
  assumes "delivers r bs" "length got + length bs < k"
  shows "\<exists>r'. read_exact k got r = (Inl UnexpectedEof, r')"
  using assms
proof (induction "length bs" arbitrary: bs got r rule: less_induct)
  case less
  show ?case
  proof (cases "bs = []")
    case True
    then have "r = []" using less.prems(1) by (rule delivers_Nil)
    with True less.prems show ?thesis by (subst read_exact.simps) simp
  next
    case False
    have "0 < k - length got" using less.prems(2) by simp
    with less.prems(1) False obtain c r' where c: "read_some (k - length got) r = (Inr c, r')"
      "c \<noteq> []" "length c \<le> k - length got" "c = take (length c) bs"
      "delivers r' (drop (length c) bs)"
      by (rule delivers_read_some)
    have len: "length c \<le> length bs" using c(4) by (metis length_take min.cobounded1)
    have "length (drop (length c) bs) < length bs" using c(2) False by (cases c) auto
    then have "\<exists>r''. read_exact k (got @ c) r' = (Inl UnexpectedEof, r'')"
      by (rule less.hyps [OF _ c(5)]) (use less.prems(2) len in simp)
    moreover have "length got < k" using less.prems(2) by simp
    ultimately show ?thesis using c(1,2) by (subst read_exact.simps) simp
  qed
qed

text \<open>
  What \<open>read_frame\<close> reports on a stream of bytes \<open>bs\<close> that holds no complete frame:
  nothing at all is an orderly end, one to three bytes are a truncated header, a declared length
  above 1 MiB is refused before any payload byte is read, and a payload that ends early is a
  truncated payload.
\<close>

theorem read_frame_failures:
  assumes "delivers r bs" "len = u32_from_be_bytes (take 4 bs)" "length bs < 4 + unat len"
  shows "\<exists>r'. read_frame r =
    ((if bs = [] then Inr None
      else if length bs < 4 then Inl (TruncatedHeader (length bs))
      else if len > MAX_FRAME_SIZE then Inl (FrameTooLarge len)
      else Inl (TruncatedPayload len)), r')"
proof (cases "length bs < 4")
  case True
  with assms delivers_short [of r bs "[]"] show ?thesis
    by (auto simp: read_frame_def)
next
  case False
  with assms obtain r1 where r1: "read_header [] r = (Inr (Some (take 4 bs)), r1)"
    "delivers r1 (drop 4 bs)"
    using read_header_delivers [of r bs "[]"] by auto
  obtain r2 where "read_exact (unat len) [] r1 = (Inl UnexpectedEof, r2)"
    using read_exact_short [OF r1(2), of "[]" "unat len"] assms(3) False
    by (auto simp: less_diff_conv2)
  with r1 assms(2) False show ?thesis
    by (auto simp: read_frame_def)
qed

theorem read_frame_failures_witness:
  "\<exists>r'. read_frame [Chunk [0, 0], Chunk [0, 8, 1]] = (Inl (TruncatedPayload 8), r')"
proof -
  have d: "delivers [Chunk [0, 0], Chunk [0, 8, 1]] [0, 0, 0, 8, 1]"
    unfolding delivers_def by (intro exI [of _ "[[0, 0], [0, 8, 1]]"]) simp
  have l: "8 = u32_from_be_bytes (take 4 [0, 0, 0, 8, 1])"
    by (simp add: u32_from_be_bytes_def be_value_def)
  have "length [0, 0, 0, 8, 1 :: u8] < 4 + unat (8 :: u32)" by simp
  from read_frame_failures [OF d l this] show ?thesis by (simp add: MAX_FRAME_SIZE_def)
qed

section \<open>Text forms\<close>

lemma to_digit_bounds: "to_digit 16 c = Some n \<Longrightarrow> n < 16 \<and> c < 0x80"
  by (auto simp: to_digit_def Let_def split: if_splits)

lemma byte_of_eq: "n < 256 \<Longrightarrow> byte_of n = b \<longleftrightarrow> unat b = n"
  using unat_byte_of [of n] by (auto simp: word_unat_eq_iff)

lemma hex_u8_pair:
  "hex_u8 [c, d] = Some b \<longleftrightarrow>
     (\<exists>hi lo. (to_digit 16 c = Some hi \<or> c = 0x2B \<and> hi = 0) \<and> to_digit 16 d = Some lo
       \<and> unat b = 16 * hi + lo)"
proof (cases "to_digit 16 d")
  case None
  then show ?thesis by (auto simp: hex_u8_def from_str_radix_def split: option.splits)
next
  case (Some lo)
  then have lo: "lo < 16" by (simp add: to_digit_bounds)
  show ?thesis
  proof (cases "to_digit 16 c")
    case None
    with Some lo show ?thesis by (auto simp: hex_u8_def from_str_radix_def byte_of_eq)
  next
    case (Some hi)
    moreover from Some have "hi < 16" "c \<noteq> 0x2B" by (auto simp: to_digit_bounds to_digit_def)
    ultimately show ?thesis
      using \<open>to_digit 16 d = Some lo\<close> lo by (auto simp: hex_u8_def from_str_radix_def byte_of_eq mult.commute)
  qed
qed

lemma hex_pairs_ascii: "hex_pairs cs = Some bs \<Longrightarrow> is_ascii cs"
  by (induction cs arbitrary: bs rule: hex_pairs.induct)
    (auto simp: is_ascii_def bind_Some_iff hex_u8_pair dest: to_digit_bounds)

lemma hex_pairs_nth:
  "hex_pairs cs = Some bs \<longleftrightarrow>
     length cs = 2 * length bs \<and> (\<forall>i < length bs. hex_u8 [cs ! (2 * i), cs ! (2 * i + 1)] = Some (bs ! i))"
proof (induction cs arbitrary: bs rule: hex_pairs.induct)
  case (3 c d cs)
  show ?case
    by (cases bs) (auto simp: bind_Some_iff "3.IH" All_less_Suc2)
qed auto

text \<open>
  The exact language of the identifier parser: a text is accepted exactly when it
  has 32 characters and each of the 16 pairs is two hexadecimal digits of either case or a plus
  sign and one digit; the identifier is then the 16 bytes the pairs denote. In particular the
  parser accepts texts that \<open>Display\<close> never prints.
\<close>

theorem identifier_text:
  "id_from_str UserId s = Inr (UserId bs) \<longleftrightarrow>
     length bs = 16 \<and> length s = 32 \<and>
     (\<forall>i < 16. \<exists>hi lo. (to_digit 16 (s ! (2 * i)) = Some hi \<or> s ! (2 * i) = 0x2B \<and> hi = 0)
        \<and> to_digit 16 (s ! (2 * i + 1)) = Some lo \<and> unat (bs ! i) = 16 * hi + lo)"
  (is "?l \<longleftrightarrow> _ \<and> _ \<and> ?pairs")
proof
  assume ?l
  then have p: "hex_pairs s = Some bs" "str_len s = 32" "is_ascii s"
    by (auto simp: id_from_str_def split: if_splits option.splits)
  then have "length s = 32" by (simp add: is_ascii_utf8)
  with p(1) show "length bs = 16 \<and> length s = 32 \<and> ?pairs"
    by (auto simp: hex_pairs_nth hex_u8_pair)
next
  assume r: "length bs = 16 \<and> length s = 32 \<and> ?pairs"
  then have "hex_pairs s = Some bs" by (auto simp: hex_pairs_nth hex_u8_pair)
  moreover from this have "is_ascii s" by (rule hex_pairs_ascii)
  ultimately show ?l using r by (simp add: id_from_str_def is_ascii_utf8)
qed

lemma nth_concat_replicate:
  "i < n \<Longrightarrow> concat (replicate n [a, b]) ! (2 * i) = a \<and> concat (replicate n [a, b]) ! Suc (2 * i) = b"
proof (induction n arbitrary: i)
  case (Suc n)
  then show ?case by (cases i) auto
qed simp

theorem identifier_text_witness:
  "id_from_str UserId (concat (replicate 16 (str_of ''+a''))) = Inr (UserId (replicate 16 10))"
  by (subst identifier_text) (simp add: length_concat sum_list_replicate str_of_def nth_concat_replicate to_digit_def)

text \<open>
  Printing and parsing are inverse on well-formed data: the printed form of every
  identifier parses to it, and the printed fingerprint of a certificate parses to the 32 bytes of
  its digest, surrounded by white space or not.
\<close>

theorem text_roundtrip:
  assumes "length bs = 16" "length (sha256 cert) = 32" "list_all is_whitespace before"
    "list_all is_whitespace after"
  shows "id_from_str mk (id_fmt bs) = Inr (mk bs)
    \<and> parse_fingerprint_hex (before @ cert_fingerprint_sha256_hex sha256 cert @ after)
       = Inr (sha256 cert)"
proof
  show "id_from_str mk (id_fmt bs) = Inr (mk bs)" using assms(1) by (rule id_from_str_fmt)
  let ?hex = "cert_fingerprint_sha256_hex sha256 cert"
  have "trim (before @ ?hex @ after) = trim ?hex"
    using trim_surround [OF assms(3,4), of ?hex] by (simp add: fingerprint_eq_hex_string trim_hex_string)
  then have "parse_fingerprint_hex (before @ ?hex @ after) = parse_fingerprint_hex ?hex"
    by (simp add: parse_fingerprint_hex_def)
  with assms(2) show "parse_fingerprint_hex (before @ ?hex @ after) = Inr (sha256 cert)"
    by (simp add: parse_fingerprint_of_digest)
qed

theorem text_roundtrip_witness:
  "id_from_str RoomId (id_fmt (replicate 16 0x2a)) = Inr (RoomId (replicate 16 0x2a))
    \<and> parse_fingerprint_hex ([0x20] @ cert_fingerprint_sha256_hex (\<lambda>_. replicate 32 7) [] @ [0x0a])
       = Inr (replicate 32 7)"
  by (rule text_roundtrip) (simp_all add: is_whitespace_def)

text \<open>
  Room names: the result of \<open>normalize_room_name\<close> on any valid text, its three
  errors in the order the checks are made, and, when it succeeds, a name that is trimmed,
  between 1 and 100 characters, free of control characters, a fixed point of the function, and
  within the 400 bytes the wire format allows for a name.
\<close>

theorem room_names_are_normalized:
  assumes "valid_str s"
  shows "case normalize_room_name s of
      Inl Empty \<Rightarrow> trim s = []
    | Inl TooLong \<Rightarrow> 100 < length (trim s)
    | Inl ControlCharacter \<Rightarrow> length (trim s) \<in> {1..100} \<and> (\<exists>c \<in> set (trim s). is_control c)
    | Inr n \<Rightarrow> n = trim s \<and> length n \<in> {1..100} \<and> \<not> (\<exists>c \<in> set n. is_control c)
        \<and> \<not> is_whitespace (hd n) \<and> \<not> is_whitespace (last n)
        \<and> normalize_room_name n = Inr n \<and> wf_name n"
proof (cases "normalize_room_name s")
  case (Inl e)
  then show ?thesis
    by (auto simp: normalize_room_name_def Let_def MAX_ROOM_NAME_CHARS_def list_ex_iff Suc_le_eq
        split: if_splits)
next
  case (Inr n)
  then have n: "n = trim s" "n \<noteq> []" "length n \<le> 100" "\<not> list_ex is_control n"
    unfolding normalize_room_name_Inr by blast+
  then have "normalize_room_name n = Inr n" by (simp add: normalize_room_name_Inr trim_idem)
  moreover have "length n \<in> {1..100}" "\<not> (\<exists>c \<in> set n. is_control c)" "wf_name n"
    using n normalize_room_name_valid [OF Inr assms] by (auto simp: list_ex_iff wf_name_def Suc_le_eq)
  ultimately show ?thesis using Inr n trim_ends [of s] by simp
qed

theorem room_names_are_normalized_witness:
  "case normalize_room_name (str_of '' Cave '') of
      Inl Empty \<Rightarrow> trim (str_of '' Cave '') = []
    | Inl TooLong \<Rightarrow> 100 < length (trim (str_of '' Cave ''))
    | Inl ControlCharacter \<Rightarrow> length (trim (str_of '' Cave '')) \<in> {1..100}
        \<and> (\<exists>c \<in> set (trim (str_of '' Cave '')). is_control c)
    | Inr n \<Rightarrow> n = trim (str_of '' Cave '') \<and> length n \<in> {1..100} \<and> \<not> (\<exists>c \<in> set n. is_control c)
        \<and> \<not> is_whitespace (hd n) \<and> \<not> is_whitespace (last n)
        \<and> normalize_room_name n = Inr n \<and> wf_name n"
  by (rule room_names_are_normalized) (simp add: str_of_def is_scalar_def)

section \<open>Signed and hashed byte strings\<close>

lemma ids_eq_iff:
  "UserId_to_bytes u = UserId_to_bytes u' \<longleftrightarrow> u = u'" "RoomId_to_bytes r = RoomId_to_bytes r' \<longleftrightarrow> r = r'"
  "MessageId_to_bytes m = MessageId_to_bytes m' \<longleftrightarrow> m = m'"
  "public_key_bytes k = public_key_bytes k' \<longleftrightarrow> k = k'" "challenge_bytes c = challenge_bytes c' \<longleftrightarrow> c = c'"
  by (cases u, cases u', simp, cases r, cases r', simp, cases m, cases m', simp,
      cases k, cases k', simp, cases c, cases c', simp)

text \<open>
  The string signed to log in determines every field: two transcripts are equal
  only when version, user, key and challenge are, so a signature cannot be carried over to
  another account, key, version or challenge.
\<close>

theorem authentication_transcript_binds:
  assumes "wf_user u" "wf_public_key k" "wf_challenge c"
    and "wf_user u'" "wf_public_key k'" "wf_challenge c'"
  shows "authentication_transcript v u k c = authentication_transcript v' u' k' c' \<longleftrightarrow>
    v = v' \<and> u = u' \<and> k = k' \<and> c = c'"
  using assms
  by (auto simp: authentication_transcript_eq wf_ids ids_eq_iff dest!: append_eq_same_length)

theorem authentication_transcript_binds_witness:
  "authentication_transcript 9 (UserId (replicate 16 1)) (Ed25519PublicKeyBytes (replicate 32 2))
       (AuthenticationChallenge (replicate 32 3)) =
     authentication_transcript 8 (UserId (replicate 16 1)) (Ed25519PublicKeyBytes (replicate 32 2))
       (AuthenticationChallenge (replicate 32 3)) \<longleftrightarrow>
    9 = (8 :: u16) \<and> UserId (replicate 16 1) = UserId (replicate 16 1)
    \<and> Ed25519PublicKeyBytes (replicate 32 2) = Ed25519PublicKeyBytes (replicate 32 2)
    \<and> AuthenticationChallenge (replicate 32 3) = AuthenticationChallenge (replicate 32 3)"
  by (rule authentication_transcript_binds) (simp_all add: wf_ids)

text \<open>
  The string an inviter signs for a welcome determines recipient, room, event,
  sequence and the digest of the welcome body, and it is never a login transcript: one identity
  key signs both, and the domains keep them apart.
\<close>

theorem welcome_transcript_binds:
  assumes "wf_user u" "wf_room r" "wf_message e" "wf_user u'" "wf_room r'" "wf_message e'"
    and "wf_user v" "wf_public_key k" "wf_challenge c"
  shows "(welcome_transcript sha256 u r e s b = welcome_transcript sha256 u' r' e' s' b' \<longleftrightarrow>
      u = u' \<and> r = r' \<and> e = e' \<and> s = s' \<and> sha256 b = sha256 b')
    \<and> welcome_transcript sha256 u r e s b \<noteq> authentication_transcript version v k c"
  using assms
  by (auto simp: welcome_transcript_def authentication_transcript_eq wf_ids ids_eq_iff
      AUTHENTICATION_DOMAIN_def dest!: append_eq_same_length)

theorem welcome_transcript_binds_witness:
  "(welcome_transcript id fx_user fx_room fx_event_id 8 [1] = welcome_transcript id fx_user fx_room fx_event_id 8 [2] \<longleftrightarrow>
      fx_user = fx_user \<and> fx_room = fx_room \<and> fx_event_id = fx_event_id \<and> 8 = (8 :: u64) \<and> id [1 :: u8] = id [2])
    \<and> welcome_transcript id fx_user fx_room fx_event_id 8 [1] \<noteq>
        authentication_transcript 9 fx_user (Ed25519PublicKeyBytes (replicate 32 2))
          (AuthenticationChallenge (replicate 32 3))"
  by (rule welcome_transcript_binds) (simp_all add: wf_ids fx_defs)

end
