(* ===== verification/Relay_Storage.thy ===== *)
theory Relay_Storage
  imports Protocol_Frame "HOL-Library.List_Lexorder"
begin

text \<open>
  The SQLite repository of the relay (\<open>grotto-relay/src/storage.rs\<close>) and the statements the relay
  issues against it. A table is a list of rows, or a map where a primary key makes the rows a
  function; the engine's own failures are a parameter: for every statement the environment says
  whether it fails. A statement that fails, or violates a constraint, yields \<open>Database\<close>.
\<close>

section \<open>Errors\<close>

datatype sql_error = SqlFault | NoRows | ConstraintViolation | ToSqlConversion | FromSqlConversion | DatabaseFull

datatype StorageError =
    File io_kind
  | Database sql_error
  | InvalidStoredData string
  | LockPoisoned
  | Random
  | IdentityKeyConflict
  | EnrollmentRequired

datatype Registration = New | Existing

section \<open>Order of identifiers\<close>

text \<open>SQLite compares blobs byte by byte; the identifiers are ordered as their bytes.\<close>

instantiation RoomId :: linorder
begin

definition less_eq_RoomId :: "RoomId \<Rightarrow> RoomId \<Rightarrow> bool" where
  "less_eq_RoomId a b \<longleftrightarrow> RoomId_to_bytes a \<le> RoomId_to_bytes b"

definition less_RoomId :: "RoomId \<Rightarrow> RoomId \<Rightarrow> bool" where
  "less_RoomId a b \<longleftrightarrow> RoomId_to_bytes a < RoomId_to_bytes b"

instance
  by intro_classes (auto simp: less_eq_RoomId_def less_RoomId_def RoomId.expand)

end

section \<open>The tables\<close>

record RoomRow =
  rm_room_id :: RoomId
  rm_name :: rstr
  rm_created_by :: UserId
  rm_created_at :: int

record KeyPackageRow =
  kp_rowid :: nat
  kp_user_id :: UserId
  kp_key_package :: bytes
  kp_published_at :: int

record TokenRow =
  tk_hash :: bytes
  tk_user_id :: UserId
  tk_fingerprint :: bytes
  tk_expires :: int
  tk_consumed :: bool

record EventRow =
  er_room :: RoomId
  er_sequence :: u64
  er_event_id :: MessageId
  er_sender :: UserId
  er_record :: bytes

record WelcomeRow =
  wr_cursor :: u64
  wr_recipient :: UserId
  wr_record :: bytes

record AllocationRow =
  al_requester :: UserId
  al_recipient :: UserId
  al_allocated_at :: int

text \<open>
  \<open>db_welcome_autoincrement\<close> is SQLite's memory of the largest cursor ever used. A usage counter
  above \<open>i64::MAX\<close> stands for the floating-point number SQLite then stores.
\<close>

record Db =
  db_identities :: "UserId \<rightharpoonup> Ed25519PublicKeyBytes"
  db_rooms :: "RoomRow list"
  db_room_subscribers :: "(RoomId \<times> UserId) list"
  db_key_packages :: "KeyPackageRow list"
  db_enrollment_tokens :: "TokenRow list"
  db_usage_sender :: "UserId \<rightharpoonup> nat"
  db_usage_room :: "RoomId \<rightharpoonup> nat"
  db_delivery_requests :: "UserId \<times> MessageId \<rightharpoonup> bytes \<times> bytes"
  db_delivery_events :: "EventRow list"
  db_delivery_welcomes :: "WelcomeRow list"
  db_welcome_autoincrement :: u64
  db_fetch_grants :: "(UserId \<times> UserId) list"
  db_package_allocations :: "AllocationRow list"

definition empty_db :: Db where
  "empty_db = \<lparr>db_identities = Map.empty, db_rooms = [], db_room_subscribers = [], db_key_packages = [],
     db_enrollment_tokens = [], db_usage_sender = Map.empty, db_usage_room = Map.empty,
     db_delivery_requests = Map.empty, db_delivery_events = [], db_delivery_welcomes = [],
     db_welcome_autoincrement = 0, db_fetch_grants = [], db_package_allocations = []\<rparr>"

section \<open>The environment of one call\<close>

datatype sql_statement =
    BeginImmediate | Commit_tx
  | SelectRequest | InsertRequest
  | PragmaPageSize | PragmaPageCount | SelectUsageSender | SelectUsageRoom
  | UpsertUsageSender | UpsertUsageRoom
  | CountRooms | InsertRoom | InsertSubscriber | SelectSubscribed
  | CountKeyPackages | InsertKeyPackage nat | SelectKeyPackage | DeleteKeyPackage
  | InsertGrant | DeleteGrant | SelectGrant | CountAllocations | InsertAllocation
  | SelectHead | SelectEventExists | InsertEvent | SelectRoomName | InsertWelcome
  | SelectEvents | SelectEventRow nat | SelectRooms | SelectRoomRow nat | SelectWelcomes | SelectWelcomeRow nat
  | SelectReceiptEvent nat | SelectReceiptWelcome nat
  | SelectIdentity | InsertIdentity | InsertToken | ConsumeToken

record relay_env =
  sql_fault :: "sql_statement \<Rightarrow> bool"
  lock_poisoned :: bool
  unixepoch :: int
  random_room :: "RoomId option"
  random_token :: "bytes option"
  page_size :: u64
  page_count :: u64
  wal_metadata :: "io_kind + u64"
  parent_has_nul :: bool
  statvfs :: "io_kind + (u64 \<times> u64)"

text \<open>One statement: \<open>v\<close> is its result when the engine does not fail.\<close>

definition sql :: "relay_env \<Rightarrow> sql_statement \<Rightarrow> StorageError + 'a \<Rightarrow> StorageError + 'a" where
  "sql env stmt v = (if sql_fault env stmt then Inl (Database SqlFault) else v)"

lemma sql_Inr: "sql env stmt v = Inr x \<longleftrightarrow> \<not> sql_fault env stmt \<and> v = Inr x"
  by (auto simp: sql_def)

lemma sql_then [simp]:
  "and_then (sql env stmt v) f = (if sql_fault env stmt then Inl (Database SqlFault) else and_then v f)"
  by (simp add: sql_def)

lemma fault_Inr [simp]: "(if c then Inl e else r) = Inr v \<longleftrightarrow> \<not> c \<and> r = Inr v"
  by auto

section \<open>Opening the repository\<close>

text \<open>
  What \<open>initialize\<close> inspects of a database file: its two header numbers, the number of objects in
  its schema, and the tables.
\<close>

record db_file =
  file_user_version :: int
  file_application_id :: int
  file_schema_objects :: nat
  file_contents :: Db

definition initialize :: "bool \<Rightarrow> bool \<Rightarrow> db_file \<Rightarrow> StorageError + db_file" where
  "initialize pragma_fault batch_fault f =
     (if pragma_fault then Inl (Database SqlFault)
      else if file_user_version f = 9 \<and> file_application_id f = 0x4752523a then Inr f
      else if file_user_version f \<noteq> 0 \<or> file_application_id f \<noteq> 0 \<or> file_schema_objects f \<noteq> 0
      then Inl (InvalidStoredData
             ''unsupported relay schema; choose a fresh database (no migrations)'')
      else if batch_fault then Inl (Database SqlFault)
      else Inr (f\<lparr>file_user_version := 9, file_application_id := 1196577338, file_schema_objects := 18,
             file_contents := empty_db\<rparr>))"

end
