(* ===== verification/Relay_Limits.thy ===== *)
theory Relay_Limits
  imports Relay_Storage
begin

text \<open>
  Storage admission and the configuration of the relay (\<open>grotto-relay/src/limits.rs\<close>). The
  environment variables are a lookup function; the sizes of the database, of its write-ahead log
  and of the file system come from the environment of the call.
\<close>

section \<open>Storage limits\<close>

record StorageLimits =
  limit_global :: u64
  limit_sender :: u64
  limit_room :: u64
  limit_reserve :: u64

definition default_storage_limits :: StorageLimits where
  "default_storage_limits = \<lparr>limit_global = 1024 * 1024 * 1024, limit_sender = 100 * 1024 * 1024,
     limit_room = 100 * 1024 * 1024, limit_reserve = 64 * 1024 * 1024\<rparr>"

definition parse_decimal :: "rstr \<Rightarrow> nat option" where
  "parse_decimal text = from_str_radix 10 (2 ^ 64) text"

text \<open>One round of the loop over the variables: a field is overwritten when the variable is set.\<close>

definition storage_variable ::
  "(string \<Rightarrow> rstr option) \<Rightarrow> string \<Rightarrow> (u64 \<Rightarrow> StorageLimits \<Rightarrow> StorageLimits)
   \<Rightarrow> StorageLimits \<Rightarrow> StorageError + StorageLimits" where
  "storage_variable var name set_value limits =
     (case var name of
        None \<Rightarrow> Inr limits
      | Some text \<Rightarrow>
          (case parse_decimal text of
             None \<Rightarrow> Inl (InvalidStoredData ''invalid storage limit'')
           | Some n \<Rightarrow> Inr (set_value (of_nat n) limits)))"

definition storage_environment :: "(string \<Rightarrow> rstr option) \<Rightarrow> StorageError + StorageLimits" where
  "storage_environment var =
     and_then (storage_variable var ''GROTTO_STORAGE_GLOBAL_BYTES'' (\<lambda>v l. l\<lparr>limit_global := v\<rparr>)
       default_storage_limits) (\<lambda>l.
     and_then (storage_variable var ''GROTTO_STORAGE_SENDER_BYTES'' (\<lambda>v l. l\<lparr>limit_sender := v\<rparr>) l) (\<lambda>l.
     and_then (storage_variable var ''GROTTO_STORAGE_ROOM_BYTES'' (\<lambda>v l. l\<lparr>limit_room := v\<rparr>) l) (\<lambda>l.
     storage_variable var ''GROTTO_RECOVERY_RESERVE_BYTES'' (\<lambda>v l. l\<lparr>limit_reserve := v\<rparr>) l)))"

section \<open>Admission\<close>

text \<open>\<open>(wire.len() as u64).saturating_mul(3).saturating_add(16 * 1024)\<close>.\<close>

definition required_bytes :: "bytes \<Rightarrow> u64" where
  "required_bytes wire = saturating_add (saturating_mul (of_nat (length wire)) 3) (16 * 1024)"

text \<open>Reading a usage counter as \<open>u64\<close>; a floating-point value is a conversion error.\<close>

definition read_usage :: "nat option \<Rightarrow> StorageError + u64" where
  "read_usage cell =
     (case cell of
        None \<Rightarrow> Inr 0
      | Some n \<Rightarrow> if n < 2 ^ 63 then Inr (of_nat n) else Inl (Database FromSqlConversion))"

definition free_space :: "relay_env \<Rightarrow> StorageError + u128" where
  "free_space env =
     (if parent_has_nul env then Inl (InvalidStoredData ''invalid database path'')
      else case statvfs env of
             Inl e \<Rightarrow> Inl (File e)
           | Inr (f_bavail, f_frsize) \<Rightarrow> Inr (ucast f_bavail * ucast f_frsize))"

definition wal_length :: "relay_env \<Rightarrow> StorageError + u64" where
  "wal_length env =
     (case wal_metadata env of
        Inr len \<Rightarrow> Inr len
      | Inl e \<Rightarrow> if e = FileNotFound then Inr 0 else Inl (File e))"

definition admit ::
  "postcard \<Rightarrow> relay_env \<Rightarrow> StorageLimits \<Rightarrow> Db \<Rightarrow> UserId \<Rightarrow> Request \<Rightarrow> StorageError + bool" where
  "admit pc env limits db user request =
     and_then (map_err (\<lambda>_. InvalidStoredData ''cannot encode request'')
       (encode_message (ser_request pc) request)) (\<lambda>wire.
     if length wire > MAX_PAYLOAD then Inr False
     else let required = required_bytes wire in
     and_then (sql env PragmaPageSize (Inr (page_size env))) (\<lambda>page_size.
     and_then (sql env PragmaPageCount (Inr (page_count env))) (\<lambda>page_count.
     let logical = saturating_mul page_size page_count in
     if saturating_add logical required > limit_global limits then Inr False
     else and_then (wal_length env) (\<lambda>wal.
     if saturating_add (saturating_add logical wal) required
        > saturating_add (limit_global limits) (limit_reserve limits) then Inr False
     else and_then (sql env SelectUsageSender (read_usage (db_usage_sender db user))) (\<lambda>used.
     if saturating_add used required > limit_sender limits then Inr False
     else and_then
       (case request of
          AppendRoomOperation operation \<Rightarrow>
            and_then (sql env SelectUsageRoom (read_usage (db_usage_room db (ap_room operation))))
              (\<lambda>used. Inr (saturating_add used required \<le> limit_room limits))
        | _ \<Rightarrow> Inr True) (\<lambda>room_ok.
     if \<not> room_ok then Inr False
     else and_then (free_space env) (\<lambda>space.
       Inr (space \<ge> ucast (saturating_add (limit_reserve limits) required)))))))))"

section \<open>Runtime limits\<close>

record RuntimeLimits =
  rt_connections :: nat
  rt_handshakes :: nat
  rt_handshakes_per_ip :: nat
  rt_database_queue :: nat
  rt_handshake_seconds :: u64
  rt_frame_seconds :: u64
  rt_write_seconds :: u64
  rt_requests_per_second :: nat
  rt_request_burst :: nat
  rt_payload_bytes :: nat

definition default_runtime_limits :: RuntimeLimits where
  "default_runtime_limits = \<lparr>rt_connections = 128, rt_handshakes = 16, rt_handshakes_per_ip = 4,
     rt_database_queue = 128, rt_handshake_seconds = 10, rt_frame_seconds = 15, rt_write_seconds = 10,
     rt_requests_per_second = 20, rt_request_burst = 40, rt_payload_bytes = 64 * 1024 * 1024\<rparr>"

text \<open>
  One round of each loop of \<open>configure\<close>: the variable, when set, overwrites the value; the value,
  set or not, is then checked against its range.
\<close>

definition usize_variable ::
  "(string \<Rightarrow> rstr option) \<Rightarrow> string \<Rightarrow> nat \<Rightarrow> StorageError + nat" where
  "usize_variable var name value =
     and_then (case var name of
        None \<Rightarrow> Inr value
      | Some text \<Rightarrow>
          (case parse_decimal text of
             None \<Rightarrow> Inl (InvalidStoredData ''invalid runtime limit'') | Some n \<Rightarrow> Inr n)) (\<lambda>n.
     if n = 0 \<or> n > 4294967295 then Inl (InvalidStoredData ''runtime limit out of range'')
     else Inr n)"

definition deadline_variable ::
  "(string \<Rightarrow> rstr option) \<Rightarrow> string \<Rightarrow> u64 \<Rightarrow> StorageError + u64" where
  "deadline_variable var name value =
     and_then (case var name of
        None \<Rightarrow> Inr value
      | Some text \<Rightarrow>
          (case parse_decimal text of
             None \<Rightarrow> Inl (InvalidStoredData ''invalid deadline'') | Some n \<Rightarrow> Inr (of_nat n))) (\<lambda>n.
     if n = 0 \<or> n > 3600 then Inl (InvalidStoredData ''deadline out of range'') else Inr n)"

text \<open>The configuration \<open>configure\<close> stores in \<open>RUNTIME\<close>, or its error.\<close>

definition configure :: "(string \<Rightarrow> rstr option) \<Rightarrow> StorageError + RuntimeLimits" where
  "configure var =
     (let c = default_runtime_limits in
     and_then (usize_variable var ''GROTTO_MAX_CONNECTIONS'' (rt_connections c)) (\<lambda>n1.
     and_then (usize_variable var ''GROTTO_MAX_HANDSHAKES'' (rt_handshakes c)) (\<lambda>n2.
     and_then (usize_variable var ''GROTTO_MAX_HANDSHAKES_PER_IP'' (rt_handshakes_per_ip c)) (\<lambda>n3.
     and_then (usize_variable var ''GROTTO_DATABASE_QUEUE'' (rt_database_queue c)) (\<lambda>n4.
     and_then (usize_variable var ''GROTTO_REQUESTS_PER_SECOND'' (rt_requests_per_second c)) (\<lambda>n5.
     and_then (usize_variable var ''GROTTO_REQUEST_BURST'' (rt_request_burst c)) (\<lambda>n6.
     and_then (usize_variable var ''GROTTO_PAYLOAD_BYTES'' (rt_payload_bytes c)) (\<lambda>n7.
     and_then (deadline_variable var ''GROTTO_HANDSHAKE_SECONDS'' (rt_handshake_seconds c)) (\<lambda>d1.
     and_then (deadline_variable var ''GROTTO_FRAME_SECONDS'' (rt_frame_seconds c)) (\<lambda>d2.
     and_then (deadline_variable var ''GROTTO_WRITE_SECONDS'' (rt_write_seconds c)) (\<lambda>d3.
     if n7 < 2 * 1024 * 1024
     then Inl (InvalidStoredData ''payload budget needs at least one 2 MiB operation'')
     else Inr \<lparr>rt_connections = n1, rt_handshakes = n2, rt_handshakes_per_ip = n3, rt_database_queue = n4,
       rt_handshake_seconds = d1, rt_frame_seconds = d2, rt_write_seconds = d3, rt_requests_per_second = n5,
       rt_request_burst = n6, rt_payload_bytes = n7\<rparr>)))))))))))"

text \<open>\<open>RUNTIME\<close> is set once: a second \<open>set\<close> is ignored, \<open>runtime\<close> falls back to the defaults.\<close>

definition runtime_set :: "RuntimeLimits option \<Rightarrow> RuntimeLimits \<Rightarrow> RuntimeLimits option" where
  "runtime_set cell config = (case cell of None \<Rightarrow> Some config | Some c \<Rightarrow> Some c)"

definition runtime :: "RuntimeLimits option \<Rightarrow> RuntimeLimits" where
  "runtime cell = (case cell of Some c \<Rightarrow> c | None \<Rightarrow> default_runtime_limits)"

section \<open>What admission guarantees\<close>

lemma parse_decimal_bound: "parse_decimal t = Some n \<Longrightarrow> n < 2 ^ 64"
proof -
  have "parse_digits r b acc cs = Some n \<Longrightarrow> acc < b \<Longrightarrow> n < b" for r b acc cs
    by (induction r b acc cs rule: parse_digits.induct) (auto split: option.splits if_splits)
  then show "parse_decimal t = Some n \<Longrightarrow> n < 2 ^ 64"
    by (auto simp: parse_decimal_def from_str_radix_def simp del: parse_digits.simps
        split: list.splits if_splits)
qed

lemma saturating_add_le_iff:
  "unat limit < 2 ^ 64 - 1 \<or> unat a + unat b < 2 ^ 64 \<Longrightarrow>
   saturating_add a b \<le> limit \<longleftrightarrow> unat a + unat b \<le> unat limit"
  by (auto simp: word_le_nat_alt unat_saturating_add)

lemma saturating_add_leD: "saturating_add a b \<le> limit \<Longrightarrow> unat a + unat b \<le> unat limit \<or> limit = - 1"
proof -
  assume "saturating_add a b \<le> limit"
  then have "min (unat a + unat b) (2 ^ 64 - 1) \<le> unat limit"
    by (simp add: word_le_nat_alt unat_saturating_add)
  moreover have "unat limit < 2 ^ 64" by simp
  ultimately have "unat a + unat b \<le> unat limit \<or> unat limit = 2 ^ 64 - 1" by linarith
  then show ?thesis by (simp add: word_unat_eq_iff)
qed

lemma required_bytes_eq:
  "length wire \<le> MAX_PAYLOAD \<Longrightarrow> unat (required_bytes wire) = 3 * length wire + 16384"
  by (simp add: required_bytes_def unat_saturating_add unat_saturating_mul MAX_PAYLOAD_def
      unat_of_nat_u64)

lemma admit_True:
  assumes "admit pc env limits db user request = Inr True"
  obtains wire where "encode_message (ser_request pc) request = Inr wire" "length wire \<le> MAX_PAYLOAD"
    "\<exists>used. read_usage (db_usage_sender db user) = Inr used
       \<and> saturating_add used (required_bytes wire) \<le> limit_sender limits"
    "\<And>operation. request = AppendRoomOperation operation \<Longrightarrow>
       \<exists>used. read_usage (db_usage_room db (ap_room operation)) = Inr used
       \<and> saturating_add used (required_bytes wire) \<le> limit_room limits"
  using assms
  by (fastforce simp: admit_def and_then_Inr Let_def sql_Inr not_less split: if_splits Request.splits)

end
