(* ===== verification/Relay_Delivery.thy ===== *)
theory Relay_Delivery
  imports Relay_Limits
begin

text \<open>
  Conditional ordered delivery (\<open>grotto-relay/src/delivery.rs\<close>): the arms of \<open>execute\<close>, one
  definition each, and the transaction around them, \<open>deliver\<close>. An arm works on the tables as the
  transaction sees them and returns them changed; \<open>deliver\<close> makes the change permanent only where
  the code commits, every other return rolls back.
\<close>

section \<open>State\<close>

text \<open>The repository with its limits, and the two process-wide counters delivery increments.\<close>

record RelayState =
  rs_db :: Db
  rs_limits :: StorageLimits
  rs_quota_rejections :: u64
  rs_commit_conflicts :: u64

definition corrupt :: StorageError where
  "corrupt = InvalidStoredData ''invalid V9 delivery record''"

definition denied :: Response where
  "denied = Rejected Unauthorized"

section \<open>Subscriptions\<close>

definition is_subscribed :: "Db \<Rightarrow> RoomId \<Rightarrow> UserId \<Rightarrow> bool" where
  "is_subscribed db room user \<longleftrightarrow> (room, user) \<in> set (db_room_subscribers db)"

definition subscribed :: "relay_env \<Rightarrow> Db \<Rightarrow> RoomId \<Rightarrow> UserId \<Rightarrow> StorageError + bool" where
  "subscribed env db room user = sql env SelectSubscribed (Inr (is_subscribed db room user))"

definition subscribe :: "relay_env \<Rightarrow> Db \<Rightarrow> RoomId \<Rightarrow> UserId \<Rightarrow> StorageError + Db" where
  "subscribe env db room user =
     sql env InsertSubscriber (Inr
       (if is_subscribed db room user then db
        else db\<lparr>db_room_subscribers := db_room_subscribers db @ [(room, user)]\<rparr>))"

section \<open>Rooms, key packages and grants\<close>

definition create_room ::
  "relay_env \<Rightarrow> Db \<Rightarrow> UserId \<Rightarrow> rstr \<Rightarrow> StorageError + (Response \<times> Db)" where
  "create_room env db user name =
     (case normalize_room_name name of
        Inl _ \<Rightarrow> Inr (Rejected Invalid, db)
      | Inr name \<Rightarrow>
          and_then (sql env CountRooms
            (Inr (length (filter (\<lambda>r. rm_created_by r = user) (db_rooms db))))) (\<lambda>count.
          if count \<ge> 64 then Inr (Rejected Quota, db)
          else case random_room env of
            None \<Rightarrow> Inl Random
          | Some room \<Rightarrow>
              and_then (sql env InsertRoom
                (if room \<in> rm_room_id ` set (db_rooms db) then Inl (Database ConstraintViolation)
                 else Inr (db\<lparr>db_rooms := db_rooms db @
                   [\<lparr>rm_room_id = room, rm_name = name, rm_created_by = user,
                     rm_created_at = unixepoch env\<rparr>]\<rparr>))) (\<lambda>db.
              and_then (subscribe env db room user) (\<lambda>db.
              Inr (RoomCreated room, db)))))"

text \<open>The row identifier SQLite gives a new row of a table without one: one above the largest.\<close>

definition next_rowid :: "KeyPackageRow list \<Rightarrow> nat" where
  "next_rowid rows = Suc (fold max (map kp_rowid rows) 0)"

fun insert_key_packages ::
  "relay_env \<Rightarrow> UserId \<Rightarrow> nat \<Rightarrow> bytes list \<Rightarrow> Db \<Rightarrow> StorageError + Db" where
  "insert_key_packages env user i [] db = Inr db"
| "insert_key_packages env user i (package # packages) db =
     and_then (sql env (InsertKeyPackage i)
       (Inr (db\<lparr>db_key_packages := db_key_packages db @
          [\<lparr>kp_rowid = next_rowid (db_key_packages db), kp_user_id = user,
            kp_key_package = package, kp_published_at = unixepoch env\<rparr>]\<rparr>)))
       (insert_key_packages env user (Suc i) packages)"

definition publish_key_packages ::
  "relay_env \<Rightarrow> Db \<Rightarrow> UserId \<Rightarrow> bytes list \<Rightarrow> StorageError + (Response \<times> Db)" where
  "publish_key_packages env db user packages =
     (if packages = [] \<or> length packages > 64
         \<or> list_ex (\<lambda>p. p = [] \<or> length p > MAX_KEY_PACKAGE_BYTES) packages
         \<or> sum_list (map length packages) > MAX_PAYLOAD
      then Inr (Rejected Invalid, db)
      else
        and_then (sql env CountKeyPackages
          (Inr (length (filter (\<lambda>k. kp_user_id k = user) (db_key_packages db))))) (\<lambda>count.
        if count + length packages > 64 then Inr (Rejected Quota, db)
        else
          and_then (insert_key_packages env user 0 packages db) (\<lambda>db.
          Inr (KeyPackagesPublished (of_nat (length packages)), db))))"

definition set_fetch_grant ::
  "relay_env \<Rightarrow> Db \<Rightarrow> UserId \<Rightarrow> UserId \<Rightarrow> bool \<Rightarrow> StorageError + (Response \<times> Db)" where
  "set_fetch_grant env db user requester allowed =
     and_then
       (if allowed
        then sql env InsertGrant (Inr
          (if (user, requester) \<in> set (db_fetch_grants db) then db
           else db\<lparr>db_fetch_grants := db_fetch_grants db @ [(user, requester)]\<rparr>))
        else sql env DeleteGrant (Inr
          (db\<lparr>db_fetch_grants := filter (\<lambda>g. g \<noteq> (user, requester)) (db_fetch_grants db)\<rparr>)))
       (\<lambda>db. Inr (FetchGrantSet, db))"

text \<open>The two counts of the rate limit: the allocations of the last hour, all and by one requester.\<close>

definition recent_allocations :: "relay_env \<Rightarrow> Db \<Rightarrow> UserId \<Rightarrow> AllocationRow list" where
  "recent_allocations env db recipient =
     filter (\<lambda>a. al_recipient a = recipient \<and> al_allocated_at a > unixepoch env - 3600)
       (db_package_allocations db)"

definition reserve_key_package ::
  "relay_env \<Rightarrow> Db \<Rightarrow> UserId \<Rightarrow> UserId \<Rightarrow> StorageError + (Response \<times> Db)" where
  "reserve_key_package env db user recipient =
     and_then (sql env SelectGrant (Inr ((recipient, user) \<in> set (db_fetch_grants db)))) (\<lambda>allowed.
     if \<not> allowed then Inr (denied, db)
     else
       and_then (sql env CountAllocations (Inr
         (length (recent_allocations env db recipient),
          length (filter (\<lambda>a. al_requester a = user) (recent_allocations env db recipient)))))
         (\<lambda>(total, pair).
       if total \<ge> 16 \<or> pair \<ge> 4 then Inr (Rejected Overloaded, db)
       else
         and_then (sql env SelectKeyPackage (Inr
           (case sort_key kp_rowid (filter (\<lambda>k. kp_user_id k = recipient) (db_key_packages db)) of
              [] \<Rightarrow> None | k # _ \<Rightarrow> Some (kp_rowid k, kp_key_package k)))) (\<lambda>package.
         case package of
           None \<Rightarrow> Inr (Rejected NotFound, db)
         | Some (row, package) \<Rightarrow>
             and_then (sql env DeleteKeyPackage (Inr
               (db\<lparr>db_key_packages := filter (\<lambda>k. kp_rowid k \<noteq> row) (db_key_packages db)\<rparr>))) (\<lambda>db.
             and_then (sql env InsertAllocation (Inr
               (db\<lparr>db_package_allocations := db_package_allocations db @
                  [\<lparr>al_requester = user, al_recipient = recipient,
                    al_allocated_at = unixepoch env\<rparr>]\<rparr>))) (\<lambda>db.
             Inr (KeyPackage recipient package, db))))))"

section \<open>Appending to a room\<close>

text \<open>The rows of one room, in the order they were inserted, and its head.\<close>

definition room_rows :: "Db \<Rightarrow> RoomId \<Rightarrow> EventRow list" where
  "room_rows db room = filter (\<lambda>e. er_room e = room) (db_delivery_events db)"

definition room_head :: "Db \<Rightarrow> RoomId \<Rightarrow> u64" where
  "room_head db room = fold max (map er_sequence (room_rows db room)) 0"

definition invalid_append :: "Append \<Rightarrow> bool" where
  "invalid_append operation \<longleftrightarrow>
     ap_body operation = [] \<or> length (ap_body operation) > MAX_MLS_BLOB_BYTES
     \<or> ap_parent operation \<ge> i64_max
     \<or> (case ap_welcome operation of
          None \<Rightarrow> False | Some w \<Rightarrow> wa_body w = [] \<or> length (wa_body w) > MAX_MLS_BLOB_BYTES)
     \<or> length (ap_body operation)
         + (case ap_welcome operation of None \<Rightarrow> 0 | Some w \<Rightarrow> length (wa_body w)) + 256
       > MAX_PAYLOAD"

definition insert_event :: "EventRow \<Rightarrow> Db \<Rightarrow> StorageError + Db" where
  "insert_event row db =
     (if \<exists>e \<in> set (db_delivery_events db).
           er_room e = er_room row \<and> er_sequence e = er_sequence row \<or> er_event_id e = er_event_id row
      then Inl (Database ConstraintViolation)
      else Inr (db\<lparr>db_delivery_events := db_delivery_events db @ [row]\<rparr>))"

definition insert_welcome :: "UserId \<Rightarrow> bytes \<Rightarrow> Db \<Rightarrow> StorageError + Db" where
  "insert_welcome recipient record_bytes db =
     (if db_welcome_autoincrement db \<ge> i64_max then Inl (Database DatabaseFull)
      else let cursor = db_welcome_autoincrement db + 1 in
        Inr (db\<lparr>db_delivery_welcomes := db_delivery_welcomes db @
               [\<lparr>wr_cursor = cursor, wr_recipient = recipient, wr_record = record_bytes\<rparr>],
             db_welcome_autoincrement := cursor\<rparr>))"

definition select_room_name :: "Db \<Rightarrow> RoomId \<Rightarrow> StorageError + rstr" where
  "select_room_name db room =
     (case filter (\<lambda>r. rm_room_id r = room) (db_rooms db) of
        [] \<Rightarrow> Inl (Database NoRows) | r # _ \<Rightarrow> Inr (rm_name r))"

text \<open>The Welcome published with an event: its record, its row, and the recipient's subscription.\<close>

definition publish_welcome ::
  "postcard \<Rightarrow> relay_env \<Rightarrow> Db \<Rightarrow> Event \<Rightarrow> u64 \<Rightarrow> StorageError + Db" where
  "publish_welcome pc env db event sequence =
     (let operation = ev_operation event in
      case ap_welcome operation of
        None \<Rightarrow> Inr db
      | Some w \<Rightarrow>
          and_then (sql env SelectRoomName (select_room_name db (ap_room operation))) (\<lambda>name.
          and_then (map_err (\<lambda>_. corrupt) (encode_message (ser_welcome pc)
            \<lparr>wd_room_name = name, wd_cursor = 0, wd_event = ev_id event,
             wd_room = ap_room operation, wd_sequence = sequence, wd_inviter = ev_sender event,
             wd_attachment = w\<rparr>)) (\<lambda>bytes.
          and_then (sql env InsertWelcome (insert_welcome (wa_recipient w) bytes db)) (\<lambda>db.
          subscribe env db (ap_room operation) (wa_recipient w)))))"

definition append_room_operation ::
  "postcard \<Rightarrow> relay_env \<Rightarrow> Db \<Rightarrow> UserId \<Rightarrow> MessageId \<Rightarrow> Append \<Rightarrow> StorageError + (Response \<times> Db)" where
  "append_room_operation pc env db user request_id operation =
     and_then (subscribed env db (ap_room operation) user) (\<lambda>member.
     if \<not> member then Inr (denied, db)
     else if invalid_append operation then Inr (Rejected Invalid, db)
     else
       and_then (sql env SelectHead (Inr (room_head db (ap_room operation)))) (\<lambda>head.
       if head \<noteq> ap_parent operation then Inr (HeadConflict (ap_room operation) head, db)
       else
         and_then (sql env SelectEventExists
           (Inr (request_id \<in> er_event_id ` set (db_delivery_events db)))) (\<lambda>exists.
         if exists then Inr (Rejected RequestConflict, db)
         else let event = \<lparr>ev_id = request_id, ev_sender = user, ev_operation = operation\<rparr> in
           and_then (map_err (\<lambda>_. corrupt) (encode_message (ser_event pc) event)) (\<lambda>bytes.
           and_then (sql env InsertEvent (insert_event
             \<lparr>er_room = ap_room operation, er_sequence = head + 1, er_event_id = request_id,
              er_sender = user, er_record = bytes\<rparr> db)) (\<lambda>db.
           and_then (publish_welcome pc env db event (head + 1)) (\<lambda>db.
           Inr (AppendAccepted event, db)))))))"

section \<open>Pages\<close>

fun event_page ::
  "postcard \<Rightarrow> relay_env \<Rightarrow> nat \<Rightarrow> bytes list \<Rightarrow> Event list \<Rightarrow> nat \<Rightarrow> StorageError + (Event list \<times> bool)" where
  "event_page pc env i [] events bytes = Inr (events, False)"
| "event_page pc env i (row # rows) events bytes =
     and_then (sql env (SelectEventRow i) (Inr row)) (\<lambda>row.
     if length events = PAGE_SIZE \<or> bytes + length row > MAX_PAYLOAD - 96 then Inr (events, True)
     else
       and_then (map_err (\<lambda>_. corrupt) (decode_message (take_event pc) row)) (\<lambda>event.
       event_page pc env (Suc i) rows (events @ [event]) (bytes + length row)))"

definition select_events :: "Db \<Rightarrow> RoomId \<Rightarrow> u64 \<Rightarrow> bytes list" where
  "select_events db room after =
     map er_record (take 101
       (sort_key er_sequence (filter (\<lambda>e. er_sequence e > after) (room_rows db room))))"

definition fetch_room_events ::
  "postcard \<Rightarrow> relay_env \<Rightarrow> Db \<Rightarrow> UserId \<Rightarrow> RoomId \<Rightarrow> u64 \<Rightarrow> StorageError + (Response \<times> Db)" where
  "fetch_room_events pc env db user room after_sequence =
     (if after_sequence > i64_max then Inr (Rejected Invalid, db)
      else
        and_then (subscribed env db room user) (\<lambda>member.
        if \<not> member then Inr (denied, db)
        else
          and_then (sql env SelectEvents (Inr (select_events db room after_sequence))) (\<lambda>rows.
          and_then (event_page pc env 0 rows [] 0) (\<lambda>(events, more).
          Inr (RoomEvents room after_sequence events more, db)))))"

fun room_heads ::
  "relay_env \<Rightarrow> nat \<Rightarrow> (RoomId \<times> rstr \<times> u64) list \<Rightarrow> RoomHead list \<Rightarrow> StorageError + RoomHead list" where
  "room_heads env i [] heads = Inr heads"
| "room_heads env i (row # rows) heads =
     and_then (sql env (SelectRoomRow i) (Inr row)) (\<lambda>(room, name, sequence).
     if length (RoomId_to_bytes room) \<noteq> 16 then Inl corrupt
     else room_heads env (Suc i) rows
       (heads @ [\<lparr>rh_room = room, rh_name = name, rh_sequence = sequence\<rparr>]))"

definition select_rooms :: "Db \<Rightarrow> UserId \<Rightarrow> RoomId option \<Rightarrow> (RoomId \<times> rstr \<times> u64) list" where
  "select_rooms db user after_room =
     map (\<lambda>r. (rm_room_id r, rm_name r, room_head db (rm_room_id r)))
       (take 101 (sort_key rm_room_id
         (filter (\<lambda>r. is_subscribed db (rm_room_id r) user
             \<and> (case after_room of None \<Rightarrow> True | Some a \<Rightarrow> rm_room_id r > a))
           (db_rooms db))))"

definition sync_index ::
  "relay_env \<Rightarrow> Db \<Rightarrow> UserId \<Rightarrow> RoomId option \<Rightarrow> StorageError + (Response \<times> Db)" where
  "sync_index env db user after_room =
     and_then (sql env SelectRooms (Inr (select_rooms db user after_room))) (\<lambda>rows.
     and_then (room_heads env 0 rows []) (\<lambda>heads.
     Inr (SyncIndexPage (take PAGE_SIZE heads) (length heads > PAGE_SIZE), db)))"

fun welcome_page ::
  "postcard \<Rightarrow> relay_env \<Rightarrow> nat \<Rightarrow> (u64 \<times> bytes) list \<Rightarrow> WelcomeDelivery list \<Rightarrow> nat
   \<Rightarrow> StorageError + (WelcomeDelivery list \<times> bool)" where
  "welcome_page pc env i [] welcomes bytes = Inr (welcomes, False)"
| "welcome_page pc env i (row # rows) welcomes bytes =
     and_then (sql env (SelectWelcomeRow i) (Inr row)) (\<lambda>(cursor, row).
     if length welcomes = PAGE_SIZE \<or> bytes + length row > MAX_PAYLOAD - 96
     then Inr (welcomes, True)
     else
       and_then (map_err (\<lambda>_. corrupt) (decode_message (take_welcome pc) row)) (\<lambda>w.
       welcome_page pc env (Suc i) rows (welcomes @ [w\<lparr>wd_cursor := cursor\<rparr>])
         (bytes + length row)))"

definition select_welcomes :: "Db \<Rightarrow> UserId \<Rightarrow> u64 \<Rightarrow> (u64 \<times> bytes) list" where
  "select_welcomes db user after =
     map (\<lambda>w. (wr_cursor w, wr_record w)) (take 101
       (sort_key wr_cursor (filter (\<lambda>w. wr_recipient w = user \<and> wr_cursor w > after)
         (db_delivery_welcomes db))))"

definition fetch_welcomes ::
  "postcard \<Rightarrow> relay_env \<Rightarrow> Db \<Rightarrow> UserId \<Rightarrow> u64 \<Rightarrow> StorageError + (Response \<times> Db)" where
  "fetch_welcomes pc env db user after_cursor =
     (if after_cursor > i64_max then Inr (Rejected Invalid, db)
      else
        and_then (sql env SelectWelcomes (Inr (select_welcomes db user after_cursor))) (\<lambda>rows.
        and_then (welcome_page pc env 0 rows [] 0) (\<lambda>(welcomes, more).
        Inr (Welcomes after_cursor welcomes more, db))))"

section \<open>Receipts\<close>

text \<open>The two loops stop at the first receipt that is not the caller's to give.\<close>

fun receipt_events ::
  "relay_env \<Rightarrow> Db \<Rightarrow> UserId \<Rightarrow> nat \<Rightarrow> MessageId list \<Rightarrow> StorageError + bool" where
  "receipt_events env db user i [] = Inr True"
| "receipt_events env db user i (event # events) =
     and_then (sql env (SelectReceiptEvent i) (Inr
       (list_ex (\<lambda>e. er_event_id e = event \<and> is_subscribed db (er_room e) user)
         (db_delivery_events db)))) (\<lambda>allowed.
     if \<not> allowed then Inr False else receipt_events env db user (Suc i) events)"

fun receipt_welcomes ::
  "relay_env \<Rightarrow> Db \<Rightarrow> UserId \<Rightarrow> nat \<Rightarrow> u64 list \<Rightarrow> StorageError + bool" where
  "receipt_welcomes env db user i [] = Inr True"
| "receipt_welcomes env db user i (cursor # cursors) =
     and_then (sql env (SelectReceiptWelcome i)
       (if cursor > i64_max then Inl (Database ToSqlConversion)
        else Inr (list_ex (\<lambda>w. wr_cursor w = cursor \<and> wr_recipient w = user)
          (db_delivery_welcomes db)))) (\<lambda>allowed.
     if \<not> allowed then Inr False else receipt_welcomes env db user (Suc i) cursors)"

definition acknowledge ::
  "relay_env \<Rightarrow> Db \<Rightarrow> UserId \<Rightarrow> MessageId list \<Rightarrow> u64 list \<Rightarrow> StorageError + (Response \<times> Db)" where
  "acknowledge env db user events welcomes =
     (if length events + length welcomes > PAGE_SIZE then Inr (Rejected Invalid, db)
      else
        and_then (receipt_events env db user 0 events) (\<lambda>allowed.
        if \<not> allowed then Inr (denied, db)
        else
          and_then (receipt_welcomes env db user 0 welcomes) (\<lambda>allowed.
          if \<not> allowed then Inr (denied, db) else Inr (Acknowledged, db))))"

section \<open>The transaction\<close>

definition execute ::
  "postcard \<Rightarrow> relay_env \<Rightarrow> Db \<Rightarrow> UserId \<Rightarrow> MessageId \<Rightarrow> Request \<Rightarrow> StorageError + (Response \<times> Db)" where
  "execute pc env db user request_id request =
     (case request of
        CreateRoom name \<Rightarrow> create_room env db user name
      | PublishKeyPackages packages \<Rightarrow> publish_key_packages env db user packages
      | SetFetchGrant requester allowed \<Rightarrow> set_fetch_grant env db user requester allowed
      | ReserveKeyPackage recipient \<Rightarrow> reserve_key_package env db user recipient
      | AppendRoomOperation operation \<Rightarrow> append_room_operation pc env db user request_id operation
      | FetchRoomEvents room after \<Rightarrow> fetch_room_events pc env db user room after
      | SyncIndex after \<Rightarrow> sync_index env db user after
      | FetchWelcomes after \<Rightarrow> fetch_welcomes pc env db user after
      | Acknowledge events welcomes \<Rightarrow> acknowledge env db user events welcomes)"

definition durable :: "Request \<Rightarrow> bool" where
  "durable request =
     (case request of FetchRoomEvents _ _ \<Rightarrow> False | FetchWelcomes _ \<Rightarrow> False | SyncIndex _ \<Rightarrow> False
      | _ \<Rightarrow> True)"

definition is_receipt :: "Request \<Rightarrow> bool" where
  "is_receipt request = (case request of Acknowledge _ _ \<Rightarrow> True | _ \<Rightarrow> False)"

text \<open>A receipt names exactly one record, and its request identifier is derived from it.\<close>

definition malformed_receipt :: "(bytes \<Rightarrow> bytes) \<Rightarrow> UserId \<Rightarrow> MessageId \<Rightarrow> Request \<Rightarrow> bool" where
  "malformed_receipt sha256 user request_id request =
     (case request of
        Acknowledge events welcomes \<Rightarrow>
          length events + length welcomes \<noteq> 1 \<or> request_id \<noteq> acknowledgement_id sha256 user events welcomes
      | _ \<Rightarrow> False)"

text \<open>Responses that are not recorded, because a later retry may have another outcome.\<close>

definition transient :: "Response \<Rightarrow> bool" where
  "transient response \<longleftrightarrow> response \<in> {Rejected Quota, Rejected Overloaded, Rejected Internal}"

definition count_outcome :: "Response \<Rightarrow> RelayState \<Rightarrow> RelayState" where
  "count_outcome response s =
     (case response of
        HeadConflict _ _ \<Rightarrow> s\<lparr>rs_commit_conflicts := rs_commit_conflicts s + 1\<rparr>
      | Rejected Quota \<Rightarrow> s\<lparr>rs_quota_rejections := rs_quota_rejections s + 1\<rparr>
      | _ \<Rightarrow> s)"

definition charge :: "'k \<Rightarrow> u64 \<Rightarrow> ('k \<rightharpoonup> nat) \<Rightarrow> ('k \<rightharpoonup> nat)" where
  "charge k bytes usage =
     usage(k \<mapsto> (case usage k of None \<Rightarrow> 0 | Some n \<Rightarrow> n) + unat bytes)"

text \<open>The usage ledgers, then the saved response under the user's request identifier.\<close>

definition charge_usage ::
  "relay_env \<Rightarrow> UserId \<Rightarrow> Request \<Rightarrow> u64 \<Rightarrow> Db \<Rightarrow> StorageError + Db" where
  "charge_usage env user request charge_bytes db =
     (if is_receipt request then Inr db
      else
        and_then (sql env UpsertUsageSender
          (Inr (db\<lparr>db_usage_sender := charge user charge_bytes (db_usage_sender db)\<rparr>))) (\<lambda>db.
        case request of
          AppendRoomOperation operation \<Rightarrow>
            sql env UpsertUsageRoom
              (Inr (db\<lparr>db_usage_room := charge (ap_room operation) charge_bytes (db_usage_room db)\<rparr>))
        | _ \<Rightarrow> Inr db))"

definition save_response ::
  "postcard \<Rightarrow> relay_env \<Rightarrow> UserId \<Rightarrow> MessageId \<Rightarrow> bytes \<Rightarrow> Response \<Rightarrow> Db \<Rightarrow> StorageError + Db" where
  "save_response pc env user request_id hash response db =
     and_then (map_err (\<lambda>_. corrupt) (encode_message (ser_response pc) response)) (\<lambda>bytes.
     sql env InsertRequest
       (if db_delivery_requests db (user, request_id) \<noteq> None then Inl (Database ConstraintViolation)
        else Inr (db\<lparr>db_delivery_requests :=
          (db_delivery_requests db)((user, request_id) \<mapsto> (hash, bytes))\<rparr>)))"

text \<open>
  After an arm has answered: count the outcome, drop the transaction of a refused receipt, record
  a durable outcome, commit.
\<close>

definition finish_transaction ::
  "postcard \<Rightarrow> relay_env \<Rightarrow> RelayState \<Rightarrow> UserId \<Rightarrow> MessageId \<Rightarrow> Request \<Rightarrow> bytes \<Rightarrow> u64 \<Rightarrow> Response \<Rightarrow> Db
   \<Rightarrow> (StorageError + Response) \<times> RelayState" where
  "finish_transaction pc env s user request_id request hash charge_bytes response db =
     (let s = count_outcome response s in
      if is_receipt request \<and> response \<noteq> Acknowledged then (Inr response, s)
      else case (if durable request \<and> \<not> transient response
                 then and_then (charge_usage env user request charge_bytes db)
                        (save_response pc env user request_id hash response)
                 else Inr db) of
        Inl e \<Rightarrow> (Inl e, s)
      | Inr db \<Rightarrow>
          if sql_fault env Commit_tx then (Inl (Database SqlFault), s)
          else (Inr response, s\<lparr>rs_db := db\<rparr>))"

text \<open>A request identifier not seen before.\<close>

definition deliver_new ::
  "postcard \<Rightarrow> (bytes \<Rightarrow> bytes) \<Rightarrow> relay_env \<Rightarrow> RelayState \<Rightarrow> UserId \<Rightarrow> MessageId \<Rightarrow> Request \<Rightarrow> bytes
   \<Rightarrow> (StorageError + Response) \<times> RelayState" where
  "deliver_new pc sha256 env s user request_id request hash =
     (if malformed_receipt sha256 user request_id request then (Inr (Rejected Invalid), s)
      else case (if durable request \<and> \<not> is_receipt request
                 then admit pc env (rs_limits s) (rs_db s) user request else Inr True) of
        Inl e \<Rightarrow> (Inl e, s)
      | Inr False \<Rightarrow> (Inr (Rejected Quota), s\<lparr>rs_quota_rejections := rs_quota_rejections s + 1\<rparr>)
      | Inr True \<Rightarrow>
          (case encode_message (ser_request pc) request of
             Inl _ \<Rightarrow> (Inl corrupt, s)
           | Inr wire \<Rightarrow>
               (case execute pc env (rs_db s) user request_id request of
                  Inl e \<Rightarrow> (Inl e, s)
                | Inr (response, db) \<Rightarrow>
                    finish_transaction pc env s user request_id request hash (required_bytes wire)
                      response db)))"

definition deliver ::
  "postcard \<Rightarrow> (bytes \<Rightarrow> bytes) \<Rightarrow> relay_env \<Rightarrow> RelayState \<Rightarrow> UserId \<Rightarrow> MessageId \<Rightarrow> Request
   \<Rightarrow> (StorageError + Response) \<times> RelayState" where
  "deliver pc sha256 env s user request_id request =
     (if lock_poisoned env then (Inl LockPoisoned, s)
      else if sql_fault env BeginImmediate then (Inl (Database SqlFault), s)
      else case payload_hash pc sha256 request of
        Inl _ \<Rightarrow> (Inl corrupt, s)
      | Inr hash \<Rightarrow>
          if sql_fault env SelectRequest then (Inl (Database SqlFault), s)
          else (case db_delivery_requests (rs_db s) (user, request_id) of
             Some (saved_hash, bytes) \<Rightarrow>
               if saved_hash \<noteq> hash then (Inr (Rejected RequestConflict), s)
               else (map_err (\<lambda>_. corrupt) (decode_message (take_response pc) bytes), s)
           | None \<Rightarrow> deliver_new pc sha256 env s user request_id request hash))"

end
