(* ===== verification/Relay_Enrollment.thy ===== *)
theory Relay_Enrollment
  imports Relay_Delivery
begin

text \<open>
  Private enrollment (\<open>grotto-relay/src/enrollment.rs\<close>): one-time tokens issued for a user and a
  key fingerprint, and the registration that consumes them and pins the key. A call is \<open>None\<close>
  when it panics, which it does only if the hash function does not return 32 bytes.
\<close>

section \<open>Operations\<close>

definition enrollment_hash :: "(bytes \<Rightarrow> bytes) \<Rightarrow> bytes \<Rightarrow> bytes option" where
  "enrollment_hash sha256 bytes =
     (case parse_fingerprint_hex (cert_fingerprint_sha256_hex sha256 bytes) of
        Inl _ \<Rightarrow> None | Inr h \<Rightarrow> Some h)"

definition issue_enrollment ::
  "(bytes \<Rightarrow> bytes) \<Rightarrow> relay_env \<Rightarrow> RelayState \<Rightarrow> UserId \<Rightarrow> bytes
   \<Rightarrow> ((StorageError + rstr) \<times> RelayState) option" where
  "issue_enrollment sha256 env s user fingerprint =
     (case random_token env of
        None \<Rightarrow> Some (Inl Random, s)
      | Some token \<Rightarrow>
          if lock_poisoned env then Some (Inl LockPoisoned, s)
          else do {
            hash \<leftarrow> enrollment_hash sha256 token;
            Some (case sql env InsertToken
                (if hash \<in> tk_hash ` set (db_enrollment_tokens (rs_db s))
                 then Inl (Database ConstraintViolation)
                 else Inr ((rs_db s)\<lparr>db_enrollment_tokens := db_enrollment_tokens (rs_db s) @
                   [\<lparr>tk_hash = hash, tk_user_id = user, tk_fingerprint = fingerprint,
                     tk_expires = unixepoch env + 86400, tk_consumed = False\<rparr>]\<rparr>)) of
              Inl e \<Rightarrow> (Inl e, s)
            | Inr db \<Rightarrow> (Inr (hex_string token), s\<lparr>rs_db := db\<rparr>))
          })"

text \<open>The condition of the update that consumes a token, and the update.\<close>

definition redeemable :: "relay_env \<Rightarrow> bytes \<Rightarrow> UserId \<Rightarrow> bytes \<Rightarrow> TokenRow \<Rightarrow> bool" where
  "redeemable env hash user fingerprint t \<longleftrightarrow>
     tk_hash t = hash \<and> tk_user_id t = user \<and> tk_fingerprint t = fingerprint
     \<and> tk_expires t > unixepoch env \<and> \<not> tk_consumed t"

definition consume :: "(TokenRow \<Rightarrow> bool) \<Rightarrow> TokenRow list \<Rightarrow> TokenRow list" where
  "consume p rows = map (\<lambda>t. if p t then t\<lparr>tk_consumed := True\<rparr> else t) rows"

definition register_enrolled_identity ::
  "(bytes \<Rightarrow> bytes) \<Rightarrow> relay_env \<Rightarrow> RelayState \<Rightarrow> UserId \<Rightarrow> Ed25519PublicKeyBytes \<Rightarrow> bytes option
   \<Rightarrow> ((StorageError + Registration) \<times> RelayState) option" where
  "register_enrolled_identity sha256 env s user key token =
     (if lock_poisoned env then Some (Inl LockPoisoned, s)
      else if sql_fault env BeginImmediate \<or> sql_fault env SelectIdentity
      then Some (Inl (Database SqlFault), s)
      else case db_identities (rs_db s) user of
        Some existing \<Rightarrow>
          Some (if existing \<noteq> key then Inl IdentityKeyConflict else Inr Existing, s)
      | None \<Rightarrow>
          (case token of
             None \<Rightarrow> Some (Inl EnrollmentRequired, s)
           | Some token \<Rightarrow> do {
               hash \<leftarrow> enrollment_hash sha256 token;
               fingerprint \<leftarrow> enrollment_hash sha256 (public_key_bytes key);
               let p = redeemable env hash user fingerprint;
                   rows = db_enrollment_tokens (rs_db s)
               in Some (
                 if sql_fault env ConsumeToken then (Inl (Database SqlFault), s)
                 else if length (filter p rows) \<noteq> 1 then (Inl EnrollmentRequired, s)
                 else if sql_fault env InsertIdentity then (Inl (Database SqlFault), s)
                 else if sql_fault env Commit_tx then (Inl (Database SqlFault), s)
                 else (Inr New, s\<lparr>rs_db := (rs_db s)
                   \<lparr>db_enrollment_tokens := consume p rows,
                    db_identities := (db_identities (rs_db s))(user \<mapsto> key)\<rparr>\<rparr>))
             }))"

lemma enrollment_hash_sha256: "length (sha256 bs) = 32 \<Longrightarrow> enrollment_hash sha256 bs = Some (sha256 bs)"
  by (simp add: enrollment_hash_def parse_fingerprint_of_digest)

end
