(* ===== verification/Relay_Effects.thy ===== *)
theory Relay_Effects
  imports Relay_Enrollment
begin

text \<open>
  What every call does to the tables: for each arm of \<open>execute\<close> which responses leave the tables
  as they were and, for the one that does not, which tables change and how; then the same for the
  whole transaction. The proofs about the relay rest on these lemmas instead of the code.
\<close>

section \<open>Effects of the arms\<close>

lemmas arm_simps = and_then_Inr sql_Inr Let_def

lemma subscribe_Inr:
  "subscribe env db room user = Inr db' \<Longrightarrow>
   db' = (if is_subscribed db room user then db
     else db\<lparr>db_room_subscribers := db_room_subscribers db @ [(room, user)]\<rparr>)"
  by (simp add: subscribe_def sql_Inr)

lemma create_room_effect:
  assumes "create_room env db user name = Inr (response, db')"
  obtains (rejected) "response \<in> {Rejected Invalid, Rejected Quota}" "db' = db"
  | (created) n room where "normalize_room_name name = Inr n" "random_room env = Some room"
      "length (filter (\<lambda>r. rm_created_by r = user) (db_rooms db)) < 64"
      "room \<notin> rm_room_id ` set (db_rooms db)" "response = RoomCreated room"
      "db' = db\<lparr>db_rooms := db_rooms db @ [\<lparr>rm_room_id = room, rm_name = n,
           rm_created_by = user, rm_created_at = unixepoch env\<rparr>],
         db_room_subscribers := (if is_subscribed db room user then db_room_subscribers db
           else db_room_subscribers db @ [(room, user)])\<rparr>"
proof (cases "normalize_room_name name")
  case (Inl e)
  with assms rejected show thesis by (simp add: create_room_def)
next
  case (Inr n)
  show thesis
  proof (cases "response = Rejected Quota \<and> db' = db")
    case True
    with rejected show thesis by simp
  next
    case False
    with assms Inr obtain room db1 where r: "random_room env = Some room"
      "length (filter (\<lambda>r. rm_created_by r = user) (db_rooms db)) < 64"
      "room \<notin> rm_room_id ` set (db_rooms db)" "response = RoomCreated room"
      "subscribe env (db\<lparr>db_rooms := db_rooms db @ [\<lparr>rm_room_id = room, rm_name = n,
           rm_created_by = user, rm_created_at = unixepoch env\<rparr>]\<rparr>) room user = Inr db'"
      by (auto simp: create_room_def arm_simps split: if_splits option.splits)
    from Inr r(1-4) show thesis
      by (rule created) (use subscribe_Inr [OF r(5)] in \<open>simp add: is_subscribed_def\<close>)
  qed
qed

lemma next_rowid_snoc:
  "next_rowid (rows @ [k]) = max (next_rowid rows) (Suc (kp_rowid k))"
  by (simp add: next_rowid_def max_def)

lemma insert_key_packages_effect:
  assumes "insert_key_packages env user i packages db = Inr db'"
  shows "\<exists>rows. db' = db\<lparr>db_key_packages := db_key_packages db @ rows\<rparr>
    \<and> map kp_key_package rows = packages \<and> list_all (\<lambda>k. kp_user_id k = user) rows
    \<and> map kp_rowid rows
      = [next_rowid (db_key_packages db)..<next_rowid (db_key_packages db) + length packages]"
  using assms
proof (induction packages arbitrary: i db)
  case (Cons p ps)
  let ?n = "next_rowid (db_key_packages db)"
  let ?k = "\<lparr>kp_rowid = ?n, kp_user_id = user, kp_key_package = p, kp_published_at = unixepoch env\<rparr>"
  let ?db = "db\<lparr>db_key_packages := db_key_packages db @ [?k]\<rparr>"
  from Cons.prems have "insert_key_packages env user (Suc i) ps ?db = Inr db'"
    by (simp add: arm_simps)
  from Cons.IH [OF this] obtain rows where rows: "db' = ?db\<lparr>db_key_packages := db_key_packages ?db @ rows\<rparr>"
    "map kp_key_package rows = ps" "list_all (\<lambda>k. kp_user_id k = user) rows"
    "map kp_rowid rows = [Suc ?n..<Suc ?n + length ps]"
    by (auto simp: next_rowid_snoc)
  have "[?n..<?n + length (p # ps)] = ?n # [Suc ?n..<Suc ?n + length ps]"
    by (subst upt_conv_Cons) simp_all
  with rows show ?case by (intro exI [of _ "?k # rows"]) simp
qed simp

lemma publish_key_packages_effect:
  assumes "publish_key_packages env db user packages = Inr (response, db')"
  shows "response \<in> {Rejected Invalid, Rejected Quota} \<and> db' = db
    \<or> packages \<noteq> [] \<and> list_all (\<lambda>p. p \<noteq> [] \<and> length p \<le> MAX_KEY_PACKAGE_BYTES) packages
      \<and> length (filter (\<lambda>k. kp_user_id k = user) (db_key_packages db)) + length packages \<le> 64
      \<and> insert_key_packages env user 0 packages db = Inr db'
      \<and> response = KeyPackagesPublished (of_nat (length packages))"
  using assms
  by (auto simp: publish_key_packages_def arm_simps list_ex_iff list_all_iff not_less split: if_splits)

lemma set_fetch_grant_effect:
  "set_fetch_grant env db user requester allowed = Inr (response, db') \<Longrightarrow>
   response = FetchGrantSet \<and>
   (\<exists>grants. db' = db\<lparr>db_fetch_grants := grants\<rparr>
     \<and> set grants = (if allowed then insert (user, requester) (set (db_fetch_grants db))
         else set (db_fetch_grants db) - {(user, requester)}))"
  by (auto simp: set_fetch_grant_def arm_simps split: if_splits intro: exI [of _ "db_fetch_grants db"])

definition reserves :: "relay_env \<Rightarrow> Db \<Rightarrow> UserId \<Rightarrow> UserId \<Rightarrow> KeyPackageRow \<Rightarrow> Db \<Rightarrow> bool" where
  "reserves env db user recipient k db' \<longleftrightarrow>
     (recipient, user) \<in> set (db_fetch_grants db)
     \<and> length (recent_allocations env db recipient) < 16
     \<and> length (filter (\<lambda>a. al_requester a = user) (recent_allocations env db recipient)) < 4
     \<and> (\<exists>ks. sort_key kp_rowid (filter (\<lambda>k. kp_user_id k = recipient) (db_key_packages db)) = k # ks)
     \<and> db' = db\<lparr>db_key_packages := filter (\<lambda>j. kp_rowid j \<noteq> kp_rowid k) (db_key_packages db),
         db_package_allocations := db_package_allocations db @ [\<lparr>al_requester = user,
           al_recipient = recipient, al_allocated_at = unixepoch env\<rparr>]\<rparr>"

lemma reserve_key_package_effect:
  assumes "reserve_key_package env db user recipient = Inr (response, db')"
  shows "response \<in> {denied, Rejected Overloaded, Rejected NotFound} \<and> db' = db
    \<or> (\<exists>k. response = KeyPackage recipient (kp_key_package k) \<and> reserves env db user recipient k db')"
proof (cases "sort_key kp_rowid (filter (\<lambda>k. kp_user_id k = recipient) (db_key_packages db))")
  case Nil
  with assms show ?thesis
    by (auto simp: reserve_key_package_def arm_simps simp del: sort_key_simps split: if_splits)
next
  case (Cons k ks)
  with assms show ?thesis
    by (auto simp: reserve_key_package_def arm_simps reserves_def not_le split: if_splits)
qed

text \<open>
  An accepted append: the row of the event, and, with a Welcome, the row of its record and the
  subscription of its recipient.
\<close>

definition event_row :: "postcard \<Rightarrow> Event \<Rightarrow> EventRow" where
  "event_row pc ev = \<lparr>er_room = ap_room (ev_operation ev),
     er_sequence = ap_parent (ev_operation ev) + 1, er_event_id = ev_id ev,
     er_sender = ev_sender ev, er_record = ser_event pc ev\<rparr>"

definition welcome_of :: "rstr \<Rightarrow> Event \<Rightarrow> WelcomeAttachment \<Rightarrow> WelcomeDelivery" where
  "welcome_of name ev w = \<lparr>wd_room_name = name, wd_cursor = 0, wd_event = ev_id ev,
     wd_room = ap_room (ev_operation ev), wd_sequence = ap_parent (ev_operation ev) + 1,
     wd_inviter = ev_sender ev, wd_attachment = w\<rparr>"

definition add_subscriber :: "RoomId \<Rightarrow> UserId \<Rightarrow> (RoomId \<times> UserId) list \<Rightarrow> (RoomId \<times> UserId) list" where
  "add_subscriber room user subs = (if (room, user) \<in> set subs then subs else subs @ [(room, user)])"

lemma set_add_subscriber [simp]: "set (add_subscriber room user subs) = insert (room, user) (set subs)"
  by (auto simp: add_subscriber_def)

lemma distinct_add_subscriber [simp]: "distinct (add_subscriber room user subs) = distinct subs"
  by (auto simp: add_subscriber_def)

definition add_event :: "postcard \<Rightarrow> Event \<Rightarrow> Db \<Rightarrow> Db" where
  "add_event pc ev db = db\<lparr>db_delivery_events := db_delivery_events db @ [event_row pc ev]\<rparr>"

definition add_welcome :: "postcard \<Rightarrow> rstr \<Rightarrow> Event \<Rightarrow> WelcomeAttachment \<Rightarrow> Db \<Rightarrow> Db" where
  "add_welcome pc name ev w db = db
     \<lparr>db_room_subscribers := add_subscriber (ap_room (ev_operation ev)) (wa_recipient w) (db_room_subscribers db),
      db_delivery_welcomes := db_delivery_welcomes db @
        [\<lparr>wr_cursor = db_welcome_autoincrement db + 1, wr_recipient = wa_recipient w,
          wr_record = ser_welcome pc (welcome_of name ev w)\<rparr>],
      db_welcome_autoincrement := db_welcome_autoincrement db + 1\<rparr>"

text \<open>When an append of \<open>ev\<close> is accepted and what it leaves behind.\<close>

definition appends :: "postcard \<Rightarrow> Db \<Rightarrow> Event \<Rightarrow> Db \<Rightarrow> bool" where
  "appends pc db ev db' \<longleftrightarrow>
     is_subscribed db (ap_room (ev_operation ev)) (ev_sender ev)
     \<and> \<not> invalid_append (ev_operation ev)
     \<and> room_head db (ap_room (ev_operation ev)) = ap_parent (ev_operation ev)
     \<and> ev_id ev \<notin> er_event_id ` set (db_delivery_events db)
     \<and> length (ser_event pc ev) \<le> MAX_PAYLOAD
     \<and> (case ap_welcome (ev_operation ev) of
          None \<Rightarrow> db' = add_event pc ev db
        | Some w \<Rightarrow> \<exists>name. select_room_name db (ap_room (ev_operation ev)) = Inr name
            \<and> db_welcome_autoincrement db < i64_max
            \<and> length (ser_welcome pc (welcome_of name ev w)) \<le> MAX_PAYLOAD
            \<and> db' = add_welcome pc name ev w (add_event pc ev db))"

lemma publish_welcome_effect:
  assumes "publish_welcome pc env db ev (ap_parent (ev_operation ev) + 1) = Inr db'"
  shows "case ap_welcome (ev_operation ev) of
      None \<Rightarrow> db' = db
    | Some w \<Rightarrow> \<exists>name. select_room_name db (ap_room (ev_operation ev)) = Inr name
        \<and> db_welcome_autoincrement db < i64_max
        \<and> length (ser_welcome pc (welcome_of name ev w)) \<le> MAX_PAYLOAD
        \<and> db' = add_welcome pc name ev w db"
proof (cases "ap_welcome (ev_operation ev)")
  case None
  with assms show ?thesis by (simp add: publish_welcome_def)
next
  case (Some w)
  with assms obtain name db1 where n: "select_room_name db (ap_room (ev_operation ev)) = Inr name"
    "length (ser_welcome pc (welcome_of name ev w)) \<le> MAX_PAYLOAD"
    "insert_welcome (wa_recipient w) (ser_welcome pc (welcome_of name ev w)) db = Inr db1"
    "subscribe env db1 (ap_room (ev_operation ev)) (wa_recipient w) = Inr db'"
    by (auto simp: publish_welcome_def arm_simps encode_message_Inr welcome_of_def)
  from n(3) have d: "db_welcome_autoincrement db < i64_max"
    "db1 = db\<lparr>db_delivery_welcomes := db_delivery_welcomes db @
        [\<lparr>wr_cursor = db_welcome_autoincrement db + 1, wr_recipient = wa_recipient w,
          wr_record = ser_welcome pc (welcome_of name ev w)\<rparr>],
      db_welcome_autoincrement := db_welcome_autoincrement db + 1\<rparr>"
    by (auto simp: insert_welcome_def Let_def not_le split: if_splits)
  from subscribe_Inr [OF n(4)] d(2) have "db' = add_welcome pc name ev w db"
    by (simp add: add_welcome_def add_subscriber_def is_subscribed_def)
  with Some n d show ?thesis by auto
qed

lemma append_effect:
  assumes "append_room_operation pc env db user request_id op = Inr (response, db')"
  shows "response \<in> {denied, Rejected Invalid, Rejected RequestConflict,
        HeadConflict (ap_room op) (room_head db (ap_room op))} \<and> db' = db
    \<or> (let ev = \<lparr>ev_id = request_id, ev_sender = user, ev_operation = op\<rparr> in
       response = AppendAccepted ev \<and> appends pc db ev db')"
proof -
  let ?ev = "\<lparr>ev_id = request_id, ev_sender = user, ev_operation = op\<rparr>"
  note unfold = append_room_operation_def subscribed_def arm_simps encode_message_Inr
  show ?thesis
  proof (cases "is_subscribed db (ap_room op) user \<and> \<not> invalid_append op
      \<and> room_head db (ap_room op) = ap_parent op \<and> request_id \<notin> er_event_id ` set (db_delivery_events db)")
    case False
    with assms show ?thesis by (auto simp: unfold split: if_splits)
  next
    case True
    with assms obtain db1 where db1: "length (ser_event pc ?ev) \<le> MAX_PAYLOAD"
      "insert_event (event_row pc ?ev) db = Inr db1"
      "publish_welcome pc env db1 ?ev (ap_parent op + 1) = Inr db'" "response = AppendAccepted ?ev"
      by (auto simp: unfold event_row_def split: if_splits)
    then have add: "db1 = add_event pc ?ev db"
      by (simp add: insert_event_def add_event_def split: if_splits)
    then have "select_room_name db1 = select_room_name db"
      "db_welcome_autoincrement db1 = db_welcome_autoincrement db"
      by (simp_all add: fun_eq_iff select_room_name_def add_event_def)
    with True db1 add publish_welcome_effect [of pc env db1 ?ev db'] show ?thesis
      by (cases "ap_welcome op") (simp_all add: appends_def Let_def)
  qed
qed

section \<open>Reads change nothing\<close>

lemma reads_effect:
  "fetch_room_events pc env db user room after = Inr (response, db') \<Longrightarrow> db' = db"
  "sync_index env db user after_room = Inr (response, db') \<Longrightarrow> db' = db"
  "fetch_welcomes pc env db user cursor = Inr (response, db') \<Longrightarrow> db' = db"
  "acknowledge env db user events welcomes = Inr (response, db') \<Longrightarrow> db' = db"
  by (auto simp: fetch_room_events_def sync_index_def fetch_welcomes_def acknowledge_def arm_simps
      split: if_splits)

section \<open>Effect of a transaction\<close>

lemma execute_unchanged:
  assumes "execute pc env db user request_id request = Inr (response, db')"
    and "transient response \<or> \<not> durable request \<or> is_receipt request"
  shows "db' = db"
proof (cases request)
  case (CreateRoom name)
  with assms show ?thesis
    by (auto simp: execute_def transient_def durable_def is_receipt_def elim: create_room_effect)
next
  case (PublishKeyPackages packages)
  with assms publish_key_packages_effect [of env db user packages response db'] show ?thesis
    by (auto simp: execute_def transient_def durable_def is_receipt_def)
next
  case (SetFetchGrant requester allowed)
  with assms set_fetch_grant_effect [of env db user requester allowed response db'] show ?thesis
    by (auto simp: execute_def transient_def durable_def is_receipt_def)
next
  case (ReserveKeyPackage recipient)
  with assms reserve_key_package_effect [of env db user recipient response db'] show ?thesis
    by (auto simp: execute_def transient_def durable_def is_receipt_def)
next
  case (AppendRoomOperation op)
  with assms append_effect [of pc env db user request_id op response db'] show ?thesis
    by (auto simp: execute_def transient_def durable_def is_receipt_def Let_def)
qed (use assms in \<open>auto simp: execute_def durable_def is_receipt_def dest: reads_effect\<close>)

definition charged :: "UserId \<Rightarrow> Request \<Rightarrow> u64 \<Rightarrow> Db \<Rightarrow> Db" where
  "charged user request bytes db =
     (if is_receipt request then db
      else db\<lparr>db_usage_sender := charge user bytes (db_usage_sender db),
        db_usage_room := (case request of
            AppendRoomOperation op \<Rightarrow> charge (ap_room op) bytes (db_usage_room db)
          | _ \<Rightarrow> db_usage_room db)\<rparr>)"

definition saved :: "UserId \<Rightarrow> MessageId \<Rightarrow> bytes \<Rightarrow> bytes \<Rightarrow> Db \<Rightarrow> Db" where
  "saved user request_id hash response db =
     db\<lparr>db_delivery_requests := (db_delivery_requests db)((user, request_id) \<mapsto> (hash, response))\<rparr>"

lemma charge_usage_effect:
  "charge_usage env user request bytes db = Inr db' \<Longrightarrow> db' = charged user request bytes db"
  by (auto simp: charge_usage_def charged_def sql_Inr split: Request.splits if_splits)

lemma save_response_effect:
  "save_response pc env user request_id hash response db = Inr db' \<Longrightarrow>
   length (ser_response pc response) \<le> MAX_PAYLOAD
   \<and> db' = saved user request_id hash (ser_response pc response) db"
  by (auto simp: save_response_def saved_def and_then_Inr sql_Inr encode_message_Inr)

text \<open>
  A transaction that changes the database: a new request identifier, an admitted request, the
  arm's own effect, then the ledgers and the saved response.
\<close>

definition commits ::
  "postcard \<Rightarrow> (bytes \<Rightarrow> bytes) \<Rightarrow> relay_env \<Rightarrow> RelayState \<Rightarrow> UserId \<Rightarrow> MessageId \<Rightarrow> Request
   \<Rightarrow> Response \<Rightarrow> RelayState \<Rightarrow> bool" where
  "commits pc sha256 env s user request_id request response s' \<longleftrightarrow>
     db_delivery_requests (rs_db s) (user, request_id) = None
     \<and> durable request \<and> \<not> transient response
     \<and> (is_receipt request \<or> admit pc env (rs_limits s) (rs_db s) user request = Inr True)
     \<and> length (ser_request pc request) \<le> MAX_PAYLOAD
     \<and> length (ser_response pc response) \<le> MAX_PAYLOAD
     \<and> (\<exists>db. execute pc env (rs_db s) user request_id request = Inr (response, db)
         \<and> rs_db s' = saved user request_id (sha256 (ser_request pc request)) (ser_response pc response)
             (charged user request (required_bytes (ser_request pc request)) db))"

lemma count_outcome_db [simp]:
  "rs_db (count_outcome r s) = rs_db s" "rs_limits (count_outcome r s) = rs_limits s"
  by (auto simp: count_outcome_def split: Response.splits Rejection.splits)

lemma finish_effect:
  assumes "finish_transaction pc env s user request_id request hash bytes response db = (result, s')"
    and "execute pc env (rs_db s) user request_id request = Inr (response, db)"
  shows "rs_limits s' = rs_limits s \<and> (rs_db s' = rs_db s \<or>
     result = Inr response \<and> durable request \<and> \<not> transient response
     \<and> length (ser_response pc response) \<le> MAX_PAYLOAD
     \<and> rs_db s' = saved user request_id hash (ser_response pc response) (charged user request bytes db))"
proof (cases "durable request \<and> \<not> transient response")
  case True
  with assms(1) show ?thesis
    by (auto simp: finish_transaction_def Let_def and_then_Inr split: if_splits sum.splits
        dest!: charge_usage_effect save_response_effect)
next
  case False
  with assms(2) execute_unchanged have "db = rs_db s" by blast
  with False assms(1) show ?thesis
    by (auto simp: finish_transaction_def Let_def split: if_splits)
qed

lemma deliver_new_cases:
  assumes "deliver_new pc sha256 env s user request_id request hash = (result, s')"
  shows "rs_limits s' = rs_limits s \<and> (rs_db s' = rs_db s
    \<or> (\<exists>response db. (durable request \<and> \<not> is_receipt request \<longrightarrow>
            admit pc env (rs_limits s) (rs_db s) user request = Inr True)
        \<and> length (ser_request pc request) \<le> MAX_PAYLOAD
        \<and> execute pc env (rs_db s) user request_id request = Inr (response, db)
        \<and> finish_transaction pc env s user request_id request hash
            (required_bytes (ser_request pc request)) response db = (result, s')))"
proof (cases "execute pc env (rs_db s) user request_id request")
  case (Inl e)
  with assms show ?thesis
    by (auto simp: deliver_new_def split: if_splits sum.splits bool.splits)
next
  case (Inr x)
  obtain response db where x: "x = (response, db)" by (cases x)
  let ?fin = "finish_transaction pc env s user request_id request hash
      (required_bytes (ser_request pc request)) response db"
  have "s' = s \<or> s' = s\<lparr>rs_quota_rejections := rs_quota_rejections s + 1\<rparr>
    \<or> (durable request \<and> \<not> is_receipt request \<longrightarrow> admit pc env (rs_limits s) (rs_db s) user request = Inr True)
      \<and> length (ser_request pc request) \<le> MAX_PAYLOAD \<and> ?fin = (result, s')"
    using assms Inr x
    by (auto simp: deliver_new_def encode_message_def Let_def split: if_splits sum.splits bool.splits)
  then show ?thesis
    using finish_effect [OF _ Inr [unfolded x]] Inr x by auto
qed

lemma deliver_new_effect:
  assumes "deliver_new pc sha256 env s user request_id request (sha256 (ser_request pc request)) = (result, s')"
    and "db_delivery_requests (rs_db s) (user, request_id) = None"
  shows "rs_limits s' = rs_limits s \<and> (rs_db s' = rs_db s
    \<or> (\<exists>response. result = Inr response \<and> commits pc sha256 env s user request_id request response s'))"
  using deliver_new_cases [OF assms(1)] finish_effect assms(2)
  unfolding commits_def by blast

lemma deliver_effect:
  assumes "deliver pc sha256 env s user request_id request = (result, s')"
  shows "rs_limits s' = rs_limits s \<and> (rs_db s' = rs_db s
    \<or> (\<exists>response. result = Inr response \<and> commits pc sha256 env s user request_id request response s'))"
proof -
  have "s' = s \<or> db_delivery_requests (rs_db s) (user, request_id) = None
      \<and> deliver_new pc sha256 env s user request_id request (sha256 (ser_request pc request)) = (result, s')"
    using assms
    by (auto simp: deliver_def payload_hash_def encode_message_Inr encode_message_def Let_def
        split: if_splits sum.splits option.splits prod.splits)
  then show ?thesis using deliver_new_effect by blast
qed

end
