(* ===== verification/Relay_Invariant.thy ===== *)
theory Relay_Invariant
  imports Relay_Effects
begin

text \<open>
  The invariant of the relay database and its preservation. The event table is described by the
  list \<open>evs\<close> of the events it stores: in every room the parents are 0, 1, 2, ... in order, the
  welcome table holds exactly one row for each event with a Welcome, and every sender and
  recipient is a subscriber.
\<close>

section \<open>Rooms and subscriptions\<close>

definition rooms_ok :: "Db \<Rightarrow> bool" where
  "rooms_ok db \<longleftrightarrow>
     distinct (map rm_room_id (db_rooms db))
     \<and> list_all (\<lambda>r. wf_room (rm_room_id r) \<and> wf_name (rm_name r)) (db_rooms db)
     \<and> (\<forall>u. length (filter (\<lambda>r. rm_created_by r = u) (db_rooms db)) \<le> 64)
     \<and> distinct (db_room_subscribers db)
     \<and> list_all (\<lambda>(r, u). r \<in> rm_room_id ` set (db_rooms db) \<and> wf_user u) (db_room_subscribers db)"

lemma rooms_ok_create:
  assumes "rooms_ok db" "rm_room_id r \<notin> rm_room_id ` set (db_rooms db)" "wf_room (rm_room_id r)"
    "wf_name (rm_name r)" "length (filter (\<lambda>q. rm_created_by q = rm_created_by r) (db_rooms db)) < 64"
    "wf_user u"
  shows "rooms_ok (db\<lparr>db_rooms := db_rooms db @ [r],
    db_room_subscribers := add_subscriber (rm_room_id r) u (db_room_subscribers db)\<rparr>)"
  using assms by (auto simp: rooms_ok_def list_all_iff split: if_splits)

lemma rooms_ok_subscribe:
  assumes "rooms_ok db" "room \<in> rm_room_id ` set (db_rooms db)" "wf_user u"
  shows "rooms_ok (db\<lparr>db_room_subscribers := add_subscriber room u (db_room_subscribers db)\<rparr>)"
  using assms by (auto simp: rooms_ok_def list_all_iff)

lemma select_room_name_wf:
  assumes "rooms_ok db" "select_room_name db room = Inr name"
  shows "wf_name name" "room \<in> rm_room_id ` set (db_rooms db)"
proof -
  from assms(2) obtain r rs where "filter (\<lambda>r. rm_room_id r = room) (db_rooms db) = r # rs" "name = rm_name r"
    by (auto simp: select_room_name_def split: list.splits)
  then have "r \<in> set (db_rooms db)" "rm_room_id r = room" "name = rm_name r"
    by (auto simp: filter_eq_Cons_iff)
  with assms(1) show "wf_name name" "room \<in> rm_room_id ` set (db_rooms db)"
    by (auto simp: rooms_ok_def list_all_iff)
qed

section \<open>Key packages\<close>

definition packages_ok :: "Db \<Rightarrow> bool" where
  "packages_ok db \<longleftrightarrow>
     sorted_wrt (<) (map kp_rowid (db_key_packages db))
     \<and> list_all (\<lambda>k. kp_key_package k \<noteq> [] \<and> length (kp_key_package k) \<le> MAX_KEY_PACKAGE_BYTES)
         (db_key_packages db)
     \<and> (\<forall>u. length (filter (\<lambda>k. kp_user_id k = u) (db_key_packages db)) \<le> 64)"

lemma less_next_rowid: "k \<in> set rows \<Longrightarrow> kp_rowid k < next_rowid rows"
  by (induction rows rule: rev_induct) (auto simp: next_rowid_snoc less_max_iff_disj)

lemma packages_ok_publish:
  assumes "packages_ok db" "list_all (\<lambda>p. p \<noteq> [] \<and> length p \<le> MAX_KEY_PACKAGE_BYTES) packages"
    "length (filter (\<lambda>k. kp_user_id k = user) (db_key_packages db)) + length packages \<le> 64"
    "map kp_key_package rows = packages" "list_all (\<lambda>k. kp_user_id k = user) rows"
    "map kp_rowid rows = [next_rowid (db_key_packages db)..<next_rowid (db_key_packages db) + length packages]"
  shows "packages_ok (db\<lparr>db_key_packages := db_key_packages db @ rows\<rparr>)"
proof -
  have rows: "length (filter (\<lambda>k. kp_user_id k = u) rows) \<le> (if u = user then length packages else 0)" for u
    using assms(4,5) by (auto simp: list_all_iff filter_empty_conv)
  have "length (filter (\<lambda>k. kp_user_id k = u) (db_key_packages db @ rows)) \<le> 64" for u
  proof -
    have "length (filter (\<lambda>k. kp_user_id k = u) (db_key_packages db)) \<le> 64"
      using assms(1) by (simp add: packages_ok_def)
    then show ?thesis
      using rows [of u] assms(3) by (cases "u = user") simp_all
  qed
  moreover have "kp_rowid k < next_rowid (db_key_packages db)" if "k \<in> set (db_key_packages db)" for k
    using that by (rule less_next_rowid)
  moreover have "next_rowid (db_key_packages db) \<le> kp_rowid k" if "k \<in> set rows" for k
    using that assms(6) by (metis atLeastLessThan_iff image_eqI list.set_map set_upt)
  moreover have "sorted_wrt (<) (map kp_rowid rows)" using assms(6) by simp
  moreover have "list_all (\<lambda>k. kp_key_package k \<noteq> [] \<and> length (kp_key_package k) \<le> MAX_KEY_PACKAGE_BYTES) rows"
    using assms(2,4) by (auto simp: list_all_iff)
  ultimately show ?thesis
    using assms(1) by (fastforce simp: packages_ok_def sorted_wrt_append)
qed

lemma packages_ok_filter:
  assumes "packages_ok db"
  shows "packages_ok (db\<lparr>db_key_packages := filter P (db_key_packages db)\<rparr>)"
proof -
  have "length (filter Q (filter P xs)) \<le> length (filter Q xs)" for Q :: "KeyPackageRow \<Rightarrow> bool" and xs
    by (induction xs) auto
  then have "length (filter (\<lambda>k. kp_user_id k = u) (filter P (db_key_packages db))) \<le> 64" for u
    using assms unfolding packages_ok_def by (meson order_trans)
  then show ?thesis
    using assms unfolding packages_ok_def
    by (auto simp: sorted_wrt_map sorted_wrt_filter list_all_iff)
qed

section \<open>The event log and the Welcomes\<close>

definition room_log :: "RoomId \<Rightarrow> Event list \<Rightarrow> Event list" where
  "room_log room evs = filter (\<lambda>e. ap_room (ev_operation e) = room) evs"

definition parent_of :: "Event \<Rightarrow> nat" where
  "parent_of e = unat (ap_parent (ev_operation e))"

lemma room_log_append [simp]: "room_log room (evs @ es) = room_log room evs @ room_log room es"
  by (simp add: room_log_def)

definition stored_event :: "Event \<Rightarrow> bool" where
  "stored_event e \<longleftrightarrow> wf_event e \<and> \<not> invalid_append (ev_operation e)"

definition room_name :: "Db \<Rightarrow> RoomId \<Rightarrow> rstr" where
  "room_name db room = (case select_room_name db room of Inr name \<Rightarrow> name | Inl _ \<Rightarrow> [])"

text \<open>The recipient and record of the Welcome an event publishes, if it has one.\<close>

definition published :: "postcard \<Rightarrow> Db \<Rightarrow> Event \<Rightarrow> (UserId \<times> bytes) list" where
  "published pc db e =
     (case ap_welcome (ev_operation e) of
        None \<Rightarrow> []
      | Some w \<Rightarrow> [(wa_recipient w, ser_welcome pc (welcome_of (room_name db (ap_room (ev_operation e))) e w))])"

definition members :: "Event \<Rightarrow> UserId list" where
  "members e = ev_sender e # (case ap_welcome (ev_operation e) of None \<Rightarrow> [] | Some w \<Rightarrow> [wa_recipient w])"

definition events_ok :: "postcard \<Rightarrow> Event list \<Rightarrow> Db \<Rightarrow> bool" where
  "events_ok pc evs db \<longleftrightarrow>
     db_delivery_events db = map (event_row pc) evs
     \<and> list_all stored_event evs \<and> distinct (map ev_id evs)
     \<and> (\<forall>room. map parent_of (room_log room evs) = [0..<length (room_log room evs)])"

definition welcomes_ok :: "postcard \<Rightarrow> Event list \<Rightarrow> Db \<Rightarrow> bool" where
  "welcomes_ok pc evs db \<longleftrightarrow>
     map (\<lambda>w. (wr_recipient w, wr_record w)) (db_delivery_welcomes db) = concat (map (published pc db) evs)
     \<and> map (\<lambda>w. unat (wr_cursor w)) (db_delivery_welcomes db) = [1..<Suc (length (db_delivery_welcomes db))]
     \<and> unat (db_welcome_autoincrement db) = length (db_delivery_welcomes db)
     \<and> db_welcome_autoincrement db \<le> i64_max
     \<and> (\<forall>e \<in> set evs. ap_room (ev_operation e) \<in> rm_room_id ` set (db_rooms db)
         \<and> (\<forall>u \<in> set (members e). is_subscribed db (ap_room (ev_operation e)) u))"

lemma room_rows_log: "events_ok pc evs db \<Longrightarrow> room_rows db room = map (event_row pc) (room_log room evs)"
  by (simp add: events_ok_def room_rows_def room_log_def filter_map comp_def event_row_def)

lemma fold_max_upt:
  "map unat (xs :: u64 list) = [1..<Suc n] \<Longrightarrow> unat (fold max xs 0) = n"
proof (induction n arbitrary: xs)
  case (Suc n)
  then obtain ys x where xs: "xs = ys @ [x]" "map unat ys = [1..<Suc n]" "unat x = Suc n"
    by (auto simp: map_eq_append_conv)
  with Suc.IH have "unat (fold max ys 0) = n" by blast
  with xs show ?case by (simp add: max.absorb1 word_le_nat_alt)
qed simp

lemma event_sequence_stored:
  "stored_event e \<Longrightarrow> unat (er_sequence (event_row pc e)) = Suc (parent_of e)"
proof -
  assume "stored_event e"
  then have "ap_parent (ev_operation e) < i64_max"
    by (auto simp: stored_event_def invalid_append_def not_le)
  then show ?thesis
    by (simp add: event_row_def parent_of_def unat_inc_u64 word_less_nat_alt)
qed

lemma room_head_log:
  assumes "events_ok pc evs db"
  shows "unat (room_head db room) = length (room_log room evs)"
proof -
  have "list_all stored_event (room_log room evs)"
    using assms by (simp add: events_ok_def room_log_def list_all_filter)
  then have "map unat (map (\<lambda>e. er_sequence (event_row pc e)) (room_log room evs))
      = map Suc (map parent_of (room_log room evs))"
    by (simp add: list_all_iff event_sequence_stored)
  also have "\<dots> = [1..<Suc (length (room_log room evs))]"
    using assms by (simp add: events_ok_def map_Suc_upt del: map_map)
  finally show ?thesis
    using fold_max_upt room_rows_log [OF assms, of room] by (simp add: room_head_def comp_def)
qed

lemma events_ok_append:
  assumes "events_ok pc evs db" "appends pc db ev db'" "wf_event ev"
  shows "events_ok pc (evs @ [ev]) db'"
proof -
  let ?room = "ap_room (ev_operation ev)"
  from assms(2) have a: "\<not> invalid_append (ev_operation ev)" "room_head db ?room = ap_parent (ev_operation ev)"
    "ev_id ev \<notin> er_event_id ` set (db_delivery_events db)"
    "db_delivery_events db' = db_delivery_events db @ [event_row pc ev]"
    by (auto simp: appends_def add_event_def add_welcome_def split: option.splits)
  from a(2) room_head_log [OF assms(1), of ?room]
  have parent: "parent_of ev = length (room_log ?room evs)" by (simp add: parent_of_def)
  have "map parent_of (room_log room (evs @ [ev])) = [0..<length (room_log room (evs @ [ev]))]" for room
    using assms(1) parent by (auto simp: events_ok_def room_log_def)
  moreover have "ev_id ev \<notin> ev_id ` set evs"
    using a(3) assms(1) by (auto simp: events_ok_def event_row_def image_image)
  ultimately show ?thesis
    using assms(1,3) a(1,4) by (simp add: events_ok_def stored_event_def)
qed

lemma welcomes_ok_cong:
  assumes "welcomes_ok pc evs db" "db_delivery_welcomes db' = db_delivery_welcomes db"
    "db_welcome_autoincrement db' = db_welcome_autoincrement db"
    "set (db_room_subscribers db) \<subseteq> set (db_room_subscribers db')"
    "\<exists>rs. db_rooms db' = db_rooms db @ rs"
  shows "welcomes_ok pc evs db'"
proof -
  have "room_name db' room = room_name db room" if "room \<in> rm_room_id ` set (db_rooms db)" for room
  proof -
    from that have "filter (\<lambda>r. rm_room_id r = room) (db_rooms db) \<noteq> []"
      by (auto simp: filter_empty_conv)
    with assms(5) show ?thesis
      by (auto simp: room_name_def select_room_name_def split: list.splits)
  qed
  with assms(1) have "published pc db' e = published pc db e" if "e \<in> set evs" for e
    using that by (auto simp: welcomes_ok_def published_def split: option.splits)
  then have eq: "concat (map (published pc db') evs) = concat (map (published pc db) evs)"
    by (metis (no_types, lifting) map_eq_conv)
  from assms(1,4,5) have "\<forall>e \<in> set evs. ap_room (ev_operation e) \<in> rm_room_id ` set (db_rooms db')
      \<and> (\<forall>u \<in> set (members e). is_subscribed db' (ap_room (ev_operation e)) u)"
    by (auto simp: welcomes_ok_def is_subscribed_def)
  with assms(1-3) eq show ?thesis by (simp add: welcomes_ok_def)
qed

lemma room_name_cong:
  "db_rooms db' = db_rooms db \<Longrightarrow> room_name db' = room_name db"
  by (simp add: fun_eq_iff room_name_def select_room_name_def)

lemma published_cong: "db_rooms db' = db_rooms db \<Longrightarrow> published pc db' = published pc db"
proof -
  assume "db_rooms db' = db_rooms db"
  from room_name_cong [OF this] show "published pc db' = published pc db"
    unfolding fun_eq_iff published_def by (simp split: option.split)
qed

lemma welcomes_ok_append:
  assumes "welcomes_ok pc evs db" "rooms_ok db" "appends pc db ev db'"
  shows "welcomes_ok pc (evs @ [ev]) db'"
proof -
  let ?op = "ev_operation ev"
  have sub: "is_subscribed db (ap_room ?op) (ev_sender ev)" using assms(3) by (simp add: appends_def)
  with assms(2) have room: "ap_room ?op \<in> rm_room_id ` set (db_rooms db)"
    by (auto simp: rooms_ok_def is_subscribed_def list_all_iff)
  have rooms: "db_rooms db' = db_rooms db"
    using assms(3) by (auto simp: appends_def add_event_def add_welcome_def split: option.splits)
  note cong = published_cong [OF rooms]
  show ?thesis
  proof (cases "ap_welcome ?op")
    case None
    with assms(3) have d: "db_delivery_welcomes db' = db_delivery_welcomes db"
      "db_welcome_autoincrement db' = db_welcome_autoincrement db" "is_subscribed db' = is_subscribed db"
      by (simp_all add: appends_def add_event_def is_subscribed_def fun_eq_iff)
    have "published pc db ev = []" using None by (simp add: published_def)
    with None assms(1) sub room show ?thesis
      unfolding welcomes_ok_def d rooms cong by (simp add: members_def)
  next
    case (Some w)
    with assms(3) obtain name where n: "select_room_name db (ap_room ?op) = Inr name"
      "db_welcome_autoincrement db < i64_max" "db' = add_welcome pc name ev w (add_event pc ev db)"
      by (auto simp: appends_def)
    have pub: "published pc db' ev = [(wa_recipient w, ser_welcome pc (welcome_of name ev w))]"
      using Some n(1) unfolding cong by (simp add: published_def room_name_def)
    have d: "db_delivery_welcomes db' = db_delivery_welcomes db @
        [\<lparr>wr_cursor = db_welcome_autoincrement db + 1, wr_recipient = wa_recipient w,
          wr_record = ser_welcome pc (welcome_of name ev w)\<rparr>]"
      "db_welcome_autoincrement db' = db_welcome_autoincrement db + 1"
      using n(3) by (simp_all add: add_welcome_def add_event_def)
    have subs: "is_subscribed db' r u \<longleftrightarrow> is_subscribed db r u \<or> r = ap_room ?op \<and> u = wa_recipient w" for r u
      using n(3) by (auto simp: is_subscribed_def add_welcome_def add_event_def)
    have inc: "unat (db_welcome_autoincrement db + 1) = Suc (unat (db_welcome_autoincrement db))"
      "db_welcome_autoincrement db + 1 \<le> i64_max"
      using n(2) by (simp_all add: unat_inc_u64 word_less_nat_alt word_le_nat_alt)
    show ?thesis
      using assms(1) sub room Some
      unfolding welcomes_ok_def d rooms cong
      by (simp add: pub [unfolded cong] inc subs members_def)
  qed
qed

section \<open>Membership\<close>

text \<open>Every subscriber created the room or was sent a Welcome to it.\<close>

definition members_ok :: "Event list \<Rightarrow> Db \<Rightarrow> bool" where
  "members_ok evs db \<longleftrightarrow>
     (\<forall>room user. is_subscribed db room user \<longrightarrow>
        (\<exists>r \<in> set (db_rooms db). rm_room_id r = room \<and> rm_created_by r = user)
        \<or> (\<exists>e \<in> set (room_log room evs). \<exists>w. ap_welcome (ev_operation e) = Some w \<and> wa_recipient w = user))"

lemma members_ok_cong:
  assumes "members_ok evs db" "db_room_subscribers db' = db_room_subscribers db" "db_rooms db' = db_rooms db"
  shows "members_ok evs db'"
  using assms by (simp add: members_ok_def is_subscribed_def)

lemma members_ok_create:
  assumes "members_ok evs db"
  shows "members_ok evs (db\<lparr>db_rooms := db_rooms db @ [r],
    db_room_subscribers := add_subscriber (rm_room_id r) (rm_created_by r) (db_room_subscribers db)\<rparr>)"
  using assms unfolding members_ok_def is_subscribed_def by auto

lemma members_ok_append:
  assumes "members_ok evs db" "appends pc db ev db'"
  shows "members_ok (evs @ [ev]) db'"
proof -
  have "is_subscribed db' room user \<Longrightarrow> is_subscribed db room user
      \<or> room = ap_room (ev_operation ev) \<and> (\<exists>w. ap_welcome (ev_operation ev) = Some w \<and> wa_recipient w = user)"
    for room user
    using assms(2)
    by (auto simp: appends_def add_event_def add_welcome_def is_subscribed_def split: option.splits)
  moreover have "db_rooms db' = db_rooms db"
    using assms(2) by (auto simp: appends_def add_event_def add_welcome_def split: option.splits)
  ultimately show ?thesis
    using assms(1) unfolding members_ok_def by (fastforce simp: room_log_def)
qed

section \<open>Saved responses and ledgers\<close>

definition is_page :: "Response \<Rightarrow> bool" where
  "is_page response =
     (case response of RoomEvents _ _ _ _ \<Rightarrow> True | SyncIndexPage _ _ \<Rightarrow> True | Welcomes _ _ _ \<Rightarrow> True
      | _ \<Rightarrow> False)"

definition appended_by :: "Response \<Rightarrow> Event list" where
  "appended_by response = (case response of AppendAccepted e \<Rightarrow> [e] | _ \<Rightarrow> [])"

lemma appended_by_simps [simp]:
  "appended_by (AppendAccepted e) = [e]" "appended_by (Rejected r) = []" "appended_by denied = []"
  "appended_by (RoomCreated room) = []" "appended_by (KeyPackagesPublished n) = []"
  "appended_by FetchGrantSet = []" "appended_by (KeyPackage u p) = []" "appended_by (HeadConflict room h) = []"
  "appended_by Acknowledged = []" "appended_by (RoomEvents room a es b) = []"
  "appended_by (SyncIndexPage rs b) = []" "appended_by (Welcomes c ws b) = []"
  by (simp_all add: appended_by_def denied_def)

definition requests_ok :: "postcard \<Rightarrow> Db \<Rightarrow> bool" where
  "requests_ok pc db \<longleftrightarrow>
     (\<forall>key hash bytes. db_delivery_requests db key = Some (hash, bytes) \<longrightarrow>
       (\<exists>response. bytes = ser_response pc response \<and> wf_response response
          \<and> length bytes \<le> MAX_PAYLOAD \<and> \<not> transient response \<and> \<not> is_page response
          \<and> (\<forall>e \<in> set (appended_by response). event_row pc e \<in> set (db_delivery_events db))))"

text \<open>A limit of \<open>u64::MAX\<close> is no limit: the saturating sums never exceed it.\<close>

definition ledger_ok :: "StorageLimits \<Rightarrow> Db \<Rightarrow> bool" where
  "ledger_ok limits db \<longleftrightarrow>
     (\<forall>u n. db_usage_sender db u = Some n \<longrightarrow> n \<le> unat (limit_sender limits) \<or> limit_sender limits = - 1)
     \<and> (\<forall>r n. db_usage_room db r = Some n \<longrightarrow> n \<le> unat (limit_room limits) \<or> limit_room limits = - 1)"

lemma read_usage_Inr:
  "read_usage cell = Inr used \<Longrightarrow> (case cell of None \<Rightarrow> 0 | Some n \<Rightarrow> n) = unat used"
  by (auto simp: read_usage_def unat_of_nat_u64 split: option.splits if_splits)

lemma charge_within:
  assumes "\<forall>k n. usage k = Some n \<longrightarrow> n \<le> unat limit \<or> limit = - 1"
    and "read_usage (usage key) = Inr used" "saturating_add used bytes \<le> limit"
  shows "\<forall>k n. charge key bytes usage k = Some n \<longrightarrow> n \<le> unat limit \<or> limit = - 1"
  using assms(1) saturating_add_leD [OF assms(3)] read_usage_Inr [OF assms(2)]
  by (auto simp: charge_def split: if_splits)

lemma ledger_ok_charged:
  assumes "ledger_ok limits db" "db_usage_sender db0 = db_usage_sender db" "db_usage_room db0 = db_usage_room db"
    and "\<not> is_receipt request \<Longrightarrow> admit pc env limits db user request = Inr True"
  shows "ledger_ok limits (charged user request (required_bytes (ser_request pc request)) db0)"
proof (cases "is_receipt request")
  case True
  with assms show ?thesis by (simp add: charged_def ledger_ok_def)
next
  case False
  from assms(4) [OF this] obtain used where used: "read_usage (db_usage_sender db user) = Inr used"
    "saturating_add used (required_bytes (ser_request pc request)) \<le> limit_sender limits"
    and room: "\<And>op. request = AppendRoomOperation op \<Longrightarrow>
       \<exists>used. read_usage (db_usage_room db (ap_room op)) = Inr used
       \<and> saturating_add used (required_bytes (ser_request pc request)) \<le> limit_room limits"
    by (elim admit_True) (auto simp: encode_message_Inr)
  have s: "\<forall>u n. charge user (required_bytes (ser_request pc request)) (db_usage_sender db0) u = Some n
      \<longrightarrow> n \<le> unat (limit_sender limits) \<or> limit_sender limits = - 1"
    using assms(1,2) used by (intro charge_within) (auto simp: ledger_ok_def)
  show ?thesis
  proof (cases "\<exists>op. request = AppendRoomOperation op")
    case True
    then obtain op where op: "request = AppendRoomOperation op" ..
    from room [OF op] obtain used where "read_usage (db_usage_room db (ap_room op)) = Inr used"
       "saturating_add used (required_bytes (ser_request pc request)) \<le> limit_room limits" by blast
    with assms(1,3) have "\<forall>u n. charge (ap_room op) (required_bytes (ser_request pc request)) (db_usage_room db0) u = Some n
      \<longrightarrow> n \<le> unat (limit_room limits) \<or> limit_room limits = - 1"
      by (intro charge_within) (auto simp: ledger_ok_def)
    with s op False show ?thesis by (simp add: charged_def ledger_ok_def)
  next
    case False
    then have "db_usage_room (charged user request (required_bytes (ser_request pc request)) db0) = db_usage_room db0"
      by (cases request) (simp_all add: charged_def)
    with s assms(1,3) \<open>\<not> is_receipt request\<close> show ?thesis by (simp add: charged_def ledger_ok_def)
  qed
qed

section \<open>Every arm keeps the tables in order\<close>

definition core_ok :: "postcard \<Rightarrow> Event list \<Rightarrow> Db \<Rightarrow> bool" where
  "core_ok pc evs db \<longleftrightarrow> rooms_ok db \<and> packages_ok db \<and> members_ok evs db
     \<and> events_ok pc evs db \<and> welcomes_ok pc evs db"

lemma core_ok_cong:
  assumes "core_ok pc evs db" "db_rooms db' = db_rooms db" "db_room_subscribers db' = db_room_subscribers db"
    "db_key_packages db' = db_key_packages db" "db_delivery_events db' = db_delivery_events db"
    "db_delivery_welcomes db' = db_delivery_welcomes db"
    "db_welcome_autoincrement db' = db_welcome_autoincrement db"
  shows "core_ok pc evs db'"
proof -
  from assms(1) have "welcomes_ok pc evs db" by (simp add: core_ok_def)
  then have "welcomes_ok pc evs db'" by (rule welcomes_ok_cong) (simp_all add: assms(2-7))
  moreover have "rooms_ok db'" using assms(1-3) unfolding core_ok_def rooms_ok_def by simp
  moreover have "members_ok evs db'"
    using assms(1-3) by (auto simp: core_ok_def elim: members_ok_cong)
  moreover have "packages_ok db'" using assms(1,4) unfolding core_ok_def packages_ok_def by simp
  moreover have "events_ok pc evs db'" using assms(1,5) unfolding core_ok_def events_ok_def by simp
  ultimately show ?thesis by (simp add: core_ok_def)
qed

definition wf_env :: "relay_env \<Rightarrow> bool" where
  "wf_env env \<longleftrightarrow> (\<forall>room. random_room env = Some room \<longrightarrow> wf_room room)"

lemma create_room_ok:
  assumes "create_room env db user name = Inr (response, db')" "core_ok pc evs db"
    and "wf_env env" "wf_user user" "wf_name name"
  shows "core_ok pc (evs @ appended_by response) db' \<and> wf_response response \<and> \<not> is_page response"
  using assms(1)
proof (cases rule: create_room_effect)
  case rejected
  with assms(2) show ?thesis by (auto simp: is_page_def wf_response_def)
next
  case (created n room)
  let ?r = "\<lparr>rm_room_id = room, rm_name = n, rm_created_by = user, rm_created_at = unixepoch env\<rparr>"
  have db': "db' = db\<lparr>db_rooms := db_rooms db @ [?r],
      db_room_subscribers := add_subscriber (rm_room_id ?r) user (db_room_subscribers db)\<rparr>"
    using created(6) by (simp add: is_subscribed_def add_subscriber_def)
  have wf: "wf_room room" "wf_name n"
    using created(1,2) assms(3,5) normalize_room_name_valid [OF created(1)]
    by (auto simp: wf_env_def wf_name_def)
  have "rooms_ok db'"
    unfolding db' using assms(2,4) created(3,4) wf by (intro rooms_ok_create) (auto simp: core_ok_def)
  moreover have "welcomes_ok pc evs db'"
    unfolding db' by (rule welcomes_ok_cong [of pc evs db]) (use assms(2) in \<open>auto simp: core_ok_def\<close>)
  moreover have "members_ok evs db'"
    using members_ok_create [of evs db ?r] assms(2) by (simp add: db' core_ok_def)
  ultimately show ?thesis
    using assms(2) wf created(5) db'
    by (simp add: core_ok_def packages_ok_def events_ok_def is_page_def wf_response_def)
qed

lemma publish_key_packages_ok:
  assumes "publish_key_packages env db user packages = Inr (response, db')" "core_ok pc evs db"
  shows "core_ok pc (evs @ appended_by response) db' \<and> wf_response response \<and> \<not> is_page response"
  using publish_key_packages_effect [OF assms(1)]
proof (elim disjE)
  assume p: "packages \<noteq> [] \<and> list_all (\<lambda>p. p \<noteq> [] \<and> length p \<le> MAX_KEY_PACKAGE_BYTES) packages
      \<and> length (filter (\<lambda>k. kp_user_id k = user) (db_key_packages db)) + length packages \<le> 64
      \<and> insert_key_packages env user 0 packages db = Inr db'
      \<and> response = KeyPackagesPublished (of_nat (length packages))"
  then obtain rows where rows: "db' = db\<lparr>db_key_packages := db_key_packages db @ rows\<rparr>"
    "map kp_key_package rows = packages" "list_all (\<lambda>k. kp_user_id k = user) rows"
    "map kp_rowid rows = [next_rowid (db_key_packages db)..<next_rowid (db_key_packages db) + length packages]"
    using insert_key_packages_effect by blast
  have "packages_ok db'"
    unfolding rows(1) using assms(2) p rows(2-4) by (intro packages_ok_publish) (auto simp: core_ok_def)
  moreover have "welcomes_ok pc evs db'"
    unfolding rows(1) by (rule welcomes_ok_cong [of pc evs db]) (use assms(2) in \<open>auto simp: core_ok_def\<close>)
  moreover have "members_ok evs db'"
    by (rule members_ok_cong [of _ db]) (use assms(2) in \<open>simp_all add: core_ok_def rows(1)\<close>)
  ultimately show ?thesis
    using assms(2) p rows(1) by (simp add: core_ok_def rooms_ok_def events_ok_def is_page_def wf_response_def)
qed (use assms(2) in \<open>auto simp: is_page_def wf_response_def\<close>)

lemma set_fetch_grant_ok:
  assumes "set_fetch_grant env db user requester allowed = Inr (response, db')" "core_ok pc evs db"
  shows "core_ok pc (evs @ appended_by response) db' \<and> wf_response response \<and> \<not> is_page response"
  using set_fetch_grant_effect [OF assms(1)] assms(2)
  by (auto simp: is_page_def wf_response_def intro: core_ok_cong)

lemma reserved_row:
  assumes "reserves env db user recipient k db'"
  shows "k \<in> set (db_key_packages db)" "kp_user_id k = recipient"
proof -
  from assms obtain ks where
    ks: "sort_key kp_rowid (filter (\<lambda>k. kp_user_id k = recipient) (db_key_packages db)) = k # ks"
    by (auto simp: reserves_def)
  have "k \<in> set (sort_key kp_rowid (filter (\<lambda>k. kp_user_id k = recipient) (db_key_packages db)))"
    unfolding ks by simp
  then show "k \<in> set (db_key_packages db)" "kp_user_id k = recipient" by simp_all
qed

lemma reserve_key_package_ok:
  assumes "reserve_key_package env db user recipient = Inr (response, db')" "core_ok pc evs db"
    and "wf_user recipient"
  shows "core_ok pc (evs @ appended_by response) db' \<and> wf_response response \<and> \<not> is_page response"
  using reserve_key_package_effect [OF assms(1)]
proof (elim disjE exE conjE)
  fix k assume k: "reserves env db user recipient k db'" "response = KeyPackage recipient (kp_key_package k)"
  let ?db = "db\<lparr>db_key_packages := filter (\<lambda>j. kp_rowid j \<noteq> kp_rowid k) (db_key_packages db)\<rparr>"
  have "welcomes_ok pc evs ?db"
    by (rule welcomes_ok_cong [of pc evs db]) (use assms(2) in \<open>auto simp: core_ok_def\<close>)
  moreover have "members_ok evs ?db"
    by (rule members_ok_cong [of _ db]) (use assms(2) in \<open>simp_all add: core_ok_def\<close>)
  ultimately have "core_ok pc evs ?db"
    using assms(2) packages_ok_filter [of db "\<lambda>j. kp_rowid j \<noteq> kp_rowid k"]
    by (simp add: core_ok_def rooms_ok_def events_ok_def)
  then have "core_ok pc evs db'"
    by (rule core_ok_cong) (use k(1) in \<open>simp_all add: reserves_def\<close>)
  moreover have "length (kp_key_package k) \<le> 16 * 1024"
    using reserved_row [OF k(1)] assms(2)
    by (auto simp: core_ok_def packages_ok_def list_all_iff MAX_KEY_PACKAGE_BYTES_def)
  ultimately show ?thesis using k(2) assms(3) by (simp add: is_page_def wf_response_def)
qed (use assms(2) in \<open>auto simp: is_page_def wf_response_def denied_def\<close>)

lemma append_room_operation_ok:
  assumes "append_room_operation pc env db user request_id op = Inr (response, db')" "core_ok pc evs db"
    and "wf_user user" "wf_message request_id" "wf_append op"
  shows "core_ok pc (evs @ appended_by response) db' \<and> wf_response response \<and> \<not> is_page response"
  using append_effect [OF assms(1)]
proof (elim disjE)
  let ?ev = "\<lparr>ev_id = request_id, ev_sender = user, ev_operation = op\<rparr>"
  assume "let ev = ?ev in response = AppendAccepted ev \<and> appends pc db ev db'"
  then have a: "response = AppendAccepted ?ev" "appends pc db ?ev db'" by (simp_all add: Let_def)
  have wf: "wf_event ?ev" using assms(3-5) by (simp add: wf_event_def)
  have "rooms_ok db'"
  proof (cases "ap_welcome op")
    case None
    with a(2) assms(2) show ?thesis by (simp add: appends_def add_event_def core_ok_def rooms_ok_def)
  next
    case (Some w)
    with a(2) obtain name where n: "select_room_name db (ap_room op) = Inr name"
      "db' = add_welcome pc name ?ev w (add_event pc ?ev db)" by (auto simp: appends_def)
    have "rooms_ok (db\<lparr>db_room_subscribers := add_subscriber (ap_room op) (wa_recipient w) (db_room_subscribers db)\<rparr>)"
      using assms(2,5) Some select_room_name_wf [OF _ n(1)]
      by (intro rooms_ok_subscribe) (auto simp: core_ok_def wf_append_def wf_attachment_def)
    with n(2) show ?thesis by (simp add: rooms_ok_def add_welcome_def add_event_def)
  qed
  moreover have "packages_ok db'"
    using a(2) assms(2)
    by (auto simp: appends_def add_event_def add_welcome_def core_ok_def packages_ok_def split: option.splits)
  ultimately show ?thesis
    using a wf assms(2) events_ok_append welcomes_ok_append members_ok_append
    by (simp add: core_ok_def is_page_def wf_response_def) blast
qed (use assms in \<open>auto simp: is_page_def wf_response_def denied_def wf_append_def\<close>)

lemma execute_ok:
  assumes "execute pc env db user request_id request = Inr (response, db')" "core_ok pc evs db"
    and "wf_env env" "wf_user user" "wf_message request_id" "wf_request request"
  shows "core_ok pc (evs @ appended_by response) db' \<and> (durable request \<longrightarrow> wf_response response \<and> \<not> is_page response)"
proof (cases request)
  case (CreateRoom name)
  with assms create_room_ok show ?thesis by (auto simp: execute_def wf_request_def)
next
  case (PublishKeyPackages packages)
  with assms publish_key_packages_ok show ?thesis by (auto simp: execute_def)
next
  case (SetFetchGrant requester allowed)
  with assms set_fetch_grant_ok show ?thesis by (auto simp: execute_def)
next
  case (ReserveKeyPackage recipient)
  with assms reserve_key_package_ok show ?thesis by (auto simp: execute_def wf_request_def)
next
  case (AppendRoomOperation op)
  with assms append_room_operation_ok show ?thesis by (auto simp: execute_def wf_request_def)
next
  case (Acknowledge events welcomes)
  with assms(1,2) show ?thesis
    by (auto simp: execute_def acknowledge_def and_then_Inr denied_def is_page_def wf_response_def split: if_splits)
next
  case (FetchRoomEvents room after)
  with assms(1,2) show ?thesis
    by (auto simp: execute_def fetch_room_events_def subscribed_def and_then_Inr durable_def split: if_splits)
next
  case (SyncIndex after_room)
  with assms(1,2) show ?thesis
    by (auto simp: execute_def sync_index_def and_then_Inr durable_def)
next
  case (FetchWelcomes cursor)
  with assms(1,2) show ?thesis
    by (auto simp: execute_def fetch_welcomes_def and_then_Inr durable_def split: if_splits)
qed

end
