(* ===== verification/Transitions.thy ===== *)
theory Transitions
  imports Prelude
begin

text \<open>
  Contracts for systems that run by steps: a property every step keeps holds along every run, and
  a preorder every step respects relates the ends of every run. The components interpret these
  locales with their own step relations.
\<close>

locale step_invariant =
  fixes step :: "'s \<Rightarrow> 's \<Rightarrow> bool" and inv :: "'s \<Rightarrow> bool"
  assumes step_inv: "inv s \<Longrightarrow> step s s' \<Longrightarrow> inv s'"
begin

lemma run_inv: "step\<^sup>*\<^sup>* s s' \<Longrightarrow> inv s \<Longrightarrow> inv s'"
  by (induction rule: rtranclp_induct) (auto intro: step_inv)

end

locale step_monotone =
  fixes step :: "'s \<Rightarrow> 's \<Rightarrow> bool" and below :: "'s \<Rightarrow> 's \<Rightarrow> bool"
  assumes below_refl: "below s s"
    and below_trans: "below s t \<Longrightarrow> below t u \<Longrightarrow> below s u"
    and step_below: "step s s' \<Longrightarrow> below s s'"
begin

lemma run_below: "step\<^sup>*\<^sup>* s s' \<Longrightarrow> below s s'"
  by (induction rule: rtranclp_induct) (auto intro: below_refl below_trans step_below)

end

end
