(* ===== verification/Relay_System.thy ===== *)
theory Relay_System
  imports Relay_Invariant Transitions
begin

text \<open>
  The relay's repository as a transition system: every call of \<open>deliver\<close>,
  \<open>issue_enrollment\<close> and \<open>register_enrolled_identity\<close>, by any user, with any behaviour of the
  environment, is a step. The invariant holds in every reachable state, and the durable tables
  only ever grow.
\<close>

section \<open>Steps\<close>

inductive relay_step :: "postcard \<Rightarrow> (bytes \<Rightarrow> bytes) \<Rightarrow> RelayState \<Rightarrow> RelayState \<Rightarrow> bool"
  for pc :: postcard and sha256 :: "bytes \<Rightarrow> bytes" where
  delivery: "wf_env env \<Longrightarrow> wf_user user \<Longrightarrow> wf_message request_id \<Longrightarrow> wf_request request \<Longrightarrow>
    deliver pc sha256 env s user request_id request = (result, s') \<Longrightarrow> relay_step pc sha256 s s'"
| issue: "issue_enrollment sha256 env s user fingerprint = Some (issued, s') \<Longrightarrow> relay_step pc sha256 s s'"
| registration: "register_enrolled_identity sha256 env s user key token = Some (registered, s') \<Longrightarrow>
    relay_step pc sha256 s s'"

inductive_cases relay_stepE [elim]: "relay_step pc sha256 s s'"

definition initial_state :: "StorageLimits \<Rightarrow> RelayState" where
  "initial_state limits = \<lparr>rs_db = empty_db, rs_limits = limits, rs_quota_rejections = 0,
     rs_commit_conflicts = 0\<rparr>"

definition reachable :: "postcard \<Rightarrow> (bytes \<Rightarrow> bytes) \<Rightarrow> RelayState \<Rightarrow> bool" where
  "reachable pc sha256 s \<longleftrightarrow> (\<exists>limits. (relay_step pc sha256)\<^sup>*\<^sup>* (initial_state limits) s)"

section \<open>The invariant\<close>

definition relay_ok :: "postcard \<Rightarrow> RelayState \<Rightarrow> bool" where
  "relay_ok pc s \<longleftrightarrow>
     (\<exists>evs. core_ok pc evs (rs_db s)) \<and> requests_ok pc (rs_db s) \<and> ledger_ok (rs_limits s) (rs_db s)
     \<and> distinct (map tk_hash (db_enrollment_tokens (rs_db s)))"

lemma initial_state_ok: "relay_ok pc (initial_state limits)"
  by (auto simp: relay_ok_def core_ok_def initial_state_def empty_db_def rooms_ok_def packages_ok_def
      events_ok_def welcomes_ok_def members_ok_def is_subscribed_def requests_ok_def ledger_ok_def room_log_def intro!: exI [of _ "[]"])

definition same_ledgers :: "Db \<Rightarrow> Db \<Rightarrow> bool" where
  "same_ledgers db db' \<longleftrightarrow>
     db_usage_sender db' = db_usage_sender db \<and> db_usage_room db' = db_usage_room db
     \<and> db_delivery_requests db' = db_delivery_requests db \<and> db_identities db' = db_identities db
     \<and> db_enrollment_tokens db' = db_enrollment_tokens db"

text \<open>A token is never removed and never becomes usable again.\<close>

definition tokens_kept :: "TokenRow list \<Rightarrow> TokenRow list \<Rightarrow> bool" where
  "tokens_kept ts ts' \<longleftrightarrow>
     (\<forall>t \<in> set ts. \<exists>t' \<in> set ts'. tk_hash t' = tk_hash t \<and> (tk_consumed t \<longrightarrow> tk_consumed t'))"

lemma tokens_kept_refl [simp]: "tokens_kept ts ts"
  by (auto simp: tokens_kept_def)

lemma tokens_kept_trans: "tokens_kept ts us \<Longrightarrow> tokens_kept us vs \<Longrightarrow> tokens_kept ts vs"
  unfolding tokens_kept_def by (metis (full_types))

lemma tokens_kept_append [simp]: "tokens_kept ts (ts @ us)"
  by (auto simp: tokens_kept_def)

lemma tokens_kept_consume [simp]: "tokens_kept ts (consume p ts)"
  unfolding tokens_kept_def consume_def
proof
  fix t assume "t \<in> set ts"
  then show "\<exists>t' \<in> set (map (\<lambda>t. if p t then t\<lparr>tk_consumed := True\<rparr> else t) ts).
      tk_hash t' = tk_hash t \<and> (tk_consumed t \<longrightarrow> tk_consumed t')"
    by (intro bexI [of _ "if p t then t\<lparr>tk_consumed := True\<rparr> else t"]) auto
qed

text \<open>The durable tables never lose a row; a saved response and a pinned key never change.\<close>

definition grows :: "Db \<Rightarrow> Db \<Rightarrow> bool" where
  "grows db db' \<longleftrightarrow>
     (\<exists>es. db_delivery_events db' = db_delivery_events db @ es)
     \<and> (\<exists>ws. db_delivery_welcomes db' = db_delivery_welcomes db @ ws)
     \<and> (\<exists>rs. db_rooms db' = db_rooms db @ rs)
     \<and> set (db_room_subscribers db) \<subseteq> set (db_room_subscribers db')
     \<and> db_delivery_requests db \<subseteq>\<^sub>m db_delivery_requests db'
     \<and> db_identities db \<subseteq>\<^sub>m db_identities db'
     \<and> tokens_kept (db_enrollment_tokens db) (db_enrollment_tokens db')"

lemma grows_refl: "grows db db"
  by (simp add: grows_def)

lemma grows_trans: "grows db db' \<Longrightarrow> grows db' db'' \<Longrightarrow> grows db db''"
  unfolding grows_def by (elim conjE exE, intro conjI) (auto intro: map_le_trans tokens_kept_trans)

lemma execute_frame:
  assumes "execute pc env db user request_id request = Inr (response, db')"
  shows "same_ledgers db db' \<and> grows db db'"
proof (cases request)
  case (CreateRoom name)
  with assms have "create_room env db user name = Inr (response, db')" by (simp add: execute_def)
  then show ?thesis
    by (cases rule: create_room_effect) (auto simp: same_ledgers_def grows_def)
next
  case (PublishKeyPackages packages)
  with assms have "publish_key_packages env db user packages = Inr (response, db')"
    by (simp add: execute_def)
  from publish_key_packages_effect [OF this] show ?thesis
    by (auto simp: same_ledgers_def grows_def dest!: insert_key_packages_effect)
next
  case (SetFetchGrant requester allowed)
  with assms set_fetch_grant_effect [of env db user requester allowed response db'] show ?thesis
    by (auto simp: execute_def same_ledgers_def grows_def)
next
  case (ReserveKeyPackage recipient)
  with assms reserve_key_package_effect [of env db user recipient response db'] show ?thesis
    by (auto simp: execute_def same_ledgers_def grows_def reserves_def)
next
  case (AppendRoomOperation op)
  with assms append_effect [of pc env db user request_id op response db'] show ?thesis
    by (auto simp: execute_def same_ledgers_def grows_def appends_def add_event_def add_welcome_def Let_def
        split: option.splits)
qed (use assms execute_unchanged [OF assms] in
     \<open>auto simp: durable_def is_receipt_def same_ledgers_def grows_refl\<close>)

lemma requests_ok_grows:
  assumes "requests_ok pc db" "db_delivery_requests db' = db_delivery_requests db"
    "set (db_delivery_events db) \<subseteq> set (db_delivery_events db')"
  shows "requests_ok pc db'"
  using assms(1,3) unfolding requests_ok_def assms(2) by (meson subsetD)

lemma commits_ok:
  assumes "commits pc sha256 env s user request_id request response s'" "core_ok pc evs (rs_db s)"
    "requests_ok pc (rs_db s)" "ledger_ok (rs_limits s) (rs_db s)" "rs_limits s' = rs_limits s"
    and "wf_env env" "wf_user user" "wf_message request_id" "wf_request request"
  shows "core_ok pc (evs @ appended_by response) (rs_db s')" "requests_ok pc (rs_db s')"
    "ledger_ok (rs_limits s') (rs_db s')"
proof -
  from assms(1) obtain db where e: "execute pc env (rs_db s) user request_id request = Inr (response, db)"
    and s': "rs_db s' = saved user request_id (sha256 (ser_request pc request)) (ser_response pc response)
      (charged user request (required_bytes (ser_request pc request)) db)"
    and admitted: "\<not> is_receipt request \<Longrightarrow> admit pc env (rs_limits s) (rs_db s) user request = Inr True"
    and saved: "durable request" "\<not> transient response" "length (ser_response pc response) \<le> MAX_PAYLOAD"
    by (auto simp: commits_def)
  from execute_ok [OF e assms(2,6-9)] saved(1)
  have ok: "core_ok pc (evs @ appended_by response) db" "wf_response response \<and> \<not> is_page response" by auto
  from ok(1) show "core_ok pc (evs @ appended_by response) (rs_db s')"
    by (rule core_ok_cong) (simp_all add: s' saved_def charged_def)
  have "requests_ok pc db"
    using assms(3) execute_frame [OF e] by (auto simp: same_ledgers_def grows_def elim: requests_ok_grows)
  moreover have "\<forall>e \<in> set (appended_by response). event_row pc e \<in> set (db_delivery_events db)"
    using ok(1) by (auto simp: core_ok_def events_ok_def)
  ultimately have "requests_ok pc (saved user request_id (sha256 (ser_request pc request)) (ser_response pc response) db)"
    using ok(2) saved unfolding requests_ok_def saved_def by auto
  then show "requests_ok pc (rs_db s')"
    by (rule requests_ok_grows) (simp_all add: s' saved_def charged_def)
  show "ledger_ok (rs_limits s') (rs_db s')"
    using ledger_ok_charged [OF assms(4) _ _ admitted, of db] execute_frame [OF e] assms(5)
    by (simp add: same_ledgers_def s' saved_def ledger_ok_def)
qed

lemma commits_grows:
  assumes "commits pc sha256 env s user request_id request response s'"
  shows "grows (rs_db s) (rs_db s')"
proof -
  from assms obtain db where e: "execute pc env (rs_db s) user request_id request = Inr (response, db)"
    and s': "rs_db s' = saved user request_id (sha256 (ser_request pc request)) (ser_response pc response)
      (charged user request (required_bytes (ser_request pc request)) db)"
    and fresh: "db_delivery_requests (rs_db s) (user, request_id) = None"
    by (auto simp: commits_def)
  from execute_frame [OF e] fresh show ?thesis
    by (auto simp: grows_def same_ledgers_def s' saved_def charged_def map_le_def dom_def)
qed

text \<open>The enrollment calls touch the tokens and the identities only.\<close>

definition enrolls :: "RelayState \<Rightarrow> RelayState \<Rightarrow> bool" where
  "enrolls s s' \<longleftrightarrow> rs_limits s' = rs_limits s \<and>
     (\<exists>tokens ids. rs_db s' = (rs_db s)\<lparr>db_enrollment_tokens := tokens, db_identities := ids\<rparr>
        \<and> db_identities (rs_db s) \<subseteq>\<^sub>m ids
        \<and> (distinct (map tk_hash (db_enrollment_tokens (rs_db s))) \<longrightarrow> distinct (map tk_hash tokens))
        \<and> tokens_kept (db_enrollment_tokens (rs_db s)) tokens)"

lemma enrolls_refl: "enrolls s s"
  unfolding enrolls_def
  by (intro conjI exI [of _ "db_enrollment_tokens (rs_db s)"] exI [of _ "db_identities (rs_db s)"]) auto

lemma issue_enrolls:
  assumes "issue_enrollment sha256 env s user fingerprint = Some (issued, s')"
  shows "enrolls s s'"
proof -
  let ?tokens = "db_enrollment_tokens (rs_db s)"
  from assms consider "s' = s"
    | t where "s' = s\<lparr>rs_db := (rs_db s)\<lparr>db_enrollment_tokens := ?tokens @ [t]\<rparr>\<rparr>" "tk_hash t \<notin> tk_hash ` set ?tokens"
    by (auto simp: issue_enrollment_def bind_Some_iff sql_def split: option.splits if_splits sum.splits)
  then show ?thesis
  proof cases
    case (2 t)
    then show ?thesis unfolding enrolls_def
      by (intro conjI exI [of _ "?tokens @ [t]"] exI [of _ "db_identities (rs_db s)"]) auto
  qed (simp add: enrolls_refl)
qed

lemma consume_hashes [simp]: "map tk_hash (consume p rows) = map tk_hash rows"
  by (auto simp: consume_def)

lemma register_effect:
  assumes "register_enrolled_identity sha256 env s user key token = Some (registered, s')"
  shows "s' = s \<and> registered \<noteq> Inr New
    \<or> (\<exists>t hash fingerprint. registered = Inr New \<and> token = Some t \<and> enrollment_hash sha256 t = Some hash
        \<and> enrollment_hash sha256 (public_key_bytes key) = Some fingerprint
        \<and> db_identities (rs_db s) user = None
        \<and> length (filter (redeemable env hash user fingerprint) (db_enrollment_tokens (rs_db s))) = 1
        \<and> s' = s\<lparr>rs_db := (rs_db s)
            \<lparr>db_enrollment_tokens := consume (redeemable env hash user fingerprint) (db_enrollment_tokens (rs_db s)),
             db_identities := (db_identities (rs_db s))(user \<mapsto> key)\<rparr>\<rparr>)"
  using assms
  by (auto simp: register_enrolled_identity_def bind_Some_iff Let_def split: option.splits if_splits)

lemma register_enrolls:
  assumes "register_enrolled_identity sha256 env s user key token = Some (registered, s')"
  shows "enrolls s s'"
  using register_effect [OF assms]
proof (elim disjE exE conjE)
  fix t hash fingerprint
  let ?p = "redeemable env hash user fingerprint"
  assume "db_identities (rs_db s) user = None"
    and s': "s' = s\<lparr>rs_db := (rs_db s)\<lparr>db_enrollment_tokens := consume ?p (db_enrollment_tokens (rs_db s)),
        db_identities := (db_identities (rs_db s))(user \<mapsto> key)\<rparr>\<rparr>"
  then have "db_identities (rs_db s) \<subseteq>\<^sub>m (db_identities (rs_db s))(user \<mapsto> key)"
    by (auto simp: map_le_def)
  then show ?thesis unfolding enrolls_def s'
    by (intro conjI exI [of _ "consume ?p (db_enrollment_tokens (rs_db s))"]
        exI [of _ "(db_identities (rs_db s))(user \<mapsto> key)"]) simp_all
qed (simp add: enrolls_refl)

lemma relay_ok_enrolls:
  assumes "relay_ok pc s" "enrolls s s'"
  shows "relay_ok pc s'"
proof -
  from assms(2) obtain tokens ids where e: "rs_limits s' = rs_limits s"
    "rs_db s' = (rs_db s)\<lparr>db_enrollment_tokens := tokens, db_identities := ids\<rparr>"
    "distinct (map tk_hash (db_enrollment_tokens (rs_db s))) \<longrightarrow> distinct (map tk_hash tokens)"
    by (auto simp: enrolls_def)
  from assms(1) obtain evs where "core_ok pc evs (rs_db s)" by (auto simp: relay_ok_def)
  then have "core_ok pc evs (rs_db s')" by (rule core_ok_cong) (simp_all add: e(2))
  moreover from assms(1) have "requests_ok pc (rs_db s)" by (simp add: relay_ok_def)
  then have "requests_ok pc (rs_db s')" by (rule requests_ok_grows) (simp_all add: e(2))
  ultimately show ?thesis
    using assms(1) e by (auto simp: relay_ok_def ledger_ok_def)
qed

lemma relay_ok_step:
  assumes "relay_ok pc s" "relay_step pc sha256 s s'"
  shows "relay_ok pc s'"
  using assms(2)
proof cases
  case (delivery env user request_id request result)
  from assms(1) obtain evs where ok: "core_ok pc evs (rs_db s)" "requests_ok pc (rs_db s)"
    "ledger_ok (rs_limits s) (rs_db s)" "distinct (map tk_hash (db_enrollment_tokens (rs_db s)))"
    by (auto simp: relay_ok_def)
  from deliver_effect [OF delivery(5)] show ?thesis
  proof (elim conjE disjE exE)
    fix response assume c: "rs_limits s' = rs_limits s"
      "commits pc sha256 env s user request_id request response s'"
    then have "db_enrollment_tokens (rs_db s') = db_enrollment_tokens (rs_db s)"
      by (auto simp: commits_def saved_def charged_def same_ledgers_def dest!: execute_frame)
    with commits_ok [OF c(2) ok(1-3) c(1) delivery(1-4)] ok(4) show ?thesis
      by (auto simp: relay_ok_def)
  qed (use ok in \<open>auto simp: relay_ok_def\<close>)
next
  case (issue env user fingerprint issued)
  with assms(1) show ?thesis by (auto intro: relay_ok_enrolls issue_enrolls)
next
  case (registration env user key token registered)
  with assms(1) show ?thesis by (auto intro: relay_ok_enrolls register_enrolls)
qed

lemma grows_enrolls: "enrolls s s' \<Longrightarrow> grows (rs_db s) (rs_db s') \<and> rs_limits s' = rs_limits s"
  by (auto simp: enrolls_def grows_def)

lemma grows_step:
  assumes "relay_step pc sha256 s s'"
  shows "grows (rs_db s) (rs_db s') \<and> rs_limits s' = rs_limits s"
  using assms
proof cases
  case (delivery env user request_id request result)
  from deliver_effect [OF delivery(5)] commits_grows show ?thesis
    by (metis grows_refl)
next
  case (issue env user fingerprint issued)
  then show ?thesis by (intro grows_enrolls issue_enrolls)
next
  case (registration env user key token registered)
  then show ?thesis by (intro grows_enrolls register_enrolls)
qed

interpretation relay_safety: step_invariant "relay_step pc sha256" "relay_ok pc" for pc sha256
  by unfold_locales (rule relay_ok_step)

interpretation relay_history: step_monotone "relay_step pc sha256"
  "\<lambda>s s'. grows (rs_db s) (rs_db s') \<and> rs_limits s' = rs_limits s" for pc sha256
  by unfold_locales (auto intro: grows_refl grows_trans dest: grows_step)

lemma reachable_ok: "reachable pc sha256 s \<Longrightarrow> relay_ok pc s"
  using relay_safety.run_inv initial_state_ok unfolding reachable_def by blast

end
