(* ===== verification/Relay_Pages.thy ===== *)
theory Relay_Pages
  imports Relay_System
begin

text \<open>
  The page queries on a database that satisfies the invariant: which rows a page returns, when it
  says that there is more, that a page is never empty when there is more, and how large it is.
\<close>

definition no_faults :: "relay_env \<Rightarrow> bool" where
  "no_faults env \<longleftrightarrow> (\<forall>stmt. \<not> sql_fault env stmt) \<and> \<not> lock_poisoned env"

lemma no_faults_sql [simp]: "no_faults env \<Longrightarrow> sql env stmt v = v" "no_faults env \<Longrightarrow> \<not> sql_fault env stmt"
  by (simp_all add: no_faults_def sql_def)

section \<open>Rows in order\<close>

lemma filter_above:
  assumes "map f xs = [m..<m + length xs]"
  shows "filter (\<lambda>x. a < f x) xs = drop (Suc a - m) xs"
  using assms
proof (induction xs arbitrary: m)
  case (Cons x xs)
  then have x: "f x = m" "map f xs = [Suc m..<Suc m + length xs]"
    by (auto simp: upt_conv_Cons simp del: upt_Suc)
  have all: "filter (\<lambda>x. a < f x) xs = drop (Suc a - Suc m) xs" using Cons.IH x(2) by blast
  show ?case
  proof (cases "a < m")
    case True
    with x all show ?thesis by simp
  next
    case False
    then have "Suc a - m = Suc (Suc a - Suc m)" by simp
    with False x all show ?thesis by simp
  qed
qed simp

lemma room_sequences:
  assumes "events_ok pc evs db"
  shows "map (\<lambda>e. unat (er_sequence e)) (room_rows db room) = [1..<Suc (length (room_log room evs))]"
proof -
  have "list_all stored_event (room_log room evs)"
    using assms by (simp add: events_ok_def room_log_def list_all_filter)
  then have "map (\<lambda>e. unat (er_sequence (event_row pc e))) (room_log room evs)
      = map Suc (map parent_of (room_log room evs))"
    by (simp add: list_all_iff event_sequence_stored)
  also have "\<dots> = [1..<Suc (length (room_log room evs))]"
    using assms by (simp add: events_ok_def map_Suc_upt del: map_map)
  finally show ?thesis
    by (simp add: room_rows_log [OF assms] comp_def)
qed

lemma select_events_log:
  assumes "events_ok pc evs db"
  shows "select_events db room after = map (ser_event pc) (take 101 (drop (unat after) (room_log room evs)))"
proof -
  let ?rows = "room_rows db room"
  have seqs: "map (\<lambda>e. unat (er_sequence e)) ?rows = [1..<Suc (length (room_log room evs))]"
    using assms by (rule room_sequences)
  then have len: "length ?rows = length (room_log room evs)"
    by (metis diff_Suc_1 length_map length_upt)
  have "filter (\<lambda>e. er_sequence e > after) ?rows = drop (unat after) ?rows"
    using filter_above [of "\<lambda>e. unat (er_sequence e)" ?rows 1 "unat after"] seqs len
    by (simp add: word_less_nat_alt)
  moreover have "sorted (map (\<lambda>e. unat (er_sequence e)) ?rows)"
    unfolding seqs by (rule sorted_upt)
  then have "sorted (map er_sequence ?rows)"
    by (simp add: sorted_map word_le_nat_alt)
  then have "sorted (map er_sequence (drop (unat after) ?rows))"
    by (simp add: drop_map [symmetric] sorted_wrt_drop)
  ultimately show ?thesis
    by (simp add: select_events_def sort_key_id_if_sorted room_rows_log [OF assms] take_map drop_map
        event_row_def comp_def)
qed

section \<open>Pages of events\<close>

context postcard_wire
begin

lemma stored_event_decodes:
  assumes "stored_event e"
  shows "length (ser_event pc e) \<le> MAX_PAYLOAD - 101" "decode_message (take_event pc) (ser_event pc e) = Inr e"
proof -
  from assms have "wf_event e" "ap_parent (ev_operation e) \<le> i64_max"
    "length (ap_body (ev_operation e)) + welcome_body_length (ev_operation e) + 256 \<le> MAX_PAYLOAD"
    by (auto simp: stored_event_def invalid_append_def welcome_body_length_def)
  with size_event [of e] show s: "length (ser_event pc e) \<le> MAX_PAYLOAD - 101" by simp
  then have "encode_message (ser_event pc) e = Inr (ser_event pc e)" by (simp add: encode_message_Inr)
  with \<open>wf_event e\<close> show "decode_message (take_event pc) (ser_event pc e) = Inr e"
    by (rule event.decode_encode)
qed

lemma event_page_spec:
  assumes "no_faults env" "list_all stored_event es"
    and "length acc \<le> PAGE_SIZE" "bytes \<le> MAX_PAYLOAD - 96"
  shows "\<exists>k \<le> length es. event_page pc env i (map (ser_event pc) es) acc bytes = Inr (acc @ take k es, k < length es)
    \<and> length acc + k \<le> PAGE_SIZE
    \<and> bytes + sum_list (map (\<lambda>e. length (ser_event pc e)) (take k es)) \<le> MAX_PAYLOAD - 96
    \<and> (acc = [] \<and> bytes = 0 \<and> es \<noteq> [] \<longrightarrow> 0 < k)"
  using assms(2-4)
proof (induction es arbitrary: i acc bytes)
  case (Cons e es)
  let ?n = "length (ser_event pc e)"
  show ?case
  proof (cases "length acc = PAGE_SIZE \<or> bytes + ?n > MAX_PAYLOAD - 96")
    case True
    have "\<not> (acc = [] \<and> bytes = 0)"
      using True stored_event_decodes(1) [of e] Cons.prems(1) by (auto simp: PAGE_SIZE_def)
    with True Cons.prems(2,3) assms(1) show ?thesis by (intro exI [of _ 0]) simp
  next
    case False
    then obtain k where k: "k \<le> length es"
      "event_page pc env (Suc i) (map (ser_event pc) es) (acc @ [e]) (bytes + ?n)
         = Inr ((acc @ [e]) @ take k es, k < length es)"
      "length (acc @ [e]) + k \<le> PAGE_SIZE"
      "bytes + ?n + sum_list (map (\<lambda>e. length (ser_event pc e)) (take k es)) \<le> MAX_PAYLOAD - 96"
      using Cons.IH [of "acc @ [e]" "bytes + ?n" "Suc i"] Cons.prems by auto
    with False Cons.prems(1) assms(1) stored_event_decodes(2) [of e] show ?thesis
      by (intro exI [of _ "Suc k"]) simp
  qed
qed simp

end

text \<open>What a page of the log after position \<open>a\<close> looks like.\<close>

definition is_log_page :: "Event list \<Rightarrow> nat \<Rightarrow> Event list \<Rightarrow> bool \<Rightarrow> bool" where
  "is_log_page log a events has_more \<longleftrightarrow>
     events = take (length events) (drop a log)
     \<and> (has_more \<longleftrightarrow> a + length events < length log)
     \<and> (a < length log \<longrightarrow> events \<noteq> [])
     \<and> length events \<le> PAGE_SIZE"

lemma fetch_room_events_page:
  assumes "postcard_wire pc" "no_faults env" "events_ok pc evs db" "is_subscribed db room user"
    "after \<le> i64_max"
  shows "\<exists>events has_more. fetch_room_events pc env db user room after = Inr (RoomEvents room after events has_more, db)
    \<and> is_log_page (room_log room evs) (unat after) events has_more
    \<and> sum_list (map (\<lambda>e. length (ser_event pc e)) events) \<le> MAX_PAYLOAD - 96"
proof -
  let ?rest = "drop (unat after) (room_log room evs)"
  have "list_all stored_event (room_log room evs)"
    using assms(3) by (simp add: events_ok_def room_log_def list_all_filter)
  then have "list_all stored_event (take 101 ?rest)"
    by (auto simp: list_all_iff dest!: in_set_takeD in_set_dropD)
  from postcard_wire.event_page_spec [OF assms(1,2) this, of "[]" 0 0]
  obtain k where k: "k \<le> length (take 101 ?rest)"
    "event_page pc env 0 (map (ser_event pc) (take 101 ?rest)) [] 0 = Inr (take k (take 101 ?rest), k < length (take 101 ?rest))"
    "k \<le> PAGE_SIZE" "sum_list (map (\<lambda>e. length (ser_event pc e)) (take k (take 101 ?rest))) \<le> MAX_PAYLOAD - 96"
    "take 101 ?rest \<noteq> [] \<Longrightarrow> 0 < k"
    by (auto simp: PAGE_SIZE_def)
  have take_k: "take k (take 101 ?rest) = take k ?rest" using k(3) by (simp add: PAGE_SIZE_def min_def)
  have "is_log_page (room_log room evs) (unat after) (take k ?rest) (k < length (take 101 ?rest))"
    using k(1,3,5) by (auto simp: is_log_page_def PAGE_SIZE_def min_def)
  moreover have "fetch_room_events pc env db user room after
      = Inr (RoomEvents room after (take k ?rest) (k < length (take 101 ?rest)), db)"
    using assms(2,4,5) k(2) take_k
    by (simp add: fetch_room_events_def subscribed_def select_events_log [OF assms(3)])
  ultimately show ?thesis using k(4) take_k by metis
qed

section \<open>Pages of Welcomes\<close>

text \<open>The Welcomes of a user after a cursor, as the relay hands them out.\<close>

definition stored_welcome :: "postcard \<Rightarrow> WelcomeRow \<Rightarrow> WelcomeDelivery \<Rightarrow> bool" where
  "stored_welcome pc row w \<longleftrightarrow>
     wr_record row = ser_welcome pc (w\<lparr>wd_cursor := 0\<rparr>) \<and> wf_welcome w \<and> wd_cursor w = wr_cursor row
     \<and> wa_recipient (wd_attachment w) = wr_recipient row"

definition welcome_rows :: "Db \<Rightarrow> UserId \<Rightarrow> u64 \<Rightarrow> WelcomeRow list" where
  "welcome_rows db user after =
     filter (\<lambda>w. wr_recipient w = user \<and> wr_cursor w > after) (db_delivery_welcomes db)"

lemma wf_welcome_cursor [simp]: "wf_welcome (w\<lparr>wd_cursor := c\<rparr>) = wf_welcome w"
  by (simp add: wf_welcome_def)

lemma room_name_wf:
  assumes "rooms_ok db" "room \<in> rm_room_id ` set (db_rooms db)"
  shows "wf_name (room_name db room)"
proof -
  from assms(2) have "filter (\<lambda>r. rm_room_id r = room) (db_rooms db) \<noteq> []" by (auto simp: filter_empty_conv)
  then obtain name where n: "select_room_name db room = Inr name"
    by (cases "filter (\<lambda>r. rm_room_id r = room) (db_rooms db)") (auto simp: select_room_name_def)
  with select_room_name_wf(1) [OF assms(1) n] show ?thesis by (simp add: room_name_def)
qed

lemma welcome_rows_stored:
  assumes "core_ok pc evs db" "row \<in> set (db_delivery_welcomes db)"
  shows "\<exists>w. stored_welcome pc row w"
proof -
  have pub: "concat (map (published pc db) evs)
      = map (\<lambda>w. (wr_recipient w, wr_record w)) (db_delivery_welcomes db)"
    using assms(1) by (simp add: core_ok_def welcomes_ok_def)
  have "(wr_recipient row, wr_record row) \<in> set (concat (map (published pc db) evs))"
    unfolding pub using assms(2) by simp
  then obtain e where "e \<in> set evs" "(wr_recipient row, wr_record row) \<in> set (published pc db e)"
    by auto
  then obtain a where e: "e \<in> set evs" "ap_welcome (ev_operation e) = Some a" "wr_recipient row = wa_recipient a"
    "wr_record row = ser_welcome pc (welcome_of (room_name db (ap_room (ev_operation e))) e a)"
    by (cases "ap_welcome (ev_operation e)") (auto simp: published_def)
  have "wf_event e" "ap_room (ev_operation e) \<in> rm_room_id ` set (db_rooms db)"
    using assms(1) e(1) by (auto simp: core_ok_def events_ok_def welcomes_ok_def list_all_iff stored_event_def)
  with e assms(1) room_name_wf [of db]
  have "wf_welcome (welcome_of (room_name db (ap_room (ev_operation e))) e a)"
    by (simp add: wf_welcome_def welcome_of_def wf_event_def wf_append_def core_ok_def)
  with e(3,4) show ?thesis
    by (intro exI [of _ "(welcome_of (room_name db (ap_room (ev_operation e))) e a)\<lparr>wd_cursor := wr_cursor row\<rparr>"])
      (simp add: stored_welcome_def welcome_of_def wf_welcome_def)
qed

lemma select_welcomes_rows:
  assumes "welcomes_ok pc evs db"
  shows "select_welcomes db user after = map (\<lambda>w. (wr_cursor w, wr_record w)) (take 101 (welcome_rows db user after))"
proof -
  have "sorted (map (\<lambda>w. unat (wr_cursor w)) (db_delivery_welcomes db))"
    using assms unfolding welcomes_ok_def by (metis sorted_upt)
  then have "sorted_wrt (\<lambda>x y. wr_cursor x \<le> wr_cursor y) (db_delivery_welcomes db)"
    by (simp add: sorted_map word_le_nat_alt)
  then have "sorted (map wr_cursor (welcome_rows db user after))"
    by (simp add: welcome_rows_def sorted_map sorted_wrt_filter)
  then show ?thesis
    by (simp add: select_welcomes_def sort_key_id_if_sorted welcome_rows_def)
qed

context postcard_wire
begin

lemma stored_welcome_decodes:
  assumes "stored_welcome pc row w"
  shows "length (wr_record row) \<le> MAX_PAYLOAD - 101"
    "decode_message (take_welcome pc) (wr_record row) = Inr (w\<lparr>wd_cursor := 0\<rparr>)"
proof -
  have wf: "wf_welcome (w\<lparr>wd_cursor := 0\<rparr>)" and r: "wr_record row = ser_welcome pc (w\<lparr>wd_cursor := 0\<rparr>)"
    using assms by (simp_all add: stored_welcome_def)
  have "length (wa_body (wd_attachment w)) \<le> 512 * 1024"
    using assms by (simp add: stored_welcome_def wf_welcome_def wf_attachment_def)
  with size_welcome [OF wf] r show s: "length (wr_record row) \<le> MAX_PAYLOAD - 101"
    by (simp add: MAX_PAYLOAD_def)
  with r have "encode_message (ser_welcome pc) (w\<lparr>wd_cursor := 0\<rparr>) = Inr (wr_record row)"
    by (simp add: encode_message_Inr)
  with wf show "decode_message (take_welcome pc) (wr_record row) = Inr (w\<lparr>wd_cursor := 0\<rparr>)"
    by (rule welcome_delivery.decode_encode)
qed

lemma welcome_page_spec:
  assumes "no_faults env" "list_all2 (stored_welcome pc) rows ws"
    and "length acc \<le> PAGE_SIZE" "bytes \<le> MAX_PAYLOAD - 96"
  shows "\<exists>k \<le> length ws. welcome_page pc env i (map (\<lambda>w. (wr_cursor w, wr_record w)) rows) acc bytes
        = Inr (acc @ take k ws, k < length ws)
    \<and> length acc + k \<le> PAGE_SIZE \<and> (acc = [] \<and> bytes = 0 \<and> ws \<noteq> [] \<longrightarrow> 0 < k)"
  using assms(2-4)
proof (induction rows ws arbitrary: i acc bytes rule: list_all2_induct)
  case (Cons row rows w ws)
  let ?n = "length (wr_record row)"
  show ?case
  proof (cases "length acc = PAGE_SIZE \<or> bytes + ?n > MAX_PAYLOAD - 96")
    case True
    have "\<not> (acc = [] \<and> bytes = 0)"
      using True stored_welcome_decodes(1) [OF Cons.hyps(1)] by (auto simp: PAGE_SIZE_def)
    with True Cons.prems assms(1) show ?thesis by (intro exI [of _ 0]) simp
  next
    case False
    then obtain k where k: "k \<le> length ws"
      "welcome_page pc env (Suc i) (map (\<lambda>w. (wr_cursor w, wr_record w)) rows) (acc @ [w]) (bytes + ?n)
         = Inr ((acc @ [w]) @ take k ws, k < length ws)" "length (acc @ [w]) + k \<le> PAGE_SIZE"
      using Cons.IH [of "acc @ [w]" "bytes + ?n" "Suc i"] Cons.prems by auto
    have "w\<lparr>wd_cursor := wr_cursor row\<rparr> = w" using Cons.hyps(1) by (simp add: stored_welcome_def)
    with k False Cons.prems assms(1) stored_welcome_decodes(2) [OF Cons.hyps(1)] show ?thesis
      by (intro exI [of _ "Suc k"]) simp
  qed
qed simp

end

lemma fetch_welcomes_page:
  assumes "postcard_wire pc" "no_faults env" "core_ok pc evs db" "after \<le> i64_max"
  shows "\<exists>ws has_more. fetch_welcomes pc env db user after = Inr (Welcomes after ws has_more, db)
    \<and> list_all2 (stored_welcome pc) (take (length ws) (welcome_rows db user after)) ws
    \<and> (has_more \<longleftrightarrow> length ws < length (welcome_rows db user after))
    \<and> (welcome_rows db user after \<noteq> [] \<longrightarrow> ws \<noteq> []) \<and> length ws \<le> PAGE_SIZE"
proof -
  let ?rows = "take 101 (welcome_rows db user after)"
  have "\<forall>row \<in> set ?rows. \<exists>w. stored_welcome pc row w"
    using welcome_rows_stored [OF assms(3)] by (auto simp: welcome_rows_def dest!: in_set_takeD)
  then obtain f where "\<forall>row \<in> set ?rows. stored_welcome pc row (f row)" by metis
  then have st: "list_all2 (stored_welcome pc) ?rows (map f ?rows)"
    by (auto simp: list_all2_map2 list_all2_same)
  from postcard_wire.welcome_page_spec [OF assms(1,2) st, of "[]" 0 0]
  obtain k where k: "k \<le> length ?rows"
    "welcome_page pc env 0 (map (\<lambda>w. (wr_cursor w, wr_record w)) ?rows) [] 0 = Inr (take k (map f ?rows), k < length ?rows)"
    "k \<le> PAGE_SIZE" "?rows \<noteq> [] \<Longrightarrow> 0 < k"
    by (auto simp: PAGE_SIZE_def)
  have "list_all2 (stored_welcome pc) (take k ?rows) (take k (map f ?rows))"
    using st by (rule list_all2_takeI)
  moreover have "take k ?rows = take k (welcome_rows db user after)"
    using k(3) by (simp add: PAGE_SIZE_def min_def)
  moreover have "fetch_welcomes pc env db user after = Inr (Welcomes after (take k (map f ?rows)) (k < length ?rows), db)"
  proof -
    from assms(3) have "welcomes_ok pc evs db" by (simp add: core_ok_def)
    from select_welcomes_rows [OF this, of user after] k(2) assms(2,4) show ?thesis
      by (simp add: fetch_welcomes_def not_less)
  qed
  ultimately show ?thesis
    using k(1,3,4)
    by (intro exI [of _ "take k (map f ?rows)"] exI [of _ "k < length ?rows"])
      (auto simp: PAGE_SIZE_def min_def)
qed

section \<open>The room index\<close>

definition room_index :: "Db \<Rightarrow> UserId \<Rightarrow> RoomId option \<Rightarrow> RoomHead list" where
  "room_index db user after =
     map (\<lambda>r. \<lparr>rh_room = rm_room_id r, rh_name = rm_name r, rh_sequence = room_head db (rm_room_id r)\<rparr>)
       (sort_key rm_room_id (filter (\<lambda>r. is_subscribed db (rm_room_id r) user
          \<and> (case after of None \<Rightarrow> True | Some a \<Rightarrow> rm_room_id r > a)) (db_rooms db)))"

lemma room_heads_spec:
  assumes "no_faults env" "list_all (\<lambda>(room, _, _). wf_room room) rows"
  shows "room_heads env i rows acc =
    Inr (acc @ map (\<lambda>(room, name, sequence). \<lparr>rh_room = room, rh_name = name, rh_sequence = sequence\<rparr>) rows)"
  using assms by (induction rows arbitrary: i acc) (auto simp: wf_room_def)

lemma sync_index_page:
  assumes "no_faults env" "rooms_ok db"
  shows "sync_index env db user after = Inr (SyncIndexPage (take PAGE_SIZE (room_index db user after))
      (PAGE_SIZE < length (room_index db user after)), db)"
proof -
  have "list_all (\<lambda>(room, _, _). wf_room room) (select_rooms db user after)"
    using assms(2) by (auto simp: select_rooms_def rooms_ok_def list_all_iff dest!: in_set_takeD)
  then have "room_heads env 0 (select_rooms db user after) [] = Inr (take 101 (room_index db user after))"
    using assms(1) by (simp add: room_heads_spec select_rooms_def room_index_def take_map)
  with assms(1) show ?thesis
    by (simp add: sync_index_def PAGE_SIZE_def min_def)
qed

lemma room_index_wf:
  assumes "rooms_ok db"
  shows "list_all wf_room_head (room_index db user after)"
  using assms by (auto simp: room_index_def rooms_ok_def wf_room_head_def list_all_iff)

lemma sorted_room_index:
  assumes "rooms_ok db"
  shows "sorted_wrt (<) (map rh_room (room_index db user after))"
proof -
  let ?rs = "sort_key rm_room_id (filter (\<lambda>r. is_subscribed db (rm_room_id r) user
          \<and> (case after of None \<Rightarrow> True | Some a \<Rightarrow> rm_room_id r > a)) (db_rooms db))"
  have "distinct (map rm_room_id ?rs)"
    using assms by (simp add: rooms_ok_def distinct_map inj_on_def)
  moreover have "sorted (map rm_room_id ?rs)" by simp
  ultimately have "sorted_wrt (<) (map rm_room_id ?rs)" by (simp add: strict_sorted_iff)
  then show ?thesis by (simp add: room_index_def comp_def)
qed

end
