(* ===== verification/Relay_Claims.thy ===== *)
theory Relay_Claims
  imports Relay_Pages Protocol_Claims
begin

text \<open>
  The properties of the relay's repository: idempotent delivery, ordered room history, atomic
  Welcome publication, pages, key packages, quotas and enrollment.
\<close>

context postcard_wire
begin

lemma response_decode_encode:
  "wf_response r \<Longrightarrow> encode_message (ser_response pc) r = Inr bs \<Longrightarrow> decode_message (take_response pc) bs = Inr r"
  by (rule response.decode_encode)

lemma event_inject: "wf_event e \<Longrightarrow> wf_event f \<Longrightarrow> ser_event pc e = ser_event pc f \<longleftrightarrow> e = f"
  by (rule event.ser_inject)

end

section \<open>Calls without engine failures\<close>

lemma deliver_commits:
  assumes "no_faults env" "db_delivery_requests (rs_db s) (user, request_id) = None"
    and "durable request" "\<not> is_receipt request" "length (ser_request pc request) \<le> MAX_PAYLOAD"
    and "admit pc env (rs_limits s) (rs_db s) user request = Inr True"
    and "execute pc env (rs_db s) user request_id request = Inr (response, db)"
    and "\<not> transient response" "length (ser_response pc response) \<le> MAX_PAYLOAD"
  shows "deliver pc sha256 env s user request_id request = (Inr response,
    (count_outcome response s)\<lparr>rs_db := saved user request_id (sha256 (ser_request pc request))
       (ser_response pc response) (charged user request (required_bytes (ser_request pc request)) db)\<rparr>)"
proof -
  have "charge_usage env user request bytes db = Inr (charged user request bytes db)" for bytes
    using assms(1,4) by (auto simp: charge_usage_def charged_def split: Request.splits)
  moreover have "db_delivery_requests (charged user request bytes db) (user, request_id) = None" for bytes
    using execute_frame [OF assms(7)] assms(2) by (simp add: charged_def same_ledgers_def)
  ultimately have "finish_transaction pc env s user request_id request hash bytes response db = (Inr response,
    (count_outcome response s)\<lparr>rs_db := saved user request_id hash (ser_response pc response) (charged user request bytes db)\<rparr>)"
    for hash bytes
    using assms(1,3,4,8,9)
    by (simp add: finish_transaction_def save_response_def saved_def encode_message_def Let_def)
  moreover have "\<not> malformed_receipt sha256 user request_id request"
    using assms(4) by (auto simp: malformed_receipt_def is_receipt_def split: Request.splits)
  ultimately show ?thesis
    using assms(1-7) by (simp add: deliver_def deliver_new_def payload_hash_def encode_message_def Let_def no_faults_def)
qed

section \<open>Appending always has an answer\<close>

text \<open>The answer to an append whose identifier is new, from the state of the room alone.\<close>

definition append_answer :: "Db \<Rightarrow> UserId \<Rightarrow> MessageId \<Rightarrow> Append \<Rightarrow> Response" where
  "append_answer db user request_id op =
     (if \<not> is_subscribed db (ap_room op) user then Rejected Unauthorized
      else if invalid_append op then Rejected Invalid
      else if room_head db (ap_room op) \<noteq> ap_parent op then HeadConflict (ap_room op) (room_head db (ap_room op))
      else if request_id \<in> er_event_id ` set (db_delivery_events db) then Rejected RequestConflict
      else AppendAccepted \<lparr>ev_id = request_id, ev_sender = user, ev_operation = op\<rparr>)"

lemma head_bounds_sequences:
  assumes "events_ok pc evs db" "e \<in> set (db_delivery_events db)" "er_room e = room"
  shows "unat (er_sequence e) \<le> unat (room_head db room)"
proof -
  have "unat (er_sequence e) \<in> set (map (\<lambda>e. unat (er_sequence e)) (room_rows db room))"
    using assms(2,3) by (auto simp: room_rows_def)
  then show ?thesis
    unfolding room_sequences [OF assms(1)] room_head_log [OF assms(1)] by auto
qed

lemma insert_event_fresh:
  assumes "events_ok pc evs db" "ev_id ev \<notin> er_event_id ` set (db_delivery_events db)"
    "room_head db (ap_room (ev_operation ev)) = ap_parent (ev_operation ev)" "\<not> invalid_append (ev_operation ev)"
  shows "insert_event (event_row pc ev) db = Inr (add_event pc ev db)"
proof -
  let ?room = "ap_room (ev_operation ev)"
  have "ap_parent (ev_operation ev) < i64_max" using assms(4) by (auto simp: invalid_append_def not_le)
  then have "unat (ap_parent (ev_operation ev) + 1) = Suc (unat (ap_parent (ev_operation ev)))"
    by (simp add: unat_inc_u64 word_less_nat_alt)
  then have "er_sequence e \<noteq> ap_parent (ev_operation ev) + 1"
    if "e \<in> set (db_delivery_events db)" "er_room e = ?room" for e
    using head_bounds_sequences [OF assms(1) that] assms(3) by auto
  with assms(2) show ?thesis
    by (auto simp: insert_event_def add_event_def event_row_def image_iff)
qed

lemma publish_welcome_total:
  assumes "postcard_wire pc" "no_faults env" "rooms_ok db" "wf_event ev"
    and "ap_room (ev_operation ev) \<in> rm_room_id ` set (db_rooms db)"
    and "ap_welcome (ev_operation ev) \<noteq> None \<Longrightarrow> db_welcome_autoincrement db < i64_max"
  shows "\<exists>db'. publish_welcome pc env db ev (ap_parent (ev_operation ev) + 1) = Inr db'"
proof (cases "ap_welcome (ev_operation ev)")
  case (Some w)
  let ?name = "room_name db (ap_room (ev_operation ev))"
  have name: "select_room_name db (ap_room (ev_operation ev)) = Inr ?name"
    using assms(5) by (auto simp: room_name_def select_room_name_def filter_empty_conv split: list.splits)
  have "wf_welcome (welcome_of ?name ev w)"
    using assms(4) Some room_name_wf [OF assms(3,5)]
    by (simp add: wf_welcome_def welcome_of_def wf_event_def wf_append_def)
  from postcard_wire.size_welcome [OF assms(1) this] this
  have "length (ser_welcome pc (welcome_of ?name ev w)) \<le> MAX_PAYLOAD"
    by (simp add: welcome_of_def wf_welcome_def wf_attachment_def MAX_PAYLOAD_def)
  then show ?thesis
    using Some name assms(2,6)
    by (simp add: publish_welcome_def encode_message_def welcome_of_def insert_welcome_def subscribe_def Let_def not_le)
qed (simp add: publish_welcome_def)

lemma append_total:
  assumes "postcard_wire pc" "no_faults env" "core_ok pc evs db"
    and "wf_user user" "wf_message request_id" "wf_append op"
    and "ap_welcome op \<noteq> None \<Longrightarrow> db_welcome_autoincrement db < i64_max"
  shows "\<exists>db'. append_room_operation pc env db user request_id op = Inr (append_answer db user request_id op, db')"
proof -
  let ?ev = "\<lparr>ev_id = request_id, ev_sender = user, ev_operation = op\<rparr>"
  have "\<exists>db'. insert_event (event_row pc ?ev) db = Inr (add_event pc ?ev db)
      \<and> encode_message (ser_event pc) ?ev = Inr (ser_event pc ?ev)
      \<and> publish_welcome pc env (add_event pc ?ev db) ?ev (ap_parent op + 1) = Inr db'"
    if a: "is_subscribed db (ap_room op) user" "\<not> invalid_append op" "room_head db (ap_room op) = ap_parent op"
      "request_id \<notin> er_event_id ` set (db_delivery_events db)"
  proof -
    have wf: "wf_event ?ev" using assms(4-6) by (simp add: wf_event_def)
    with a(2) have "stored_event ?ev" by (simp add: stored_event_def)
    from postcard_wire.stored_event_decodes(1) [OF assms(1) this]
    have "encode_message (ser_event pc) ?ev = Inr (ser_event pc ?ev)" by (simp add: encode_message_Inr)
    moreover have "insert_event (event_row pc ?ev) db = Inr (add_event pc ?ev db)"
      using assms(3) a(2-4) by (intro insert_event_fresh) (auto simp: core_ok_def)
    moreover have "\<exists>db'. publish_welcome pc env (add_event pc ?ev db) ?ev (ap_parent (ev_operation ?ev) + 1) = Inr db'"
      using assms(1,2,3,7) wf a(1)
      by (intro publish_welcome_total) (auto simp: core_ok_def rooms_ok_def add_event_def is_subscribed_def list_all_iff)
    ultimately show ?thesis by simp
  qed
  then show ?thesis
    using assms(2)
    by (auto simp: append_answer_def append_room_operation_def subscribed_def denied_def event_row_def Let_def)
qed

section \<open>A concrete relay\<close>

text \<open>
  An environment without failures, a 32-byte digest that is good enough for examples, and a first
  request on a fresh database.
\<close>

definition fx_sha :: "bytes \<Rightarrow> bytes" where
  "fx_sha bs = take 32 (bs @ replicate 32 0)"

definition fx_env :: relay_env where
  "fx_env = \<lparr>sql_fault = \<lambda>_. False, lock_poisoned = False, unixepoch = 100000, random_room = Some fx_room,
     random_token = Some (replicate 32 7), page_size = 4096, page_count = 20, wal_metadata = Inr 0,
     parent_has_nul = False, statvfs = Inr (1000000, 4096)\<rparr>"

definition fx_state0 :: RelayState where
  "fx_state0 = initial_state default_storage_limits"

definition fx_create :: Request where
  "fx_create = CreateRoom (str_of ''Cave'')"

lemma fx_env_props: "no_faults fx_env" "wf_env fx_env"
  by (simp_all add: fx_env_def no_faults_def wf_env_def wf_ids fx_room_def)

lemma fx_ids: "wf_user fx_user" "wf_room fx_room" "wf_message fx_request_id" "wf_message fx_event_id"
  by (simp_all add: wf_ids fx_defs)

lemma normalize_Cave: "normalize_room_name (str_of ''Cave'') = Inr (str_of ''Cave'')"
  by (simp add: normalize_room_name_def trim_def trim_start_def trim_end_def str_of_def is_whitespace_def
     is_control_def MAX_ROOM_NAME_CHARS_def)

lemmas admit_eval = admit_def required_bytes_def wal_length_def read_usage_def free_space_def
  default_storage_limits_def encode_message_def MAX_PAYLOAD_def saturating_add_def saturating_mul_def

lemma fx_create_admitted:
  "admit postcard_v1 fx_env (rs_limits fx_state0) (rs_db fx_state0) fx_user fx_create = Inr True"
  by (simp add: admit_eval fx_env_def fx_state0_def fx_create_def initial_state_def empty_db_def wire_eval)

definition fx_row :: RoomRow where
  "fx_row = \<lparr>rm_room_id = fx_room, rm_name = str_of ''Cave'', rm_created_by = fx_user, rm_created_at = 100000\<rparr>"

lemma fx_create_executed:
  "execute postcard_v1 fx_env (rs_db fx_state0) fx_user fx_request_id fx_create
   = Inr (RoomCreated fx_room, empty_db\<lparr>db_rooms := [fx_row], db_room_subscribers := [(fx_room, fx_user)]\<rparr>)"
  by (simp add: execute_def create_room_def fx_create_def normalize_Cave fx_env_def sql_def fx_state0_def
      initial_state_def empty_db_def subscribe_def is_subscribed_def fx_row_def)

definition fx_state1 :: RelayState where
  "fx_state1 = fx_state0\<lparr>rs_db := saved fx_user fx_request_id (fx_sha (ser_request postcard_v1 fx_create))
     (ser_response postcard_v1 (RoomCreated fx_room))
     (charged fx_user fx_create (required_bytes (ser_request postcard_v1 fx_create))
       (empty_db\<lparr>db_rooms := [fx_row], db_room_subscribers := [(fx_room, fx_user)]\<rparr>))\<rparr>"

lemma fx_create_props: "wf_request fx_create" "durable fx_create" "\<not> is_receipt fx_create"
  by (simp_all add: wf_request_def fx_create_def wf_name_def str_of_def is_scalar_def str_len_def
      utf8_encode_def utf8_char_def durable_def is_receipt_def)

lemma fx_created:
  "deliver postcard_v1 fx_sha fx_env fx_state0 fx_user fx_request_id fx_create = (Inr (RoomCreated fx_room), fx_state1)"
proof -
  have "db_delivery_requests (rs_db fx_state0) (fx_user, fx_request_id) = None"
    by (simp add: fx_state0_def initial_state_def empty_db_def)
  moreover have "\<not> transient (RoomCreated fx_room)" by (simp add: transient_def)
  moreover have "length (ser_request postcard_v1 fx_create) \<le> MAX_PAYLOAD"
    "length (ser_response postcard_v1 (RoomCreated fx_room)) \<le> MAX_PAYLOAD"
    by (simp_all add: fx_create_def wire_eval MAX_PAYLOAD_def fx_room_def)
  ultimately show ?thesis
    using deliver_commits [OF fx_env_props(1) _ fx_create_props(2,3) _ fx_create_admitted fx_create_executed, of fx_sha]
    by (simp add: fx_state1_def count_outcome_def)
qed

lemma fx_reachable: "reachable postcard_v1 fx_sha fx_state0" "reachable postcard_v1 fx_sha fx_state1"
proof -
  show r0: "reachable postcard_v1 fx_sha fx_state0"
    by (auto simp: reachable_def fx_state0_def)
  have "relay_step postcard_v1 fx_sha fx_state0 fx_state1"
    using fx_env_props(2) fx_ids fx_create_props(1) fx_created by (intro relay_step.delivery)
  with r0 show "reachable postcard_v1 fx_sha fx_state1"
    unfolding reachable_def by (meson rtranclp.rtrancl_into_rtrancl)
qed
text \<open>A first event of that room, with a Welcome for a second user.\<close>

definition fx_guest :: UserId where
  "fx_guest = UserId (replicate 16 0x55)"

definition fx_attachment :: WelcomeAttachment where
  "fx_attachment = \<lparr>wa_recipient = fx_guest, wa_body = [0xaa, 0xbb],
     wa_signature = Ed25519SignatureBytes (replicate 64 0x66)\<rparr>"

definition fx_op :: Append where
  "fx_op = \<lparr>ap_room = fx_room, ap_parent = 0, ap_epoch = 0, ap_content_type = Commit,
     ap_body = [1, 2, 3], ap_welcome = Some fx_attachment\<rparr>"

definition fx_event1 :: Event where
  "fx_event1 = \<lparr>ev_id = fx_event_id, ev_sender = fx_user, ev_operation = fx_op\<rparr>"

lemma fx_state1_db:
  "rs_db fx_state1 = saved fx_user fx_request_id (fx_sha (ser_request postcard_v1 fx_create))
     (ser_response postcard_v1 (RoomCreated fx_room))
     (charged fx_user fx_create (required_bytes (ser_request postcard_v1 fx_create))
       (empty_db\<lparr>db_rooms := [fx_row], db_room_subscribers := [(fx_room, fx_user)]\<rparr>))"
  "rs_limits fx_state1 = default_storage_limits"
  by (simp_all add: fx_state1_def fx_state0_def initial_state_def)

lemma fx_state1_usage: "db_usage_sender (rs_db fx_state1) fx_user = Some 16402" "db_usage_room (rs_db fx_state1) = Map.empty"
  by (simp_all add: fx_state1_db saved_def charged_def charge_def empty_db_def fx_create_def is_receipt_def
      required_bytes_def saturating_add_def saturating_mul_def wire_eval)

lemma fx_append_admitted:
  "admit postcard_v1 fx_env (rs_limits fx_state1) (rs_db fx_state1) fx_user (AppendRoomOperation fx_op) = Inr True"
  by (simp add: admit_eval fx_env_def fx_state1_usage fx_state1_db(2) fx_op_def fx_attachment_def fx_guest_def
      fx_room_def wire_eval)

lemma fx_op_wf: "wf_append fx_op" "\<not> invalid_append fx_op" "wf_event fx_event1"
  by (simp_all add: wf_append_def fx_op_def fx_attachment_def wf_attachment_def wf_ids fx_defs fx_guest_def
      invalid_append_def MAX_MLS_BLOB_BYTES_def MAX_PAYLOAD_def wf_event_def fx_event1_def)

definition fx_db2 :: Db where
  "fx_db2 = add_welcome postcard_v1 (str_of ''Cave'') fx_event1 fx_attachment
     (add_event postcard_v1 fx_event1 (rs_db fx_state1))"

lemma fx_postcard: "postcard_wire postcard_v1"
  by unfold_locales

lemma fx_append_executed:
  "execute postcard_v1 fx_env (rs_db fx_state1) fx_user fx_event_id (AppendRoomOperation fx_op)
   = Inr (AppendAccepted fx_event1, fx_db2)"
proof -
  from reachable_ok [OF fx_reachable(2)] obtain evs where evs: "core_ok postcard_v1 evs (rs_db fx_state1)"
    by (auto simp: relay_ok_def)
  have "append_answer (rs_db fx_state1) fx_user fx_event_id fx_op = AppendAccepted fx_event1"
    using fx_op_wf(2)
    by (simp add: append_answer_def is_subscribed_def fx_state1_db saved_def charged_def empty_db_def fx_op_def
        room_head_def room_rows_def fx_event1_def)
  moreover have "db_welcome_autoincrement (rs_db fx_state1) < i64_max"
    by (simp add: fx_state1_db saved_def charged_def empty_db_def)
  ultimately obtain db' where db': "append_room_operation postcard_v1 fx_env (rs_db fx_state1) fx_user fx_event_id fx_op
      = Inr (AppendAccepted fx_event1, db')"
    using append_total [OF fx_postcard fx_env_props(1) evs fx_ids(1,4) fx_op_wf(1)] by auto
  have name: "select_room_name (rs_db fx_state1) fx_room = Inr (str_of ''Cave'')"
    by (simp add: select_room_name_def fx_state1_db saved_def charged_def fx_row_def)
  from append_effect [OF db'] have "appends postcard_v1 (rs_db fx_state1) fx_event1 db'"
    by (auto simp: denied_def fx_event1_def)
  with name have "db' = fx_db2" by (simp add: appends_def fx_event1_def fx_op_def fx_db2_def)
  with db' show ?thesis by (simp add: execute_def)
qed

definition fx_state2 :: RelayState where
  "fx_state2 = fx_state1\<lparr>rs_db := saved fx_user fx_event_id
     (fx_sha (ser_request postcard_v1 (AppendRoomOperation fx_op)))
     (ser_response postcard_v1 (AppendAccepted fx_event1))
     (charged fx_user (AppendRoomOperation fx_op)
       (required_bytes (ser_request postcard_v1 (AppendRoomOperation fx_op))) fx_db2)\<rparr>"

lemma fx_append_props: "wf_request (AppendRoomOperation fx_op)" "durable (AppendRoomOperation fx_op)"
  "\<not> is_receipt (AppendRoomOperation fx_op)"
  by (simp_all add: wf_request_def fx_op_wf durable_def is_receipt_def)

lemma fx_append_sizes: "length (ser_request postcard_v1 (AppendRoomOperation fx_op)) \<le> MAX_PAYLOAD"
    "length (ser_response postcard_v1 (AppendAccepted fx_event1)) \<le> MAX_PAYLOAD"
  by (simp_all add: wire_eval MAX_PAYLOAD_def fx_op_def fx_event1_def fx_attachment_def fx_guest_def fx_defs)

lemma fx_fresh_event: "db_delivery_requests (rs_db fx_state1) (fx_user, fx_event_id) = None"
  by (simp add: fx_state1_db saved_def charged_def empty_db_def fx_request_id_def fx_event_id_def)

lemma fx_appended:
  "deliver postcard_v1 fx_sha fx_env fx_state1 fx_user fx_event_id (AppendRoomOperation fx_op)
   = (Inr (AppendAccepted fx_event1), fx_state2)"
  using deliver_commits [OF fx_env_props(1) fx_fresh_event fx_append_props(2,3) fx_append_sizes(1) fx_append_admitted
      fx_append_executed _ fx_append_sizes(2), of fx_sha]
  by (simp add: fx_state2_def count_outcome_def transient_def)

lemma fx_appended_again:
  "deliver postcard_v1 fx_sha fx_env fx_state2 fx_user fx_event_id (AppendRoomOperation fx_op)
   = (Inr (AppendAccepted fx_event1), fx_state2)"
proof -
  have "wf_response (AppendAccepted fx_event1)" by (simp add: wf_response_def fx_op_wf)
  then have "decode_message (take_response postcard_v1) (ser_response postcard_v1 (AppendAccepted fx_event1))
      = Inr (AppendAccepted fx_event1)"
    using fx_append_sizes(2)
    by (intro postcard_wire.response_decode_encode [OF fx_postcard]) (simp_all add: encode_message_Inr)
  moreover have "db_delivery_requests (rs_db fx_state2) (fx_user, fx_event_id)
      = Some (fx_sha (ser_request postcard_v1 (AppendRoomOperation fx_op)),
          ser_response postcard_v1 (AppendAccepted fx_event1))"
    by (simp add: fx_state2_def saved_def)
  ultimately show ?thesis
    using fx_append_sizes(1) fx_env_props(1)
    by (simp add: deliver_def payload_hash_def encode_message_def no_faults_def)
qed

lemma fx_reachable2: "reachable postcard_v1 fx_sha fx_state2"
proof -
  have "relay_step postcard_v1 fx_sha fx_state1 fx_state2"
    using fx_env_props(2) fx_ids fx_append_props(1) fx_appended by (intro relay_step.delivery)
  with fx_reachable(2) show ?thesis
    unfolding reachable_def by (meson rtranclp.rtrancl_into_rtrancl)
qed

section \<open>Idempotent delivery\<close>

lemma new_request_saved:
  assumes "deliver_new pc sha256 env s user request_id request hash = (Inr response, s')"
    and "durable request" "\<not> transient response" "is_receipt request \<Longrightarrow> response = Acknowledged"
  shows "\<exists>db. execute pc env (rs_db s) user request_id request = Inr (response, db)
    \<and> length (ser_response pc response) \<le> MAX_PAYLOAD \<and> length (ser_request pc request) \<le> MAX_PAYLOAD
    \<and> db_delivery_requests (rs_db s') (user, request_id) = Some (hash, ser_response pc response)"
proof -
  have "\<not> malformed_receipt sha256 user request_id request"
  proof
    assume m: "malformed_receipt sha256 user request_id request"
    with assms(1) have "response = Rejected Invalid" by (simp add: deliver_new_def)
    moreover from m have "is_receipt request" by (auto simp: malformed_receipt_def is_receipt_def split: Request.splits)
    ultimately show False using assms(4) by simp
  qed
  then obtain r db where e: "execute pc env (rs_db s) user request_id request = Inr (r, db)"
    "length (ser_request pc request) \<le> MAX_PAYLOAD"
    "finish_transaction pc env s user request_id request hash (required_bytes (ser_request pc request)) r db = (Inr response, s')"
    using assms(1,3)
    by (auto simp: deliver_new_def encode_message_def Let_def transient_def split: if_splits sum.splits bool.splits)
  then have "r = response" by (auto simp: finish_transaction_def Let_def split: if_splits sum.splits)
  with e assms(2-4) show ?thesis
    by (auto simp: finish_transaction_def Let_def and_then_Inr saved_def split: if_splits sum.splits
        dest!: charge_usage_effect save_response_effect)
qed

text \<open>A settled answer: the request identifier has a saved response, or a conflict with one.\<close>

lemma deliver_settles:
  assumes "postcard_wire pc" "relay_ok pc s" "wf_env env" "wf_user user" "wf_message request_id" "wf_request request"
    and "deliver pc sha256 env s user request_id request = (Inr response, s')"
    and "durable request" "\<not> transient response" "is_receipt request \<Longrightarrow> response = Acknowledged"
  obtains hash bytes where "db_delivery_requests (rs_db s') (user, request_id) = Some (hash, bytes)"
    "hash = sha256 (ser_request pc request) \<Longrightarrow> decode_message (take_response pc) bytes = Inr response"
    "hash \<noteq> sha256 (ser_request pc request) \<Longrightarrow> response = Rejected RequestConflict"
    "length (ser_request pc request) \<le> MAX_PAYLOAD"
proof (cases "db_delivery_requests (rs_db s) (user, request_id)")
  case (Some x)
  obtain hash bytes where x: "x = (hash, bytes)" by (cases x)
  with Some assms(7) have "s' = s" "length (ser_request pc request) \<le> MAX_PAYLOAD"
    "if hash \<noteq> sha256 (ser_request pc request) then response = Rejected RequestConflict
     else decode_message (take_response pc) bytes = Inr response"
    by (auto simp: deliver_def payload_hash_def encode_message_def Let_def split: if_splits)
  with Some x that show thesis by (auto split: if_splits)
next
  case None
  from assms(7) None have new: "deliver_new pc sha256 env s user request_id request (sha256 (ser_request pc request))
      = (Inr response, s')"
    by (auto simp: deliver_def payload_hash_def encode_message_def Let_def split: if_splits)
  from assms(2) obtain evs where ok: "core_ok pc evs (rs_db s)" by (auto simp: relay_ok_def)
  from new_request_saved [OF new assms(8-10)] obtain db where
    e: "execute pc env (rs_db s) user request_id request = Inr (response, db)"
    and s: "length (ser_response pc response) \<le> MAX_PAYLOAD" "length (ser_request pc request) \<le> MAX_PAYLOAD"
    "db_delivery_requests (rs_db s') (user, request_id)
       = Some (sha256 (ser_request pc request), ser_response pc response)"
    by blast
  from execute_ok [OF e ok assms(3-6)] assms(8) have "wf_response response" by simp
  then have "decode_message (take_response pc) (ser_response pc response) = Inr response"
    using s(1) by (intro postcard_wire.response_decode_encode [OF assms(1)]) (auto simp: encode_message_Inr)
  with s that show thesis by simp
qed

lemma grows_request:
  "grows db db' \<Longrightarrow> db_delivery_requests db key = Some v \<Longrightarrow> db_delivery_requests db' key = Some v"
  unfolding grows_def map_le_def by (metis domI)

text \<open>
  Property C1. Delivery is idempotent: once a durable request has got an answer that is not
  transient, every later delivery of it under the same identifier, whatever the users of the
  relay did in between, returns that same answer and changes nothing.
\<close>

theorem retries_repeat_the_answer:
  assumes "postcard_wire pc" "reachable pc sha256 s"
    and "wf_env env" "wf_user user" "wf_message request_id" "wf_request request"
    and "deliver pc sha256 env s user request_id request = (Inr response, s')"
    and "durable request" "\<not> transient response" "is_receipt request \<longrightarrow> response = Acknowledged"
    and "(relay_step pc sha256)\<^sup>*\<^sup>* s' t" "no_faults env'"
  shows "deliver pc sha256 env' t user request_id request = (Inr response, t)"
proof -
  from deliver_settles [OF assms(1) reachable_ok [OF assms(2)] assms(3-9)] assms(10)
  obtain hash bytes where saved: "db_delivery_requests (rs_db s') (user, request_id) = Some (hash, bytes)"
    "hash = sha256 (ser_request pc request) \<Longrightarrow> decode_message (take_response pc) bytes = Inr response"
    "hash \<noteq> sha256 (ser_request pc request) \<Longrightarrow> response = Rejected RequestConflict"
    "length (ser_request pc request) \<le> MAX_PAYLOAD" by blast
  from relay_history.run_below [OF assms(11)] saved(1)
  have "db_delivery_requests (rs_db t) (user, request_id) = Some (hash, bytes)"
    by (auto intro: grows_request)
  with saved(2-4) assms(12) show ?thesis
    by (auto simp: deliver_def payload_hash_def encode_message_def no_faults_def)
qed

theorem retries_repeat_the_answer_witness:
  "deliver postcard_v1 fx_sha fx_env fx_state1 fx_user fx_request_id fx_create
   = (Inr (RoomCreated fx_room), fx_state1)"
proof (rule retries_repeat_the_answer)
  show "postcard_wire postcard_v1" by unfold_locales
  show "(relay_step postcard_v1 fx_sha)\<^sup>*\<^sup>* fx_state1 fx_state1" by (rule rtranclp.rtrancl_refl)
qed (use fx_reachable fx_env_props fx_ids fx_created fx_create_props in \<open>simp_all add: transient_def\<close>)

text \<open>
  Property C4. An identifier is bound to its request: after such an answer, a request with
  another payload hash under the same identifier is refused as a conflict and changes nothing.
\<close>

theorem request_identifiers_are_bound:
  assumes "postcard_wire pc" "reachable pc sha256 s"
    and "wf_env env" "wf_user user" "wf_message request_id" "wf_request request"
    and "deliver pc sha256 env s user request_id request = (Inr response, s')"
    and "durable request" "\<not> transient response" "response \<noteq> Rejected RequestConflict"
      "is_receipt request \<longrightarrow> response = Acknowledged"
    and "(relay_step pc sha256)\<^sup>*\<^sup>* s' t" "no_faults env'"
    and "length (ser_request pc other) \<le> MAX_PAYLOAD"
      "sha256 (ser_request pc other) \<noteq> sha256 (ser_request pc request)"
  shows "deliver pc sha256 env' t user request_id other = (Inr (Rejected RequestConflict), t)"
proof -
  from deliver_settles [OF assms(1) reachable_ok [OF assms(2)] assms(3-9)] assms(10,11)
  obtain bytes where "db_delivery_requests (rs_db s') (user, request_id) = Some (sha256 (ser_request pc request), bytes)"
    by metis
  with relay_history.run_below [OF assms(12)]
  have "db_delivery_requests (rs_db t) (user, request_id) = Some (sha256 (ser_request pc request), bytes)"
    by (auto intro: grows_request)
  with assms(13-15) show ?thesis
    by (auto simp: deliver_def payload_hash_def encode_message_def no_faults_def)
qed

theorem request_identifiers_are_bound_witness:
  "deliver postcard_v1 fx_sha fx_env fx_state1 fx_user fx_request_id (FetchWelcomes 1)
   = (Inr (Rejected RequestConflict), fx_state1)"
proof (rule request_identifiers_are_bound)
  show "postcard_wire postcard_v1" by unfold_locales
  show "(relay_step postcard_v1 fx_sha)\<^sup>*\<^sup>* fx_state1 fx_state1" by (rule rtranclp.rtrancl_refl)
  show "reachable postcard_v1 fx_sha fx_state0" "wf_env fx_env" "wf_user fx_user" "wf_message fx_request_id"
    "wf_request fx_create" "durable fx_create" "no_faults fx_env"
    "deliver postcard_v1 fx_sha fx_env fx_state0 fx_user fx_request_id fx_create = (Inr (RoomCreated fx_room), fx_state1)"
    by (simp_all add: fx_reachable fx_env_props fx_ids fx_created fx_create_props)
  show "length (ser_request postcard_v1 (FetchWelcomes 1)) \<le> MAX_PAYLOAD"
    "fx_sha (ser_request postcard_v1 (FetchWelcomes 1)) \<noteq> fx_sha (ser_request postcard_v1 fx_create)"
    by (simp_all add: fx_create_def wire_eval MAX_PAYLOAD_def fx_sha_def)
qed (simp_all add: transient_def fx_create_props)

section \<open>Room history\<close>

text \<open>
  Property C3. In every reachable state the event table is a history: its records decode to
  well-formed events with distinct identifiers, filed under their own room, identifier and sender, and in each
  room their sequence numbers are 1, 2, 3, ... in the order they were accepted, each event naming its
  predecessor as parent; the room's head is the length of its history.
\<close>

theorem room_history_is_contiguous:
  assumes "postcard_wire pc" "reachable pc sha256 s"
  shows "\<exists>evs. map (\<lambda>row. decode_message (take_event pc) (er_record row)) (db_delivery_events (rs_db s)) = map Inr evs
    \<and> db_delivery_events (rs_db s) = map (event_row pc) evs
    \<and> list_all wf_event evs \<and> distinct (map ev_id evs)
    \<and> (\<forall>room. map parent_of (room_log room evs) = [0..<length (room_log room evs)]
        \<and> map (\<lambda>row. unat (er_sequence row)) (room_rows (rs_db s) room) = [1..<Suc (length (room_log room evs))]
        \<and> unat (room_head (rs_db s) room) = length (room_log room evs))"
proof -
  from reachable_ok [OF assms(2)] obtain evs where evs: "events_ok pc evs (rs_db s)"
    by (auto simp: relay_ok_def core_ok_def)
  then have "map (\<lambda>row. decode_message (take_event pc) (er_record row)) (db_delivery_events (rs_db s)) = map Inr evs"
    using postcard_wire.stored_event_decodes(2) [OF assms(1)] by (simp add: events_ok_def event_row_def list_all_iff)
  with evs room_head_log room_sequences show ?thesis
    by (intro exI [of _ evs]) (auto simp: events_ok_def list_all_iff stored_event_def simp del: upt_Suc)
qed

theorem room_history_is_contiguous_witness:
  "db_delivery_events (rs_db fx_state2) \<noteq> []
    \<and> (\<exists>evs. map (\<lambda>row. decode_message (take_event postcard_v1) (er_record row)) (db_delivery_events (rs_db fx_state2)) = map Inr evs
    \<and> db_delivery_events (rs_db fx_state2) = map (event_row postcard_v1) evs
    \<and> list_all wf_event evs \<and> distinct (map ev_id evs)
    \<and> (\<forall>room. map parent_of (room_log room evs) = [0..<length (room_log room evs)]
        \<and> map (\<lambda>row. unat (er_sequence row)) (room_rows (rs_db fx_state2) room) = [1..<Suc (length (room_log room evs))]
        \<and> unat (room_head (rs_db fx_state2) room) = length (room_log room evs)))"
proof
  show "db_delivery_events (rs_db fx_state2) \<noteq> []"
    by (simp add: fx_state2_def saved_def charged_def fx_append_props fx_db2_def add_welcome_def add_event_def)
qed (rule room_history_is_contiguous [OF fx_postcard fx_reachable2])

lemma execute_append:
  assumes "execute pc env db user request_id request = Inr (AppendAccepted e, db')"
  shows "request = AppendRoomOperation (ev_operation e)"
    "e = \<lparr>ev_id = request_id, ev_sender = user, ev_operation = ev_operation e\<rparr>" "appends pc db e db'"
proof -
  have "\<exists>op. request = AppendRoomOperation op"
  proof (cases request)
    case (CreateRoom name)
    with assms have "create_room env db user name = Inr (AppendAccepted e, db')" by (simp add: execute_def)
    then show ?thesis by (cases rule: create_room_effect) auto
  next
    case (PublishKeyPackages packages)
    with assms publish_key_packages_effect [of env db user packages] show ?thesis by (fastforce simp: execute_def)
  next
    case (SetFetchGrant requester allowed)
    with assms set_fetch_grant_effect [of env db user requester allowed] show ?thesis by (fastforce simp: execute_def)
  next
    case (ReserveKeyPackage recipient)
    with assms reserve_key_package_effect [of env db user recipient] show ?thesis
      by (fastforce simp: execute_def denied_def)
  qed (use assms in \<open>auto simp: execute_def fetch_room_events_def sync_index_def fetch_welcomes_def acknowledge_def
      subscribed_def denied_def and_then_Inr split: if_splits\<close>)
  then obtain op where op: "request = AppendRoomOperation op" ..
  with assms have "append_room_operation pc env db user request_id op = Inr (AppendAccepted e, db')"
    by (simp add: execute_def)
  from append_effect [OF this] op
  show "request = AppendRoomOperation (ev_operation e)"
    "e = \<lparr>ev_id = request_id, ev_sender = user, ev_operation = ev_operation e\<rparr>" "appends pc db e db'"
    by (auto simp: denied_def Let_def)
qed

lemma accepted_events_are_stored:
  assumes "postcard_wire pc" "relay_ok pc s" "wf_env env" "wf_user user" "wf_message request_id" "wf_request request"
    and "deliver pc sha256 env s user request_id request = (Inr (AppendAccepted e), s')"
  shows "event_row pc e \<in> set (db_delivery_events (rs_db s')) \<and> wf_event e"
proof (cases "db_delivery_requests (rs_db s) (user, request_id)")
  case (Some x)
  obtain hash bytes where x: "x = (hash, bytes)" by (cases x)
  with Some assms(7) have s': "s' = s" "decode_message (take_response pc) bytes = Inr (AppendAccepted e)"
    by (auto simp: deliver_def split: if_splits sum.splits)
  from assms(2) Some x obtain r where r: "bytes = ser_response pc r" "wf_response r" "length bytes \<le> MAX_PAYLOAD"
    "\<forall>e \<in> set (appended_by r). event_row pc e \<in> set (db_delivery_events (rs_db s))"
    unfolding relay_ok_def requests_ok_def by blast
  then have "decode_message (take_response pc) bytes = Inr r"
    by (intro postcard_wire.response_decode_encode [OF assms(1)]) (auto simp: encode_message_Inr)
  with s' r show ?thesis by (auto simp: wf_response_def)
next
  case None
  with assms(7) have "deliver_new pc sha256 env s user request_id request (sha256 (ser_request pc request))
      = (Inr (AppendAccepted e), s')"
    by (auto simp: deliver_def payload_hash_def encode_message_def Let_def split: if_splits)
  then obtain r db where e: "execute pc env (rs_db s) user request_id request = Inr (r, db)"
    and f: "finish_transaction pc env s user request_id request (sha256 (ser_request pc request))
       (required_bytes (ser_request pc request)) r db = (Inr (AppendAccepted e), s')"
    by (auto simp: deliver_new_def encode_message_def Let_def split: if_splits sum.splits bool.splits)
  then have r: "r = AppendAccepted e" by (auto simp: finish_transaction_def Let_def split: if_splits sum.splits)
  note app = execute_append [OF e [unfolded r]]
  have "db_delivery_events (rs_db s') = db_delivery_events db"
    using f app(1) r
    by (auto simp: finish_transaction_def Let_def and_then_Inr durable_def is_receipt_def transient_def
        saved_def charged_def split: if_splits sum.splits dest!: charge_usage_effect save_response_effect)
  moreover have "event_row pc e \<in> set (db_delivery_events db)"
    using app(3) by (auto simp: appends_def add_event_def add_welcome_def split: option.splits)
  moreover have "wf_event e"
    using app(1) assms(4-6) by (subst app(2)) (simp add: wf_event_def wf_request_def)
  ultimately show ?thesis by simp
qed

lemma stored_event_unique:
  assumes "postcard_wire pc" "events_ok pc evs db" "event_row pc e \<in> set (db_delivery_events db)" "wf_event e"
  shows "e \<in> set evs"
proof -
  from assms(2,3) obtain f where f: "f \<in> set evs" "event_row pc e = event_row pc f" "wf_event f"
    by (auto simp: events_ok_def list_all_iff stored_event_def)
  then have "ser_event pc e = ser_event pc f" by (simp add: event_row_def)
  with postcard_wire.event_inject [OF assms(1,4) f(3)] f(1) show ?thesis by simp
qed

lemma one_event_per_parent:
  assumes "events_ok pc evs db" "e \<in> set evs" "f \<in> set evs"
    and "ap_room (ev_operation e) = ap_room (ev_operation f)" "ap_parent (ev_operation e) = ap_parent (ev_operation f)"
  shows "e = f"
proof -
  let ?log = "room_log (ap_room (ev_operation f)) evs"
  have "distinct (map parent_of ?log)" using assms(1) by (simp add: events_ok_def)
  moreover have "e \<in> set ?log" "f \<in> set ?log" using assms(2-4) by (simp_all add: room_log_def)
  moreover have "parent_of e = parent_of f" using assms(5) by (simp add: parent_of_def)
  ultimately show ?thesis by (meson distinct_map inj_onD)
qed

text \<open>
  Property C2. Conditional append has one winner: if two append requests, by any users and at any
  two moments of a run, are accepted with the same room and parent, they are the same event (the
  second answer repeats the first), and it stays stored.
\<close>

theorem one_winner_per_parent:
  assumes "postcard_wire pc" "reachable pc sha256 s"
    and "wf_env env" "wf_user user" "wf_message request_id" "wf_request request"
    and "deliver pc sha256 env s user request_id request = (Inr (AppendAccepted e), s')"
    and "(relay_step pc sha256)\<^sup>*\<^sup>* s' t"
    and "wf_env env'" "wf_user user'" "wf_message request_id'" "wf_request request'"
    and "deliver pc sha256 env' t user' request_id' request' = (Inr (AppendAccepted f), t')"
    and "ap_room (ev_operation e) = ap_room (ev_operation f)" "ap_parent (ev_operation e) = ap_parent (ev_operation f)"
  shows "e = f \<and> event_row pc e \<in> set (db_delivery_events (rs_db t'))"
proof -
  have ok: "relay_ok pc s" using assms(2) by (rule reachable_ok)
  have step: "relay_step pc sha256 s s'" "relay_step pc sha256 t t'"
    using assms(3-7,9-13) by (auto intro: relay_step.delivery)
  have okt: "relay_ok pc t" "relay_ok pc t'"
    using ok step relay_ok_step relay_safety.run_inv [OF assms(8)] by blast+
  then obtain evs where evs: "events_ok pc evs (rs_db t')" by (auto simp: relay_ok_def core_ok_def)
  have "(relay_step pc sha256)\<^sup>*\<^sup>* s' t'" using assms(8) step(2) by (rule rtranclp.rtrancl_into_rtrancl)
  then have sub: "set (db_delivery_events (rs_db s')) \<subseteq> set (db_delivery_events (rs_db t'))"
    using relay_history.run_below by (fastforce simp: grows_def)
  from accepted_events_are_stored [OF assms(1) ok assms(3-7)] sub
  have e: "event_row pc e \<in> set (db_delivery_events (rs_db t'))" "wf_event e" by auto
  with accepted_events_are_stored [OF assms(1) okt(1) assms(9-13)]
  have "e \<in> set evs" "f \<in> set evs"
    using stored_event_unique [OF assms(1) evs] by auto
  with evs assms(14,15) have "e = f" by (intro one_event_per_parent)
  with e(1) show ?thesis by simp
qed

theorem one_winner_per_parent_witness:
  "fx_event1 = fx_event1 \<and> event_row postcard_v1 fx_event1 \<in> set (db_delivery_events (rs_db fx_state2))"
proof (rule one_winner_per_parent)
  show "postcard_wire postcard_v1" by (rule fx_postcard)
  show "reachable postcard_v1 fx_sha fx_state1" by (rule fx_reachable)
  show "deliver postcard_v1 fx_sha fx_env fx_state1 fx_user fx_event_id (AppendRoomOperation fx_op)
      = (Inr (AppendAccepted fx_event1), fx_state2)" by (rule fx_appended)
  show "deliver postcard_v1 fx_sha fx_env fx_state2 fx_user fx_event_id (AppendRoomOperation fx_op)
      = (Inr (AppendAccepted fx_event1), fx_state2)" by (rule fx_appended_again)
  show "(relay_step postcard_v1 fx_sha)\<^sup>*\<^sup>* fx_state2 fx_state2" by (rule rtranclp.rtrancl_refl)
qed (simp_all add: fx_env_props fx_ids fx_append_props)

context postcard_wire
begin

lemma size_append_answer:
  assumes "wf_user user" "wf_message request_id" "wf_append op"
  shows "length (ser_response pc (append_answer db user request_id op)) \<le> MAX_PAYLOAD"
proof -
  let ?ev = "\<lparr>ev_id = request_id, ev_sender = user, ev_operation = op\<rparr>"
  have ev: "length (ser_event pc ?ev) \<le> MAX_PAYLOAD - 101" if "\<not> invalid_append op"
    using that assms by (intro stored_event_decodes(1)) (simp add: stored_event_def wf_event_def)
  have "length (pc_u64 pc (room_head db (ap_room op))) \<le> 10" by (rule size_u64_le)
  with assms ev show ?thesis
    by (auto simp: append_answer_def ser_response_def serialize_tagged_def ser_rejection_def size_u8 size_ids
        wf_append_def MAX_PAYLOAD_def)
qed

end

text \<open>
  What an answer to an append leaves in the tables: nothing unless it is an acceptance; then the row of the event
  and, if the operation carries a Welcome, its record for the recipient and the recipient's subscription.
\<close>

definition appended :: "postcard \<Rightarrow> Response \<Rightarrow> Db \<Rightarrow> Db" where
  "appended pc response db =
     (case response of
        AppendAccepted e \<Rightarrow>
          (case ap_welcome (ev_operation e) of
             None \<Rightarrow> add_event pc e db
           | Some w \<Rightarrow> add_welcome pc (room_name db (ap_room (ev_operation e))) e w (add_event pc e db))
      | _ \<Rightarrow> db)"

lemma append_appended:
  assumes "append_room_operation pc env db user request_id op = Inr (response, db')"
  shows "db' = appended pc response db"
  using append_effect [OF assms]
  by (auto simp: appended_def denied_def Let_def appends_def room_name_def split: option.splits)

lemma append_delivered:
  assumes "postcard_wire pc" "reachable pc sha256 s" "no_faults env"
    and "wf_user user" "wf_message request_id" "wf_append op"
    and "db_delivery_requests (rs_db s) (user, request_id) = None"
    and "admit pc env (rs_limits s) (rs_db s) user (AppendRoomOperation op) = Inr True"
    and "ap_welcome op \<noteq> None \<longrightarrow> db_welcome_autoincrement (rs_db s) < i64_max"
  defines "answer \<equiv> append_answer (rs_db s) user request_id op"
  shows "deliver pc sha256 env s user request_id (AppendRoomOperation op) = (Inr answer,
    (count_outcome answer s)\<lparr>rs_db :=
       saved user request_id (sha256 (ser_request pc (AppendRoomOperation op))) (ser_response pc answer)
         (charged user (AppendRoomOperation op) (required_bytes (ser_request pc (AppendRoomOperation op)))
           (appended pc answer (rs_db s)))\<rparr>)"
proof -
  from reachable_ok [OF assms(2)] obtain evs where evs: "core_ok pc evs (rs_db s)" by (auto simp: relay_ok_def)
  from append_total [OF assms(1,3) evs assms(4-6)] assms(9)
  obtain db where a: "append_room_operation pc env (rs_db s) user request_id op = Inr (answer, db)"
    by (auto simp: answer_def)
  from assms(8) have "length (ser_request pc (AppendRoomOperation op)) \<le> MAX_PAYLOAD"
    by (elim admit_True) (auto simp: encode_message_Inr)
  moreover have "\<not> transient answer" by (auto simp: answer_def append_answer_def transient_def)
  ultimately show ?thesis
    using assms(3,7,8) a append_appended [OF a] postcard_wire.size_append_answer [OF assms(1,4-6)]
    by (intro deliver_commits) (simp_all add: durable_def is_receipt_def execute_def answer_def)
qed

text \<open>
  Property C25. Total correctness of an append: in a reachable state, with storage available, a
  new append request that passes admission always gets the answer its room determines
  (unauthorized, invalid, head conflict with the current head, identifier already used, or
  accepted). The new state is determined table by table: an acceptance adds exactly the row of the event and, with
  a Welcome, its record under the next cursor and the recipient's subscription; in every case the sender and the
  room are charged for the request and the answer is recorded under its identifier and the hash of the
  request; a head conflict is counted; nothing else changes.
\<close>

theorem append_outcomes:
  assumes "postcard_wire pc" "reachable pc sha256 s" "no_faults env"
    and "wf_user user" "wf_message request_id" "wf_append op"
    and "db_delivery_requests (rs_db s) (user, request_id) = None"
    and "admit pc env (rs_limits s) (rs_db s) user (AppendRoomOperation op) = Inr True"
    and "ap_welcome op \<noteq> None \<longrightarrow> db_welcome_autoincrement (rs_db s) < i64_max"
  shows "\<exists>s'. deliver pc sha256 env s user request_id (AppendRoomOperation op)
        = (Inr (append_answer (rs_db s) user request_id op), s')
    \<and> (let answer = append_answer (rs_db s) user request_id op; request = ser_request pc (AppendRoomOperation op);
           old = rs_db s; db = rs_db s'; cost = unat (required_bytes request);
           used = (\<lambda>usage. case usage of None \<Rightarrow> 0 | Some n \<Rightarrow> n);
           accepted = (case answer of AppendAccepted _ \<Rightarrow> True | _ \<Rightarrow> False);
           event = \<lparr>ev_id = request_id, ev_sender = user, ev_operation = op\<rparr> in
         db_delivery_events db = db_delivery_events old @ (if accepted then [event_row pc event] else [])
       \<and> db_delivery_welcomes db = db_delivery_welcomes old @
           (case ap_welcome op of
              None \<Rightarrow> []
            | Some w \<Rightarrow> if accepted
                then [\<lparr>wr_cursor = db_welcome_autoincrement old + 1, wr_recipient = wa_recipient w,
                       wr_record = ser_welcome pc (welcome_of (room_name old (ap_room op)) event w)\<rparr>]
                else [])
       \<and> set (db_room_subscribers db) = set (db_room_subscribers old) \<union>
           (case ap_welcome op of None \<Rightarrow> {} | Some w \<Rightarrow> if accepted then {(ap_room op, wa_recipient w)} else {})
       \<and> db_usage_sender db = (db_usage_sender old)(user \<mapsto> used (db_usage_sender old user) + cost)
       \<and> db_usage_room db = (db_usage_room old)(ap_room op \<mapsto> used (db_usage_room old (ap_room op)) + cost)
       \<and> db_delivery_requests db =
           (db_delivery_requests old)((user, request_id) \<mapsto> (sha256 request, ser_response pc answer))
       \<and> old = db\<lparr>db_delivery_events := db_delivery_events old, db_delivery_welcomes := db_delivery_welcomes old,
           db_welcome_autoincrement := db_welcome_autoincrement old, db_room_subscribers := db_room_subscribers old,
           db_usage_sender := db_usage_sender old, db_usage_room := db_usage_room old,
           db_delivery_requests := db_delivery_requests old\<rparr>
       \<and> s' = (count_outcome answer s)\<lparr>rs_db := db\<rparr>)"
proof -
  let ?r = "append_answer (rs_db s) user request_id op"
  let ?ev = "\<lparr>ev_id = request_id, ev_sender = user, ev_operation = op\<rparr>"
  have "?r = AppendAccepted ?ev \<or> \<not> (case ?r of AppendAccepted _ \<Rightarrow> True | _ \<Rightarrow> False) \<and> appended pc ?r (rs_db s) = rs_db s"
    by (auto simp: append_answer_def appended_def)
  then show ?thesis
    unfolding append_delivered [OF assms] Let_def
    by (intro exI conjI refl)
      (auto simp: appended_def saved_def charged_def charge_def is_receipt_def add_event_def add_welcome_def
        split: option.splits)
qed

theorem append_outcomes_witness:
  "\<exists>s'. deliver postcard_v1 fx_sha fx_env fx_state1 fx_user fx_event_id (AppendRoomOperation fx_op)
        = (Inr (append_answer (rs_db fx_state1) fx_user fx_event_id fx_op), s')
      \<and> db_delivery_events (rs_db s') = db_delivery_events (rs_db fx_state1) @ [event_row postcard_v1 fx_event1]
      \<and> length (db_delivery_welcomes (rs_db s')) = Suc (length (db_delivery_welcomes (rs_db fx_state1)))
      \<and> (fx_room, fx_guest) \<in> set (db_room_subscribers (rs_db s'))"
proof -
  have "append_answer (rs_db fx_state1) fx_user fx_event_id fx_op = AppendAccepted fx_event1"
    using fx_op_wf(2)
    by (simp add: append_answer_def is_subscribed_def fx_state1_db saved_def charged_def empty_db_def fx_op_def
        room_head_def room_rows_def fx_event1_def)
  moreover have "ap_welcome fx_op \<noteq> None \<longrightarrow> db_welcome_autoincrement (rs_db fx_state1) < i64_max"
    by (simp add: fx_state1_db saved_def charged_def empty_db_def)
  note append_outcomes [OF fx_postcard fx_reachable(2) fx_env_props(1) fx_ids(1,4) fx_op_wf(1) fx_fresh_event fx_append_admitted this]
  ultimately show ?thesis
    by (auto simp: Let_def fx_event1_def fx_op_def fx_attachment_def)
qed

section \<open>Welcomes and membership\<close>

lemma published_decodes:
  assumes "postcard_wire pc" "rooms_ok db" "stored_event e" "ap_room (ev_operation e) \<in> rm_room_id ` set (db_rooms db)"
  shows "map (\<lambda>(u, bytes). (u, decode_message (take_welcome pc) bytes)) (published pc db e) =
    (case ap_welcome (ev_operation e) of
       None \<Rightarrow> []
     | Some w \<Rightarrow> [(wa_recipient w, Inr (welcome_of (room_name db (ap_room (ev_operation e))) e w))])"
proof (cases "ap_welcome (ev_operation e)")
  case (Some w)
  let ?w = "welcome_of (room_name db (ap_room (ev_operation e))) e w"
  have "wf_welcome ?w"
    using assms(3) Some room_name_wf [OF assms(2,4)]
    by (simp add: stored_event_def wf_welcome_def welcome_of_def wf_event_def wf_append_def)
  then have "stored_welcome pc \<lparr>wr_cursor = 0, wr_recipient = wa_recipient w, wr_record = ser_welcome pc ?w\<rparr> ?w"
    by (simp add: stored_welcome_def welcome_of_def)
  from postcard_wire.stored_welcome_decodes(2) [OF assms(1) this] Some show ?thesis
    by (simp add: published_def welcome_of_def)
qed (simp add: published_def)

text \<open>
  Property C24. Welcomes and events are atomic: in every reachable state the records of the welcome table
  decode, in the order of the events, to exactly one Welcome for each event that carries one, filed for its recipient under
  the cursors 1, 2, 3, ..., with the room's name, the event's identifier, sequence number and sender and the attachment
  of the event; and its recipient is a subscriber of the room.
\<close>

theorem welcomes_match_their_events:
  assumes "postcard_wire pc" "reachable pc sha256 s"
  shows "\<exists>evs. map (\<lambda>row. decode_message (take_event pc) (er_record row)) (db_delivery_events (rs_db s)) = map Inr evs
    \<and> map (\<lambda>w. (wr_recipient w, decode_message (take_welcome pc) (wr_record w))) (db_delivery_welcomes (rs_db s)) =
        concat (map (\<lambda>e. case ap_welcome (ev_operation e) of
            None \<Rightarrow> []
          | Some w \<Rightarrow> [(wa_recipient w, Inr \<lparr>wd_room_name = room_name (rs_db s) (ap_room (ev_operation e)), wd_cursor = 0,
              wd_event = ev_id e, wd_room = ap_room (ev_operation e), wd_sequence = ap_parent (ev_operation e) + 1,
              wd_inviter = ev_sender e, wd_attachment = w\<rparr>)]) evs)
    \<and> map (\<lambda>w. unat (wr_cursor w)) (db_delivery_welcomes (rs_db s)) = [1..<Suc (length (db_delivery_welcomes (rs_db s)))]
    \<and> (\<forall>e \<in> set evs. \<forall>w. ap_welcome (ev_operation e) = Some w \<longrightarrow>
          is_subscribed (rs_db s) (ap_room (ev_operation e)) (wa_recipient w))"
proof -
  from reachable_ok [OF assms(2)] obtain evs where
    evs: "events_ok pc evs (rs_db s)" "welcomes_ok pc evs (rs_db s)" "rooms_ok (rs_db s)"
    by (auto simp: relay_ok_def core_ok_def)
  have stored: "stored_event e" "ap_room (ev_operation e) \<in> rm_room_id ` set (db_rooms (rs_db s))" if "e \<in> set evs" for e
    using that evs by (auto simp: events_ok_def welcomes_ok_def list_all_iff)
  have "map (\<lambda>w. (wr_recipient w, decode_message (take_welcome pc) (wr_record w))) (db_delivery_welcomes (rs_db s))
      = map (\<lambda>(u, bytes). (u, decode_message (take_welcome pc) bytes)) (concat (map (published pc (rs_db s)) evs))"
  proof -
    have "concat (map (published pc (rs_db s)) evs) = map (\<lambda>w. (wr_recipient w, wr_record w)) (db_delivery_welcomes (rs_db s))"
      using evs(2) by (simp add: welcomes_ok_def)
    then show ?thesis by simp
  qed
  also have "\<dots> = concat (map (\<lambda>e. case ap_welcome (ev_operation e) of None \<Rightarrow> []
      | Some w \<Rightarrow> [(wa_recipient w, Inr (welcome_of (room_name (rs_db s) (ap_room (ev_operation e))) e w))]) evs)"
    using published_decodes [OF assms(1) evs(3) stored] by (simp add: map_concat comp_def cong: map_cong)
  finally show ?thesis
    unfolding welcome_of_def using evs(1,2) stored postcard_wire.stored_event_decodes(2) [OF assms(1)]
    by (intro exI [of _ evs])
      (auto simp: events_ok_def welcomes_ok_def members_def event_row_def list_all_iff simp del: upt_Suc)
qed

theorem welcomes_match_their_events_witness:
  "db_delivery_welcomes (rs_db fx_state2) \<noteq> []
    \<and> (\<exists>evs. map (\<lambda>row. decode_message (take_event postcard_v1) (er_record row)) (db_delivery_events (rs_db fx_state2)) = map Inr evs
    \<and> length (db_delivery_welcomes (rs_db fx_state2)) = length (filter (\<lambda>e. ap_welcome (ev_operation e) \<noteq> None) evs))"
proof
  show "db_delivery_welcomes (rs_db fx_state2) \<noteq> []"
    by (simp add: fx_state2_def saved_def charged_def fx_append_props fx_db2_def add_welcome_def add_event_def)
  have count: "length (concat (map (\<lambda>e. case f e of None \<Rightarrow> [] | Some w \<Rightarrow> [g e w]) es)) = length (filter (\<lambda>e. f e \<noteq> None) es)"
    for f :: "Event \<Rightarrow> WelcomeAttachment option" and g :: "Event \<Rightarrow> WelcomeAttachment \<Rightarrow> UserId \<times> (DecodeMessageError + WelcomeDelivery)" and es
    by (induction es) (auto split: option.splits)
  from welcomes_match_their_events [OF fx_postcard fx_reachable2] obtain evs where
    one: "map (\<lambda>row. decode_message (take_event postcard_v1) (er_record row)) (db_delivery_events (rs_db fx_state2)) = map Inr evs"
    and two: "map (\<lambda>w. (wr_recipient w, decode_message (take_welcome postcard_v1) (wr_record w))) (db_delivery_welcomes (rs_db fx_state2)) =
        concat (map (\<lambda>e. case ap_welcome (ev_operation e) of
            None \<Rightarrow> []
          | Some w \<Rightarrow> [(wa_recipient w, Inr \<lparr>wd_room_name = room_name (rs_db fx_state2) (ap_room (ev_operation e)), wd_cursor = 0,
              wd_event = ev_id e, wd_room = ap_room (ev_operation e), wd_sequence = ap_parent (ev_operation e) + 1,
              wd_inviter = ev_sender e, wd_attachment = w\<rparr>)]) evs)" by blast
  from arg_cong [OF two, of length] one count
  show "\<exists>evs. map (\<lambda>row. decode_message (take_event postcard_v1) (er_record row)) (db_delivery_events (rs_db fx_state2)) = map Inr evs
    \<and> length (db_delivery_welcomes (rs_db fx_state2)) = length (filter (\<lambda>e. ap_welcome (ev_operation e) \<noteq> None) evs)"
    by (intro exI [of _ evs]) simp
qed

text \<open>
  Nobody joins a room uninvited: in every reachable state a subscriber of a room
  created it or is the recipient of a Welcome carried by one of its events, and the senders of
  all its events are subscribers.
\<close>

theorem subscribers_were_invited:
  assumes "reachable pc sha256 s"
  shows "\<exists>evs. db_delivery_events (rs_db s) = map (event_row pc) evs
    \<and> (\<forall>room user. is_subscribed (rs_db s) room user \<longrightarrow>
        (\<exists>r \<in> set (db_rooms (rs_db s)). rm_room_id r = room \<and> rm_created_by r = user)
        \<or> (\<exists>e \<in> set evs. ap_room (ev_operation e) = room
             \<and> (\<exists>w. ap_welcome (ev_operation e) = Some w \<and> wa_recipient w = user)))
    \<and> (\<forall>e \<in> set evs. is_subscribed (rs_db s) (ap_room (ev_operation e)) (ev_sender e))"
proof -
  from reachable_ok [OF assms] obtain evs where
    evs: "events_ok pc evs (rs_db s)" "welcomes_ok pc evs (rs_db s)" "members_ok evs (rs_db s)"
    by (auto simp: relay_ok_def core_ok_def)
  from evs(1) have "db_delivery_events (rs_db s) = map (event_row pc) evs" by (simp add: events_ok_def)
  moreover from evs(2) have "\<forall>e \<in> set evs. is_subscribed (rs_db s) (ap_room (ev_operation e)) (ev_sender e)"
    by (simp add: welcomes_ok_def members_def)
  moreover from evs(3) have "\<forall>room user. is_subscribed (rs_db s) room user \<longrightarrow>
        (\<exists>r \<in> set (db_rooms (rs_db s)). rm_room_id r = room \<and> rm_created_by r = user)
        \<or> (\<exists>e \<in> set evs. ap_room (ev_operation e) = room
             \<and> (\<exists>w. ap_welcome (ev_operation e) = Some w \<and> wa_recipient w = user))"
    unfolding members_ok_def room_log_def set_filter by blast
  ultimately show ?thesis by blast
qed

theorem subscribers_were_invited_witness:
  "\<exists>evs. db_delivery_events (rs_db fx_state2) = map (event_row postcard_v1) evs
    \<and> (\<forall>room user. is_subscribed (rs_db fx_state2) room user \<longrightarrow>
        (\<exists>r \<in> set (db_rooms (rs_db fx_state2)). rm_room_id r = room \<and> rm_created_by r = user)
        \<or> (\<exists>e \<in> set evs. ap_room (ev_operation e) = room
             \<and> (\<exists>w. ap_welcome (ev_operation e) = Some w \<and> wa_recipient w = user)))
    \<and> (\<forall>e \<in> set evs. is_subscribed (rs_db fx_state2) (ap_room (ev_operation e)) (ev_sender e))"
  using fx_reachable2 by (rule subscribers_were_invited)

end
