(* ===== verification/Relay_Page_Claims.thy ===== *)
theory Relay_Page_Claims
  imports Relay_Claims
begin

text \<open>
  Properties of what the relay hands out and of its limits: pages of events, Welcomes and rooms,
  authorization of reads, failed calls, quotas, admission, key packages and enrollment.
\<close>

section \<open>Reads\<close>

lemma deliver_read:
  assumes "no_faults env" "db_delivery_requests (rs_db s) (user, request_id) = None"
    and "\<not> durable request" "length (ser_request pc request) \<le> MAX_PAYLOAD"
    and "execute pc env (rs_db s) user request_id request = Inr (response, db)"
  shows "deliver pc sha256 env s user request_id request = (Inr response, count_outcome response s)"
proof -
  have not_receipt: "\<not> is_receipt request" "\<not> malformed_receipt sha256 user request_id request"
    using assms(3) by (auto simp: durable_def is_receipt_def malformed_receipt_def split: Request.splits)
  have "db = rs_db s" using execute_unchanged [OF assms(5)] assms(3) by blast
  then have "(count_outcome response s)\<lparr>rs_db := db\<rparr> = count_outcome response s"
    using count_outcome_db(1) [of response s] by simp
  with not_receipt assms show ?thesis
    by (simp add: deliver_def deliver_new_def finish_transaction_def payload_hash_def encode_message_def Let_def
        no_faults_def)
qed

context postcard_wire
begin

lemma size_reads:
  "wf_room room \<Longrightarrow> length (ser_request pc (FetchRoomEvents room after)) \<le> MAX_PAYLOAD"
  "pred_option wf_room after_room \<Longrightarrow> length (ser_request pc (SyncIndex after_room)) \<le> MAX_PAYLOAD"
  "length (ser_request pc (FetchWelcomes cursor)) \<le> MAX_PAYLOAD"
  using size_u64_le(1) [of after] size_u64_le(1) [of cursor]
  by (auto simp: ser_request_def serialize_tagged_def size_u8 size_ids ser_option_def size_opt MAX_PAYLOAD_def
      split: option.splits)

lemma size_events_page:
  assumes "wf_room room" "wf_message request_id" "length events \<le> PAGE_SIZE"
    and "sum_list (map (\<lambda>e. length (ser_event pc e)) events) \<le> MAX_PAYLOAD - 96"
  shows "length (ser_relay_message pc (RelayDelivery request_id (RoomEvents room after events has_more))) \<le> MAX_PAYLOAD"
proof -
  have "length (concat (map (ser_event pc) events)) \<le> MAX_PAYLOAD - 96"
    using assms(4) by (simp add: length_concat comp_def)
  moreover have "length (pc_len pc (length events)) \<le> 2"
    using assms(3) varint_len_bounds(2) [of "length events"] by (simp add: size_len PAGE_SIZE_def)
  ultimately show ?thesis
    using assms(1,2) size_u64_le(1) [of after]
    by (simp add: ser_relay_message_def ser_response_def serialize_tagged_def ser_seq_def size_u8 size_ids size_bool
        MAX_PAYLOAD_def)
qed

lemma size_index_page:
  assumes "wf_message request_id" "list_all wf_room_head heads" "length heads \<le> 100"
  shows "length (ser_relay_message pc (RelayDelivery request_id (SyncIndexPage heads has_more))) \<le> MAX_PAYLOAD"
proof -
  have "length (concat (map (ser_room_head pc) heads)) \<le> 428 * length heads"
    using assms(2) sum_list_le_count [of heads "\<lambda>h. length (ser_room_head pc h)" 428] size_room_head
    by (auto simp: length_concat list_all_iff comp_def)
  moreover have "length (pc_len pc (length heads)) \<le> 2"
    using assms(3) varint_len_bounds(2) [of "length heads"] by (simp add: size_len)
  ultimately show ?thesis
    using assms(1,3)
    by (simp add: ser_relay_message_def ser_response_def serialize_tagged_def ser_seq_def size_u8 size_ids size_bool
        MAX_PAYLOAD_def)
qed

end

lemma fx_guest_fresh:
  "is_subscribed (rs_db fx_state2) fx_room fx_guest"
  "db_delivery_requests (rs_db fx_state2) (fx_guest, request_id) = None"
proof -
  have "fx_guest \<noteq> fx_user" by (simp add: fx_guest_def fx_user_def)
  then show "is_subscribed (rs_db fx_state2) fx_room fx_guest"
    "db_delivery_requests (rs_db fx_state2) (fx_guest, request_id) = None"
    by (simp_all add: fx_state2_def saved_def charged_def fx_db2_def add_welcome_def add_event_def is_subscribed_def
        fx_event1_def fx_op_def fx_attachment_def fx_state1_db empty_db_def)
qed

text \<open>
  Property C30. A page of a room's events is the next stretch of its history: it starts right
  after the sequence number asked for, has no gaps, is not empty while events remain, says that
  there is more exactly when events remain after it, and the whole answer fits the payload limit;
  fetching changes nothing.
\<close>

theorem event_pages_follow_the_history:
  assumes "postcard_wire pc" "reachable pc sha256 s" "no_faults env"
    and "wf_room room" "wf_message request_id" "after \<le> i64_max" "is_subscribed (rs_db s) room user"
    and "db_delivery_requests (rs_db s) (user, request_id) = None"
  shows "\<exists>evs events has_more. db_delivery_events (rs_db s) = map (event_row pc) evs
    \<and> deliver pc sha256 env s user request_id (FetchRoomEvents room after) = (Inr (RoomEvents room after events has_more), s)
    \<and> events = take (length events) (drop (unat after) (room_log room evs))
    \<and> (has_more \<longleftrightarrow> unat after + length events < length (room_log room evs))
    \<and> (unat after < length (room_log room evs) \<longrightarrow> events \<noteq> [])
    \<and> length (ser_relay_message pc (RelayDelivery request_id (RoomEvents room after events has_more))) \<le> MAX_PAYLOAD"
proof -
  from reachable_ok [OF assms(2)] obtain evs where evs: "events_ok pc evs (rs_db s)"
    by (auto simp: relay_ok_def core_ok_def)
  from fetch_room_events_page [OF assms(1,3) evs assms(7,6)] obtain events has_more where
    f: "fetch_room_events pc env (rs_db s) user room after = Inr (RoomEvents room after events has_more, rs_db s)"
    and page: "is_log_page (room_log room evs) (unat after) events has_more"
    and size: "sum_list (map (\<lambda>e. length (ser_event pc e)) events) \<le> MAX_PAYLOAD - 96" by blast
  have "deliver pc sha256 env s user request_id (FetchRoomEvents room after)
      = (Inr (RoomEvents room after events has_more), count_outcome (RoomEvents room after events has_more) s)"
    using assms(1,3,4,8) f postcard_wire.size_reads(1) [OF assms(1,4)]
    by (intro deliver_read) (simp_all add: durable_def execute_def)
  with evs page postcard_wire.size_events_page [OF assms(1,4,5) _ size] show ?thesis
    by (intro exI [of _ evs] exI [of _ events] exI [of _ has_more])
      (simp add: events_ok_def is_log_page_def count_outcome_def)
qed

theorem event_pages_follow_the_history_witness:
  "\<exists>evs events has_more. db_delivery_events (rs_db fx_state2) = map (event_row postcard_v1) evs
    \<and> deliver postcard_v1 fx_sha fx_env fx_state2 fx_guest fx_request_id (FetchRoomEvents fx_room 0)
        = (Inr (RoomEvents fx_room 0 events has_more), fx_state2)
    \<and> events = take (length events) (drop (unat (0 :: u64)) (room_log fx_room evs))
    \<and> (has_more \<longleftrightarrow> unat (0 :: u64) + length events < length (room_log fx_room evs))
    \<and> (unat (0 :: u64) < length (room_log fx_room evs) \<longrightarrow> events \<noteq> [])
    \<and> length (ser_relay_message postcard_v1 (RelayDelivery fx_request_id (RoomEvents fx_room 0 events has_more)))
        \<le> MAX_PAYLOAD"
  by (rule event_pages_follow_the_history) (simp_all add: fx_guest_fresh fx_postcard fx_reachable2 fx_env_props fx_ids)

text \<open>
  A page of Welcomes is the next stretch of the caller's own Welcomes: each entry
  is the stored record of one of the caller's rows with that row's cursor, in cursor order and
  without gaps after the cursor asked for; the page is not empty while Welcomes remain and says
  that there is more exactly then; fetching changes nothing.
\<close>

theorem welcome_pages_follow_the_cursor:
  assumes "postcard_wire pc" "reachable pc sha256 s" "no_faults env" "after \<le> i64_max"
    and "db_delivery_requests (rs_db s) (user, request_id) = None"
  shows "\<exists>welcomes has_more. deliver pc sha256 env s user request_id (FetchWelcomes after)
        = (Inr (Welcomes after welcomes has_more), s)
    \<and> list_all2 (stored_welcome pc)
        (take (length welcomes) (filter (\<lambda>w. wr_recipient w = user \<and> wr_cursor w > after) (db_delivery_welcomes (rs_db s))))
        welcomes
    \<and> (has_more \<longleftrightarrow> length welcomes
        < length (filter (\<lambda>w. wr_recipient w = user \<and> wr_cursor w > after) (db_delivery_welcomes (rs_db s))))
    \<and> (has_more \<longrightarrow> welcomes \<noteq> []) \<and> length welcomes \<le> PAGE_SIZE"
proof -
  from reachable_ok [OF assms(2)] obtain evs where evs: "core_ok pc evs (rs_db s)" by (auto simp: relay_ok_def)
  from fetch_welcomes_page [OF assms(1,3) evs assms(4), of user] obtain ws has_more where
    f: "fetch_welcomes pc env (rs_db s) user after = Inr (Welcomes after ws has_more, rs_db s)"
    and page: "list_all2 (stored_welcome pc) (take (length ws) (welcome_rows (rs_db s) user after)) ws"
      "has_more \<longleftrightarrow> length ws < length (welcome_rows (rs_db s) user after)"
      "welcome_rows (rs_db s) user after \<noteq> [] \<longrightarrow> ws \<noteq> []" "length ws \<le> PAGE_SIZE" by blast
  have "deliver pc sha256 env s user request_id (FetchWelcomes after)
      = (Inr (Welcomes after ws has_more), count_outcome (Welcomes after ws has_more) s)"
    using assms(3,5) f postcard_wire.size_reads(3) [OF assms(1)]
    by (intro deliver_read) (simp_all add: durable_def execute_def)
  with page show ?thesis
    by (intro exI [of _ ws] exI [of _ has_more]) (auto simp: count_outcome_def welcome_rows_def)
qed

theorem welcome_pages_follow_the_cursor_witness:
  "\<exists>welcomes has_more. deliver postcard_v1 fx_sha fx_env fx_state2 fx_guest fx_request_id (FetchWelcomes 0)
        = (Inr (Welcomes 0 welcomes has_more), fx_state2)
    \<and> list_all2 (stored_welcome postcard_v1)
        (take (length welcomes) (filter (\<lambda>w. wr_recipient w = fx_guest \<and> wr_cursor w > 0) (db_delivery_welcomes (rs_db fx_state2))))
        welcomes
    \<and> (has_more \<longleftrightarrow> length welcomes
        < length (filter (\<lambda>w. wr_recipient w = fx_guest \<and> wr_cursor w > 0) (db_delivery_welcomes (rs_db fx_state2))))
    \<and> (has_more \<longrightarrow> welcomes \<noteq> []) \<and> length welcomes \<le> PAGE_SIZE"
  by (rule welcome_pages_follow_the_cursor) (simp_all add: fx_guest_fresh fx_postcard fx_reachable2 fx_env_props)

text \<open>
  The room index: a page lists, in increasing order of identifier, the first 100 of
  the caller's rooms after the one asked for, with name and head, says that there is more exactly
  when a hundred and first exists, and always fits the payload limit.
\<close>

theorem room_index_pages:
  assumes "postcard_wire pc" "reachable pc sha256 s" "no_faults env" "pred_option wf_room after" "wf_message request_id"
    and "db_delivery_requests (rs_db s) (user, request_id) = None"
  shows "deliver pc sha256 env s user request_id (SyncIndex after) =
      (Inr (SyncIndexPage (take 100 (room_index (rs_db s) user after)) (100 < length (room_index (rs_db s) user after))), s)
    \<and> sorted_wrt (<) (map rh_room (room_index (rs_db s) user after))
    \<and> set (map rh_room (room_index (rs_db s) user after)) = {room. is_subscribed (rs_db s) room user
        \<and> (case after of None \<Rightarrow> True | Some a \<Rightarrow> a < room)}
    \<and> length (ser_relay_message pc (RelayDelivery request_id
        (SyncIndexPage (take 100 (room_index (rs_db s) user after)) (100 < length (room_index (rs_db s) user after)))))
      \<le> MAX_PAYLOAD"
proof (intro conjI)
  let ?index = "room_index (rs_db s) user after"
  from reachable_ok [OF assms(2)] have ok: "rooms_ok (rs_db s)" by (auto simp: relay_ok_def core_ok_def)
  have "execute pc env (rs_db s) user request_id (SyncIndex after)
      = Inr (SyncIndexPage (take 100 ?index) (100 < length ?index), rs_db s)"
    using sync_index_page [OF assms(3) ok] by (simp add: execute_def PAGE_SIZE_def)
  from deliver_read [OF assms(3,6) _ _ this] postcard_wire.size_reads(2) [OF assms(1,4)]
  show "deliver pc sha256 env s user request_id (SyncIndex after)
      = (Inr (SyncIndexPage (take 100 ?index) (100 < length ?index)), s)"
    by (simp add: durable_def count_outcome_def)
  show "sorted_wrt (<) (map rh_room ?index)" using ok by (rule sorted_room_index)
  show "set (map rh_room ?index) = {room. is_subscribed (rs_db s) room user
        \<and> (case after of None \<Rightarrow> True | Some a \<Rightarrow> a < room)}"
    using ok by (fastforce simp: room_index_def rooms_ok_def is_subscribed_def list_all_iff)
  show "length (ser_relay_message pc (RelayDelivery request_id
        (SyncIndexPage (take 100 ?index) (100 < length ?index)))) \<le> MAX_PAYLOAD"
    using room_index_wf [OF ok, of user after] assms(5)
    by (intro postcard_wire.size_index_page [OF assms(1)]) (auto simp: list_all_take)
qed

theorem room_index_pages_witness:
  "deliver postcard_v1 fx_sha fx_env fx_state2 fx_guest fx_request_id (SyncIndex None) =
      (Inr (SyncIndexPage (take 100 (room_index (rs_db fx_state2) fx_guest None))
        (100 < length (room_index (rs_db fx_state2) fx_guest None))), fx_state2)
    \<and> sorted_wrt (<) (map rh_room (room_index (rs_db fx_state2) fx_guest None))
    \<and> set (map rh_room (room_index (rs_db fx_state2) fx_guest None)) = {room. is_subscribed (rs_db fx_state2) room fx_guest
        \<and> (case None of None \<Rightarrow> True | Some a \<Rightarrow> a < room)}
    \<and> length (ser_relay_message postcard_v1 (RelayDelivery fx_request_id
        (SyncIndexPage (take 100 (room_index (rs_db fx_state2) fx_guest None))
          (100 < length (room_index (rs_db fx_state2) fx_guest None)))))
      \<le> MAX_PAYLOAD"
  by (rule room_index_pages) (simp_all add: fx_guest_fresh fx_postcard fx_reachable2 fx_env_props fx_ids)

end
