(* ===== verification/Relay_Policy_Claims.thy ===== *)
theory Relay_Policy_Claims
  imports Relay_Page_Claims
begin

text \<open>
  Who may read what, what a failed call leaves behind, the quotas and the storage admission rule,
  the key-package pool, and private enrollment.
\<close>

section \<open>Reading needs membership\<close>

lemma execute_page:
  assumes "execute pc env db user request_id request = Inr (RoomEvents room after events has_more, db')"
  shows "request = FetchRoomEvents room after \<and> is_subscribed db room user"
proof (cases request)
  case (CreateRoom name)
  with assms have "create_room env db user name = Inr (RoomEvents room after events has_more, db')"
    by (simp add: execute_def)
  then show ?thesis by (cases rule: create_room_effect) auto
next
  case (PublishKeyPackages packages)
  with assms publish_key_packages_effect [of env db user packages] show ?thesis by (fastforce simp: execute_def)
next
  case (SetFetchGrant requester allowed)
  with assms set_fetch_grant_effect [of env db user requester allowed] show ?thesis by (fastforce simp: execute_def)
next
  case (ReserveKeyPackage recipient)
  with assms reserve_key_package_effect [of env db user recipient] show ?thesis
    by (fastforce simp: execute_def denied_def)
next
  case (AppendRoomOperation op)
  with assms append_effect [of pc env db user request_id op] show ?thesis
    by (fastforce simp: execute_def denied_def Let_def)
qed (use assms in \<open>auto simp: execute_def fetch_room_events_def sync_index_def fetch_welcomes_def acknowledge_def
    subscribed_def denied_def and_then_Inr split: if_splits\<close>)

text \<open>
  Only subscribers read a room: whenever the relay answers anything with a page of
  a room's events, the caller asked for that room and is subscribed to it, which by the previous
  properties means it created the room or was invited.
\<close>

theorem only_subscribers_read:
  assumes "postcard_wire pc" "reachable pc sha256 s"
    and "deliver pc sha256 env s user request_id request = (Inr (RoomEvents room after events has_more), s')"
  shows "request = FetchRoomEvents room after \<and> is_subscribed (rs_db s) room user \<and> rs_db s' = rs_db s"
proof (cases "db_delivery_requests (rs_db s) (user, request_id)")
  case (Some x)
  obtain hash bytes where x: "x = (hash, bytes)" by (cases x)
  with Some assms(3) have d: "decode_message (take_response pc) bytes = Inr (RoomEvents room after events has_more)"
    by (auto simp: deliver_def split: if_splits sum.splits)
  from reachable_ok [OF assms(2)] Some x obtain r where r: "bytes = ser_response pc r" "wf_response r"
    "length bytes \<le> MAX_PAYLOAD" "\<not> is_page r"
    unfolding relay_ok_def requests_ok_def by blast
  then have "decode_message (take_response pc) bytes = Inr r"
    by (intro postcard_wire.response_decode_encode [OF assms(1)]) (auto simp: encode_message_Inr)
  with d r(4) show ?thesis by (simp add: is_page_def)
next
  case None
  with assms(3) have new: "deliver_new pc sha256 env s user request_id request (sha256 (ser_request pc request))
      = (Inr (RoomEvents room after events has_more), s')"
    by (auto simp: deliver_def payload_hash_def encode_message_def Let_def split: if_splits)
  then obtain r db where e: "execute pc env (rs_db s) user request_id request = Inr (r, db)"
    and f: "finish_transaction pc env s user request_id request (sha256 (ser_request pc request))
       (required_bytes (ser_request pc request)) r db = (Inr (RoomEvents room after events has_more), s')"
    by (auto simp: deliver_new_def encode_message_def Let_def split: if_splits sum.splits bool.splits)
  then have "r = RoomEvents room after events has_more"
    by (auto simp: finish_transaction_def Let_def split: if_splits sum.splits)
  with e have p: "request = FetchRoomEvents room after" "is_subscribed (rs_db s) room user"
    using execute_page by blast+
  with finish_effect [OF f e] show ?thesis by (auto simp: durable_def)
qed

theorem only_subscribers_read_witness:
  "FetchRoomEvents fx_room 1 = FetchRoomEvents fx_room 1 \<and> is_subscribed (rs_db fx_state2) fx_room fx_guest
    \<and> rs_db (snd (deliver postcard_v1 fx_sha fx_env fx_state2 fx_guest fx_request_id (FetchRoomEvents fx_room 1)))
      = rs_db fx_state2"
proof (rule only_subscribers_read)
  have "events_ok postcard_v1 [fx_event1] (rs_db fx_state2)"
    using fx_op_wf
    by (auto simp: events_ok_def fx_state2_def saved_def charged_def fx_db2_def add_welcome_def add_event_def
        fx_state1_db empty_db_def stored_event_def fx_event1_def room_log_def parent_of_def fx_op_def)
  then have "select_events (rs_db fx_state2) fx_room 1 = []"
    by (simp add: select_events_log room_log_def)
  then have "execute postcard_v1 fx_env (rs_db fx_state2) fx_guest fx_request_id (FetchRoomEvents fx_room 1)
      = Inr (RoomEvents fx_room 1 [] False, rs_db fx_state2)"
    using fx_env_props(1) by (simp add: execute_def fetch_room_events_def subscribed_def fx_guest_fresh)
  from deliver_read [OF fx_env_props(1) fx_guest_fresh(2) _ _ this, of fx_sha]
  show "deliver postcard_v1 fx_sha fx_env fx_state2 fx_guest fx_request_id (FetchRoomEvents fx_room 1)
      = (Inr (RoomEvents fx_room 1 [] False),
         snd (deliver postcard_v1 fx_sha fx_env fx_state2 fx_guest fx_request_id (FetchRoomEvents fx_room 1)))"
    using postcard_wire.size_reads(1) [OF fx_postcard fx_ids(2)] by (simp add: durable_def count_outcome_def)
qed (simp_all add: fx_postcard fx_reachable2)

section \<open>Failed calls\<close>

definition refusal :: "Response \<Rightarrow> bool" where
  "refusal response = (case response of Rejected _ \<Rightarrow> True | HeadConflict _ _ \<Rightarrow> True | _ \<Rightarrow> False)"

lemma refusal_simps [simp]:
  "refusal (Rejected r)" "refusal (HeadConflict room n)" "\<not> refusal (AppendAccepted e)" "\<not> refusal (RoomCreated room)"
  "\<not> refusal (KeyPackagesPublished n)" "\<not> refusal FetchGrantSet" "\<not> refusal (KeyPackage user p)"
  by (simp_all add: refusal_def)

lemma execute_refused:
  assumes "execute pc env db user request_id request = Inr (response, db')" "refusal response"
  shows "db' = db"
proof (cases request)
  case (CreateRoom name)
  with assms show ?thesis by (auto simp: execute_def elim: create_room_effect)
next
  case (PublishKeyPackages packages)
  with assms publish_key_packages_effect [of env db user packages response db'] show ?thesis by (auto simp: execute_def)
next
  case (SetFetchGrant requester allowed)
  with assms set_fetch_grant_effect [of env db user requester allowed response db'] show ?thesis by (auto simp: execute_def)
next
  case (ReserveKeyPackage recipient)
  with assms reserve_key_package_effect [of env db user recipient response db'] show ?thesis by (auto simp: execute_def)
next
  case (AppendRoomOperation op)
  with assms append_effect [of pc env db user request_id op response db'] show ?thesis by (auto simp: execute_def Let_def)
qed (use assms in \<open>auto simp: execute_def dest: reads_effect\<close>)

text \<open>
  Property C26. What unsuccessful calls leave behind. A call that fails, whichever statement failed, leaves no
  trace in the database; neither does a transient rejection, which the client can retry, nor a read. Every other
  refusal leaves all tables as they were except for two: the refused request is charged to its sender (and, for an
  append, to its room), and the refusal is recorded under its identifier. The limits never change.
\<close>

theorem failed_calls_leave_no_trace:
  assumes "deliver pc sha256 env s user request_id request = (result, s')"
  shows "((case result of Inl _ \<Rightarrow> True | Inr response \<Rightarrow> transient response \<or> \<not> durable request) \<longrightarrow> rs_db s' = rs_db s)
    \<and> (\<forall>response. result = Inr response \<and> refusal response \<longrightarrow>
         rs_db s' = rs_db s\<lparr>db_usage_sender := db_usage_sender (rs_db s'), db_usage_room := db_usage_room (rs_db s'),
           db_delivery_requests := db_delivery_requests (rs_db s')\<rparr>
         \<and> (rs_db s' = rs_db s
            \<or> rs_db s' = saved user request_id (sha256 (ser_request pc request)) (ser_response pc response)
                (charged user request (required_bytes (ser_request pc request)) (rs_db s))))
    \<and> rs_limits s' = rs_limits s"
proof -
  from deliver_effect [OF assms] have limits: "rs_limits s' = rs_limits s"
    and cases: "rs_db s' = rs_db s
      \<or> (\<exists>response. result = Inr response \<and> commits pc sha256 env s user request_id request response s')" by auto
  have "rs_db s' = rs_db s \<or> rs_db s' = saved user request_id (sha256 (ser_request pc request)) (ser_response pc response)
      (charged user request (required_bytes (ser_request pc request)) (rs_db s))"
    if "result = Inr response" "refusal response" for response
    using cases that by (auto simp: commits_def dest: execute_refused [of pc env "rs_db s" user request_id request response])
  moreover have "db = rs_db s\<lparr>db_usage_sender := db_usage_sender db, db_usage_room := db_usage_room db,
      db_delivery_requests := db_delivery_requests db\<rparr>"
    if "db = rs_db s \<or> db = saved user request_id hash answer (charged user request n (rs_db s))" for db hash answer n
    using that by (auto simp: saved_def charged_def)
  moreover have "rs_db s' = rs_db s" if "case result of Inl _ \<Rightarrow> True | Inr response \<Rightarrow> transient response \<or> \<not> durable request"
    using cases that by (auto simp: commits_def)
  ultimately show ?thesis using limits by blast
qed

text \<open>The first request again, with a commit that fails.\<close>

definition fx_env_commit_fails :: relay_env where
  "fx_env_commit_fails = fx_env\<lparr>sql_fault := \<lambda>stmt. stmt = Commit_tx\<rparr>"

lemma fx_commit_fails:
  "deliver postcard_v1 fx_sha fx_env_commit_fails fx_state0 fx_user fx_request_id fx_create
   = (Inl (Database SqlFault), fx_state0)"
proof -
  have "admit postcard_v1 fx_env_commit_fails (rs_limits fx_state0) (rs_db fx_state0) fx_user fx_create = Inr True"
    by (simp add: admit_eval fx_env_commit_fails_def fx_env_def fx_state0_def fx_create_def initial_state_def
        empty_db_def wire_eval)
  moreover have "execute postcard_v1 fx_env_commit_fails (rs_db fx_state0) fx_user fx_request_id fx_create
     = Inr (RoomCreated fx_room, empty_db\<lparr>db_rooms := [fx_row], db_room_subscribers := [(fx_room, fx_user)]\<rparr>)"
    by (simp add: execute_def create_room_def fx_create_def normalize_Cave fx_env_commit_fails_def fx_env_def sql_def
        fx_state0_def initial_state_def empty_db_def subscribe_def is_subscribed_def fx_row_def)
  moreover have "encode_message (ser_request postcard_v1) fx_create = Inr (ser_request postcard_v1 fx_create)"
    "encode_message (ser_response postcard_v1) (RoomCreated fx_room) = Inr (ser_response postcard_v1 (RoomCreated fx_room))"
    by (simp_all add: encode_message_Inr fx_create_def wire_eval MAX_PAYLOAD_def fx_room_def)
  moreover have "\<not> malformed_receipt fx_sha fx_user fx_request_id fx_create"
    by (simp add: malformed_receipt_def fx_create_def)
  ultimately show ?thesis
    using fx_create_props(2,3)
    by (simp add: deliver_def payload_hash_def deliver_new_def finish_transaction_def count_outcome_def transient_def
        fx_env_commit_fails_def fx_env_def fx_state0_def initial_state_def empty_db_def charge_usage_def
        save_response_def sql_def fx_create_def)
qed

text \<open>An append by a user who is not in the room.\<close>

lemma fx_stranger:
  "fst (deliver postcard_v1 fx_sha fx_env fx_state1 fx_guest fx_event_id (AppendRoomOperation fx_op)) = Inr (Rejected Unauthorized)"
proof -
  have "admit postcard_v1 fx_env (rs_limits fx_state1) (rs_db fx_state1) fx_guest (AppendRoomOperation fx_op) = Inr True"
    by (simp add: admit_eval fx_env_def fx_state1_db saved_def charged_def charge_def empty_db_def fx_create_def is_receipt_def
        fx_op_def fx_attachment_def fx_guest_def fx_user_def fx_room_def wire_eval)
  moreover have "db_delivery_requests (rs_db fx_state1) (fx_guest, fx_event_id) = None"
    by (simp add: fx_state1_db saved_def charged_def empty_db_def fx_request_id_def fx_event_id_def)
  moreover have "db_welcome_autoincrement (rs_db fx_state1) < i64_max"
    by (simp add: fx_state1_db saved_def charged_def empty_db_def)
  moreover have "append_answer (rs_db fx_state1) fx_guest fx_event_id fx_op = Rejected Unauthorized"
    by (simp add: append_answer_def is_subscribed_def fx_state1_db saved_def charged_def empty_db_def fx_op_def fx_guest_def fx_user_def)
  moreover have "wf_user fx_guest" by (simp add: fx_guest_def wf_ids)
  ultimately show ?thesis
    using append_delivered [OF fx_postcard fx_reachable(2) fx_env_props(1) _ fx_ids(4) fx_op_wf(1)] by simp
qed

theorem failed_calls_leave_no_trace_witness:
  "rs_db (snd (deliver postcard_v1 fx_sha fx_env_commit_fails fx_state0 fx_user fx_request_id fx_create)) = rs_db fx_state0
   \<and> db_room_subscribers (rs_db (snd (deliver postcard_v1 fx_sha fx_env fx_state1 fx_guest fx_event_id (AppendRoomOperation fx_op))))
     = db_room_subscribers (rs_db fx_state1)"
proof -
  obtain s where stranger: "deliver postcard_v1 fx_sha fx_env fx_state1 fx_guest fx_event_id (AppendRoomOperation fx_op)
      = (Inr (Rejected Unauthorized), s)" using fx_stranger by (metis prod.collapse)
  with failed_calls_leave_no_trace [OF stranger]
  have "rs_db s = rs_db fx_state1\<lparr>db_usage_sender := db_usage_sender (rs_db s), db_usage_room := db_usage_room (rs_db s),
      db_delivery_requests := db_delivery_requests (rs_db s)\<rparr>" by simp
  from arg_cong [OF this, of db_room_subscribers]
  have "db_room_subscribers (rs_db s) = db_room_subscribers (rs_db fx_state1)" by simp
  with stranger failed_calls_leave_no_trace [OF fx_commit_fails] show ?thesis by (simp add: fx_commit_fails)
qed

section \<open>Quotas and admission\<close>

text \<open>
  Property C27. The quotas hold in every reachable state: at most 64 rooms per creator, at most
  64 unused key packages per user, none empty or above 16 KiB, and the usage charged to a sender
  and to a room never exceeds the configured limits (a limit of \<open>u64::MAX\<close> is none).
\<close>

theorem quotas_hold:
  assumes "reachable pc sha256 s"
  shows "length (filter (\<lambda>r. rm_created_by r = user) (db_rooms (rs_db s))) \<le> 64
    \<and> length (filter (\<lambda>k. kp_user_id k = user) (db_key_packages (rs_db s))) \<le> 64
    \<and> list_all (\<lambda>k. kp_key_package k \<noteq> [] \<and> length (kp_key_package k) \<le> 16 * 1024) (db_key_packages (rs_db s))
    \<and> (case db_usage_sender (rs_db s) user of None \<Rightarrow> True
        | Some n \<Rightarrow> n \<le> unat (limit_sender (rs_limits s)) \<or> limit_sender (rs_limits s) = - 1)
    \<and> (case db_usage_room (rs_db s) room of None \<Rightarrow> True
        | Some n \<Rightarrow> n \<le> unat (limit_room (rs_limits s)) \<or> limit_room (rs_limits s) = - 1)"
  using reachable_ok [OF assms]
  by (auto simp: relay_ok_def core_ok_def rooms_ok_def packages_ok_def ledger_ok_def MAX_KEY_PACKAGE_BYTES_def
      split: option.splits)

theorem quotas_hold_witness:
  "length (filter (\<lambda>r. rm_created_by r = fx_user) (db_rooms (rs_db fx_state2))) \<le> 64
    \<and> length (filter (\<lambda>k. kp_user_id k = fx_user) (db_key_packages (rs_db fx_state2))) \<le> 64
    \<and> list_all (\<lambda>k. kp_key_package k \<noteq> [] \<and> length (kp_key_package k) \<le> 16 * 1024) (db_key_packages (rs_db fx_state2))
    \<and> (case db_usage_sender (rs_db fx_state2) fx_user of None \<Rightarrow> True
        | Some n \<Rightarrow> n \<le> unat (limit_sender (rs_limits fx_state2)) \<or> limit_sender (rs_limits fx_state2) = - 1)
    \<and> (case db_usage_room (rs_db fx_state2) fx_room of None \<Rightarrow> True
        | Some n \<Rightarrow> n \<le> unat (limit_room (rs_limits fx_state2)) \<or> limit_room (rs_limits fx_state2) = - 1)"
  using fx_reachable2 by (rule quotas_hold)

lemma saturating_add_gt:
  assumes "unat limit + 1 < 2 ^ 64"
  shows "saturating_add a b > limit \<longleftrightarrow> unat a + unat b > unat limit"
  using assms by (auto simp: word_less_nat_alt unat_saturating_add)

lemma unat_ucast_u128: "unat (ucast (a :: u64) :: u128) = unat a"
proof -
  have "unat a < 2 ^ 64" by simp
  then have "unat a < 2 ^ 128" by (rule less_le_trans) simp
  then show ?thesis by (simp add: unsigned_ucast_eq take_bit_eq_mod)
qed

lemma ucast_mult_u64: "unat (ucast (a :: u64) * ucast (b :: u64) :: u128) = unat a * unat b"
proof -
  have "unat a * unat b < 2 ^ 64 * 2 ^ 64"
    by (rule mult_strict_mono) (use unsigned_less [of a] unsigned_less [of b] in simp_all)
  then show ?thesis
    by (simp add: unat_word_ariths unat_ucast_u128)
qed

text \<open>
  Storage admission in numbers: with finite limits and no failure, a request of \<open>n\<close>
  encoded bytes is admitted exactly when the database with \<open>3 n + 16384\<close> more bytes stays within
  the global limit, with its write-ahead log within the limit and the reserve, the sender (and,
  for an append, the room) within its own limit, and the file system keeps the reserve free. None
  of the saturating operations of the code changes the outcome.
\<close>

theorem admission_rule:
  assumes "no_faults env" "encode_message (ser_request pc) request = Inr wire"
    and "wal_length env = Inr wal" "\<not> parent_has_nul env" "statvfs env = Inr (f_bavail, f_frsize)"
    and "read_usage (db_usage_sender db user) = Inr used"
    and "\<And>op. request = AppendRoomOperation op \<Longrightarrow> read_usage (db_usage_room db (ap_room op)) = Inr used_room"
    and "unat (page_size env) * unat (page_count env) + unat wal + 4000000 < 2 ^ 64"
    and "unat (limit_global limits) + unat (limit_reserve limits) + 4000000 < 2 ^ 64"
    and "unat (limit_sender limits) + 1 < 2 ^ 64" "unat (limit_room limits) + 1 < 2 ^ 64"
  shows "admit pc env limits db user request = Inr (
    let required = 3 * length wire + 16384; logical = unat (page_size env) * unat (page_count env) in
      logical + required \<le> unat (limit_global limits)
      \<and> logical + unat wal + required \<le> unat (limit_global limits) + unat (limit_reserve limits)
      \<and> unat used + required \<le> unat (limit_sender limits)
      \<and> ((\<exists>op. request = AppendRoomOperation op) \<longrightarrow> unat used_room + required \<le> unat (limit_room limits))
      \<and> unat (limit_reserve limits) + required \<le> unat f_bavail * unat f_frsize)"
proof -
  have len: "length wire \<le> MAX_PAYLOAD" using assms(2) by (auto simp: encode_message_Inr)
  let ?n = "3 * length wire + 16384"
  have req: "unat (required_bytes wire) = ?n" using len by (rule required_bytes_eq)
  have n: "?n < 4000000" using len by (simp add: MAX_PAYLOAD_def)
  define logical where "logical = saturating_mul (page_size env) (page_count env)"
  have log: "unat logical = unat (page_size env) * unat (page_count env)"
    using assms(8) by (simp add: logical_def unat_saturating_mul)
  have c1: "saturating_add logical (required_bytes wire) > limit_global limits \<longleftrightarrow> unat logical + ?n > unat (limit_global limits)"
    using assms(9) req by (simp add: saturating_add_gt)
  have "unat (saturating_add logical wal) = unat logical + unat wal"
    "unat (saturating_add (limit_global limits) (limit_reserve limits))
      = unat (limit_global limits) + unat (limit_reserve limits)"
    using assms(8,9) log by (simp_all add: unat_saturating_add)
  with assms(9) req have c2: "saturating_add (saturating_add logical wal) (required_bytes wire)
        > saturating_add (limit_global limits) (limit_reserve limits)
      \<longleftrightarrow> unat logical + unat wal + ?n > unat (limit_global limits) + unat (limit_reserve limits)"
    by (subst saturating_add_gt) simp_all
  have c3: "saturating_add used (required_bytes wire) > limit_sender limits \<longleftrightarrow> unat used + ?n > unat (limit_sender limits)"
    using assms(10) req by (simp add: saturating_add_gt)
  have c4: "saturating_add used_room (required_bytes wire) \<le> limit_room limits \<longleftrightarrow> unat used_room + ?n \<le> unat (limit_room limits)"
    using saturating_add_gt [OF assms(11), of used_room "required_bytes wire"] req by (simp flip: not_less)
  have "unat (saturating_add (limit_reserve limits) (required_bytes wire)) = unat (limit_reserve limits) + ?n"
    using assms(9) req n by (simp add: unat_saturating_add)
  then have c5: "ucast (saturating_add (limit_reserve limits) (required_bytes wire)) \<le> (ucast f_bavail * ucast f_frsize :: u128)
      \<longleftrightarrow> unat (limit_reserve limits) + ?n \<le> unat f_bavail * unat f_frsize"
    by (simp add: word_le_nat_alt unat_ucast_u128 ucast_mult_u64)
  have room: "(case request of
        AppendRoomOperation operation \<Rightarrow>
          and_then (sql env SelectUsageRoom (read_usage (db_usage_room db (ap_room operation))))
            (\<lambda>used. Inr (saturating_add used (required_bytes wire) \<le> limit_room limits))
      | _ \<Rightarrow> Inr True)
    = Inr ((\<exists>op. request = AppendRoomOperation op) \<longrightarrow> unat used_room + ?n \<le> unat (limit_room limits))"
    using assms(1,7) by (cases request) (simp_all add: c4)
  have "admit pc env limits db user request =
      (if saturating_add logical (required_bytes wire) > limit_global limits then Inr False
       else if saturating_add (saturating_add logical wal) (required_bytes wire)
         > saturating_add (limit_global limits) (limit_reserve limits) then Inr False
       else if saturating_add used (required_bytes wire) > limit_sender limits then Inr False
       else if \<not> ((\<exists>op. request = AppendRoomOperation op) \<longrightarrow> unat used_room + ?n \<le> unat (limit_room limits)) then Inr False
       else Inr (ucast (saturating_add (limit_reserve limits) (required_bytes wire))
         \<le> (ucast f_bavail * ucast f_frsize :: u128)))"
    unfolding admit_def Let_def using assms(1-6) len room
    by (simp add: free_space_def logical_def)
  then show ?thesis
    unfolding c1 c2 c3 c5 by (auto simp: log Let_def not_less)
qed

theorem admission_rule_witness:
  "admit postcard_v1 fx_env default_storage_limits empty_db fx_user fx_create = Inr (
    let required = 3 * length [0, 4, 67, 97, 118, 101 :: u8] + 16384;
        logical = unat (page_size fx_env) * unat (page_count fx_env) in
      logical + required \<le> unat (limit_global default_storage_limits)
      \<and> logical + unat (0 :: u64) + required \<le> unat (limit_global default_storage_limits) + unat (limit_reserve default_storage_limits)
      \<and> unat (0 :: u64) + required \<le> unat (limit_sender default_storage_limits)
      \<and> ((\<exists>op. fx_create = AppendRoomOperation op) \<longrightarrow> unat (0 :: u64) + required \<le> unat (limit_room default_storage_limits))
      \<and> unat (limit_reserve default_storage_limits) + required \<le> unat (1000000 :: u64) * unat (4096 :: u64))"
proof (rule admission_rule)
  show "encode_message (ser_request postcard_v1) fx_create = Inr [0, 4, 67, 97, 118, 101]"
    by (simp add: encode_message_def MAX_PAYLOAD_def fx_create_def wire_eval)
  show "no_faults fx_env" by (rule fx_env_props)
qed (simp_all add: wal_length_def fx_env_def read_usage_def empty_db_def fx_create_def
    default_storage_limits_def)

section \<open>Key packages\<close>

definition pool :: "Db \<Rightarrow> UserId \<Rightarrow> KeyPackageRow list" where
  "pool db user = filter (\<lambda>k. kp_user_id k = user) (db_key_packages db)"

lemma pool_sorted:
  assumes "packages_ok db"
  shows "sort_key kp_rowid (pool db user) = pool db user" "distinct (map kp_rowid (db_key_packages db))"
proof -
  from assms have s: "sorted_wrt (<) (map kp_rowid (db_key_packages db))" by (simp add: packages_ok_def)
  then show "distinct (map kp_rowid (db_key_packages db))" by (simp add: strict_sorted_iff)
  from s have "sorted (map kp_rowid (db_key_packages db))" by (simp add: strict_sorted_iff)
  then have "sorted (map kp_rowid (pool db user))"
    unfolding pool_def sorted_map by (rule sorted_wrt_filter)
  then show "sort_key kp_rowid (pool db user) = pool db user" by (rule sort_key_id_if_sorted)
qed

lemma reserves_pool:
  assumes "packages_ok db" "reserves env db user recipient k db'"
  shows "pool db recipient = k # pool db' recipient" "u \<noteq> recipient \<Longrightarrow> pool db' u = pool db u"
proof -
  from assms(2) obtain ks where ks: "pool db recipient = k # ks"
    using pool_sorted(1) [OF assms(1), of recipient] by (auto simp: reserves_def pool_def)
  have db': "db_key_packages db' = filter (\<lambda>j. kp_rowid j \<noteq> kp_rowid k) (db_key_packages db)"
    using assms(2) by (simp add: reserves_def)
  have pool': "pool db' v = filter (\<lambda>j. kp_rowid j \<noteq> kp_rowid k) (pool db v)" for v
    by (simp add: pool_def db' conj_commute)
  have "distinct (map kp_rowid (pool db recipient))"
    using pool_sorted(2) [OF assms(1)] by (simp add: pool_def distinct_map_filter)
  with ks have "filter (\<lambda>j. kp_rowid j \<noteq> kp_rowid k) ks = ks"
    by (auto simp: filter_id_conv) (metis image_eqI)
  with ks pool' show "pool db recipient = k # pool db' recipient" by simp
  show "pool db' u = pool db u" if "u \<noteq> recipient"
  proof -
    have "kp_rowid j \<noteq> kp_rowid k" if "j \<in> set (pool db u)" for j
      using that \<open>u \<noteq> recipient\<close> reserved_row [OF assms(2)] pool_sorted(2) [OF assms(1)]
      by (auto simp: pool_def distinct_map dest: inj_onD)
    then show ?thesis by (simp add: pool' filter_id_conv)
  qed
qed

text \<open>
  Property C28. A key package is handed out once and only as agreed: a reservation succeeds only
  for a requester the recipient has granted, it returns the oldest package of the recipient's
  pool and removes exactly that package, and it keeps the hourly limits: at most 16 reservations
  for a recipient and at most 4 by one requester.
\<close>

theorem key_packages_are_handed_out_once:
  assumes "reachable pc sha256 s" "db_delivery_requests (rs_db s) (user, request_id) = None"
    and "deliver pc sha256 env s user request_id (ReserveKeyPackage recipient) = (Inr (KeyPackage owner package), s')"
  shows "owner = recipient \<and> (recipient, user) \<in> set (db_fetch_grants (rs_db s))
    \<and> (\<exists>k. pool (rs_db s) recipient = k # pool (rs_db s') recipient \<and> package = kp_key_package k)
    \<and> (\<forall>u. u \<noteq> recipient \<longrightarrow> pool (rs_db s') u = pool (rs_db s) u)
    \<and> length (recent_allocations env (rs_db s') recipient) \<le> 16
    \<and> length (filter (\<lambda>a. al_requester a = user) (recent_allocations env (rs_db s') recipient)) \<le> 4"
proof -
  from reachable_ok [OF assms(1)] have ok: "packages_ok (rs_db s)" by (auto simp: relay_ok_def core_ok_def)
  from assms(2,3) have new: "deliver_new pc sha256 env s user request_id (ReserveKeyPackage recipient)
      (sha256 (ser_request pc (ReserveKeyPackage recipient))) = (Inr (KeyPackage owner package), s')"
    by (auto simp: deliver_def payload_hash_def encode_message_def Let_def split: if_splits)
  then obtain r db where e: "execute pc env (rs_db s) user request_id (ReserveKeyPackage recipient) = Inr (r, db)"
    and f: "finish_transaction pc env s user request_id (ReserveKeyPackage recipient)
      (sha256 (ser_request pc (ReserveKeyPackage recipient)))
      (required_bytes (ser_request pc (ReserveKeyPackage recipient))) r db = (Inr (KeyPackage owner package), s')"
    by (auto simp: deliver_new_def encode_message_def Let_def split: if_splits sum.splits bool.splits)
  have r: "r = KeyPackage owner package"
    using f by (auto simp: finish_transaction_def Let_def split: if_splits sum.splits)
  with e reserve_key_package_effect [of env "rs_db s" user recipient r db] obtain k where
    k: "owner = recipient" "package = kp_key_package k" "reserves env (rs_db s) user recipient k db"
    by (auto simp: execute_def denied_def)
  have tables: "db_key_packages (rs_db s') = db_key_packages db" "db_package_allocations (rs_db s') = db_package_allocations db"
    using f r
    by (auto simp: finish_transaction_def Let_def and_then_Inr durable_def is_receipt_def transient_def
        saved_def charged_def split: if_splits sum.splits dest!: charge_usage_effect save_response_effect)
  have "recent_allocations env (rs_db s') recipient = recent_allocations env (rs_db s) recipient
      @ [\<lparr>al_requester = user, al_recipient = recipient, al_allocated_at = unixepoch env\<rparr>]"
    using k(3) by (simp add: recent_allocations_def tables reserves_def)
  moreover have "length (recent_allocations env (rs_db s) recipient) < 16"
    "length (filter (\<lambda>a. al_requester a = user) (recent_allocations env (rs_db s) recipient)) < 4"
    "(recipient, user) \<in> set (db_fetch_grants (rs_db s))"
    using k(3) by (simp_all add: reserves_def)
  moreover have "pool (rs_db s') = pool db" by (simp add: fun_eq_iff pool_def tables)
  ultimately show ?thesis
    using k reserves_pool [OF ok k(3)] by auto
qed

text \<open>The guest publishes a package, allows the first user to fetch it, and that user does.\<close>

definition fx_publish :: Request where
  "fx_publish = PublishKeyPackages [[9, 9]]"

definition fx_allow :: Request where
  "fx_allow = SetFetchGrant fx_user True"

definition fx_reserve :: Request where
  "fx_reserve = ReserveKeyPackage fx_guest"

definition fx_row1 :: KeyPackageRow where
  "fx_row1 = \<lparr>kp_rowid = 1, kp_user_id = fx_guest, kp_key_package = [9, 9], kp_published_at = 100000\<rparr>"

text \<open>The database after a request of the chain was recorded.\<close>

definition fx_record :: "UserId \<Rightarrow> MessageId \<Rightarrow> Request \<Rightarrow> Response \<Rightarrow> Db \<Rightarrow> Db" where
  "fx_record user request_id request response db =
     saved user request_id (fx_sha (ser_request postcard_v1 request)) (ser_response postcard_v1 response)
       (charged user request (required_bytes (ser_request postcard_v1 request)) db)"

definition fx_pool1 :: RelayState where
  "fx_pool1 = fx_state0\<lparr>rs_db := fx_record fx_guest fx_request_id fx_publish (KeyPackagesPublished 1)
     (empty_db\<lparr>db_key_packages := [fx_row1]\<rparr>)\<rparr>"

definition fx_pool2 :: RelayState where
  "fx_pool2 = fx_pool1\<lparr>rs_db := fx_record fx_guest fx_event_id fx_allow FetchGrantSet
     ((rs_db fx_pool1)\<lparr>db_fetch_grants := [(fx_guest, fx_user)]\<rparr>)\<rparr>"

definition fx_pool3 :: RelayState where
  "fx_pool3 = fx_pool2\<lparr>rs_db := fx_record fx_user fx_request_id fx_reserve (KeyPackage fx_guest [9, 9])
     ((rs_db fx_pool2)\<lparr>db_key_packages := [], db_package_allocations :=
        [\<lparr>al_requester = fx_user, al_recipient = fx_guest, al_allocated_at = 100000\<rparr>]\<rparr>)\<rparr>"

lemmas fx_pool_defs = fx_record_def saved_def charged_def charge_def fx_pool1_def fx_pool2_def fx_pool3_def
  fx_state0_def initial_state_def empty_db_def fx_row1_def fx_publish_def fx_allow_def fx_reserve_def

lemma fx_users_differ: "fx_guest \<noteq> fx_user" "fx_user \<noteq> fx_guest" "fx_request_id \<noteq> fx_event_id" "fx_event_id \<noteq> fx_request_id"
  by (simp_all add: fx_guest_def fx_user_def fx_request_id_def fx_event_id_def)

lemma fx_usage_sizes:
  "required_bytes (ser_request postcard_v1 (PublishKeyPackages [[9, 9]])) = 16399"
  "required_bytes (ser_request postcard_v1 (SetFetchGrant fx_user True)) = 16438"
  by (simp_all add: required_bytes_def saturating_add_def saturating_mul_def wire_eval fx_user_def)

lemma fx_commit:
  assumes "admit postcard_v1 fx_env (rs_limits s) (rs_db s) user request = Inr True"
    and "execute postcard_v1 fx_env (rs_db s) user request_id request = Inr (response, db)"
    and "db_delivery_requests (rs_db s) (user, request_id) = None" "durable request" "\<not> is_receipt request"
    and "\<not> transient response" "length (ser_response postcard_v1 response) \<le> MAX_PAYLOAD" "count_outcome response s = s"
  shows "deliver postcard_v1 fx_sha fx_env s user request_id request
    = (Inr response, s\<lparr>rs_db := fx_record user request_id request response db\<rparr>)"
proof -
  have "length (ser_request postcard_v1 request) \<le> MAX_PAYLOAD"
    using assms(1) by (elim admit_True) (simp add: encode_message_Inr)
  from deliver_commits [OF fx_env_props(1) assms(3-5) this assms(1,2,6,7), of fx_sha] assms(8)
  show ?thesis by (simp add: fx_record_def)
qed

lemmas fx_request_kinds = durable_def is_receipt_def transient_def count_outcome_def fx_publish_def fx_allow_def fx_reserve_def

lemma fx_published:
  "deliver postcard_v1 fx_sha fx_env fx_state0 fx_guest fx_request_id fx_publish = (Inr (KeyPackagesPublished 1), fx_pool1)"
proof -
  have "admit postcard_v1 fx_env (rs_limits fx_state0) (rs_db fx_state0) fx_guest fx_publish = Inr True"
    by (simp add: admit_eval fx_env_def fx_state0_def fx_publish_def initial_state_def empty_db_def wire_eval)
  moreover have "execute postcard_v1 fx_env (rs_db fx_state0) fx_guest fx_request_id fx_publish
      = Inr (KeyPackagesPublished 1, empty_db\<lparr>db_key_packages := [fx_row1]\<rparr>)"
    by (simp add: execute_def publish_key_packages_def fx_publish_def MAX_KEY_PACKAGE_BYTES_def MAX_PAYLOAD_def fx_env_def
        sql_def fx_state0_def initial_state_def empty_db_def fx_row1_def next_rowid_def)
  moreover have "length (ser_response postcard_v1 (KeyPackagesPublished 1)) \<le> MAX_PAYLOAD"
    by (simp add: wire_eval MAX_PAYLOAD_def)
  moreover have "db_delivery_requests (rs_db fx_state0) (fx_guest, fx_request_id) = None"
    by (simp add: fx_state0_def initial_state_def empty_db_def)
  ultimately show ?thesis
    by (subst fx_commit) (simp_all add: fx_request_kinds fx_pool1_def)
qed

lemma fx_allowed:
  "deliver postcard_v1 fx_sha fx_env fx_pool1 fx_guest fx_event_id fx_allow = (Inr FetchGrantSet, fx_pool2)"
proof -
  have "db_usage_sender (rs_db fx_pool1) fx_guest = Some 16399" "rs_limits fx_pool1 = default_storage_limits"
    by (simp_all add: fx_pool_defs fx_usage_sizes fx_request_kinds)
  then have "admit postcard_v1 fx_env (rs_limits fx_pool1) (rs_db fx_pool1) fx_guest fx_allow = Inr True"
    by (simp add: admit_eval fx_env_def fx_allow_def wire_eval fx_user_def)
  moreover have "execute postcard_v1 fx_env (rs_db fx_pool1) fx_guest fx_event_id fx_allow
      = Inr (FetchGrantSet, (rs_db fx_pool1)\<lparr>db_fetch_grants := [(fx_guest, fx_user)]\<rparr>)"
    by (simp add: execute_def set_fetch_grant_def fx_env_def sql_def fx_pool_defs fx_request_kinds)
  moreover have "length (ser_response postcard_v1 FetchGrantSet) \<le> MAX_PAYLOAD"
    by (simp add: wire_eval MAX_PAYLOAD_def)
  moreover have "db_delivery_requests (rs_db fx_pool1) (fx_guest, fx_event_id) = None"
    by (simp add: fx_pool_defs fx_users_differ fx_request_kinds)
  ultimately show ?thesis
    by (subst fx_commit) (simp_all add: fx_request_kinds fx_pool2_def)
qed

lemma fx_pool2_db:
  "db_key_packages (rs_db fx_pool2) = [fx_row1]" "db_fetch_grants (rs_db fx_pool2) = [(fx_guest, fx_user)]"
  "db_package_allocations (rs_db fx_pool2) = []" "db_usage_sender (rs_db fx_pool2) fx_user = None"
  "db_delivery_requests (rs_db fx_pool2) (fx_user, request_id) = None" "rs_limits fx_pool2 = default_storage_limits"
  by (simp_all add: fx_pool_defs fx_users_differ fx_request_kinds)

lemma fx_reserved:
  "deliver postcard_v1 fx_sha fx_env fx_pool2 fx_user fx_request_id fx_reserve
   = (Inr (KeyPackage fx_guest [9, 9]), fx_pool3)"
proof -
  have "admit postcard_v1 fx_env (rs_limits fx_pool2) (rs_db fx_pool2) fx_user fx_reserve = Inr True"
    by (simp add: admit_eval fx_env_def fx_reserve_def wire_eval fx_guest_def fx_pool2_db)
  moreover have "execute postcard_v1 fx_env (rs_db fx_pool2) fx_user fx_request_id fx_reserve
      = Inr (KeyPackage fx_guest [9, 9], (rs_db fx_pool2)\<lparr>db_key_packages := [], db_package_allocations :=
        [\<lparr>al_requester = fx_user, al_recipient = fx_guest, al_allocated_at = 100000\<rparr>]\<rparr>)"
    by (simp add: execute_def reserve_key_package_def fx_env_def sql_def fx_pool2_db fx_reserve_def recent_allocations_def
        fx_row1_def)
  moreover have "length (ser_response postcard_v1 (KeyPackage fx_guest [9, 9])) \<le> MAX_PAYLOAD"
    by (simp add: wire_eval MAX_PAYLOAD_def fx_guest_def)
  ultimately show ?thesis
    by (subst fx_commit) (simp_all add: fx_request_kinds fx_pool3_def fx_pool2_db)
qed

lemma reachable_delivery:
  assumes "reachable pc sha256 s" "wf_env env" "wf_user user" "wf_message request_id" "wf_request request"
    and "deliver pc sha256 env s user request_id request = (result, s')"
  shows "reachable pc sha256 s'"
  using assms(1) relay_step.delivery [OF assms(2-6)]
  unfolding reachable_def by (meson rtranclp.rtrancl_into_rtrancl)

lemma fx_pool_reachable: "reachable postcard_v1 fx_sha fx_pool2"
proof -
  have wf: "wf_request fx_publish" "wf_request fx_allow" "wf_user fx_guest"
    by (simp_all add: wf_request_def fx_publish_def fx_allow_def wf_ids fx_user_def fx_guest_def)
  have "reachable postcard_v1 fx_sha fx_pool1"
    using fx_reachable(1) fx_env_props(2) wf(3) fx_ids(3) wf(1) fx_published by (rule reachable_delivery)
  then show ?thesis using fx_env_props(2) wf(3) fx_ids(4) wf(2) fx_allowed by (rule reachable_delivery)
qed

theorem key_packages_are_handed_out_once_witness:
  "fx_guest = fx_guest \<and> (fx_guest, fx_user) \<in> set (db_fetch_grants (rs_db fx_pool2))
    \<and> (\<exists>k. pool (rs_db fx_pool2) fx_guest = k # pool (rs_db fx_pool3) fx_guest \<and> [9, 9] = kp_key_package k)
    \<and> pool (rs_db fx_pool3) fx_user = pool (rs_db fx_pool2) fx_user
    \<and> length (recent_allocations fx_env (rs_db fx_pool3) fx_guest) \<le> 16
    \<and> length (filter (\<lambda>a. al_requester a = fx_user) (recent_allocations fx_env (rs_db fx_pool3) fx_guest)) \<le> 4"
proof -
  have "fx_user \<noteq> fx_guest" by (simp add: fx_user_def fx_guest_def)
  with key_packages_are_handed_out_once
    [OF fx_pool_reachable fx_pool2_db(5) fx_reserved [unfolded fx_reserve_def]]
  show ?thesis by blast
qed

section \<open>Enrollment\<close>

lemma consumed_token_kept:
  assumes "tokens_kept ts us" "t \<in> set ts" "tk_consumed t" "distinct (map tk_hash us)" "u \<in> set us" "tk_hash u = tk_hash t"
  shows "tk_consumed u"
proof -
  from assms(1-3) obtain t' where "t' \<in> set us" "tk_hash t' = tk_hash t" "tk_consumed t'"
    by (auto simp: tokens_kept_def)
  with assms(4-6) have "t' = u" by (metis distinct_map inj_onD)
  with \<open>tk_consumed t'\<close> show ?thesis by simp
qed

text \<open>
  Property C29. An enrollment token works once, for the user and key it was issued for, and before
  it expires: a new registration found an unexpired, unused token row for that user with the
  digest of the token and of the key, and no later registration by anyone succeeds with the same
  token, whatever happens in between.
\<close>

theorem enrollment_tokens_are_single_use:
  assumes "\<And>x. length (sha256 x) = 32" "reachable pc sha256 s"
    and "register_enrolled_identity sha256 env s user key (Some token) = Some (Inr New, s')"
    and "(relay_step pc sha256)\<^sup>*\<^sup>* s' t"
    and "register_enrolled_identity sha256 env' t user' key' (Some token) = Some (result, t')"
  shows "(\<exists>row \<in> set (db_enrollment_tokens (rs_db s)). tk_hash row = sha256 token \<and> tk_user_id row = user
        \<and> tk_fingerprint row = sha256 (public_key_bytes key) \<and> tk_expires row > unixepoch env \<and> \<not> tk_consumed row)
    \<and> db_identities (rs_db s') user = Some key \<and> result \<noteq> Inr New"
proof -
  let ?h = "sha256 token" and ?f = "sha256 (public_key_bytes key)"
  have hash: "enrollment_hash sha256 x = Some (sha256 x)" for x
    by (rule enrollment_hash_sha256) (rule assms(1))
  from register_effect [OF assms(3)] hash
  have one: "length (filter (redeemable env ?h user ?f) (db_enrollment_tokens (rs_db s))) = 1"
    and s': "s' = s\<lparr>rs_db := (rs_db s)\<lparr>db_enrollment_tokens := consume (redeemable env ?h user ?f) (db_enrollment_tokens (rs_db s)),
             db_identities := (db_identities (rs_db s))(user \<mapsto> key)\<rparr>\<rparr>"
    by auto
  from one obtain row where row: "row \<in> set (db_enrollment_tokens (rs_db s))" "redeemable env ?h user ?f row"
    by (metis (no_types, lifting) filter_empty_conv length_0_conv one_neq_zero)
  have "reachable pc sha256 t"
    using assms(2) relay_step.registration [OF assms(3)] assms(4)
    unfolding reachable_def by (meson rtranclp.rtrancl_into_rtrancl rtranclp_trans)
  then have distinct: "distinct (map tk_hash (db_enrollment_tokens (rs_db t)))"
    using reachable_ok by (auto simp: relay_ok_def)
  have kept: "tokens_kept (db_enrollment_tokens (rs_db s')) (db_enrollment_tokens (rs_db t))"
    using relay_history.run_below [OF assms(4)] by (simp add: grows_def)
  have used: "row\<lparr>tk_consumed := True\<rparr> \<in> set (db_enrollment_tokens (rs_db s'))"
    using row by (force simp: s' consume_def)
  have "result \<noteq> Inr New"
  proof
    assume "result = Inr New"
    with register_effect [OF assms(5)] hash
    have "length (filter (redeemable env' ?h user' (sha256 (public_key_bytes key'))) (db_enrollment_tokens (rs_db t))) = 1"
      by auto
    then obtain u where u: "u \<in> set (db_enrollment_tokens (rs_db t))" "tk_hash u = ?h" "\<not> tk_consumed u"
      by (metis (no_types, lifting) filter_empty_conv length_0_conv one_neq_zero redeemable_def)
    moreover have "tk_hash (row\<lparr>tk_consumed := True\<rparr>) = ?h" using row(2) by (simp add: redeemable_def)
    ultimately show False
      using consumed_token_kept [OF kept used _ distinct u(1)] by simp
  qed
  with row s' show ?thesis by (auto simp: redeemable_def)
qed

text \<open>
  Keys are pinned: once a user is registered with a key, in every later state a login
  with that key is recognised and a login with any other key is refused as a conflict, with or
  without a token, and neither changes anything.
\<close>

theorem keys_are_pinned:
  assumes "db_identities (rs_db s) user = Some key" "(relay_step pc sha256)\<^sup>*\<^sup>* s t" "no_faults env"
  shows "register_enrolled_identity sha256 env t user key' token =
    Some (if key' = key then Inr Existing else Inl IdentityKeyConflict, t)"
proof -
  have "db_identities (rs_db s) \<subseteq>\<^sub>m db_identities (rs_db t)"
    using relay_history.run_below [OF assms(2)] by (simp add: grows_def)
  with assms(1) have "db_identities (rs_db t) user = Some key"
    by (metis domI map_le_def)
  with assms(3) show ?thesis
    by (simp add: register_enrolled_identity_def no_faults_def)
qed

text \<open>A token for the first user, and its registration.\<close>

definition fx_key :: Ed25519PublicKeyBytes where
  "fx_key = Ed25519PublicKeyBytes (replicate 32 5)"

definition fx_token_row :: TokenRow where
  "fx_token_row = \<lparr>tk_hash = replicate 32 7, tk_user_id = fx_user, tk_fingerprint = replicate 32 5,
     tk_expires = 186400, tk_consumed = False\<rparr>"

definition fx_issued :: RelayState where
  "fx_issued = fx_state0\<lparr>rs_db := empty_db\<lparr>db_enrollment_tokens := [fx_token_row]\<rparr>\<rparr>"

definition fx_enrolled :: RelayState where
  "fx_enrolled = fx_state0\<lparr>rs_db := empty_db\<lparr>db_enrollment_tokens := [fx_token_row\<lparr>tk_consumed := True\<rparr>],
     db_identities := [fx_user \<mapsto> fx_key]\<rparr>\<rparr>"

lemma fx_sha_length: "length (fx_sha x) = 32"
  by (simp add: fx_sha_def)

lemma fx_hashes:
  "enrollment_hash fx_sha (replicate 32 7) = Some (replicate 32 7)"
  "enrollment_hash fx_sha (public_key_bytes fx_key) = Some (replicate 32 5)"
  by (simp_all add: enrollment_hash_sha256 fx_sha_length fx_key_def) (simp_all add: fx_sha_def)

lemma fx_issue: "issue_enrollment fx_sha fx_env fx_state0 fx_user (replicate 32 5)
    = Some (Inr (hex_string (replicate 32 7)), fx_issued)"
  by (simp add: issue_enrollment_def fx_env_def fx_hashes sql_def fx_state0_def initial_state_def empty_db_def
      fx_issued_def fx_token_row_def)

lemma fx_register:
  "register_enrolled_identity fx_sha fx_env fx_issued fx_user fx_key (Some (replicate 32 7)) = Some (Inr New, fx_enrolled)"
  by (simp add: register_enrolled_identity_def fx_env_def fx_hashes redeemable_def consume_def Let_def
      fx_issued_def fx_enrolled_def fx_state0_def initial_state_def empty_db_def fx_token_row_def)

lemma fx_register_again:
  "register_enrolled_identity fx_sha fx_env fx_enrolled fx_guest fx_key (Some (replicate 32 7))
   = Some (Inl EnrollmentRequired, fx_enrolled)"
  using fx_users_differ
  by (simp add: register_enrolled_identity_def fx_env_def fx_hashes redeemable_def Let_def fx_enrolled_def fx_state0_def
      initial_state_def empty_db_def fx_token_row_def)

theorem enrollment_tokens_are_single_use_witness:
  "(\<exists>row \<in> set (db_enrollment_tokens (rs_db fx_issued)). tk_hash row = fx_sha (replicate 32 7) \<and> tk_user_id row = fx_user
        \<and> tk_fingerprint row = fx_sha (public_key_bytes fx_key) \<and> tk_expires row > unixepoch fx_env \<and> \<not> tk_consumed row)
    \<and> db_identities (rs_db fx_enrolled) fx_user = Some fx_key
    \<and> (Inl EnrollmentRequired :: StorageError + Registration) \<noteq> Inr New"
proof (rule enrollment_tokens_are_single_use)
  show "reachable postcard_v1 fx_sha fx_issued"
    using fx_reachable(1) relay_step.issue [OF fx_issue]
    unfolding reachable_def by (meson rtranclp.rtrancl_into_rtrancl)
  show "(relay_step postcard_v1 fx_sha)\<^sup>*\<^sup>* fx_enrolled fx_enrolled" by (rule rtranclp.rtrancl_refl)
qed (rule fx_sha_length fx_register fx_register_again)+

theorem keys_are_pinned_witness:
  "register_enrolled_identity fx_sha fx_env fx_enrolled fx_user (Ed25519PublicKeyBytes (replicate 32 6)) None =
    Some (if Ed25519PublicKeyBytes (replicate 32 6) = fx_key then Inr Existing else Inl IdentityKeyConflict, fx_enrolled)"
proof (rule keys_are_pinned)
  show "db_identities (rs_db fx_enrolled) fx_user = Some fx_key" by (simp add: fx_enrolled_def)
  show "(relay_step postcard_v1 fx_sha)\<^sup>*\<^sup>* fx_enrolled fx_enrolled" by (rule rtranclp.rtrancl_refl)
qed (rule fx_env_props)

end
