(* ===== verification/Relay_Hub.thy ===== *)
theory Relay_Hub
  imports Complex_Main Relay_Limits Transitions
begin

text \<open>
  The shared bookkeeping of the relay's connections (\<open>grotto-relay/src/lib.rs\<close>): the connection
  hub with its identities, outbound queues and request rates, and the leases of unfinished
  handshakes. Every method is one operation here. For the methods under one lock this is what the code does. \<open>register\<close> takes the lock
  of the identities and then that of the connections, and \<open>notify\<close> sends between two uses of the lock of the connections; for these two
  the interleavings with other methods at those points are not modelled. A hash map that is iterated is a list, in one of
  the orders the iteration may have.
\<close>

section \<open>The hub\<close>

definition OUTBOUND_CHANNEL_CAPACITY :: nat where
  "OUTBOUND_CHANNEL_CAPACITY = 64"

text \<open>An outbound channel. Dropping its receiver discards what is queued.\<close>

record channel =
  ch_queue :: "RelayMessage list"
  ch_receiver :: bool

record ConnectionHub =
  hub_rates :: "UserId \<rightharpoonup> nat \<times> real"
  hub_active_identities :: "UserId list"
  hub_next_connection_id :: u64
  hub_connections :: "UserId \<rightharpoonup> u64 list"
  hub_channels :: "UserId \<times> u64 \<rightharpoonup> channel"

definition default_hub :: ConnectionHub where
  "default_hub = \<lparr>hub_rates = Map.empty, hub_active_identities = [], hub_next_connection_id = 0,
     hub_connections = Map.empty, hub_channels = Map.empty\<rparr>"

section \<open>Request rates\<close>

text \<open>
  The token bucket is kept in \<open>f64\<close>: every operation rounds its exact result, \<open>rnd\<close>. Times are
  nanoseconds.
\<close>

definition as_secs_f64 :: "(real \<Rightarrow> real) \<Rightarrow> nat \<Rightarrow> real" where
  "as_secs_f64 rnd nanos =
     rnd (rnd (real (nanos div 10 ^ 9)) + rnd (real (nanos mod 10 ^ 9) / 10 ^ 9))"

definition retain_recent :: "nat \<Rightarrow> (UserId \<rightharpoonup> nat \<times> real) \<Rightarrow> (UserId \<rightharpoonup> nat \<times> real)" where
  "retain_recent now rates u =
     (case rates u of
        None \<Rightarrow> None
      | Some (seen, tokens) \<Rightarrow> if (now - seen) div 10 ^ 9 < 60 then Some (seen, tokens) else None)"

definition admit_request ::
  "(real \<Rightarrow> real) \<Rightarrow> RuntimeLimits \<Rightarrow> nat \<Rightarrow> UserId \<Rightarrow> ConnectionHub \<Rightarrow> bool \<times> ConnectionHub" where
  "admit_request rnd config now user hub =
     (let rates = retain_recent now (hub_rates hub);
          burst = rnd (real (rt_request_burst config));
          (seen, tokens) = (case rates user of None \<Rightarrow> (now, burst) | Some entry \<Rightarrow> entry);
          tokens = min (rnd (tokens
            + rnd (as_secs_f64 rnd (now - seen) * rnd (real (rt_requests_per_second config))))) burst
      in if tokens < 1 then (False, hub\<lparr>hub_rates := rates(user \<mapsto> (now, tokens))\<rparr>)
         else (True, hub\<lparr>hub_rates := rates(user \<mapsto> (now, rnd (tokens - 1)))\<rparr>))"

section \<open>Registration\<close>

definition register :: "UserId \<Rightarrow> ConnectionHub \<Rightarrow> (io_kind + u64) \<times> ConnectionHub" where
  "register user hub =
     (if user \<in> set (hub_active_identities hub) then (Inl AlreadyExists, hub)
      else let connection = hub_next_connection_id hub;
               ids = (case hub_connections hub user of None \<Rightarrow> [] | Some ids \<Rightarrow> ids)
        in (Inr connection, hub\<lparr>
             hub_active_identities := hub_active_identities hub @ [user],
             hub_next_connection_id := connection + 1,
             hub_connections := (hub_connections hub)(user \<mapsto>
               if connection \<in> set ids then ids else ids @ [connection]),
             hub_channels := (hub_channels hub)((user, connection) \<mapsto>
               \<lparr>ch_queue = [], ch_receiver = True\<rparr>)\<rparr>))"

text \<open>Removing one connection of a user, and the user with the last one.\<close>

definition remove_connection ::
  "UserId \<times> u64 \<Rightarrow> (UserId \<rightharpoonup> u64 list) \<Rightarrow> (UserId \<rightharpoonup> u64 list)" where
  "remove_connection target connections =
     (case target of (user, connection) \<Rightarrow>
        (case connections user of
           None \<Rightarrow> connections
         | Some ids \<Rightarrow>
             let ids = removeAll connection ids in
             if ids = [] then connections(user := None) else connections(user \<mapsto> ids)))"

definition unregister :: "UserId \<Rightarrow> u64 \<Rightarrow> ConnectionHub \<Rightarrow> ConnectionHub" where
  "unregister user connection hub =
     hub\<lparr>hub_connections := remove_connection (user, connection) (hub_connections hub)\<rparr>"

text \<open>\<open>Drop for ConnectionRegistration\<close>.\<close>

definition drop_registration :: "UserId \<Rightarrow> u64 \<Rightarrow> ConnectionHub \<Rightarrow> ConnectionHub" where
  "drop_registration user connection hub =
     (let hub = unregister user connection hub in
      hub\<lparr>hub_active_identities := removeAll user (hub_active_identities hub)\<rparr>)"

text \<open>The session's end of the outbound channel goes away.\<close>

definition drop_receiver :: "UserId \<Rightarrow> u64 \<Rightarrow> ConnectionHub \<Rightarrow> ConnectionHub" where
  "drop_receiver user connection hub =
     hub\<lparr>hub_channels := (hub_channels hub)((user, connection) \<mapsto> \<lparr>ch_queue = [], ch_receiver = False\<rparr>)\<rparr>"

section \<open>Notification\<close>

definition notify_targets :: "ConnectionHub \<Rightarrow> UserId list \<Rightarrow> (UserId \<times> u64) list" where
  "notify_targets hub recipients =
     concat (map (\<lambda>recipient.
       case hub_connections hub recipient of
         None \<Rightarrow> [] | Some ids \<Rightarrow> map (Pair recipient) ids) recipients)"

text \<open>\<open>Sender::capacity\<close>, \<open>is_closed\<close> and \<open>try_send\<close>.\<close>

definition capacity :: "channel \<Rightarrow> nat" where
  "capacity ch = OUTBOUND_CHANNEL_CAPACITY - length (ch_queue ch)"

definition try_send :: "RelayMessage \<Rightarrow> channel \<Rightarrow> channel option" where
  "try_send message ch =
     (if \<not> ch_receiver ch \<or> capacity ch = 0 then None else Some (ch\<lparr>ch_queue := ch_queue ch @ [message]\<rparr>))"

fun notify_loop ::
  "RelayMessage \<Rightarrow> (UserId \<times> u64) list \<Rightarrow> (UserId \<times> u64 \<rightharpoonup> channel) \<Rightarrow> (UserId \<times> u64) list
   \<Rightarrow> (UserId \<times> u64 \<rightharpoonup> channel) \<times> (UserId \<times> u64) list" where
  "notify_loop message [] channels failed = (channels, failed)"
| "notify_loop message (target # targets) channels failed =
     (case channels target of
        None \<Rightarrow> notify_loop message targets channels failed
      | Some ch \<Rightarrow>
          if message = DeliveryChanged \<and> capacity ch < OUTBOUND_CHANNEL_CAPACITY
          then notify_loop message targets channels failed
          else if \<not> ch_receiver ch \<or> capacity ch = 0
          then notify_loop message targets channels (failed @ [target])
          else case try_send message ch of
                 None \<Rightarrow> notify_loop message targets channels (failed @ [target])
               | Some ch' \<Rightarrow> notify_loop message targets (channels(target \<mapsto> ch')) failed)"

definition notify :: "UserId list \<Rightarrow> RelayMessage \<Rightarrow> ConnectionHub \<Rightarrow> ConnectionHub" where
  "notify recipients message hub =
     (let (channels, failed) =
            notify_loop message (notify_targets hub recipients) (hub_channels hub) []
      in hub\<lparr>hub_channels := channels,
             hub_connections := fold remove_connection failed (hub_connections hub)\<rparr>)"

text \<open>
  Receiving: the next queued message; the end of the stream once nothing is queued and the hub
  holds no sender any more; nothing yet otherwise.
\<close>

datatype received = Message RelayMessage | Closed | Pending

definition is_connected :: "ConnectionHub \<Rightarrow> UserId \<Rightarrow> u64 \<Rightarrow> bool" where
  "is_connected hub user connection \<longleftrightarrow>
     (case hub_connections hub user of None \<Rightarrow> False | Some ids \<Rightarrow> connection \<in> set ids)"

definition recv :: "UserId \<Rightarrow> u64 \<Rightarrow> ConnectionHub \<Rightarrow> received \<times> ConnectionHub" where
  "recv user connection hub =
     (case hub_channels hub (user, connection) of
        Some ch \<Rightarrow>
          (case ch_queue ch of
             m # queue \<Rightarrow> (Message m, hub\<lparr>hub_channels :=
               (hub_channels hub)((user, connection) \<mapsto> ch\<lparr>ch_queue := queue\<rparr>)\<rparr>)
           | [] \<Rightarrow> (if is_connected hub user connection then Pending else Closed, hub))
      | None \<Rightarrow> (Closed, hub))"

section \<open>Handshake leases\<close>

type_synonym 'ip pending = "('ip \<times> nat) list"

text \<open>\<open>HandshakeLease::acquire\<close>; a poisoned lock refuses the lease.\<close>

fun count_up :: "'ip \<Rightarrow> 'ip pending \<Rightarrow> 'ip pending" where
  "count_up ip [] = [(ip, 1)]"
| "count_up ip ((k, n) # counts) = (if k = ip then (k, n + 1) # counts else (k, n) # count_up ip counts)"

definition lease_acquire :: "RuntimeLimits \<Rightarrow> bool \<Rightarrow> 'ip \<Rightarrow> 'ip pending \<Rightarrow> 'ip pending option" where
  "lease_acquire config poisoned ip counts =
     (if poisoned then None
      else if sum_list (map snd counts) \<ge> rt_handshakes config
         \<or> (case map_of counts ip of None \<Rightarrow> 0 | Some n \<Rightarrow> n) \<ge> rt_handshakes_per_ip config
      then None
      else Some (count_up ip counts))"

text \<open>\<open>Drop for HandshakeLease\<close>: a count that reaches zero is removed.\<close>

fun lease_drop :: "'ip \<Rightarrow> 'ip pending \<Rightarrow> 'ip pending" where
  "lease_drop ip [] = []"
| "lease_drop ip ((k, n) # counts) =
     (if k = ip then (if n - 1 = 0 then counts else (k, n - 1) # counts)
      else (k, n) # lease_drop ip counts)"

section \<open>Live sessions\<close>

text \<open>
  The hub as a system: its state with the registrations the sessions hold. Sessions come by
  \<open>register\<close> and go by dropping receiver and registration; in between they receive, ask for
  admission, and any of them notifies. The relay sends one message through the hub,
  \<open>DeliveryChanged\<close>.
\<close>

definition woken :: channel where
  "woken = \<lparr>ch_queue = [DeliveryChanged], ch_receiver = True\<rparr>"

definition quiet :: channel where
  "quiet = \<lparr>ch_queue = [], ch_receiver = True\<rparr>"

lemmas wake_defs = woken_def quiet_def

inductive hub_step ::
  "ConnectionHub \<times> (UserId \<times> u64) list \<Rightarrow> ConnectionHub \<times> (UserId \<times> u64) list \<Rightarrow> bool" where
  opens: "register user hub = (Inr connection, hub') \<Longrightarrow>
    hub_step (hub, live) (hub', live @ [(user, connection)])"
| refuses: "register user hub = (Inl e, hub') \<Longrightarrow> hub_step (hub, live) (hub', live)"
| notifies: "hub_step (hub, live) (notify recipients DeliveryChanged hub, live)"
| receives: "(user, connection) \<in> set live \<Longrightarrow> recv user connection hub = (r, hub') \<Longrightarrow>
    hub_step (hub, live) (hub', live)"
| admits: "admit_request rnd config now user hub = (admitted, hub') \<Longrightarrow> hub_step (hub, live) (hub', live)"
| closes: "(user, connection) \<in> set live \<Longrightarrow>
    hub_step (hub, live) (drop_registration user connection (drop_receiver user connection hub),
      removeAll (user, connection) live)"

inductive_cases hub_stepE [elim]: "hub_step s s'"

definition hub_ok :: "ConnectionHub \<times> (UserId \<times> u64) list \<Rightarrow> bool" where
  "hub_ok s \<longleftrightarrow> (case s of (hub, live) \<Rightarrow>
     distinct (map fst live) \<and> set (hub_active_identities hub) = fst ` set live
     \<and> (\<forall>user connection. (user, connection) \<in> set live \<longrightarrow>
          hub_connections hub user = Some [connection]
          \<and> (\<exists>ch \<in> {quiet, woken}. hub_channels hub (user, connection) = Some ch))
     \<and> dom (hub_connections hub) = fst ` set live)"

lemma hub_ok_live:
  assumes "hub_ok (hub, live)" "(user, connection) \<in> set live"
  shows "hub_connections hub user = Some [connection]"
    "hub_channels hub (user, connection) \<in> {Some quiet, Some woken}"
  using assms by (fastforce simp: hub_ok_def)+

lemma live_unique:
  "distinct (map fst live) \<Longrightarrow> (u, c) \<in> set live \<Longrightarrow> (u, d) \<in> set live \<Longrightarrow> c = d"
  by (metis eq_key_imp_eq_value)

lemma initial_hub_ok: "hub_ok (default_hub, [])"
  by (simp add: hub_ok_def default_hub_def)

lemma register_ok:
  assumes "hub_ok (hub, live)" "register user hub = (Inr connection, hub')"
  shows "hub_ok (hub', live @ [(user, connection)])"
proof -
  from assms(2) have new: "user \<notin> set (hub_active_identities hub)" and
    hub': "hub' = hub\<lparr>hub_active_identities := hub_active_identities hub @ [user],
      hub_next_connection_id := hub_next_connection_id hub + 1,
      hub_connections := (hub_connections hub)(user \<mapsto>
        (let ids = (case hub_connections hub user of None \<Rightarrow> [] | Some ids \<Rightarrow> ids) in
         if connection \<in> set ids then ids else ids @ [connection])),
      hub_channels := (hub_channels hub)((user, connection) \<mapsto> quiet)\<rparr>"
    by (auto simp: register_def quiet_def Let_def split: if_splits)
  with assms(1) have "user \<notin> fst ` set live" by (simp add: hub_ok_def)
  moreover from this assms(1) have "hub_connections hub user = None" by (auto simp: hub_ok_def)
  ultimately show ?thesis using assms(1) hub' by (fastforce simp: hub_ok_def)
qed

lemma notify_loop_wakes:
  "\<forall>t \<in> set targets. channels t \<in> {Some quiet, Some woken} \<Longrightarrow>
   notify_loop DeliveryChanged targets channels failed =
     (\<lambda>t. if t \<in> set targets then Some woken else channels t, failed)"
proof (induction targets arbitrary: channels)
  case (Cons t targets)
  have q: "capacity quiet = OUTBOUND_CHANNEL_CAPACITY" "ch_receiver quiet" "capacity quiet \<noteq> 0"
      "capacity woken < OUTBOUND_CHANNEL_CAPACITY" "try_send DeliveryChanged quiet = Some woken"
    by (simp_all add: capacity_def wake_defs OUTBOUND_CHANNEL_CAPACITY_def try_send_def)
  from Cons.prems consider "channels t = Some quiet" | "channels t = Some woken" by auto
  then show ?case
  proof cases
    case 1
    have "\<forall>u \<in> set targets. (channels(t \<mapsto> woken)) u \<in> {Some quiet, Some woken}" using Cons.prems by simp
    from Cons.IH [OF this] 1 q show ?thesis by (simp del: fun_upd_apply) (auto simp: fun_eq_iff)
  next
    case 2
    from Cons.prems have "\<forall>u \<in> set targets. channels u \<in> {Some quiet, Some woken}" by simp
    from Cons.IH [OF this] 2 q show ?thesis by (auto simp: fun_eq_iff)
  qed
qed (simp add: fun_eq_iff)

lemma notify_targets_live:
  assumes "hub_ok (hub, live)"
  shows "set (notify_targets hub recipients) = {t \<in> set live. fst t \<in> set recipients}"
proof (rule set_eqI)
  fix t
  have "(\<exists>ids. hub_connections hub u = Some ids \<and> c \<in> set ids) \<longleftrightarrow> (u, c) \<in> set live" for u c
  proof
    assume "\<exists>ids. hub_connections hub u = Some ids \<and> c \<in> set ids"
    then obtain ids where ids: "hub_connections hub u = Some ids" "c \<in> set ids" by blast
    then have "u \<in> fst ` set live" using assms by (auto simp: hub_ok_def)
    then obtain d where d: "(u, d) \<in> set live" by auto
    from hub_ok_live(1) [OF assms d] ids have "c = d" by simp
    with d show "(u, c) \<in> set live" by simp
  qed (use hub_ok_live(1) [OF assms] in fastforce)
  then show "t \<in> set (notify_targets hub recipients) \<longleftrightarrow> t \<in> {t \<in> set live. fst t \<in> set recipients}"
    unfolding notify_targets_def by (cases t) (force split: option.split)
qed

lemma notify_wakes:
  assumes "hub_ok (hub, live)"
  shows "notify recipients DeliveryChanged hub = hub\<lparr>hub_channels :=
    (\<lambda>t. if t \<in> set live \<and> fst t \<in> set recipients then Some woken else hub_channels hub t)\<rparr>"
proof -
  let ?targets = "notify_targets hub recipients"
  have "\<forall>t \<in> set ?targets. hub_channels hub t \<in> {Some quiet, Some woken}"
    using notify_targets_live [OF assms] hub_ok_live(2) [OF assms] by auto
  from notify_loop_wakes [OF this, of "[]"] notify_targets_live [OF assms] show ?thesis
    by (simp add: notify_def fun_eq_iff)
qed

lemma recv_live:
  assumes "hub_ok (hub, live)" "(user, connection) \<in> set live"
  shows "recv user connection hub =
    (if hub_channels hub (user, connection) = Some woken
     then (Message DeliveryChanged, hub\<lparr>hub_channels := (hub_channels hub)((user, connection) \<mapsto> quiet)\<rparr>)
     else (Pending, hub))"
  using hub_ok_live [OF assms] by (auto simp: recv_def wake_defs is_connected_def)

lemma admit_request_frame:
  assumes "admit_request rnd config now user hub = (admitted, hub')"
  shows "hub_active_identities hub' = hub_active_identities hub \<and> hub_connections hub' = hub_connections hub
    \<and> hub_channels hub' = hub_channels hub"
  using assms by (auto simp: admit_request_def Let_def split: prod.splits if_splits)

lemma close_ok:
  assumes "hub_ok (hub, live)" "(user, connection) \<in> set live"
  shows "hub_ok (drop_registration user connection (drop_receiver user connection hub),
    removeAll (user, connection) live)"
proof -
  from assms(1) have d: "distinct (map fst live)" by (simp add: hub_ok_def)
  obtain rest where r: "rest = removeAll (user, connection) live" by blast
  have "set rest = {t \<in> set live. fst t \<noteq> user}"
    unfolding r
  proof (rule set_eqI)
    fix t
    have "fst t = user \<longleftrightarrow> t = (user, connection)" if "t \<in> set live"
      using live_unique [OF d assms(2), of "snd t"] that by (cases t) auto
    then show "t \<in> set (removeAll (user, connection) live) \<longleftrightarrow> t \<in> {t \<in> set live. fst t \<noteq> user}"
      by (cases "t \<in> set live") simp_all
  qed
  moreover have "distinct (map fst rest)"
    using d by (simp add: r removeAll_filter_not_eq distinct_map_filter)
  moreover have "drop_registration user connection (drop_receiver user connection hub) =
      hub\<lparr>hub_active_identities := removeAll user (hub_active_identities hub),
        hub_connections := (hub_connections hub)(user := None),
        hub_channels := (hub_channels hub)((user, connection) \<mapsto> \<lparr>ch_queue = [], ch_receiver = False\<rparr>)\<rparr>"
    using hub_ok_live(1) [OF assms]
    by (simp add: drop_registration_def unregister_def drop_receiver_def remove_connection_def Let_def)
  moreover have "fst ` {t \<in> set live. fst t \<noteq> user} = fst ` set live - {user}" by auto
  ultimately have "hub_ok (drop_registration user connection (drop_receiver user connection hub), rest)"
    using assms(1) unfolding hub_ok_def by auto
  then show ?thesis by (simp only: r)
qed

lemma hub_ok_step: "hub_step s s' \<Longrightarrow> hub_ok s \<Longrightarrow> hub_ok s'"
proof (induction rule: hub_step.induct)
  case (opens user hub connection hub' live)
  then show ?case using register_ok by blast
next
  case (refuses user hub e hub' live)
  then show ?case by (auto simp: register_def Let_def split: if_splits)
next
  case (notifies hub live recipients)
  then show ?case by (simp add: notify_wakes) (auto simp: hub_ok_def)
next
  case (receives user connection live hub r hub')
  from recv_live [OF receives(3,1)] receives(2,3) show ?case by (auto simp: hub_ok_def split: if_splits)
next
  case (admits rnd config now user hub admitted hub' live)
  then show ?case using admit_request_frame [OF admits(1)] by (simp add: hub_ok_def)
next
  case (closes user connection live hub)
  then show ?case by (blast intro: close_ok)
qed

interpretation hub_safety: step_invariant hub_step hub_ok
  by unfold_locales (rule hub_ok_step)

end
