(* ===== verification/Relay_Session.thy ===== *)
theory Relay_Session
  imports Relay_Hub Relay_System
begin

text \<open>
  One connection of the relay (\<open>grotto-relay/src/lib.rs\<close>): the login of \<open>authenticate\<close>, cut at the
  points where it waits for the client or for the database, and the loop of \<open>handle_connection\<close>.
  What comes from outside is an argument of each step: the frame read, the failure of the write,
  the random challenge, the signature check, whether the database queue takes the command. Each
  step says what is written to the socket, as the list of frame payloads.
\<close>

section \<open>Errors and messages\<close>

datatype SessionError =
    SessionIo io_error
  | DecodeFailed
  | EncodeFailed
  | ProtocolFailure ProtocolError
  | StorageFailure StorageError
  | RandomFailure
  | InboundEnded
  | OutboundClosed

text \<open>\<open>read_handshake_frame\<close>: the deadline passes, or \<open>read_frame\<close> answers.\<close>

definition read_handshake_frame :: "bool \<Rightarrow> reader \<Rightarrow> (io_error + bytes option) \<times> reader" where
  "read_handshake_frame timed_out r = (if timed_out then (Inl (Io TimedOut), r) else read_frame r)"

text \<open>Encode a message and write it as one frame; \<open>fault\<close> is the write's own failure.\<close>

definition send :: "postcard \<Rightarrow> io_error option \<Rightarrow> RelayMessage \<Rightarrow> (SessionError + unit) \<times> bytes list" where
  "send pc fault message =
     (case encode_message (ser_relay_message pc) message of
        Inl _ \<Rightarrow> (Inl EncodeFailed, [])
      | Inr encoded \<Rightarrow>
          (case fault of Some e \<Rightarrow> (Inl (SessionIo e), []) | None \<Rightarrow> (Inr (), [encoded])))"

definition send_request_error ::
  "postcard \<Rightarrow> io_error option \<Rightarrow> MessageId option \<Rightarrow> ProtocolError \<Rightarrow> (SessionError + unit) \<times> bytes list" where
  "send_request_error pc fault request_id error = send pc fault (ProtocolErrorMessage request_id error)"

definition send_protocol_error ::
  "postcard \<Rightarrow> io_error option \<Rightarrow> ProtocolError \<Rightarrow> (SessionError + unit) \<times> bytes list" where
  "send_protocol_error pc fault error = send_request_error pc fault None error"

text \<open>\<open>send_protocol_error(..).await?; return Err(error.into())\<close>.\<close>

definition refuse :: "postcard \<Rightarrow> io_error option \<Rightarrow> ProtocolError \<Rightarrow> SessionError \<Rightarrow> (SessionError + 'a) \<times> bytes list" where
  "refuse pc fault error result =
     (case send_protocol_error pc fault error of (Inl e, out) \<Rightarrow> (Inl e, out) | (Inr _, out) \<Rightarrow> (Inl result, out))"

text \<open>\<open>encode_message(..)?; write_frame(..).await?\<close>, then go on with \<open>next\<close>.\<close>

definition reply :: "postcard \<Rightarrow> io_error option \<Rightarrow> RelayMessage \<Rightarrow> 'a \<Rightarrow> (SessionError + 'a) \<times> bytes list" where
  "reply pc fault message next =
     (case send pc fault message of (Inl e, out) \<Rightarrow> (Inl e, out) | (Inr _, out) \<Rightarrow> (Inr next, out))"

definition handshake_message ::
  "postcard \<Rightarrow> io_error + bytes option \<Rightarrow> SessionError + ClientMessage option" where
  "handshake_message pc frame =
     (case frame of
        Inl e \<Rightarrow> Inl (SessionIo e)
      | Inr None \<Rightarrow> Inr None
      | Inr (Some bytes) \<Rightarrow>
          (case decode_message (take_client_message pc) bytes of
             Inl _ \<Rightarrow> Inl DecodeFailed | Inr message \<Rightarrow> Inr (Some message)))"

section \<open>Login\<close>

text \<open>
  Where a connection stands. After the signature check the phases carry the key, the challenge
  and the signature that passed.
\<close>

record credentials =
  cr_user :: UserId
  cr_key :: Ed25519PublicKeyBytes
  cr_enrollment :: "bytes option"
  cr_challenge :: AuthenticationChallenge
  cr_signature :: "Ed25519SignatureBytes option"

datatype phase =
    AwaitHello
  | AwaitIdentify
  | AwaitResponse credentials
  | Verified credentials
  | Registered credentials
  | Established credentials u64
  | Ended "SessionError option"

definition auth_hello ::
  "postcard \<Rightarrow> io_error option \<Rightarrow> io_error + bytes option \<Rightarrow> (SessionError + phase) \<times> bytes list" where
  "auth_hello pc fault frame =
     (case handshake_message pc frame of
        Inl e \<Rightarrow> (Inl e, [])
      | Inr None \<Rightarrow> (Inr (Ended None), [])
      | Inr (Some message) \<Rightarrow>
          (case message of
             ClientHello version \<Rightarrow>
               if version \<noteq> PROTOCOL_VERSION
               then let error = UnsupportedVersion PROTOCOL_VERSION version
                    in refuse pc fault error (ProtocolFailure error)
               else reply pc fault (ServerHello PROTOCOL_VERSION) AwaitIdentify
           | other \<Rightarrow>
               let error = UnexpectedMessage Kind_ClientHello (kind other)
               in refuse pc fault error (ProtocolFailure error)))"

definition auth_identify ::
  "postcard \<Rightarrow> (bytes \<Rightarrow> bool) \<Rightarrow> AuthenticationChallenge option \<Rightarrow> io_error option
   \<Rightarrow> io_error + bytes option \<Rightarrow> (SessionError + phase) \<times> bytes list" where
  "auth_identify pc valid_key generate fault frame =
     (case handshake_message pc frame of
        Inl e \<Rightarrow> (Inl e, [])
      | Inr None \<Rightarrow> (Inr (Ended None), [])
      | Inr (Some message) \<Rightarrow>
          (case message of
             ClientIdentify user_id public_key enrollment \<Rightarrow>
               if \<not> valid_key (public_key_bytes public_key)
               then refuse pc fault InvalidPublicKey (ProtocolFailure InvalidPublicKey)
               else (case generate of
                       None \<Rightarrow> (Inl RandomFailure, [])
                     | Some challenge \<Rightarrow>
                         reply pc fault (ServerAuthenticationChallenge challenge)
                           (AwaitResponse \<lparr>cr_user = user_id, cr_key = public_key, cr_enrollment = enrollment,
                              cr_challenge = challenge, cr_signature = None\<rparr>))
           | other \<Rightarrow>
               let error = UnexpectedMessage Kind_ClientIdentify (kind other)
               in refuse pc fault error (ProtocolFailure error)))"

text \<open>\<open>verify_authentication_signature\<close>; \<open>verify_strict\<close> is the signature library's check.\<close>

definition verify_authentication_signature ::
  "(bytes \<Rightarrow> bytes \<Rightarrow> bytes \<Rightarrow> bool) \<Rightarrow> UserId \<Rightarrow> Ed25519PublicKeyBytes \<Rightarrow> AuthenticationChallenge
   \<Rightarrow> Ed25519SignatureBytes \<Rightarrow> bool" where
  "verify_authentication_signature verify_strict user_id public_key challenge signature =
     verify_strict (public_key_bytes public_key)
       (authentication_transcript PROTOCOL_VERSION user_id public_key challenge) (signature_bytes signature)"

definition auth_response ::
  "postcard \<Rightarrow> (bytes \<Rightarrow> bytes \<Rightarrow> bytes \<Rightarrow> bool) \<Rightarrow> credentials \<Rightarrow> io_error option
   \<Rightarrow> io_error + bytes option \<Rightarrow> (SessionError + phase) \<times> bytes list" where
  "auth_response pc verify_strict c fault frame =
     (case handshake_message pc frame of
        Inl e \<Rightarrow> (Inl e, [])
      | Inr None \<Rightarrow> (Inr (Ended None), [])
      | Inr (Some message) \<Rightarrow>
          (case message of
             ClientAuthenticationResponse signature \<Rightarrow>
               if verify_authentication_signature verify_strict (cr_user c) (cr_key c) (cr_challenge c) signature
               then (Inr (Verified (c\<lparr>cr_signature := Some signature\<rparr>)), [])
               else refuse pc fault AuthenticationFailed (ProtocolFailure AuthenticationFailed)
           | other \<Rightarrow>
               let error = UnexpectedMessage Kind_ClientAuthenticationResponse (kind other)
               in refuse pc fault error (ProtocolFailure error)))"

text \<open>
  The command goes to the database thread: \<open>refused\<close> when the queue does not take it, otherwise it
  runs on the repository. A panic ends the thread; the repository keeps its state.
\<close>

definition auth_register ::
  "postcard \<Rightarrow> (bytes \<Rightarrow> bytes) \<Rightarrow> io_kind option \<Rightarrow> relay_env \<Rightarrow> credentials \<Rightarrow> io_error option
   \<Rightarrow> RelayState \<Rightarrow> ((SessionError + phase) \<times> bytes list) \<times> RelayState" where
  "auth_register pc sha256 refused env c fault s =
     (case refused of
        Some k \<Rightarrow> ((Inl (SessionIo (Io k)), []), s)
      | None \<Rightarrow>
          (case register_enrolled_identity sha256 env s (cr_user c) (cr_key c) (cr_enrollment c) of
             None \<Rightarrow> ((Inl (SessionIo (Io BrokenPipe)), []), s)
           | Some (Inr _, s') \<Rightarrow> ((Inr (Registered c), []), s')
           | Some (Inl error, s') \<Rightarrow>
               ((case error of
                   StorageError.IdentityKeyConflict \<Rightarrow>
                     refuse pc fault ProtocolError.IdentityKeyConflict (StorageFailure error)
                 | EnrollmentRequired \<Rightarrow> refuse pc fault AuthenticationFailed (StorageFailure error)
                 | _ \<Rightarrow> (Inl (StorageFailure error), [])), s')))"

text \<open>
  The registration with the hub. A failed write drops the receiver and the registration again.
\<close>

definition close_session :: "UserId \<Rightarrow> u64 \<Rightarrow> ConnectionHub \<Rightarrow> ConnectionHub" where
  "close_session user connection hub = drop_registration user connection (drop_receiver user connection hub)"

definition auth_activate ::
  "postcard \<Rightarrow> credentials \<Rightarrow> io_error option \<Rightarrow> ConnectionHub
   \<Rightarrow> ((SessionError + phase) \<times> bytes list) \<times> ConnectionHub" where
  "auth_activate pc c fault hub =
     (case register (cr_user c) hub of
        (Inl k, hub') \<Rightarrow> (refuse pc fault AuthenticationFailed (SessionIo (Io k)), hub')
      | (Inr connection, hub') \<Rightarrow>
          (case reply pc fault (ServerIdentifyAccepted (cr_user c)) (Established c connection) of
             (Inl e, out) \<Rightarrow> ((Inl e, out), close_session (cr_user c) connection hub')
           | (Inr p, out) \<Rightarrow> ((Inr p, out), hub')))"

section \<open>Inbound frames\<close>

datatype InboundEvent =
    InboundMessage ClientMessage
  | Disconnected
  | InboundError SessionError

text \<open>
  One round of \<open>read_inbound_with_budget\<close>: a first byte, then the frame it starts, within the
  deadline. A timeout is counted.
\<close>

definition read_inbound :: "postcard \<Rightarrow> bool \<Rightarrow> reader \<Rightarrow> InboundEvent \<times> reader \<times> nat" where
  "read_inbound pc timed_out r =
     (case read_some 1 r of
        (Inl e, r') \<Rightarrow> (InboundError (SessionIo (Io e)), r', 0)
      | (Inr [], r') \<Rightarrow> (Disconnected, r', 0)
      | (Inr first, r') \<Rightarrow>
          if timed_out then (InboundError (SessionIo (Io TimedOut)), r', 1)
          else (case read_frame (Chunk first # r') of
                  (Inl e, r'') \<Rightarrow> (InboundError (SessionIo e), r'', 0)
                | (Inr None, r'') \<Rightarrow> (InboundError (SessionIo (Io UnexpectedEof)), r'', 0)
                | (Inr (Some frame), r'') \<Rightarrow>
                    (case decode_message (take_client_message pc) frame of
                       Inl _ \<Rightarrow> (InboundError DecodeFailed, r'', 0)
                     | Inr message \<Rightarrow> (InboundMessage message, r'', 0))))"

section \<open>The session loop\<close>

text \<open>The state the sessions share, with the process-wide counters they increment.\<close>

record Server =
  sv_relay :: RelayState
  sv_hub :: ConnectionHub
  sv_queue_pressure :: u64
  sv_timeouts :: u64
  sv_recovery_failures :: u64

datatype flow = Continue | Break | Return SessionError

definition is_recovery :: "Request \<Rightarrow> bool" where
  "is_recovery request =
     (case request of FetchRoomEvents _ _ \<Rightarrow> True | FetchWelcomes _ \<Rightarrow> True | SyncIndex _ \<Rightarrow> True | _ \<Rightarrow> False)"

definition is_accepted :: "Response \<Rightarrow> bool" where
  "is_accepted response = (case response of AppendAccepted _ \<Rightarrow> True | _ \<Rightarrow> False)"

text \<open>The surroundings of one round: clock and rounding, the database queue, the repository's environment, the write.\<close>

record round_env =
  re_rnd :: "real \<Rightarrow> real"
  re_now :: nat
  re_refused :: "io_kind option"
  re_env :: relay_env
  re_fault :: "io_error option"

definition write_reply :: "postcard \<Rightarrow> io_error option \<Rightarrow> RelayMessage \<Rightarrow> flow \<times> bytes list" where
  "write_reply pc fault message =
     (case send pc fault message of (Inl e, out) \<Rightarrow> (Return e, out) | (Inr _, out) \<Rightarrow> (Continue, out))"

text \<open>\<open>DatabaseWorker::execute\<close> counts the commands that a full queue refuses.\<close>

definition count_pressure :: "io_kind option \<Rightarrow> Server \<Rightarrow> Server" where
  "count_pressure refused sv =
     sv\<lparr>sv_queue_pressure := sv_queue_pressure sv + (if refused = Some WouldBlock then 1 else 0)\<rparr>"

lemma count_pressure_simps [simp]:
  "sv_relay (count_pressure refused sv) = sv_relay sv" "sv_hub (count_pressure refused sv) = sv_hub sv"
  "count_pressure None sv = sv"
  by (simp_all add: count_pressure_def)

text \<open>What the database answers, seen by the session: a storage failure is \<open>Internal\<close>, a refused command \<open>Overloaded\<close>.\<close>

definition run_delivery ::
  "postcard \<Rightarrow> (bytes \<Rightarrow> bytes) \<Rightarrow> round_env \<Rightarrow> UserId \<Rightarrow> MessageId \<Rightarrow> Request \<Rightarrow> Server \<Rightarrow> Response \<times> Server" where
  "run_delivery pc sha256 re user request_id request sv =
     (case re_refused re of
        Some k \<Rightarrow> (Rejected Overloaded, count_pressure (Some k) sv)
      | None \<Rightarrow>
          (case deliver pc sha256 (re_env re) (sv_relay sv) user request_id request of
             (Inr response, s') \<Rightarrow> (response, sv\<lparr>sv_relay := s'\<rparr>)
           | (Inl error, s') \<Rightarrow> (Rejected Internal, sv\<lparr>sv_relay := s', sv_recovery_failures :=
                sv_recovery_failures sv + (if is_recovery request then 1 else 0)\<rparr>)))"

definition handle_delivery ::
  "postcard \<Rightarrow> (bytes \<Rightarrow> bytes) \<Rightarrow> RuntimeLimits \<Rightarrow> round_env \<Rightarrow> UserId \<Rightarrow> MessageId \<Rightarrow> Request \<Rightarrow> Server
   \<Rightarrow> (flow \<times> bytes list) \<times> Server" where
  "handle_delivery pc sha256 config re user request_id request sv =
     (let (admitted, hub) = admit_request (re_rnd re) config (re_now re) user (sv_hub sv);
          sv = sv\<lparr>sv_hub := hub\<rparr> in
      if \<not> admitted
      then (write_reply pc (re_fault re) (RelayDelivery request_id (Rejected Overloaded)),
            sv\<lparr>sv_queue_pressure := sv_queue_pressure sv + 1\<rparr>)
      else
        let (response, sv) = run_delivery pc sha256 re user request_id request sv;
            sv = (if is_accepted response
                  then sv\<lparr>sv_hub := notify (hub_active_identities (sv_hub sv)) DeliveryChanged (sv_hub sv)\<rparr>
                  else sv)
        in (write_reply pc (re_fault re) (RelayDelivery request_id response), sv))"

text \<open>The arm of the loop that takes an event of the reader task; \<open>None\<close> when that task has ended.\<close>

definition handle_inbound ::
  "postcard \<Rightarrow> (bytes \<Rightarrow> bytes) \<Rightarrow> RuntimeLimits \<Rightarrow> round_env \<Rightarrow> UserId \<Rightarrow> InboundEvent option \<Rightarrow> Server
   \<Rightarrow> (flow \<times> bytes list) \<times> Server" where
  "handle_inbound pc sha256 config re user event sv =
     (case event of
        None \<Rightarrow> ((Return InboundEnded, []), sv)
      | Some Disconnected \<Rightarrow> ((Break, []), sv)
      | Some (InboundError e) \<Rightarrow> ((Return e, []), sv)
      | Some (InboundMessage message) \<Rightarrow>
          (case message of
             ClientDelivery request_id request \<Rightarrow>
               handle_delivery pc sha256 config re user request_id request sv
           | other \<Rightarrow>
               (case send_protocol_error pc (re_fault re) (UnexpectedMessage Kind_Delivery (kind other)) of
                  (Inl e, out) \<Rightarrow> ((Return e, out), sv) | (Inr _, out) \<Rightarrow> ((Continue, out), sv))))"

text \<open>The arm that forwards a notification; \<open>None\<close> while there is none.\<close>

definition handle_outbound ::
  "postcard \<Rightarrow> io_error option \<Rightarrow> UserId \<Rightarrow> u64 \<Rightarrow> Server \<Rightarrow> ((flow \<times> bytes list) \<times> Server) option" where
  "handle_outbound pc fault user connection sv =
     (case recv user connection (sv_hub sv) of
        (Pending, _) \<Rightarrow> None
      | (Closed, hub) \<Rightarrow> Some ((Return OutboundClosed, []), sv\<lparr>sv_hub := hub\<rparr>)
      | (Message message, hub) \<Rightarrow> Some (write_reply pc fault message, sv\<lparr>sv_hub := hub\<rparr>))"

section \<open>The whole login\<close>

record login_env =
  le_valid_key :: "bytes \<Rightarrow> bool"
  le_verify_strict :: "bytes \<Rightarrow> bytes \<Rightarrow> bytes \<Rightarrow> bool"
  le_timed_out :: bool
  le_generate :: "AuthenticationChallenge option"
  le_refused :: "io_kind option"
  le_env :: relay_env
  le_fault :: "io_error option"

fun auth_step ::
  "postcard \<Rightarrow> (bytes \<Rightarrow> bytes) \<Rightarrow> login_env \<Rightarrow> io_error + bytes option \<Rightarrow> phase \<Rightarrow> Server
   \<Rightarrow> ((SessionError + phase) \<times> bytes list) \<times> Server" where
  "auth_step pc sha256 le frame AwaitHello sv = (auth_hello pc (le_fault le) frame, sv)"
| "auth_step pc sha256 le frame AwaitIdentify sv =
     (auth_identify pc (le_valid_key le) (le_generate le) (le_fault le) frame, sv)"
| "auth_step pc sha256 le frame (AwaitResponse c) sv =
     (auth_response pc (le_verify_strict le) c (le_fault le) frame, sv)"
| "auth_step pc sha256 le frame (Verified c) sv =
     (let (r, s) = auth_register pc sha256 (le_refused le) (le_env le) c (le_fault le) (sv_relay sv)
      in (r, count_pressure (le_refused le) (sv\<lparr>sv_relay := s\<rparr>)))"
| "auth_step pc sha256 le frame (Registered c) sv =
     (let (r, hub) = auth_activate pc c (le_fault le) (sv_hub sv) in (r, sv\<lparr>sv_hub := hub\<rparr>))"
| "auth_step pc sha256 le frame (Established c connection) sv = ((Inr (Established c connection), []), sv)"
| "auth_step pc sha256 le frame (Ended e) sv = ((Inr (Ended e), []), sv)"

fun awaits_frame :: "phase \<Rightarrow> bool" where
  "awaits_frame AwaitHello = True"
| "awaits_frame AwaitIdentify = True"
| "awaits_frame (AwaitResponse _) = True"
| "awaits_frame _ = False"

text \<open>The steps still ahead at each phase: every step of the login lowers the number.\<close>

fun steps_left :: "phase \<Rightarrow> nat" where
  "steps_left AwaitHello = 5"
| "steps_left AwaitIdentify = 4"
| "steps_left (AwaitResponse _) = 3"
| "steps_left (Verified _) = 2"
| "steps_left (Registered _) = 1"
| "steps_left _ = 0"

lemma reply_Inr: "reply pc fault message next = (Inr p, out) \<Longrightarrow> p = next"
  by (auto simp: reply_def split: prod.splits sum.splits)

lemma refuse_not_Inr [simp]: "refuse pc fault error result \<noteq> (Inr p, out)"
  by (auto simp: refuse_def split: prod.splits sum.splits)

lemma refuse_Inr [simp]: "refuse pc fault error result = (Inr p, out) \<longleftrightarrow> False"
  by simp

lemma auth_step_progress:
  assumes "auth_step pc sha256 le frame p sv = ((Inr p', out), sv')" "steps_left p \<noteq> 0"
  shows "steps_left p' < steps_left p"
  using assms
  by (cases p)
    (auto simp: auth_hello_def auth_identify_def auth_response_def auth_register_def auth_activate_def Let_def
      split: sum.splits option.splits ClientMessage.splits if_splits prod.splits StorageError.splits dest!: reply_Inr)

text \<open>
  \<open>authenticate\<close>: the steps one after the other. The environment may differ at each step. The result
  is the established phase, \<open>Ended None\<close> when the client leaves, or an error.
\<close>

function authenticate ::
  "postcard \<Rightarrow> (bytes \<Rightarrow> bytes) \<Rightarrow> (phase \<Rightarrow> login_env) \<Rightarrow> phase \<Rightarrow> reader \<Rightarrow> Server
   \<Rightarrow> ((SessionError + phase) \<times> bytes list) \<times> reader \<times> Server" where
  "authenticate pc sha256 les p r sv =
     (if steps_left p = 0 then ((Inr p, []), r, sv)
      else let le = les p;
               (frame, r') = (if awaits_frame p then read_handshake_frame (le_timed_out le) r else (Inr None, r))
        in (case auth_step pc sha256 le frame p sv of
              ((Inl e, out), sv') \<Rightarrow> ((Inl e, out), r', sv')
            | ((Inr p', out), sv') \<Rightarrow>
                (case authenticate pc sha256 les p' r' sv' of
                   ((result, out'), r'', sv'') \<Rightarrow> ((result, out @ out'), r'', sv''))))"
  by pat_completeness auto
termination
  by (relation "measure (\<lambda>(pc, sha256, les, p, r, sv). steps_left p)") (auto dest: auth_step_progress [OF sym])

declare authenticate.simps [simp del]

end
