(* ===== verification/Relay_Server.thy ===== *)
theory Relay_Server
  imports Relay_Session
begin

text \<open>
  All connections of the relay with the state they share. A connection advances its login by one
  step on any frame, takes an inbound event, forwards a notification, or ends: by its own error, a
  deadline or the shutdown. A command it has handed to the database and no longer waits for stays
  in the queue and still runs. The invariant ties every established connection to a verified
  signature, the pinned key and its entry in the hub.
\<close>

section \<open>State and steps\<close>

datatype command = DeliverCommand UserId MessageId Request | RegisterCommand credentials

record Relay =
  rl_server :: Server
  rl_phases :: "nat \<rightharpoonup> phase"
  rl_abandoned :: "command list"

definition end_phase :: "phase \<Rightarrow> Server \<Rightarrow> Server" where
  "end_phase p sv =
     (case p of
        Established c connection \<Rightarrow> sv\<lparr>sv_hub := close_session (cr_user c) connection (sv_hub sv)\<rparr>
      | _ \<Rightarrow> sv)"

definition settle :: "flow \<Rightarrow> credentials \<Rightarrow> u64 \<Rightarrow> Server \<Rightarrow> phase \<times> Server" where
  "settle f c connection sv =
     (case f of
        Continue \<Rightarrow> (Established c connection, sv)
      | Break \<Rightarrow> (Ended None, end_phase (Established c connection) sv)
      | Return e \<Rightarrow> (Ended (Some e), end_phase (Established c connection) sv))"

definition run_abandoned ::
  "postcard \<Rightarrow> (bytes \<Rightarrow> bytes) \<Rightarrow> relay_env \<Rightarrow> command \<Rightarrow> RelayState \<Rightarrow> RelayState" where
  "run_abandoned pc sha256 env command s =
     (case command of
        DeliverCommand user request_id request \<Rightarrow> snd (deliver pc sha256 env s user request_id request)
      | RegisterCommand c \<Rightarrow>
          (case register_enrolled_identity sha256 env s (cr_user c) (cr_key c) (cr_enrollment c) of
             None \<Rightarrow> s | Some (_, s') \<Rightarrow> s'))"

definition end_login :: "SessionError + phase \<Rightarrow> phase" where
  "end_login r = (case r of Inl e \<Rightarrow> Ended (Some e) | Inr p \<Rightarrow> p)"

inductive server_step ::
  "postcard \<Rightarrow> (bytes \<Rightarrow> bytes) \<Rightarrow> (bytes \<Rightarrow> bytes \<Rightarrow> bytes \<Rightarrow> bool) \<Rightarrow> RuntimeLimits \<Rightarrow> Relay \<Rightarrow> Relay \<Rightarrow> bool"
  for pc :: postcard and sha256 :: "bytes \<Rightarrow> bytes"
    and verify_strict :: "bytes \<Rightarrow> bytes \<Rightarrow> bytes \<Rightarrow> bool" and config :: RuntimeLimits where
  accept: "rl_phases rl i = None \<Longrightarrow>
    server_step pc sha256 verify_strict config rl (rl\<lparr>rl_phases := (rl_phases rl)(i \<mapsto> AwaitHello)\<rparr>)"
| login: "rl_phases rl i = Some p \<Longrightarrow> steps_left p \<noteq> 0 \<Longrightarrow> le_verify_strict le = verify_strict \<Longrightarrow>
    auth_step pc sha256 le frame p (rl_server rl) = ((r, out), sv) \<Longrightarrow>
    server_step pc sha256 verify_strict config rl
      (rl\<lparr>rl_server := sv, rl_phases := (rl_phases rl)(i \<mapsto> end_login r)\<rparr>)"
| inbound: "rl_phases rl i = Some (Established c connection) \<Longrightarrow> wf_env (re_env re) \<Longrightarrow>
    pred_option (\<lambda>ev. case ev of InboundMessage m \<Rightarrow> wf_client_message m | _ \<Rightarrow> True) event \<Longrightarrow>
    handle_inbound pc sha256 config re (cr_user c) event (rl_server rl) = ((f, out), sv) \<Longrightarrow>
    settle f c connection sv = (p, sv') \<Longrightarrow>
    server_step pc sha256 verify_strict config rl
      (rl\<lparr>rl_server := sv', rl_phases := (rl_phases rl)(i \<mapsto> p)\<rparr>)"
| outbound: "rl_phases rl i = Some (Established c connection) \<Longrightarrow>
    handle_outbound pc fault (cr_user c) connection (rl_server rl) = Some ((f, out), sv) \<Longrightarrow>
    settle f c connection sv = (p, sv') \<Longrightarrow>
    server_step pc sha256 verify_strict config rl
      (rl\<lparr>rl_server := sv', rl_phases := (rl_phases rl)(i \<mapsto> p)\<rparr>)"
| leave: "rl_phases rl i = Some p \<Longrightarrow>
    abandoned = [] \<or> (\<exists>c. p = Verified c \<and> abandoned = [RegisterCommand c])
      \<or> (\<exists>c connection request_id request. p = Established c connection \<and> wf_message request_id \<and> wf_request request
          \<and> abandoned = [DeliverCommand (cr_user c) request_id request]) \<Longrightarrow>
    server_step pc sha256 verify_strict config rl
      (rl\<lparr>rl_server := end_phase p (rl_server rl), rl_phases := (rl_phases rl)(i \<mapsto> Ended e),
          rl_abandoned := rl_abandoned rl @ abandoned\<rparr>)"
| abandoned: "rl_abandoned rl = command # rest \<Longrightarrow> wf_env env \<Longrightarrow>
    server_step pc sha256 verify_strict config rl
      (rl\<lparr>rl_server := (rl_server rl)\<lparr>sv_relay := run_abandoned pc sha256 env command (sv_relay (rl_server rl))\<rparr>,
          rl_abandoned := rest\<rparr>)"

text \<open>The relay starts on a repository that earlier runs may have filled.\<close>

definition senders_known :: "Db \<Rightarrow> bool" where
  "senders_known db \<longleftrightarrow> er_sender ` set (db_delivery_events db) \<subseteq> dom (db_identities db)"

definition initial_relay :: "RelayState \<Rightarrow> Relay" where
  "initial_relay s = \<lparr>rl_server = \<lparr>sv_relay = s, sv_hub = default_hub,
     sv_queue_pressure = 0, sv_timeouts = 0, sv_recovery_failures = 0\<rparr>, rl_phases = Map.empty,
     rl_abandoned = []\<rparr>"

definition server_reachable ::
  "postcard \<Rightarrow> (bytes \<Rightarrow> bytes) \<Rightarrow> (bytes \<Rightarrow> bytes \<Rightarrow> bytes \<Rightarrow> bool) \<Rightarrow> RuntimeLimits \<Rightarrow> Relay \<Rightarrow> bool" where
  "server_reachable pc sha256 verify_strict config rl \<longleftrightarrow>
     (\<exists>s. reachable pc sha256 s \<and> senders_known (rs_db s)
        \<and> (server_step pc sha256 verify_strict config)\<^sup>*\<^sup>* (initial_relay s) rl)"

section \<open>The repository's share\<close>

lemma execute_senders:
  assumes "execute pc env db user request_id request = Inr (response, db')"
  shows "er_sender ` set (db_delivery_events db') \<subseteq> insert user (er_sender ` set (db_delivery_events db))"
proof (cases request)
  case (CreateRoom name)
  with assms have "create_room env db user name = Inr (response, db')" by (simp add: execute_def)
  then show ?thesis by (cases rule: create_room_effect) auto
next
  case (PublishKeyPackages packages)
  with assms have "publish_key_packages env db user packages = Inr (response, db')" by (simp add: execute_def)
  from publish_key_packages_effect [OF this] show ?thesis by (auto dest!: insert_key_packages_effect)
next
  case (SetFetchGrant requester allowed)
  with assms set_fetch_grant_effect [of env db user requester allowed response db'] show ?thesis
    by (auto simp: execute_def)
next
  case (ReserveKeyPackage recipient)
  with assms reserve_key_package_effect [of env db user recipient response db'] show ?thesis
    by (auto simp: execute_def reserves_def)
next
  case (AppendRoomOperation op)
  with assms append_effect [of pc env db user request_id op response db'] show ?thesis
    by (auto simp: execute_def appends_def add_event_def add_welcome_def event_row_def Let_def
        split: option.splits)
qed (use assms execute_unchanged [OF assms] in \<open>auto simp: durable_def is_receipt_def\<close>)

lemma deliver_senders:
  assumes "deliver pc sha256 env s user request_id request = (result, s')"
  shows "er_sender ` set (db_delivery_events (rs_db s')) \<subseteq> insert user (er_sender ` set (db_delivery_events (rs_db s)))"
    "db_identities (rs_db s') = db_identities (rs_db s)"
proof -
  have "er_sender ` set (db_delivery_events (rs_db s')) \<subseteq> insert user (er_sender ` set (db_delivery_events (rs_db s)))
      \<and> db_identities (rs_db s') = db_identities (rs_db s)"
  proof (cases "rs_db s' = rs_db s")
    case False
    with deliver_effect [OF assms] obtain response db where
      e: "execute pc env (rs_db s) user request_id request = Inr (response, db)" and
      s': "rs_db s' = saved user request_id (sha256 (ser_request pc request)) (ser_response pc response)
        (charged user request (required_bytes (ser_request pc request)) db)"
      by (auto simp: commits_def)
    have "db_delivery_events (rs_db s') = db_delivery_events db" "db_identities (rs_db s') = db_identities db"
      by (simp_all add: s' saved_def charged_def)
    with execute_senders [OF e] execute_frame [OF e] show ?thesis by (simp add: same_ledgers_def)
  qed auto
  then show "er_sender ` set (db_delivery_events (rs_db s')) \<subseteq> insert user (er_sender ` set (db_delivery_events (rs_db s)))"
    "db_identities (rs_db s') = db_identities (rs_db s)" by auto
qed

lemma reachable_step: "reachable pc sha256 s \<Longrightarrow> relay_step pc sha256 s s' \<Longrightarrow> reachable pc sha256 s'"
  unfolding reachable_def by (blast intro: rtranclp.rtrancl_into_rtrancl)

lemma register_senders:
  assumes "register_enrolled_identity sha256 env s user key token = Some (registered, s')"
  shows "db_delivery_events (rs_db s') = db_delivery_events (rs_db s)"
    "db_identities (rs_db s) \<subseteq>\<^sub>m db_identities (rs_db s')"
    "registered = Inr r \<Longrightarrow> db_identities (rs_db s') user = Some key"
  using assms by (auto simp: register_enrolled_identity_def Let_def map_le_def bind_Some_iff
      split: if_splits option.splits)

section \<open>The invariant\<close>

definition verified :: "(bytes \<Rightarrow> bytes \<Rightarrow> bytes \<Rightarrow> bool) \<Rightarrow> credentials \<Rightarrow> bool" where
  "verified verify_strict c \<longleftrightarrow> wf_user (cr_user c)
     \<and> (\<exists>signature. cr_signature c = Some signature
         \<and> verify_authentication_signature verify_strict (cr_user c) (cr_key c) (cr_challenge c) signature)"

definition pinned :: "Db \<Rightarrow> credentials \<Rightarrow> bool" where
  "pinned db c \<longleftrightarrow> db_identities db (cr_user c) = Some (cr_key c)"

fun phase_ok :: "(bytes \<Rightarrow> bytes \<Rightarrow> bytes \<Rightarrow> bool) \<Rightarrow> Db \<Rightarrow> phase \<Rightarrow> bool" where
  "phase_ok verify_strict db (AwaitResponse c) = wf_user (cr_user c)"
| "phase_ok verify_strict db (Verified c) = verified verify_strict c"
| "phase_ok verify_strict db (Registered c) = (verified verify_strict c \<and> pinned db c)"
| "phase_ok verify_strict db (Established c _) = (verified verify_strict c \<and> pinned db c)"
| "phase_ok verify_strict db _ = True"

fun command_ok :: "Db \<Rightarrow> command \<Rightarrow> bool" where
  "command_ok db (DeliverCommand user request_id request) =
     (user \<in> dom (db_identities db) \<and> wf_user user \<and> wf_message request_id \<and> wf_request request)"
| "command_ok db (RegisterCommand c) = True"

lemma phase_ok_mono: "phase_ok v db p \<Longrightarrow> db_identities db \<subseteq>\<^sub>m db_identities db' \<Longrightarrow> phase_ok v db' p"
  by (cases p) (auto simp: pinned_def map_le_def dom_def)

lemma command_ok_mono: "command_ok db c \<Longrightarrow> db_identities db \<subseteq>\<^sub>m db_identities db' \<Longrightarrow> command_ok db' c"
  by (cases c) (auto simp: map_le_def dom_def)

text \<open>What the repository may do in one step of the relay: nothing, or a call for a known user.\<close>

definition repository_step :: "postcard \<Rightarrow> (bytes \<Rightarrow> bytes) \<Rightarrow> RelayState \<Rightarrow> RelayState \<Rightarrow> bool" where
  "repository_step pc sha256 s s' \<longleftrightarrow>
     (s' = s \<or> relay_step pc sha256 s s') \<and> db_identities (rs_db s) \<subseteq>\<^sub>m db_identities (rs_db s')
     \<and> (senders_known (rs_db s) \<longrightarrow> senders_known (rs_db s'))"

lemma repository_refl [simp]: "repository_step pc sha256 s s"
  by (simp add: repository_step_def)

lemma repository_deliver:
  assumes "deliver pc sha256 env s user request_id request = (result, s')" "user \<in> dom (db_identities (rs_db s))"
    and "wf_env env" "wf_user user" "wf_message request_id" "wf_request request"
  shows "repository_step pc sha256 s s'"
  using deliver_senders [OF assms(1)] assms(2) relay_step.delivery [OF assms(3-6,1)]
  by (auto simp: repository_step_def senders_known_def)

lemma repository_register:
  assumes "register_enrolled_identity sha256 env s user key token = Some (registered, s')"
  shows "repository_step pc sha256 s s'"
  using register_senders(1,2) [OF assms] relay_step.registration [OF assms, of pc]
  by (auto simp: repository_step_def senders_known_def map_le_def dom_def)

definition repo_ok ::
  "postcard \<Rightarrow> (bytes \<Rightarrow> bytes) \<Rightarrow> (bytes \<Rightarrow> bytes \<Rightarrow> bytes \<Rightarrow> bool) \<Rightarrow> Relay \<Rightarrow> bool" where
  "repo_ok pc sha256 verify_strict rl \<longleftrightarrow> (let s = sv_relay (rl_server rl) in
     reachable pc sha256 s \<and> senders_known (rs_db s)
     \<and> (\<forall>p \<in> ran (rl_phases rl). phase_ok verify_strict (rs_db s) p)
     \<and> list_all (command_ok (rs_db s)) (rl_abandoned rl))"

lemma ran_update: "p \<in> ran (m(i \<mapsto> q)) \<Longrightarrow> p = q \<or> p \<in> ran m"
  by (auto simp: ran_def split: if_splits)

lemma repo_ok_step:
  assumes "repo_ok pc sha256 v rl" "repository_step pc sha256 (sv_relay (rl_server rl)) (sv_relay sv)"
    and "phase_ok v (rs_db (sv_relay sv)) p" "list_all (command_ok (rs_db (sv_relay sv))) new"
    "\<exists>old. rl_abandoned rl = old @ kept"
  shows "repo_ok pc sha256 v (rl\<lparr>rl_server := sv, rl_phases := (rl_phases rl)(i \<mapsto> p), rl_abandoned := kept @ new\<rparr>)"
proof -
  let ?s = "sv_relay (rl_server rl)" and ?s' = "sv_relay sv"
  from assms(1,2) have s: "reachable pc sha256 ?s'" "senders_known (rs_db ?s')"
    "db_identities (rs_db ?s) \<subseteq>\<^sub>m db_identities (rs_db ?s')"
    by (auto simp: repo_ok_def Let_def repository_step_def intro: reachable_step)
  have "phase_ok v (rs_db ?s') q" if "q \<in> ran ((rl_phases rl)(i \<mapsto> p))" for q
    using ran_update [OF that] assms(1,3) phase_ok_mono [OF _ s(3), of v q] by (auto simp: repo_ok_def Let_def)
  moreover have "list_all (command_ok (rs_db ?s')) (kept @ new)"
    using assms(1,4,5) command_ok_mono [OF _ s(3)] by (auto simp: repo_ok_def Let_def list_all_iff)
  ultimately show ?thesis using s by (simp add: repo_ok_def Let_def)
qed

lemma handle_inbound_repository:
  assumes "handle_inbound pc sha256 config re user event sv = ((f, out), sv')"
    and "user \<in> dom (db_identities (rs_db (sv_relay sv)))" "wf_env (re_env re)" "wf_user user"
    and "pred_option (\<lambda>ev. case ev of InboundMessage m \<Rightarrow> wf_client_message m | _ \<Rightarrow> True) event"
  shows "repository_step pc sha256 (sv_relay sv) (sv_relay sv')"
proof (cases "\<exists>request_id request. event = Some (InboundMessage (ClientDelivery request_id request))")
  case True
  then obtain request_id request where ev: "event = Some (InboundMessage (ClientDelivery request_id request))" by blast
  with assms(5) have wf: "wf_message request_id" "wf_request request" by (auto simp: wf_client_message_def)
  from assms(1) ev have "sv_relay sv' = sv_relay sv \<or>
      (\<exists>result. deliver pc sha256 (re_env re) (sv_relay sv) user request_id request = (result, sv_relay sv'))"
    by (auto simp: handle_inbound_def handle_delivery_def run_delivery_def Let_def
        split: prod.splits if_splits option.splits sum.splits)
  then show ?thesis using repository_deliver assms(2-4) wf by (metis repository_refl)
next
  case False
  with assms(1) show ?thesis
    by (auto simp: handle_inbound_def split: option.splits InboundEvent.splits ClientMessage.splits prod.splits sum.splits)
qed

lemma settle_relay: "settle f c connection sv = (p, sv') \<Longrightarrow> sv_relay sv' = sv_relay sv \<and>
    (p = Established c connection \<or> (\<exists>e. p = Ended e))"
  by (auto simp: settle_def end_phase_def split: flow.splits)

lemma decoded_identify:
  assumes "postcard_wire pc" "handshake_message pc frame = Inr (Some m)"
  shows "wf_client_message m"
proof -
  from assms(2) obtain bs where "decode_message (take_client_message pc) bs = Inr m"
    by (auto simp: handshake_message_def split: sum.splits option.splits)
  then show ?thesis by (auto simp: decode_message_def split: if_splits option.splits
      dest: postcard_wire.client_message_decoded [OF assms(1)])
qed

lemma auth_step_repository:
  assumes "postcard_wire pc" "auth_step pc sha256 le frame p sv = ((r, out), sv')" "le_verify_strict le = v"
    and "phase_ok v (rs_db (sv_relay sv)) p" "steps_left p \<noteq> 0"
  shows "repository_step pc sha256 (sv_relay sv) (sv_relay sv') \<and> phase_ok v (rs_db (sv_relay sv')) (end_login r)"
proof (cases p)
  case AwaitHello
  with assms(2) show ?thesis
    by (auto simp: auth_hello_def end_login_def Let_def split: sum.splits option.splits ClientMessage.splits if_splits
        dest!: reply_Inr)
next
  case AwaitIdentify
  with assms(2) show ?thesis using decoded_identify [OF assms(1)]
    by (fastforce simp: auth_identify_def end_login_def Let_def wf_client_message_def
        split: sum.splits option.splits ClientMessage.splits if_splits dest!: reply_Inr)
next
  case (AwaitResponse c)
  with assms(2-4) show ?thesis
    by (auto simp: auth_response_def end_login_def Let_def verified_def
        split: sum.splits option.splits ClientMessage.splits if_splits)
next
  case (Verified c)
  with assms(2) have out: "auth_register pc sha256 (le_refused le) (le_env le) c (le_fault le) (sv_relay sv) = ((r, out), sv_relay sv')"
    by (auto split: prod.splits)
  show ?thesis
  proof (cases "r")
    case (Inl e)
    with out show ?thesis
      by (auto simp: auth_register_def end_login_def split: option.splits sum.splits intro: repository_register)
  next
    case (Inr q)
    with out obtain ok where "q = Registered c"
      "register_enrolled_identity sha256 (le_env le) (sv_relay sv) (cr_user c) (cr_key c) (cr_enrollment c) = Some (Inr ok, sv_relay sv')"
      by (auto simp: auth_register_def split: option.splits sum.splits StorageError.splits)
    with Inr Verified assms(4) register_senders(3) repository_register show ?thesis
      by (auto simp: end_login_def pinned_def)
  qed
next
  case (Registered c)
  with assms(2) have "sv_relay sv' = sv_relay sv" "r = Inr q \<Longrightarrow> \<exists>n. q = Established c n" for q
    by (auto simp: auth_activate_def split: prod.splits sum.splits dest!: reply_Inr)
  with Registered assms(4) show ?thesis by (cases r) (auto simp: end_login_def)
qed (use assms(5) in auto)

section \<open>Sessions and the hub\<close>

fun session_of :: "phase \<Rightarrow> (UserId \<times> u64) option" where
  "session_of (Established c connection) = Some (cr_user c, connection)"
| "session_of _ = None"

definition sessions :: "(nat \<rightharpoonup> phase) \<Rightarrow> nat \<rightharpoonup> UserId \<times> u64" where
  "sessions phases i = (case phases i of None \<Rightarrow> None | Some p \<Rightarrow> session_of p)"

lemma sessions_update: "sessions (phases(i \<mapsto> p)) = (sessions phases)(i := session_of p)"
  by (auto simp: sessions_def fun_eq_iff)

text \<open>The live registrations are exactly the established connections, one per user.\<close>

definition sessions_ok :: "(nat \<rightharpoonup> UserId \<times> u64) \<Rightarrow> ConnectionHub \<Rightarrow> (UserId \<times> u64) list \<Rightarrow> bool" where
  "sessions_ok est hub live \<longleftrightarrow> hub_ok (hub, live) \<and> ran est = set live
     \<and> (\<forall>i j x y. est i = Some x \<longrightarrow> est j = Some y \<longrightarrow> fst x = fst y \<longrightarrow> i = j)"

lemma sessions_ok_run:
  "sessions_ok est hub live \<Longrightarrow> hub_step\<^sup>*\<^sup>* (hub, live) (hub', live) \<Longrightarrow> sessions_ok est hub' live"
  using hub_safety.run_inv by (auto simp: sessions_ok_def)

lemma sessions_ok_open:
  assumes "sessions_ok est hub live" "est i = None" "register user hub = (Inr connection, hub')"
  shows "sessions_ok (est(i \<mapsto> (user, connection))) hub' (live @ [(user, connection)])"
proof -
  from assms(3) have "user \<notin> set (hub_active_identities hub)" by (auto simp: register_def split: if_splits)
  with assms(1) have new: "user \<notin> fst ` ran est" by (simp add: sessions_ok_def hub_ok_def)
  have "fst x \<noteq> user" if "est j = Some x" for j x
    using new that by (auto simp: ran_def)
  moreover have "ran (est(i \<mapsto> (user, connection))) = insert (user, connection) (ran est)"
    using assms(2) by (rule ran_map_upd)
  ultimately show ?thesis
    using assms(1) register_ok [OF _ assms(3), of live] unfolding sessions_ok_def
    by (simp only: set_append set_simps) (auto split: if_splits, (metis fst_conv)+)
qed

lemma sessions_ok_close:
  assumes "sessions_ok est hub live" "est i = Some (user, connection)"
  shows "sessions_ok (est(i := None)) (close_session user connection hub) (removeAll (user, connection) live)"
proof -
  from assms have live: "(user, connection) \<in> set live" by (auto simp: sessions_ok_def ran_def)
  have "hub_ok (close_session user connection hub, removeAll (user, connection) live)"
    using close_ok [OF _ live, of hub] assms(1) by (simp add: sessions_ok_def close_session_def)
  moreover have "ran (est(i := None)) = ran est - {(user, connection)}"
  proof -
    have only: "est j = Some (user, connection) \<longleftrightarrow> j = i" for j
      using assms by (auto simp: sessions_ok_def)
    show ?thesis
    proof (rule set_eqI)
      fix x
      have "(\<exists>j. j \<noteq> i \<and> est j = Some x) \<longleftrightarrow> (\<exists>j. est j = Some x) \<and> x \<noteq> (user, connection)"
        using only assms(2) by (metis option.inject)
      then show "x \<in> ran (est(i := None)) \<longleftrightarrow> x \<in> ran est - {(user, connection)}"
        by (auto simp: ran_def)
    qed
  qed
  ultimately show ?thesis
    using assms(1) unfolding sessions_ok_def by (simp only: set_removeAll) (auto split: if_splits)
qed

lemma handle_inbound_hub:
  assumes "handle_inbound pc sha256 config re user event sv = ((f, out), sv')"
  shows "hub_step\<^sup>*\<^sup>* (sv_hub sv, live) (sv_hub sv', live)"
proof -
  obtain ok hub where a: "admit_request (re_rnd re) config (re_now re) user (sv_hub sv) = (ok, hub)" by fastforce
  have "sv_hub sv' = sv_hub sv \<or> sv_hub sv' = hub \<or> sv_hub sv' = notify (hub_active_identities hub) DeliveryChanged hub"
    using assms a
    by (auto simp: handle_inbound_def handle_delivery_def run_delivery_def Let_def
        split: prod.splits if_splits option.splits sum.splits InboundEvent.splits ClientMessage.splits)
  moreover have "hub_step (sv_hub sv, live) (hub, live)" using a by (rule hub_step.admits)
  moreover have "hub_step (hub, live) (notify (hub_active_identities hub) DeliveryChanged hub, live)"
    by (rule hub_step.notifies)
  ultimately show ?thesis by (metis converse_rtranclp_into_rtranclp r_into_rtranclp rtranclp.rtrancl_refl)
qed

lemma handle_outbound_hub:
  assumes "handle_outbound pc fault user connection sv = Some ((f, out), sv')" "(user, connection) \<in> set live"
  shows "hub_step\<^sup>*\<^sup>* (sv_hub sv, live) (sv_hub sv', live) \<and> sv_relay sv' = sv_relay sv"
proof -
  obtain r hub where r: "recv user connection (sv_hub sv) = (r, hub)" by fastforce
  with assms(1) have "sv_hub sv' = hub" "sv_relay sv' = sv_relay sv"
    by (auto simp: handle_outbound_def split: received.splits)
  with hub_step.receives [OF assms(2) r] show ?thesis by auto
qed

lemma sessions_ok_end:
  assumes "sessions_ok (sessions phases) (sv_hub sv) live" "phases i = Some p" "session_of q = None"
  shows "\<exists>live. sessions_ok (sessions (phases(i \<mapsto> q))) (sv_hub (end_phase p sv)) live"
proof (cases "session_of p")
  case None
  with assms(2,3) have "sessions (phases(i \<mapsto> q)) = sessions phases" "end_phase p sv = sv"
    by (auto simp: sessions_update fun_eq_iff sessions_def end_phase_def split: phase.splits)
  with assms(1) show ?thesis by auto
next
  case (Some x)
  then obtain c n where p: "p = Established c n" by (cases p) auto
  with assms(2) have "sessions phases i = Some (cr_user c, n)" by (simp add: sessions_def)
  from sessions_ok_close [OF assms(1) this] assms(3) p show ?thesis
    by (auto simp: sessions_update end_phase_def)
qed

lemma settle_sessions:
  assumes "sessions_ok (sessions phases) (sv_hub sv) live" "phases i = Some (Established c n)"
    and "settle f c n sv = (p, sv')"
  shows "\<exists>live. sessions_ok (sessions (phases(i \<mapsto> p))) (sv_hub sv') live"
proof (cases f)
  case Continue
  with assms have "sessions (phases(i \<mapsto> p)) = sessions phases" "sv' = sv"
    by (auto simp: settle_def sessions_update fun_eq_iff sessions_def)
  with assms(1) show ?thesis by auto
next
  case Break
  with assms sessions_ok_end [OF assms(1,2), of p] show ?thesis by (auto simp: settle_def)
next
  case (Return e)
  with assms sessions_ok_end [OF assms(1,2), of p] show ?thesis by (auto simp: settle_def)
qed

lemma activate_sessions:
  assumes "sessions_ok (sessions phases) hub live" "phases i = Some (Registered c)"
    and "auth_activate pc c fault hub = ((r, out), hub')"
  shows "\<exists>live. sessions_ok (sessions (phases(i \<mapsto> end_login r))) hub' live"
proof -
  obtain reg hub1 where reg: "register (cr_user c) hub = (reg, hub1)" by fastforce
  have none: "sessions phases i = None" using assms(2) by (simp add: sessions_def)
  show ?thesis
  proof (cases reg)
    case (Inl k)
    with reg have "hub1 = hub" by (auto simp: register_def Let_def split: if_splits)
    with Inl reg assms(3) have "hub' = hub" "\<exists>e. r = Inl e"
      by (auto simp: auth_activate_def refuse_def split: prod.splits sum.splits)
    with none assms(1) show ?thesis by (auto simp: sessions_update end_login_def fun_upd_idem)
  next
    case (Inr n)
    note opened = sessions_ok_open [OF assms(1) none, of "cr_user c" n hub1]
    show ?thesis
    proof (cases r)
      case (Inl e)
      with Inr reg assms(3) have "hub' = close_session (cr_user c) n hub1"
        by (auto simp: auth_activate_def split: prod.splits sum.splits)
      with sessions_ok_close [OF opened, of i "cr_user c" n] Inr reg Inl none show ?thesis
        by (auto simp: sessions_update end_login_def fun_upd_idem)
    next
      case (Inr q)
      with \<open>reg = Inr n\<close> reg assms(3) have "hub' = hub1" "q = Established c n"
        by (auto simp: auth_activate_def split: prod.splits sum.splits dest!: reply_Inr)
      with opened \<open>reg = Inr n\<close> reg Inr show ?thesis by (auto simp: sessions_update end_login_def)
    qed
  qed
qed

definition server_ok ::
  "postcard \<Rightarrow> (bytes \<Rightarrow> bytes) \<Rightarrow> (bytes \<Rightarrow> bytes \<Rightarrow> bytes \<Rightarrow> bool) \<Rightarrow> Relay \<Rightarrow> bool" where
  "server_ok pc sha256 verify_strict rl \<longleftrightarrow> repo_ok pc sha256 verify_strict rl
     \<and> (\<exists>live. sessions_ok (sessions (rl_phases rl)) (sv_hub (rl_server rl)) live)"

lemma initial_server_ok:
  "reachable pc sha256 s \<Longrightarrow> senders_known (rs_db s) \<Longrightarrow> server_ok pc sha256 v (initial_relay s)"
  by (auto simp: server_ok_def initial_relay_def repo_ok_def sessions_ok_def sessions_def initial_hub_ok
      ran_def intro!: exI [of _ "[]"])

lemma repo_ok_phase:
  "repo_ok pc sha256 v rl \<Longrightarrow> rl_phases rl i = Some p \<Longrightarrow> phase_ok v (rs_db (sv_relay (rl_server rl))) p"
  by (auto simp: repo_ok_def Let_def ran_def)

lemma repo_ok_keep:
  assumes "repo_ok pc sha256 v rl" "repository_step pc sha256 (sv_relay (rl_server rl)) (sv_relay sv)"
    and "phase_ok v (rs_db (sv_relay sv)) p"
  shows "repo_ok pc sha256 v (rl\<lparr>rl_server := sv, rl_phases := (rl_phases rl)(i \<mapsto> p)\<rparr>)"
  using repo_ok_step [OF assms(1,2,3), of "[]" "rl_abandoned rl" i] by simp

lemma login_sessions:
  assumes "sessions_ok (sessions phases) (sv_hub sv) live" "phases i = Some p" "steps_left p \<noteq> 0"
    and "auth_step pc sha256 le frame p sv = ((r, out), sv')"
  shows "\<exists>live. sessions_ok (sessions (phases(i \<mapsto> end_login r))) (sv_hub sv') live"
proof (cases "\<exists>c. p = Registered c")
  case True
  then obtain c where "p = Registered c" by blast
  with assms(2,4) activate_sessions [OF assms(1), of i c pc "le_fault le" r out "sv_hub sv'"] show ?thesis
    by (auto split: prod.splits)
next
  case False
  then have "sv_hub sv' = sv_hub sv \<and> session_of (end_login r) = None \<and> session_of p = None"
    using assms(3,4)
    by (cases p)
      (auto simp: auth_hello_def auth_identify_def auth_response_def auth_register_def end_login_def Let_def
        split: sum.splits option.splits ClientMessage.splits if_splits prod.splits StorageError.splits
        dest!: reply_Inr)
  with assms(1,2) show ?thesis
    by (auto simp: sessions_update fun_upd_idem sessions_def)
qed

lemma server_ok_split:
  "server_ok pc sha256 v rl \<longleftrightarrow>
    repo_ok pc sha256 v rl \<and> (\<exists>live. sessions_ok (sessions (rl_phases rl)) (sv_hub (rl_server rl)) live)"
  by (auto simp: server_ok_def)

lemma server_ok_accept:
  assumes "server_ok pc sha256 v rl" "rl_phases rl i = None"
  shows "server_ok pc sha256 v (rl\<lparr>rl_phases := (rl_phases rl)(i \<mapsto> AwaitHello)\<rparr>)"
proof -
  have "repo_ok pc sha256 v (rl\<lparr>rl_server := rl_server rl, rl_phases := (rl_phases rl)(i \<mapsto> AwaitHello)\<rparr>)"
    using assms(1) by (intro repo_ok_keep) (auto simp: server_ok_split)
  moreover have "sessions ((rl_phases rl)(i \<mapsto> AwaitHello)) = sessions (rl_phases rl)"
    using assms(2) by (simp add: sessions_update fun_upd_idem sessions_def)
  ultimately show ?thesis using assms(1) by (auto simp: server_ok_split)
qed

lemma server_ok_inbound:
  assumes repo: "repo_ok pc sha256 v rl"
    and hub: "sessions_ok (sessions (rl_phases rl)) (sv_hub (rl_server rl)) live"
    and phase: "rl_phases rl i = Some (Established c n)" and env: "wf_env (re_env re)"
    and event: "pred_option (\<lambda>ev. case ev of InboundMessage m \<Rightarrow> wf_client_message m | _ \<Rightarrow> True) event"
    and handle: "handle_inbound pc sha256 config re (cr_user c) event (rl_server rl) = ((f, out), sv)"
    and settle: "settle f c n sv = (p, sv')"
  shows "server_ok pc sha256 v (rl\<lparr>rl_server := sv', rl_phases := (rl_phases rl)(i \<mapsto> p)\<rparr>)"
proof -
  note ph = repo_ok_phase [OF repo phase] and st = settle_relay [OF settle]
  have known: "cr_user c \<in> dom (db_identities (rs_db (sv_relay (rl_server rl))))" "wf_user (cr_user c)"
    using ph by (auto simp: pinned_def verified_def)
  from handle_inbound_repository [OF handle known(1) env known(2) event] st
  have step: "repository_step pc sha256 (sv_relay (rl_server rl)) (sv_relay sv')" by simp
  then have "phase_ok v (rs_db (sv_relay sv')) p"
    using ph st phase_ok_mono [of v _ "Established c n"] by (auto simp: repository_step_def)
  with repo step have "repo_ok pc sha256 v (rl\<lparr>rl_server := sv', rl_phases := (rl_phases rl)(i \<mapsto> p)\<rparr>)"
    by (intro repo_ok_keep)
  moreover note settle_sessions [OF sessions_ok_run [OF hub handle_inbound_hub [OF handle]] phase settle]
  ultimately show ?thesis by (auto simp: server_ok_split)
qed

lemma server_ok_outbound:
  assumes repo: "repo_ok pc sha256 v rl"
    and hub: "sessions_ok (sessions (rl_phases rl)) (sv_hub (rl_server rl)) live"
    and phase: "rl_phases rl i = Some (Established c n)"
    and handle: "handle_outbound pc fault (cr_user c) n (rl_server rl) = Some ((f, out), sv)"
    and settle: "settle f c n sv = (p, sv')"
  shows "server_ok pc sha256 v (rl\<lparr>rl_server := sv', rl_phases := (rl_phases rl)(i \<mapsto> p)\<rparr>)"
proof -
  have "(cr_user c, n) \<in> set live"
    using hub phase unfolding sessions_ok_def by (auto simp: sessions_def intro!: ranI [of _ i])
  note out = handle_outbound_hub [OF handle this]
  have "phase_ok v (rs_db (sv_relay sv')) p" "sv_relay sv' = sv_relay (rl_server rl)"
    using repo_ok_phase [OF repo phase] settle_relay [OF settle] out by auto
  with repo have "repo_ok pc sha256 v (rl\<lparr>rl_server := sv', rl_phases := (rl_phases rl)(i \<mapsto> p)\<rparr>)"
    by (intro repo_ok_keep) auto
  moreover from settle_sessions [OF sessions_ok_run [OF hub] phase settle] out
  have "\<exists>live. sessions_ok (sessions ((rl_phases rl)(i \<mapsto> p))) (sv_hub sv') live" by blast
  ultimately show ?thesis by (auto simp: server_ok_split)
qed

lemma server_ok_abandoned:
  fixes rl :: Relay
  assumes ok: "server_ok pc sha256 v rl" and pending: "rl_abandoned rl = command # rest" and env: "wf_env env"
  defines "s \<equiv> sv_relay (rl_server rl)"
  shows "server_ok pc sha256 v (rl\<lparr>rl_server := (rl_server rl)\<lparr>sv_relay := run_abandoned pc sha256 env command s\<rparr>,
    rl_abandoned := rest\<rparr>)" (is "server_ok _ _ _ ?rl")
proof -
  from ok have repo: "repo_ok pc sha256 v rl" by (simp add: server_ok_split)
  with pending have "command_ok (rs_db s) command" by (simp add: repo_ok_def Let_def s_def)
  then have "repository_step pc sha256 s (run_abandoned pc sha256 env command s)"
    using env repository_deliver repository_register
    by (cases command) (auto simp: run_abandoned_def split: option.splits prod.splits intro!: repository_deliver [OF prod.collapse [symmetric]])
  with repo pending have "repo_ok pc sha256 v ?rl" unfolding s_def
    by (auto simp: repo_ok_def Let_def repository_step_def list_all_iff
        intro: reachable_step phase_ok_mono command_ok_mono)
  with ok show ?thesis by (auto simp: server_ok_split)
qed

lemma server_ok_step:
  assumes "postcard_wire pc" "server_step pc sha256 v config rl rl'" "server_ok pc sha256 v rl"
  shows "server_ok pc sha256 v rl'"
proof -
  from assms(3) obtain live where repo: "repo_ok pc sha256 v rl"
    and hub: "sessions_ok (sessions (rl_phases rl)) (sv_hub (rl_server rl)) live"
    by (auto simp: server_ok_split)
  from assms(2) show ?thesis
  proof cases
    case (accept i)
    from server_ok_accept [OF assms(3) this(2)] show ?thesis by (simp add: accept(1))
  next
    case (login i p le frame r out sv)
    from auth_step_repository [OF assms(1) login(5,4) repo_ok_phase [OF repo login(2)] login(3)]
    have "repo_ok pc sha256 v rl'" unfolding login(1) using repo by (intro repo_ok_keep) auto
    with login_sessions [OF hub login(2,3,5)] show ?thesis by (auto simp: server_ok_split login(1))
  next
    case (inbound i c n re event f out sv p sv')
    from server_ok_inbound [OF repo hub this(2-6)] show ?thesis by (simp add: inbound(1))
  next
    case (outbound i c n fault f out sv p sv')
    from server_ok_outbound [OF repo hub this(2-4)] show ?thesis by (simp add: outbound(1))
  next
    case (leave i p abandoned e)
    have "list_all (command_ok (rs_db (sv_relay (rl_server rl)))) abandoned"
      using leave(3) repo_ok_phase [OF repo leave(2)] by (auto simp: pinned_def verified_def)
    moreover have "sv_relay (end_phase p (rl_server rl)) = sv_relay (rl_server rl)"
      by (simp add: end_phase_def split: phase.split)
    ultimately have "repo_ok pc sha256 v rl'"
      unfolding leave(1) using repo by (intro repo_ok_step) auto
    with sessions_ok_end [OF hub leave(2), of "Ended e"] show ?thesis by (auto simp: server_ok_split leave(1))
  next
    case (abandoned command rest env)
    from server_ok_abandoned [OF assms(3) this(2,3)] show ?thesis by (simp add: abandoned(1))
  qed
qed

lemma server_reachable_ok:
  assumes "postcard_wire pc" "server_reachable pc sha256 v config rl"
  shows "server_ok pc sha256 v rl"
proof -
  from assms(2) obtain s where s: "reachable pc sha256 s" "senders_known (rs_db s)"
    and run: "(server_step pc sha256 v config)\<^sup>*\<^sup>* (initial_relay s) rl" by (auto simp: server_reachable_def)
  from run initial_server_ok [OF s] show ?thesis
    by (rule step_invariant.run_inv [rotated]) (unfold_locales, rule server_ok_step [OF assms(1)])
qed

end
