(* ===== verification/Relay_Worker.thy ===== *)
theory Relay_Worker
  imports Relay_System
begin

text \<open>
  The database thread (\<open>grotto-relay/src/worker.rs\<close>): a bounded queue of commands, a thread that
  runs them one at a time on the repository, and the caller's side, which is told at once when the
  queue is full or closed and otherwise waits for the result. A command is a function on the state;
  \<open>None\<close> is a panic, which ends the thread, drops the commands still queued and leaves every
  waiting caller with a closed result channel. Results are kept under the number of the call.
\<close>

section \<open>State and operations\<close>

type_synonym ('s, 'r) Command = "'s \<Rightarrow> ('r \<times> 's) option"

record ('s, 'r) DatabaseWorker =
  wk_capacity :: nat
  wk_queue :: "(nat \<times> ('s, 'r) Command) list"
  wk_state :: "'s option"
  wk_results :: "nat \<rightharpoonup> io_kind + 'r"
  wk_queue_pressure :: u64

definition worker_start :: "bool \<Rightarrow> 's \<Rightarrow> nat \<Rightarrow> io_kind + ('s, 'r) DatabaseWorker" where
  "worker_start spawn_fails state capacity =
     (if capacity = 0 then Inl InvalidInput
      else if spawn_fails then Inl OtherIo
      else Inr \<lparr>wk_capacity = capacity, wk_queue = [], wk_state = Some state, wk_results = Map.empty,
             wk_queue_pressure = 0\<rparr>)"

text \<open>The first half of \<open>execute\<close>: \<open>try_send\<close> never waits.\<close>

definition worker_submit ::
  "nat \<Rightarrow> ('s, 'r) Command \<Rightarrow> ('s, 'r) DatabaseWorker \<Rightarrow> (io_kind + unit) \<times> ('s, 'r) DatabaseWorker" where
  "worker_submit call command w =
     (if wk_state w = None then (Inl BrokenPipe, w)
      else if length (wk_queue w) \<ge> wk_capacity w
      then (Inl WouldBlock, w\<lparr>wk_queue_pressure := wk_queue_pressure w + 1\<rparr>)
      else (Inr (), w\<lparr>wk_queue := wk_queue w @ [(call, command)]\<rparr>))"

text \<open>The second half of \<open>execute\<close>: \<open>None\<close> while the caller still waits.\<close>

definition worker_result :: "('s, 'r) DatabaseWorker \<Rightarrow> nat \<Rightarrow> (io_kind + 'r) option" where
  "worker_result w call = wk_results w call"

definition drop_commands ::
  "(nat \<times> ('s, 'r) Command) list \<Rightarrow> (nat \<rightharpoonup> io_kind + 'r) \<Rightarrow> (nat \<rightharpoonup> io_kind + 'r)" where
  "drop_commands queue results = fold (\<lambda>(call, _) m. m(call \<mapsto> Inl BrokenPipe)) queue results"

text \<open>One round of the thread's loop.\<close>

definition worker_round :: "('s, 'r) DatabaseWorker \<Rightarrow> ('s, 'r) DatabaseWorker" where
  "worker_round w =
     (case (wk_state w, wk_queue w) of
        (Some s, (call, command) # queue) \<Rightarrow>
          (case command s of
             Some (r, s') \<Rightarrow>
               w\<lparr>wk_queue := queue, wk_state := Some s', wk_results := (wk_results w)(call \<mapsto> Inr r)\<rparr>
           | None \<Rightarrow>
               w\<lparr>wk_queue := [], wk_state := None,
                 wk_results := drop_commands ((call, command) # queue) (wk_results w)\<rparr>)
      | _ \<Rightarrow> w)"

section \<open>Sequential execution\<close>

text \<open>
  The specification: one command after the other on the state, without queue or thread. After a
  panic every further command fails.
\<close>

type_synonym ('s, 'r) outcome = "(nat \<rightharpoonup> io_kind + 'r) \<times> 's option"

fun run_command :: "nat \<times> ('s, 'r) Command \<Rightarrow> ('s, 'r) outcome \<Rightarrow> ('s, 'r) outcome" where
  "run_command (call, command) (results, None) = (results(call \<mapsto> Inl BrokenPipe), None)"
| "run_command (call, command) (results, Some s) =
     (case command s of
        Some (r, s') \<Rightarrow> (results(call \<mapsto> Inr r), Some s')
      | None \<Rightarrow> (results(call \<mapsto> Inl BrokenPipe), None))"

abbreviation run_commands :: "(nat \<times> ('s, 'r) Command) list \<Rightarrow> ('s, 'r) outcome \<Rightarrow> ('s, 'r) outcome" where
  "run_commands \<equiv> fold run_command"

text \<open>What a worker stands for: the outcome once its queue has been run.\<close>

definition drained :: "('s, 'r) DatabaseWorker \<Rightarrow> ('s, 'r) outcome" where
  "drained w = run_commands (wk_queue w) (wk_results w, wk_state w)"

lemma run_commands_stopped: "run_commands queue (results, None) = (drop_commands queue results, None)"
  by (induction queue arbitrary: results) (auto simp: drop_commands_def)

lemma drained_round: "drained (worker_round w) = drained w"
  by (auto simp: drained_def worker_round_def run_commands_stopped drop_commands_def
      split: option.splits list.splits)

lemma drained_submit:
  "worker_submit call command w = (Inr (), w') \<Longrightarrow> drained w' = run_command (call, command) (drained w)"
  by (auto simp: drained_def worker_submit_def split: if_splits)

lemma drained_refused: "worker_submit call command w = (Inl e, w') \<Longrightarrow> drained w' = drained w"
  by (auto simp: drained_def worker_submit_def split: if_splits)

section \<open>Runs\<close>

datatype ('s, 'r) worker_event = Submit nat "('s, 'r) Command" | Round

text \<open>A run of the callers and the thread, in any interleaving, with the commands it admits.\<close>

fun worker_run ::
  "('s, 'r) worker_event list \<Rightarrow> ('s, 'r) DatabaseWorker
   \<Rightarrow> ('s, 'r) DatabaseWorker \<times> (nat \<times> ('s, 'r) Command) list" where
  "worker_run [] w = (w, [])"
| "worker_run (Round # events) w = worker_run events (worker_round w)"
| "worker_run (Submit call command # events) w =
     (case worker_submit call command w of
        (Inl _, w') \<Rightarrow> worker_run events w'
      | (Inr _, w') \<Rightarrow> (let (w'', admitted) = worker_run events w' in (w'', (call, command) # admitted)))"

definition worker_ok :: "('s, 'r) DatabaseWorker \<Rightarrow> bool" where
  "worker_ok w \<longleftrightarrow> length (wk_queue w) \<le> wk_capacity w \<and> (wk_state w = None \<longrightarrow> wk_queue w = [])"

lemma worker_ok_submit: "worker_ok w \<Longrightarrow> worker_submit call command w = (r, w') \<Longrightarrow> worker_ok w'"
  by (auto simp: worker_ok_def worker_submit_def split: if_splits)

lemma worker_ok_round: "worker_ok w \<Longrightarrow> worker_ok (worker_round w)"
  by (auto simp: worker_ok_def worker_round_def split: option.splits list.splits)

lemma capacity_round [simp]: "wk_capacity (worker_round w) = wk_capacity w"
  by (simp add: worker_round_def split: option.splits list.splits)

lemma capacity_submit: "worker_submit call command w = (r, w') \<Longrightarrow> wk_capacity w' = wk_capacity w"
  by (auto simp: worker_submit_def split: if_splits)

lemma worker_run_ok:
  "worker_run events w = (w', admitted) \<Longrightarrow> worker_ok w \<Longrightarrow>
   worker_ok w' \<and> wk_capacity w' = wk_capacity w \<and> drained w' = run_commands admitted (drained w)"
proof (induction events w arbitrary: w' admitted rule: worker_run.induct)
  case (2 events w)
  from 2(1) [OF _ worker_ok_round [OF 2(3)], of w' admitted] 2(2) show ?case by (simp add: drained_round)
next
  case (3 call command events w)
  obtain r v where v: "worker_submit call command w = (r, v)" by fastforce
  note v_ok = worker_ok_submit [OF 3(4) v] capacity_submit [OF v]
  show ?case
  proof (cases r)
    case (Inl e)
    with 3(3) v have "worker_run events v = (w', admitted)" by simp
    from 3(1) [OF v [symmetric] Inl this v_ok(1)] v_ok(2) drained_refused [OF v [unfolded Inl]] show ?thesis by simp
  next
    case (Inr u)
    with 3(3) v obtain rest where run: "worker_run events v = (w', rest)" "admitted = (call, command) # rest"
      by (auto split: prod.splits)
    have "worker_submit call command w = (Inr (), v)" using v Inr by simp
    from drained_submit [OF this] 3(2) [OF v [symmetric] Inr run(1) v_ok(1)] v_ok(2) run(2) show ?thesis by simp
  qed
qed simp

section \<open>Completion\<close>

lemma drop_commands_apply: "drop_commands queue results c =
    (if c \<in> fst ` set queue then Some (Inl BrokenPipe) else results c)"
  by (induction queue arbitrary: results) (auto simp: drop_commands_def)

text \<open>A command that is queued at position \<open>i\<close> is answered after \<open>i + 1\<close> rounds, whatever is submitted meanwhile.\<close>

fun rounds :: "('s, 'r) worker_event list \<Rightarrow> nat" where
  "rounds [] = 0"
| "rounds (Round # events) = Suc (rounds events)"
| "rounds (Submit _ _ # events) = rounds events"

definition answered :: "('s, 'r) DatabaseWorker \<Rightarrow> nat \<Rightarrow> bool" where
  "answered w call \<longleftrightarrow> worker_result w call \<noteq> None"

lemma answered_round: "answered w c \<Longrightarrow> answered (worker_round w) c"
  by (auto simp: answered_def worker_result_def worker_round_def drop_commands_apply
      split: option.splits list.splits)

lemma answered_submit: "worker_submit call command w = (r, w') \<Longrightarrow> answered w' c = answered w c"
  by (auto simp: answered_def worker_result_def worker_submit_def split: if_splits)

lemma answered_run: "worker_run events w = (w', admitted) \<Longrightarrow> answered w c \<Longrightarrow> answered w' c"
proof (induction events w arbitrary: w' admitted rule: worker_run.induct)
  case (3 call command events w)
  obtain r v where v: "worker_submit call command w = (r, v)" by fastforce
  from 3 v answered_submit [OF v] show ?case by (cases r) (auto split: prod.splits)
qed (auto simp: answered_round)

lemma round_progress:
  assumes "worker_ok w" "wk_queue w = pre @ (c, command) # post"
  shows "answered (worker_round w) c \<or> (\<exists>p ps. pre = p # ps \<and> wk_queue (worker_round w) = ps @ (c, command) # post)"
proof -
  from assms obtain s where "wk_state w = Some s" by (auto simp: worker_ok_def)
  with assms(2) show ?thesis
    by (cases pre) (auto simp: answered_def worker_result_def worker_round_def drop_commands_apply
      split: option.splits)
qed

lemma submit_keeps_place:
  assumes "wk_queue w = pre @ (c, command) # post" "worker_submit call x w = (r, w')"
  shows "\<exists>post'. wk_queue w' = pre @ (c, command) # post'"
  using assms by (auto simp: worker_submit_def split: if_splits)

lemma queued_is_answered:
  "worker_run events w = (w', admitted) \<Longrightarrow> worker_ok w \<Longrightarrow> wk_queue w = pre @ (c, command) # post \<Longrightarrow>
   length pre < rounds events \<Longrightarrow> answered w' c"
proof (induction events w arbitrary: w' admitted pre post rule: worker_run.induct)
  case (2 events w)
  from round_progress [OF 2(3,4)] show ?case
  proof
    assume "answered (worker_round w) c"
    with 2(2) show ?thesis by (auto intro: answered_run)
  next
    assume "\<exists>p ps. pre = p # ps \<and> wk_queue (worker_round w) = ps @ (c, command) # post"
    with 2 show ?thesis by (auto simp: worker_ok_round)
  qed
next
  case (3 call x events w)
  obtain r v where v: "worker_submit call x w = (r, v)" by fastforce
  from submit_keeps_place [OF 3(5) v] obtain post' where q: "wk_queue v = pre @ (c, command) # post'" by blast
  from 3 v q worker_ok_submit [OF 3(4) v] show ?case by (cases r) (auto split: prod.splits)
qed simp

end
