(* ===== verification/Relay_Server_Claims.thy ===== *)
theory Relay_Server_Claims
  imports Relay_Server Relay_Worker Relay_Policy_Claims
begin

text \<open>
  The properties of the relay's concurrent parts: the database thread, the hub, the login and the
  session loop, over all connections at once.
\<close>

section \<open>The database thread\<close>

text \<open>
  Property C15. The database thread is an implementation of sequential execution: however callers
  and thread interleave, running what is still queued gives exactly the state and the answers of
  the admitted commands run one after the other in the order of admission; the queue never holds
  more than its capacity.
\<close>

theorem worker_serializes:
  assumes "worker_start False s limit = Inr w" "worker_run events w = (w', admitted)"
  shows "drained w' = run_commands admitted (Map.empty, Some s) \<and> length (wk_queue w') \<le> limit"
proof -
  from assms(1) have w: "worker_ok w" "drained w = (Map.empty, Some s)" "wk_capacity w = limit"
    by (auto simp: worker_start_def worker_ok_def drained_def split: if_splits)
  from worker_run_ok [OF assms(2) w(1)] show ?thesis by (auto simp: w worker_ok_def)
qed

definition fx_tick :: "(nat, nat) Command" where
  "fx_tick s = (if s < 10 then Some (s, s + 1) else None)"

theorem worker_serializes_witness:
  "drained \<lparr>wk_capacity = 1, wk_queue = [(2, fx_tick)], wk_state = Some 6, wk_results = [0 \<mapsto> Inr 5], wk_queue_pressure = 1\<rparr>
     = run_commands [(0, fx_tick), (2, fx_tick)] (Map.empty, Some 5)
   \<and> length [(2 :: nat, fx_tick)] \<le> 1"
proof -
  let ?w' = "\<lparr>wk_capacity = 1, wk_queue = [(2, fx_tick)], wk_state = Some 6, wk_results = [0 \<mapsto> Inr 5], wk_queue_pressure = 1\<rparr>"
  let ?w = "\<lparr>wk_capacity = 1, wk_queue = [], wk_state = Some 5, wk_results = Map.empty, wk_queue_pressure = 0\<rparr>"
  have "worker_start False (5 :: nat) 1 = Inr ?w" by (simp add: worker_start_def)
  moreover have "worker_run [Submit 0 fx_tick, Submit 1 fx_tick, Round, Submit 2 fx_tick] ?w = (?w', [(0, fx_tick), (2, fx_tick)])"
    by (simp add: worker_submit_def worker_round_def fx_tick_def)
  ultimately have "drained ?w' = run_commands [(0, fx_tick), (2, fx_tick)] (Map.empty, Some 5) \<and> length (wk_queue ?w') \<le> 1"
    by (rule worker_serializes)
  then show ?thesis by simp
qed

text \<open>
  An admitted command is always answered: once the thread has made as many rounds
  as there were commands in the queue, the caller has a result, or the notice that a panic ended
  the thread, whatever else was submitted meanwhile.
\<close>

theorem admitted_work_completes:
  assumes "worker_start False s limit = Inr w" "worker_run before w = (w1, admitted1)"
    and "worker_submit call command w1 = (Inr (), w2)" "worker_run after w2 = (w3, admitted2)"
    and "length (wk_queue w2) \<le> rounds after"
  shows "\<exists>answer. worker_result w3 call = Some answer"
proof -
  from assms(1) have "worker_ok w" by (auto simp: worker_start_def worker_ok_def split: if_splits)
  with worker_run_ok [OF assms(2)] have "worker_ok w1" by blast
  then have ok: "worker_ok w2" using assms(3) by (rule worker_ok_submit)
  from assms(3) have "wk_queue w2 = wk_queue w1 @ [(call, command)]"
    by (auto simp: worker_submit_def split: if_splits)
  with queued_is_answered [OF assms(4) ok, of "wk_queue w1" call command "[]"] assms(5) show ?thesis
    by (auto simp: answered_def)
qed

theorem admitted_work_completes_witness:
  "\<exists>answer. worker_result \<lparr>wk_capacity = 2, wk_queue = [], wk_state = Some (6 :: nat), wk_results = [7 \<mapsto> Inr 5], wk_queue_pressure = 0\<rparr> 7
     = Some (answer :: io_kind + nat)"
proof -
  let ?w = "\<lparr>wk_capacity = 2, wk_queue = [], wk_state = Some 5, wk_results = Map.empty, wk_queue_pressure = 0\<rparr> :: (nat, nat) DatabaseWorker"
  let ?v = "?w\<lparr>wk_queue := [(7, fx_tick)]\<rparr>"
  have "worker_start False 5 2 = Inr ?w" by (simp add: worker_start_def)
  moreover have "worker_run [Round] ?w = (?w, [])" by (simp add: worker_round_def)
  moreover have "worker_submit 7 fx_tick ?w = (Inr (), ?v)" by (simp add: worker_submit_def)
  moreover have "worker_run [Round, Round] ?v =
      (\<lparr>wk_capacity = 2, wk_queue = [], wk_state = Some 6, wk_results = [7 \<mapsto> Inr 5], wk_queue_pressure = 0\<rparr>, [])"
    by (simp add: worker_round_def fx_tick_def)
  ultimately show ?thesis by (rule admitted_work_completes) simp
qed

section \<open>Sessions\<close>

text \<open>
  Property C13. Only authenticated users have sessions: in every reachable state of the relay an
  established connection presented a signature of its own challenge that verifies under its key,
  that key is the one pinned for the user, no other connection is established for the user, and
  the hub holds exactly this connection for the user, alive and with at most one notification
  waiting.
\<close>

theorem sessions_are_authenticated:
  assumes "postcard_wire pc" "server_reachable pc sha256 verify_strict config rl"
    and "rl_phases rl i = Some (Established c connection)"
  shows "(\<exists>signature. cr_signature c = Some signature
        \<and> verify_strict (public_key_bytes (cr_key c))
            (authentication_transcript PROTOCOL_VERSION (cr_user c) (cr_key c) (cr_challenge c)) (signature_bytes signature))
    \<and> db_identities (rs_db (sv_relay (rl_server rl))) (cr_user c) = Some (cr_key c)
    \<and> (\<forall>j d n. rl_phases rl j = Some (Established d n) \<and> cr_user d = cr_user c \<longrightarrow> j = i)
    \<and> hub_connections (sv_hub (rl_server rl)) (cr_user c) = Some [connection]
    \<and> hub_channels (sv_hub (rl_server rl)) (cr_user c, connection) \<in> {Some quiet, Some woken}"
proof -
  from server_reachable_ok [OF assms(1,2)] obtain live where repo: "repo_ok pc sha256 verify_strict rl"
    and hub: "sessions_ok (sessions (rl_phases rl)) (sv_hub (rl_server rl)) live" by (auto simp: server_ok_def)
  have est: "sessions (rl_phases rl) i = Some (cr_user c, connection)" using assms(3) by (simp add: sessions_def)
  have "j = i" if "rl_phases rl j = Some (Established d n)" "cr_user d = cr_user c" for j d n
  proof -
    from that have "sessions (rl_phases rl) j = Some (cr_user c, n)" by (simp add: sessions_def)
    with est hub show ?thesis unfolding sessions_ok_def by fastforce
  qed
  moreover from hub est have "(cr_user c, connection) \<in> set live" "hub_ok (sv_hub (rl_server rl), live)"
    by (auto simp: sessions_ok_def dest: ranI)
  moreover from repo_ok_phase [OF repo assms(3)] have "verified verify_strict c" "pinned (rs_db (sv_relay (rl_server rl))) c"
    by auto
  ultimately show ?thesis
    using hub_ok_live by (auto simp: verified_def verify_authentication_signature_def pinned_def)
qed

text \<open>
  Property C14. The sessions refine the repository: whatever the connections do, and whatever is
  left in the queue by connections that have gone, the repository only ever goes through states of
  its own transition system, so every result about its reachable states holds in the running
  relay; and every stored event was sent by an enrolled user.
\<close>

theorem sessions_refine_the_repository:
  assumes "postcard_wire pc" "server_reachable pc sha256 verify_strict config rl"
  shows "reachable pc sha256 (sv_relay (rl_server rl))
    \<and> er_sender ` set (db_delivery_events (rs_db (sv_relay (rl_server rl))))
        \<subseteq> dom (db_identities (rs_db (sv_relay (rl_server rl))))"
  using server_reachable_ok [OF assms] by (simp add: server_ok_def repo_ok_def Let_def senders_known_def)

text \<open>
  Property C31. No wake-up is lost: when an append is accepted, every established connection,
  the sender's included, has a change notification waiting, and none is dropped from the hub.
\<close>

theorem accepted_appends_wake_everyone:
  assumes "postcard_wire pc" "server_reachable pc sha256 verify_strict config rl"
    and "rl_phases rl i = Some (Established c connection)"
    and "admit_request (re_rnd re) config (re_now re) user (sv_hub (rl_server rl)) = (True, hub)"
    and "run_delivery pc sha256 re user request_id request ((rl_server rl)\<lparr>sv_hub := hub\<rparr>) = (AppendAccepted event, sv1)"
    and "handle_delivery pc sha256 config re user request_id request (rl_server rl) = (flow_out, sv)"
  shows "recv (cr_user c) connection (sv_hub sv) =
    (Message DeliveryChanged, (sv_hub sv)\<lparr>hub_channels := (hub_channels (sv_hub sv))((cr_user c, connection) \<mapsto> quiet)\<rparr>)"
proof -
  from server_reachable_ok [OF assms(1,2)] obtain live where
    hub: "sessions_ok (sessions (rl_phases rl)) (sv_hub (rl_server rl)) live" by (auto simp: server_ok_def)
  have "sessions (rl_phases rl) i = Some (cr_user c, connection)" using assms(3) by (simp add: sessions_def)
  with hub have live: "(cr_user c, connection) \<in> set live" and ok: "hub_ok (sv_hub (rl_server rl), live)"
    by (auto simp: sessions_ok_def dest: ranI)
  have ok1: "hub_ok (hub, live)" using hub_ok_step [OF hub_step.admits [OF assms(4)] ok] .
  from assms(5) have sv1: "sv_hub sv1 = hub" by (auto simp: run_delivery_def split: option.splits prod.splits sum.splits)
  with assms(4-6) have sv: "sv_hub sv = notify (hub_active_identities hub) DeliveryChanged hub"
    by (auto simp: handle_delivery_def Let_def is_accepted_def)
  have "hub_ok (notify (hub_active_identities hub) DeliveryChanged hub, live)"
    using hub_ok_step [OF hub_step.notifies ok1] .
  moreover have "hub_channels (notify (hub_active_identities hub) DeliveryChanged hub) (cr_user c, connection) = Some woken"
  proof -
    have "cr_user c \<in> set (hub_active_identities hub)" using ok1 live by (force simp: hub_ok_def)
    then show ?thesis using live by (simp add: notify_wakes [OF ok1])
  qed
  ultimately show ?thesis using live by (simp add: recv_live sv)
qed

text \<open>What a request should be answered with, and what is left of the repository.\<close>

definition turned_away :: "RuntimeLimits \<Rightarrow> round_env \<Rightarrow> UserId \<Rightarrow> Server \<Rightarrow> bool" where
  "turned_away config re user sv \<longleftrightarrow>
     \<not> fst (admit_request (re_rnd re) config (re_now re) user (sv_hub sv)) \<or> re_refused re \<noteq> None"

definition answer_of ::
  "postcard \<Rightarrow> (bytes \<Rightarrow> bytes) \<Rightarrow> RuntimeLimits \<Rightarrow> round_env \<Rightarrow> UserId \<Rightarrow> MessageId \<Rightarrow> Request \<Rightarrow> Server
   \<Rightarrow> Response \<times> RelayState" where
  "answer_of pc sha256 config re user request_id request sv =
     (if turned_away config re user sv then (Rejected Overloaded, sv_relay sv)
      else case deliver pc sha256 (re_env re) (sv_relay sv) user request_id request of
             (Inl e, s) \<Rightarrow> (Rejected Internal, s) | (Inr r, s) \<Rightarrow> (r, s))"

text \<open>
  Every request is answered once, under its own identifier, and the answer says
  what happened: over the rate, or not taken by the database queue, it is \<open>Overloaded\<close> and the
  repository is untouched; a storage failure is \<open>Internal\<close> and leaves the tables as they were;
  otherwise it is the repository's response. The session goes on.
\<close>

theorem requests_are_answered:
  assumes "answer_of pc sha256 config re user request_id request sv = (response, s)" "re_fault re = None"
    and "length (ser_relay_message pc (RelayDelivery request_id response)) \<le> MAX_PAYLOAD"
  shows "\<exists>sv'. handle_inbound pc sha256 config re user (Some (InboundMessage (ClientDelivery request_id request))) sv
      = ((Continue, [ser_relay_message pc (RelayDelivery request_id response)]), sv') \<and> sv_relay sv' = s"
proof -
  obtain ok hub where a: "admit_request (re_rnd re) config (re_now re) user (sv_hub sv) = (ok, hub)" by fastforce
  obtain result s1 where d: "deliver pc sha256 (re_env re) (sv_relay sv) user request_id request = (result, s1)" by fastforce
  note unfold = handle_inbound_def handle_delivery_def run_delivery_def write_reply_def send_def encode_message_def
    answer_of_def turned_away_def Let_def
  show ?thesis
  proof (cases "turned_away config re user sv")
    case True
    with assms a show ?thesis by (cases "re_refused re") (auto simp: unfold is_accepted_def)
  next
    case False
    with assms a d show ?thesis by (cases result) (auto simp: unfold)
  qed
qed

section \<open>An honest login\<close>

lemma send_fits:
  "length (ser_relay_message pc m) \<le> MAX_PAYLOAD \<Longrightarrow> send pc None m = (Inr (), [ser_relay_message pc m])"
  by (simp add: send_def encode_message_def leD)

context postcard_wire
begin

lemma size_login:
  "length (ser_client_message pc (ClientHello v)) \<le> MAX_PAYLOAD"
  "wf_user u \<Longrightarrow> wf_public_key k \<Longrightarrow> pred_option (\<lambda>t. length t = 32) e \<Longrightarrow>
    length (ser_client_message pc (ClientIdentify u k e)) \<le> MAX_PAYLOAD"
  "wf_signature g \<Longrightarrow> length (ser_client_message pc (ClientAuthenticationResponse g)) \<le> MAX_PAYLOAD"
  "length (ser_relay_message pc (ServerHello v)) \<le> MAX_PAYLOAD"
  "wf_challenge h \<Longrightarrow> length (ser_relay_message pc (ServerAuthenticationChallenge h)) \<le> MAX_PAYLOAD"
  "wf_user u \<Longrightarrow> length (ser_relay_message pc (ServerIdentifyAccepted u)) \<le> MAX_PAYLOAD"
proof -
  have v: "varint_len (unat v) \<le> 10" by (rule varint_len_bounds) (use unat_u16_less [of v] in linarith)
  then show "length (ser_client_message pc (ClientHello v)) \<le> MAX_PAYLOAD"
    "length (ser_relay_message pc (ServerHello v)) \<le> MAX_PAYLOAD"
    by (simp_all add: ser_client_message_def ser_relay_message_def serialize_tagged_def primitive_sizes MAX_PAYLOAD_def)
qed (auto simp: ser_client_message_def ser_relay_message_def serialize_tagged_def primitive_sizes size_ids size_array
    MAX_PAYLOAD_def ser_option_def ser_public_key_def ser_signature_def ser_challenge_def wf_public_key_def wf_signature_def
    wf_challenge_def split: option.splits)

lemma handshake_honest:
  "wf_client_message m \<Longrightarrow> length (ser_client_message pc m) \<le> MAX_PAYLOAD \<Longrightarrow>
   handshake_message pc (Inr (Some (ser_client_message pc m))) = Inr (Some m)"
  by (simp add: handshake_message_def decode_message_def client_message.take_ser_all)

lemma honest_hello:
  "le_fault le = None \<Longrightarrow>
   auth_step pc sha256 le (Inr (Some (ser_client_message pc (ClientHello PROTOCOL_VERSION)))) AwaitHello sv =
     ((Inr AwaitIdentify, [ser_relay_message pc (ServerHello PROTOCOL_VERSION)]), sv)"
  by (simp add: auth_hello_def handshake_honest wf_client_message_def size_login reply_def send_fits)

lemma honest_identify:
  "wf_user u \<Longrightarrow> wf_public_key k \<Longrightarrow> pred_option (\<lambda>t. length t = 32) e \<Longrightarrow> wf_challenge h \<Longrightarrow>
   le_fault le = None \<Longrightarrow> le_valid_key le (public_key_bytes k) \<Longrightarrow> le_generate le = Some h \<Longrightarrow>
   auth_step pc sha256 le (Inr (Some (ser_client_message pc (ClientIdentify u k e)))) AwaitIdentify sv =
     ((Inr (AwaitResponse \<lparr>cr_user = u, cr_key = k, cr_enrollment = e, cr_challenge = h, cr_signature = None\<rparr>),
       [ser_relay_message pc (ServerAuthenticationChallenge h)]), sv)"
  by (simp add: auth_identify_def handshake_honest wf_client_message_def size_login reply_def send_fits)

lemma honest_response:
  "wf_signature g \<Longrightarrow>
   verify_authentication_signature (le_verify_strict le) (cr_user c) (cr_key c) (cr_challenge c) g \<Longrightarrow>
   auth_step pc sha256 le (Inr (Some (ser_client_message pc (ClientAuthenticationResponse g)))) (AwaitResponse c) sv =
     ((Inr (Verified (c\<lparr>cr_signature := Some g\<rparr>)), []), sv)"
  by (simp add: auth_response_def handshake_honest wf_client_message_def size_login)

lemma honest_register:
  "le_refused le = None \<Longrightarrow>
   register_enrolled_identity sha256 (le_env le) (sv_relay sv) (cr_user c) (cr_key c) (cr_enrollment c) = Some (Inr ok, s) \<Longrightarrow>
   auth_step pc sha256 le frame (Verified c) sv = ((Inr (Registered c), []), sv\<lparr>sv_relay := s\<rparr>)"
  by (simp add: auth_register_def)

lemma honest_activate:
  "wf_user (cr_user c) \<Longrightarrow> le_fault le = None \<Longrightarrow> register (cr_user c) (sv_hub sv) = (Inr n, hub) \<Longrightarrow>
   auth_step pc sha256 le frame (Registered c) sv =
     ((Inr (Established c n), [ser_relay_message pc (ServerIdentifyAccepted (cr_user c))]), sv\<lparr>sv_hub := hub\<rparr>)"
  by (simp add: auth_activate_def reply_def send_fits size_login)

end

text \<open>
  An honest client gets in: if the three messages of the login arrive, in whatever
  pieces, the signature verifies, the repository accepts or knows the identity and the user has no
  session yet, then the login ends with an established session after exactly the three replies
  the client waits for, and what the client sent after them is still there to be read.
\<close>

theorem honest_clients_log_in:
  assumes "postcard_wire pc" "wf_user u" "wf_public_key k" "pred_option (\<lambda>t. length t = 32) e" "wf_signature g"
    and "\<not> le_timed_out le" "le_fault le = None" "le_refused le = None" "le_valid_key le (public_key_bytes k)"
    and "le_generate le = Some h" "wf_challenge h"
    and "verify_authentication_signature (le_verify_strict le) u k h g"
    and "register_enrolled_identity sha256 (le_env le) (sv_relay sv) u k e = Some (Inr ok, s)"
    and "u \<notin> set (hub_active_identities (sv_hub sv))"
    and "delivers r (frame_of (ser_client_message pc (ClientHello PROTOCOL_VERSION))
        @ frame_of (ser_client_message pc (ClientIdentify u k e))
        @ frame_of (ser_client_message pc (ClientAuthenticationResponse g)) @ rest)"
  shows "\<exists>c n r' sv'. authenticate pc sha256 (\<lambda>_. le) AwaitHello r sv =
      ((Inr (Established c n),
        map (ser_relay_message pc)
          [ServerHello PROTOCOL_VERSION, ServerAuthenticationChallenge h, ServerIdentifyAccepted u]), r', sv')
    \<and> cr_user c = u \<and> cr_key c = k \<and> delivers r' rest \<and> sv_relay sv' = s \<and> u \<in> set (hub_active_identities (sv_hub sv'))"
proof -
  note w = postcard_wire.size_login [OF assms(1)]
  define c where "c = \<lparr>cr_user = u, cr_key = k, cr_enrollment = e, cr_challenge = h, cr_signature = Some g\<rparr>"
  have max: "MAX_PAYLOAD \<le> 1048576" by (simp add: MAX_PAYLOAD_def)
  obtain r1 where r1: "read_frame r = (Inr (Some (ser_client_message pc (ClientHello PROTOCOL_VERSION))), r1)"
    "delivers r1 (frame_of (ser_client_message pc (ClientIdentify u k e))
        @ frame_of (ser_client_message pc (ClientAuthenticationResponse g)) @ rest)"
    using read_frame_written [OF le_trans [OF w(1) max] assms(15)] by blast
  obtain r2 where r2: "read_frame r1 = (Inr (Some (ser_client_message pc (ClientIdentify u k e))), r2)"
    "delivers r2 (frame_of (ser_client_message pc (ClientAuthenticationResponse g)) @ rest)"
    using read_frame_written [OF le_trans [OF w(2) [OF assms(2-4)] max] r1(2)] by blast
  obtain r3 where r3: "read_frame r2 = (Inr (Some (ser_client_message pc (ClientAuthenticationResponse g))), r3)"
    "delivers r3 rest"
    using read_frame_written [OF le_trans [OF w(3) [OF assms(5)] max] r2(2)] by blast
  obtain n hub where reg: "register u (sv_hub sv) = (Inr n, hub)" "u \<in> set (hub_active_identities hub)"
    using assms(14) by (auto simp: register_def Let_def)
  note steps = postcard_wire.honest_hello [OF assms(1,7)]
    postcard_wire.honest_identify [OF assms(1-4,11,7,9,10)]
    postcard_wire.honest_response [OF assms(1,5)] postcard_wire.honest_register [OF assms(1,8)]
    postcard_wire.honest_activate [OF assms(1)]
  have final: "authenticate pc sha256 (\<lambda>_. le) (Established c n) r3 t = ((Inr (Established c n), []), r3, t)" for t
    by (simp add: authenticate.simps)
  have activate: "authenticate pc sha256 (\<lambda>_. le) (Registered c) r3 (sv\<lparr>sv_relay := s\<rparr>) =
      ((Inr (Established c n), [ser_relay_message pc (ServerIdentifyAccepted u)]), r3, sv\<lparr>sv_relay := s, sv_hub := hub\<rparr>)"
    using steps(5) [of c le "sv\<lparr>sv_relay := s\<rparr>" n hub sha256 "Inr None"] assms(2,7) reg(1)
    by (subst authenticate.simps) (simp add: c_def final [unfolded c_def] Let_def del: auth_step.simps)
  have verified: "authenticate pc sha256 (\<lambda>_. le) (Verified c) r3 sv =
      ((Inr (Established c n), [ser_relay_message pc (ServerIdentifyAccepted u)]), r3, sv\<lparr>sv_relay := s, sv_hub := hub\<rparr>)"
    using steps(4) [of sha256 sv c ok s "Inr None"] assms(13) activate
    by (subst authenticate.simps) (simp add: c_def Let_def del: auth_step.simps)
  have response: "authenticate pc sha256 (\<lambda>_. le) (AwaitResponse (c\<lparr>cr_signature := None\<rparr>)) r2 sv =
      ((Inr (Established c n), [ser_relay_message pc (ServerIdentifyAccepted u)]), r3, sv\<lparr>sv_relay := s, sv_hub := hub\<rparr>)"
    using steps(3) [of le "c\<lparr>cr_signature := None\<rparr>" sha256 sv] assms(6,12) verified r3(1)
    by (subst authenticate.simps) (simp add: c_def Let_def read_handshake_frame_def del: auth_step.simps)
  have identify: "authenticate pc sha256 (\<lambda>_. le) AwaitIdentify r1 sv =
      ((Inr (Established c n), map (ser_relay_message pc) [ServerAuthenticationChallenge h, ServerIdentifyAccepted u]),
        r3, sv\<lparr>sv_relay := s, sv_hub := hub\<rparr>)"
    using steps(2) [of sha256 sv] assms(6) response r2(1)
    by (subst authenticate.simps) (simp add: c_def Let_def read_handshake_frame_def del: auth_step.simps)
  have "authenticate pc sha256 (\<lambda>_. le) AwaitHello r sv =
      ((Inr (Established c n), map (ser_relay_message pc)
          [ServerHello PROTOCOL_VERSION, ServerAuthenticationChallenge h, ServerIdentifyAccepted u]),
        r3, sv\<lparr>sv_relay := s, sv_hub := hub\<rparr>)"
    using steps(1) [of sha256 sv] assms(6) identify r1(1)
    by (subst authenticate.simps) (simp add: Let_def read_handshake_frame_def del: auth_step.simps)
  with r3(2) reg(2) show ?thesis by (auto simp: c_def)
qed

section \<open>A session of the fixtures\<close>

definition fx_verify :: "bytes \<Rightarrow> bytes \<Rightarrow> bytes \<Rightarrow> bool" where
  "fx_verify key transcript signature \<longleftrightarrow> key = replicate 32 5 \<and> signature = replicate 64 9"

definition fx_challenge :: AuthenticationChallenge where
  "fx_challenge = AuthenticationChallenge (replicate 32 3)"

definition fx_signature :: Ed25519SignatureBytes where
  "fx_signature = Ed25519SignatureBytes (replicate 64 9)"

definition fx_login :: login_env where
  "fx_login = \<lparr>le_valid_key = (\<lambda>_. True), le_verify_strict = fx_verify, le_timed_out = False,
     le_generate = Some fx_challenge, le_refused = None, le_env = fx_env, le_fault = None\<rparr>"

definition fx_creds :: credentials where
  "fx_creds = \<lparr>cr_user = fx_user, cr_key = fx_key, cr_enrollment = None, cr_challenge = fx_challenge,
     cr_signature = Some fx_signature\<rparr>"

definition fx_hub :: ConnectionHub where
  "fx_hub = default_hub\<lparr>hub_active_identities := [fx_user], hub_next_connection_id := 1,
     hub_connections := [fx_user \<mapsto> [0]], hub_channels := [(fx_user, 0) \<mapsto> quiet]\<rparr>"

text \<open>The repository with the user enrolled and a room of theirs, and the server on it.\<close>

definition fx_token_home :: RelayState where
  "fx_token_home = fx_state2\<lparr>rs_db := (rs_db fx_state2)\<lparr>db_enrollment_tokens := [fx_token_row]\<rparr>\<rparr>"

definition fx_home :: RelayState where
  "fx_home = fx_state2\<lparr>rs_db := (rs_db fx_state2)\<lparr>db_enrollment_tokens := [fx_token_row\<lparr>tk_consumed := True\<rparr>],
     db_identities := [fx_user \<mapsto> fx_key]\<rparr>\<rparr>"

definition fx_server :: Server where
  "fx_server = rl_server (initial_relay fx_home)"

definition fx_relay :: Relay where
  "fx_relay = \<lparr>rl_server = fx_server\<lparr>sv_hub := fx_hub\<rparr>, rl_phases = [0 \<mapsto> Established fx_creds 0], rl_abandoned = []\<rparr>"

lemma fx_wf: "wf_user fx_user" "wf_public_key fx_key" "wf_signature fx_signature" "wf_challenge fx_challenge"
  by (simp_all add: fx_user_def fx_key_def fx_signature_def fx_challenge_def wf_ids wf_public_key_def wf_signature_def wf_challenge_def)

lemma fx_login_facts:
  "le_fault fx_login = None" "le_refused fx_login = None" "le_generate fx_login = Some fx_challenge"
  "\<not> le_timed_out fx_login" "le_valid_key fx_login (public_key_bytes fx_key)" "le_verify_strict fx_login = fx_verify"
  "verify_authentication_signature (le_verify_strict fx_login) fx_user fx_key fx_challenge fx_signature"
  by (simp_all add: fx_login_def verify_authentication_signature_def fx_verify_def fx_key_def fx_signature_def)

lemma fx_home_known: "register_enrolled_identity fx_sha (le_env fx_login) fx_home fx_user fx_key None = Some (Inr Existing, fx_home)"
  by (simp add: register_enrolled_identity_def fx_login_def fx_env_def fx_home_def)

lemma fx_state2_empty: "db_enrollment_tokens (rs_db fx_state2) = []" "db_identities (rs_db fx_state2) = Map.empty"
  by (simp_all add: fx_state2_def saved_def charged_def fx_db2_def add_welcome_def add_event_def fx_state1_db empty_db_def)

lemma fx_home_reachable: "reachable postcard_v1 fx_sha fx_home"
proof -
  have "issue_enrollment fx_sha fx_env fx_state2 fx_user (replicate 32 5) = Some (Inr (hex_string (replicate 32 7)), fx_token_home)"
    by (simp add: issue_enrollment_def fx_env_def fx_hashes sql_def fx_state2_empty fx_token_home_def fx_token_row_def)
  moreover have "register_enrolled_identity fx_sha fx_env fx_token_home fx_user fx_key (Some (replicate 32 7)) = Some (Inr New, fx_home)"
    by (simp add: register_enrolled_identity_def fx_env_def fx_hashes redeemable_def consume_def Let_def
        fx_token_home_def fx_home_def fx_state2_empty fx_token_row_def)
  ultimately show ?thesis
    using fx_reachable2 relay_step.issue relay_step.registration by (blast intro: reachable_step)
qed

lemma fx_register_hub: "register fx_user default_hub = (Inr 0, fx_hub)"
  by (simp add: register_def default_hub_def fx_hub_def quiet_def)

lemma fx_relay_reachable: "server_reachable postcard_v1 fx_sha fx_verify default_runtime_limits fx_relay"
proof -
  let ?step = "server_step postcard_v1 fx_sha fx_verify default_runtime_limits"
  let ?at = "\<lambda>p. \<lparr>rl_server = fx_server, rl_phases = [0 \<mapsto> p], rl_abandoned = []\<rparr>"
  let ?c = "\<lparr>cr_user = fx_user, cr_key = fx_key, cr_enrollment = None, cr_challenge = fx_challenge, cr_signature = None\<rparr>"
  have relay: "sv_relay fx_server = fx_home" "sv_hub fx_server = default_hub"
    by (simp_all add: fx_server_def initial_relay_def)
  have "?step (initial_relay fx_home) (?at AwaitHello)"
    using server_step.accept [of "initial_relay fx_home" 0 postcard_v1 fx_sha fx_verify default_runtime_limits]
    by (simp add: initial_relay_def fx_server_def)
  moreover have login: "?step (?at p) (?at p')"
    if "auth_step postcard_v1 fx_sha fx_login frame p fx_server = ((Inr p', out), fx_server)" "steps_left p \<noteq> 0" for p p' frame out
    using server_step.login [of "?at p" 0 p fx_login fx_verify postcard_v1 fx_sha frame "Inr p'" out fx_server] that
    by (simp add: fx_login_facts end_login_def)
  note h = postcard_wire.honest_hello [OF fx_postcard fx_login_facts(1)]
    postcard_wire.honest_identify [OF fx_postcard fx_wf(1,2) _ fx_wf(4) fx_login_facts(1,5,3), of None]
    postcard_wire.honest_response [OF fx_postcard fx_wf(3), of fx_login ?c]
    postcard_wire.honest_register [OF fx_postcard fx_login_facts(2), of fx_sha fx_server fx_creds]
    postcard_wire.honest_activate [OF fx_postcard _ fx_login_facts(1), of fx_creds fx_server]
  have "?step (?at AwaitHello) (?at AwaitIdentify)" by (rule login [OF h(1)]) simp
  moreover have "?step (?at AwaitIdentify) (?at (AwaitResponse ?c))" by (rule login [OF h(2)]) simp_all
  moreover have "?step (?at (AwaitResponse ?c)) (?at (Verified fx_creds))"
    using login [OF h(3)] fx_login_facts(7) by (simp add: fx_creds_def)
  moreover have "?step (?at (Verified fx_creds)) (?at (Registered fx_creds))"
    by (rule login [where frame = "Inr None"], subst h(4)) (use fx_home_known relay in \<open>auto simp: fx_creds_def\<close>)
  moreover have "?step (?at (Registered fx_creds)) fx_relay"
    using server_step.login [of "?at (Registered fx_creds)" 0 "Registered fx_creds" fx_login fx_verify postcard_v1 fx_sha
        "Inr None" "Inr (Established fx_creds 0)" _ "fx_server\<lparr>sv_hub := fx_hub\<rparr>"] h(5) fx_register_hub relay fx_wf(1)
    by (simp add: fx_login_facts end_login_def fx_relay_def fx_creds_def del: auth_step.simps)
  ultimately have "?step\<^sup>*\<^sup>* (initial_relay fx_home) fx_relay"
    by (meson converse_rtranclp_into_rtranclp rtranclp.rtrancl_refl)
  moreover have "senders_known (rs_db fx_home)"
    by (simp add: senders_known_def fx_home_def fx_state2_def saved_def charged_def fx_db2_def add_welcome_def add_event_def
        fx_state1_db empty_db_def event_row_def fx_event1_def)
  ultimately show ?thesis using fx_home_reachable by (auto simp: server_reachable_def)
qed

theorem sessions_are_authenticated_witness:
  "(\<exists>signature. cr_signature fx_creds = Some signature
        \<and> fx_verify (public_key_bytes (cr_key fx_creds))
            (authentication_transcript PROTOCOL_VERSION (cr_user fx_creds) (cr_key fx_creds) (cr_challenge fx_creds))
            (signature_bytes signature))
    \<and> db_identities (rs_db (sv_relay (rl_server fx_relay))) (cr_user fx_creds) = Some (cr_key fx_creds)"
proof -
  have "rl_phases fx_relay 0 = Some (Established fx_creds 0)" by (simp add: fx_relay_def)
  from sessions_are_authenticated [OF fx_postcard fx_relay_reachable this] show ?thesis by blast
qed

theorem sessions_refine_the_repository_witness:
  "reachable postcard_v1 fx_sha (sv_relay (rl_server fx_relay))
    \<and> er_sender ` set (db_delivery_events (rs_db (sv_relay (rl_server fx_relay))))
        \<subseteq> dom (db_identities (rs_db (sv_relay (rl_server fx_relay))))"
  using fx_postcard fx_relay_reachable by (rule sessions_refine_the_repository)

lemma delivers_whole: "delivers [Chunk (frame_of payload @ bs)] (frame_of payload @ bs)"
proof -
  have "length (frame_of payload) \<ge> 4" by (simp add: frame_of_def)
  then have "frame_of payload \<noteq> []" by auto
  then show ?thesis unfolding delivers_def by (intro exI [of _ "[frame_of payload @ bs]"]) simp
qed

theorem honest_clients_log_in_witness:
  "\<exists>c n r' sv'. authenticate postcard_v1 fx_sha (\<lambda>_. fx_login) AwaitHello
      [Chunk (frame_of (ser_client_message postcard_v1 (ClientHello PROTOCOL_VERSION))
        @ frame_of (ser_client_message postcard_v1 (ClientIdentify fx_user fx_key None))
        @ frame_of (ser_client_message postcard_v1 (ClientAuthenticationResponse fx_signature)))] fx_server =
      ((Inr (Established c n),
        map (ser_relay_message postcard_v1)
          [ServerHello PROTOCOL_VERSION, ServerAuthenticationChallenge fx_challenge, ServerIdentifyAccepted fx_user]), r', sv')
    \<and> cr_user c = fx_user \<and> cr_key c = fx_key \<and> delivers r' [] \<and> sv_relay sv' = fx_home
    \<and> fx_user \<in> set (hub_active_identities (sv_hub sv'))"
proof (rule honest_clients_log_in [OF fx_postcard fx_wf(1,2) _ fx_wf(3) fx_login_facts(4,1,2,5,3) fx_wf(4) fx_login_facts(7)])
  have "sv_relay fx_server = fx_home" by (simp add: fx_server_def initial_relay_def)
  then show "register_enrolled_identity fx_sha (le_env fx_login) (sv_relay fx_server) fx_user fx_key None = Some (Inr Existing, fx_home)"
    using fx_home_known by simp
  show "fx_user \<notin> set (hub_active_identities (sv_hub fx_server))"
    by (simp add: fx_server_def initial_relay_def default_hub_def)
qed (simp_all add: delivers_whole)

definition fx_round :: round_env where
  "fx_round = \<lparr>re_rnd = (\<lambda>x. x), re_now = 0, re_refused = None, re_env = fx_env, re_fault = None\<rparr>"

lemma fx_request_admitted:
  "admit_request (re_rnd fx_round) default_runtime_limits (re_now fx_round) fx_user (sv_hub (rl_server fx_relay))
   = (True, fx_hub\<lparr>hub_rates := [fx_user \<mapsto> (0, 39)]\<rparr>)"
  by (simp add: admit_request_def fx_round_def fx_relay_def retain_recent_def fx_hub_def default_hub_def Let_def
      default_runtime_limits_def as_secs_f64_def fun_eq_iff)

lemma fx_home_answers:
  "deliver postcard_v1 fx_sha fx_env fx_home fx_user fx_event_id (AppendRoomOperation fx_op)
   = (Inr (AppendAccepted fx_event1), fx_home)"
proof -
  have "fst (deliver postcard_v1 fx_sha fx_env fx_home fx_user fx_event_id (AppendRoomOperation fx_op))
      = fst (deliver postcard_v1 fx_sha fx_env fx_state2 fx_user fx_event_id (AppendRoomOperation fx_op))"
    "snd (deliver postcard_v1 fx_sha fx_env fx_home fx_user fx_event_id (AppendRoomOperation fx_op)) = fx_home"
    by (simp_all add: deliver_def fx_home_def fx_state2_def saved_def payload_hash_def encode_message_def fx_append_sizes(1) leD)
  then show ?thesis by (simp add: fx_appended_again prod_eq_iff)
qed

theorem accepted_appends_wake_everyone_witness:
  "recv (cr_user fx_creds) 0 (sv_hub (snd (handle_delivery postcard_v1 fx_sha default_runtime_limits fx_round fx_user
        fx_event_id (AppendRoomOperation fx_op) (rl_server fx_relay)))) =
    (Message DeliveryChanged, (sv_hub (snd (handle_delivery postcard_v1 fx_sha default_runtime_limits fx_round fx_user
        fx_event_id (AppendRoomOperation fx_op) (rl_server fx_relay))))
      \<lparr>hub_channels := (hub_channels (sv_hub (snd (handle_delivery postcard_v1 fx_sha default_runtime_limits fx_round fx_user
        fx_event_id (AppendRoomOperation fx_op) (rl_server fx_relay)))))((cr_user fx_creds, 0) \<mapsto> quiet)\<rparr>)"
proof (rule accepted_appends_wake_everyone [OF fx_postcard fx_relay_reachable _ fx_request_admitted])
  show "rl_phases fx_relay 0 = Some (Established fx_creds 0)" by (simp add: fx_relay_def)
  show "run_delivery postcard_v1 fx_sha fx_round fx_user fx_event_id (AppendRoomOperation fx_op)
      ((rl_server fx_relay)\<lparr>sv_hub := fx_hub\<lparr>hub_rates := [fx_user \<mapsto> (0, 39)]\<rparr>\<rparr>)
    = (AppendAccepted fx_event1, (rl_server fx_relay)\<lparr>sv_hub := fx_hub\<lparr>hub_rates := [fx_user \<mapsto> (0, 39)]\<rparr>, sv_relay := fx_home\<rparr>)"
    by (simp add: run_delivery_def fx_round_def fx_relay_def fx_server_def initial_relay_def fx_home_answers)
qed (rule prod.collapse [symmetric])

theorem requests_are_answered_witness:
  "\<exists>sv'. handle_inbound postcard_v1 fx_sha default_runtime_limits fx_round fx_user
        (Some (InboundMessage (ClientDelivery fx_event_id (AppendRoomOperation fx_op)))) (rl_server fx_relay)
      = ((Continue, [ser_relay_message postcard_v1 (RelayDelivery fx_event_id (AppendAccepted fx_event1))]), sv')
    \<and> sv_relay sv' = fx_home"
proof (rule requests_are_answered)
  show "answer_of postcard_v1 fx_sha default_runtime_limits fx_round fx_user fx_event_id (AppendRoomOperation fx_op) (rl_server fx_relay)
      = (AppendAccepted fx_event1, fx_home)"
  proof -
    have "sv_relay (rl_server fx_relay) = fx_home" "re_refused fx_round = None" "re_env fx_round = fx_env"
      by (simp_all add: fx_relay_def fx_server_def initial_relay_def fx_round_def)
    then show ?thesis by (simp add: answer_of_def turned_away_def fx_request_admitted fx_home_answers)
  qed
  show "re_fault fx_round = None" by (simp add: fx_round_def)
  show "length (ser_relay_message postcard_v1 (RelayDelivery fx_event_id (AppendAccepted fx_event1))) \<le> MAX_PAYLOAD"
    by (simp add: wire_eval MAX_PAYLOAD_def fx_op_def fx_event1_def fx_attachment_def fx_guest_def fx_defs)
qed

section \<open>Limits on clients\<close>

text \<open>What the token bucket needs of \<open>f64\<close>: rounding is monotone, settles at once, and is exact on small integers.\<close>

definition rounds_like_f64 :: "(real \<Rightarrow> real) \<Rightarrow> bool" where
  "rounds_like_f64 rnd \<longleftrightarrow> mono rnd \<and> (\<forall>x. rnd (rnd x) = rnd x) \<and> (\<forall>n \<le> 2 ^ 53. rnd (real n) = real n)"

text \<open>How many of \<open>k\<close> requests of one user at one instant are admitted.\<close>

fun burst_of :: "(real \<Rightarrow> real) \<Rightarrow> RuntimeLimits \<Rightarrow> nat \<Rightarrow> UserId \<Rightarrow> nat \<Rightarrow> ConnectionHub \<Rightarrow> nat" where
  "burst_of rnd config now user 0 hub = 0"
| "burst_of rnd config now user (Suc k) hub =
     (let (admitted, hub') = admit_request rnd config now user hub
      in (if admitted then 1 else 0) + burst_of rnd config now user k hub')"

lemma f64_zero: "rounds_like_f64 rnd \<Longrightarrow> rnd 0 = 0"
proof -
  assume "rounds_like_f64 rnd"
  then have "\<forall>n \<le> 2 ^ 53. rnd (real n) = real n" by (simp add: rounds_like_f64_def)
  from this [rule_format, of 0] show "rnd 0 = 0" by simp
qed

lemma admit_same_instant:
  assumes "rounds_like_f64 rnd" "hub_rates hub user = Some (now, t)" "rnd t = t" "t \<le> rnd (real (rt_request_burst config))"
  shows "admit_request rnd config now user hub =
    (if t < 1 then (False, hub\<lparr>hub_rates := (retain_recent now (hub_rates hub))(user \<mapsto> (now, t))\<rparr>)
     else (True, hub\<lparr>hub_rates := (retain_recent now (hub_rates hub))(user \<mapsto> (now, rnd (t - 1)))\<rparr>))"
  using assms f64_zero [OF assms(1)]
  by (simp add: admit_request_def Let_def retain_recent_def as_secs_f64_def min_absorb1)

lemma burst_same_instant:
  assumes "rounds_like_f64 rnd" "rt_request_burst config \<le> 2 ^ 53"
    and "hub_rates hub user = Some (now, t)" "rnd t = t" "t \<le> real n" "n \<le> rt_request_burst config"
  shows "burst_of rnd config now user k hub \<le> n"
  using assms(3-6)
proof (induction k arbitrary: hub t n)
  case (Suc k)
  have b: "rnd (real (rt_request_burst config)) = real (rt_request_burst config)"
    using assms(1,2) by (simp add: rounds_like_f64_def)
  with Suc.prems(3,4) have "t \<le> rnd (real (rt_request_burst config))" by simp
  note step = admit_same_instant [OF assms(1) Suc.prems(1,2) this]
  show ?case
  proof (cases "t < 1")
    case True
    then show ?thesis
      using step Suc.IH [of "hub\<lparr>hub_rates := (retain_recent now (hub_rates hub))(user \<mapsto> (now, t))\<rparr>" t n] Suc.prems
      by simp
  next
    case False
    with Suc.prems(3) obtain m where n: "n = Suc m" by (cases n) auto
    have "rnd (t - 1) \<le> rnd (real m)"
      using assms(1) Suc.prems(3) n by (intro monoD [of rnd]) (auto simp: rounds_like_f64_def)
    also have "\<dots> = real m" using assms(1,2) Suc.prems(4) n by (simp add: rounds_like_f64_def)
    finally have "rnd (t - 1) \<le> real m" .
    moreover have "rnd (rnd (t - 1)) = rnd (t - 1)" using assms(1) by (simp add: rounds_like_f64_def)
    ultimately show ?thesis
      using False step n Suc.prems(4)
        Suc.IH [of "hub\<lparr>hub_rates := (retain_recent now (hub_rates hub))(user \<mapsto> (now, rnd (t - 1)))\<rparr>" "rnd (t - 1)" m]
      by simp
  qed
qed simp

text \<open>
  Property C32. The rate limit bounds every burst: whatever the history, and with the rounding of
  binary floating point, of any number of requests a user sends at one instant at most the
  configured burst are admitted.
\<close>

theorem bursts_are_bounded:
  assumes "rounds_like_f64 rnd" "rt_request_burst config \<le> 2 ^ 53"
  shows "burst_of rnd config now user k hub \<le> rt_request_burst config"
proof (cases k)
  case (Suc j)
  have b: "rnd (real (rt_request_burst config)) = real (rt_request_burst config)"
    using assms by (simp add: rounds_like_f64_def)
  define seen t where "seen = fst (case retain_recent now (hub_rates hub) user of
      None \<Rightarrow> (now, real (rt_request_burst config)) | Some e \<Rightarrow> e)"
    and "t = min (rnd (snd (case retain_recent now (hub_rates hub) user of
      None \<Rightarrow> (now, real (rt_request_burst config)) | Some e \<Rightarrow> e)
        + rnd (as_secs_f64 rnd (now - seen) * rnd (real (rt_requests_per_second config))))) (real (rt_request_burst config))"
  have fixed: "rnd t = t" "t \<le> real (rt_request_burst config)"
    using assms(1) b by (auto simp: t_def rounds_like_f64_def min_def)
  have first: "admit_request rnd config now user hub =
    (if t < 1 then (False, hub\<lparr>hub_rates := (retain_recent now (hub_rates hub))(user \<mapsto> (now, t))\<rparr>)
     else (True, hub\<lparr>hub_rates := (retain_recent now (hub_rates hub))(user \<mapsto> (now, rnd (t - 1)))\<rparr>))"
    by (simp add: admit_request_def Let_def b t_def seen_def split: option.split prod.split)
  have "burst_of rnd config now user (Suc j) hub = burst_of rnd config now user (Suc j)
      (hub\<lparr>hub_rates := (retain_recent now (hub_rates hub))(user \<mapsto> (now, t))\<rparr>)"
  proof -
    have again: "retain_recent now ((retain_recent now (hub_rates hub))(user \<mapsto> (now, t)))
        = (retain_recent now (hub_rates hub))(user \<mapsto> (now, t))"
      by (auto simp: retain_recent_def fun_eq_iff split: option.splits)
    show ?thesis
      using first admit_same_instant [OF assms(1), of "hub\<lparr>hub_rates := (retain_recent now (hub_rates hub))(user \<mapsto> (now, t))\<rparr>"
          user now t config] fixed b
      by (simp add: again)
  qed
  also have "\<dots> \<le> rt_request_burst config"
    using assms fixed by (intro burst_same_instant [where t = t]) auto
  finally show ?thesis by (simp add: Suc)
qed simp

theorem bursts_are_bounded_witness:
  "burst_of (\<lambda>x. x) default_runtime_limits 7 fx_user 1000 default_hub \<le> rt_request_burst default_runtime_limits"
  by (rule bursts_are_bounded) (simp_all add: rounds_like_f64_def mono_def default_runtime_limits_def)

section \<open>Inbound frames\<close>

lemma read_header_started: "read_header header r = (Inr None, r') \<Longrightarrow> header = []"
proof (induction header r rule: read_header.induct)
  case (1 header r)
  then show ?case
    by (subst (asm) (3) read_header.simps) (auto split: if_splits prod.splits sum.splits)
qed

lemma lookahead_header:
  assumes "bs \<noteq> []"
  shows "read_header [] (Chunk [b] # Chunk bs # r) = read_header [] (Chunk (b # bs) # r)"
proof -
  let ?rest = "if 3 < length bs then Chunk (drop 3 bs) # r else r"
  have "read_header [] (Chunk [b] # Chunk bs # r) = read_header [b] (Chunk bs # r)"
    by (simp add: read_header.simps [of "[]"])
  also have "\<dots> = read_header (b # take 3 bs) ?rest"
    using assms by (simp add: read_header.simps [of "[b]"])
  also have "\<dots> = read_header [] (Chunk (b # bs) # r)"
    by (simp add: read_header.simps [of "[]"] take_Cons' drop_Cons')
  finally show ?thesis .
qed

lemma lookahead:
  "read_frame (Chunk [b] # (if bs = [] then r else Chunk bs # r)) = read_frame (Chunk (b # bs) # r)"
  by (simp add: read_frame_def lookahead_header)

text \<open>
  Looking one byte ahead for the start of a frame, which the relay does so that an
  idle connection has no deadline, changes nothing about the frames: the reader task delivers
  exactly what reading and decoding whole frames gives.
\<close>

theorem inbound_is_framed:
  assumes "\<And>rest. r \<noteq> ReadError Interrupted # rest"
  shows "read_inbound pc False r =
    (case read_frame r of
       (Inl e, r') \<Rightarrow> (InboundError (SessionIo e), r', 0)
     | (Inr None, r') \<Rightarrow> (Disconnected, r', 0)
     | (Inr (Some frame), r') \<Rightarrow>
         (case decode_message (take_client_message pc) frame of
            Inl _ \<Rightarrow> (InboundError DecodeFailed, r', 0) | Inr message \<Rightarrow> (InboundMessage message, r', 0)))"
proof (cases r)
  case Nil
  then show ?thesis by (simp add: read_inbound_def read_frame_def read_header.simps)
next
  case (Cons ev rest)
  show ?thesis
  proof (cases ev)
    case (ReadError e)
    with Cons assms [of rest] show ?thesis
      by (simp add: read_inbound_def read_frame_def read_header.simps)
  next
    case (Chunk c)
    show ?thesis
    proof (cases c)
      case Nil
      with Cons Chunk show ?thesis by (simp add: read_inbound_def read_frame_def read_header.simps)
    next
      case (Cons b bs)
      with \<open>r = ev # rest\<close> Chunk have r: "r = Chunk (b # bs) # rest" by simp
      have some: "read_some 1 r = (Inr [b], if bs = [] then rest else Chunk bs # rest)" by (simp add: r)
      obtain f r' where f: "read_frame r = (f, r')" by fastforce
      have "f \<noteq> Inr None"
        using f by (auto simp: r read_frame_def read_header.simps [of "[]"] Let_def split: prod.splits sum.splits option.splits if_splits
            dest!: read_header_started)
      with f some lookahead [of b bs rest] show ?thesis
        by (auto simp: read_inbound_def r split: sum.splits option.splits)
    qed
  qed
qed

theorem inbound_is_framed_witness:
  "read_inbound postcard_v1 False [Chunk [0, 0, 0, 2], Chunk [1, 9]] =
    (case read_frame [Chunk [0, 0, 0, 2], Chunk [1, 9]] of
       (Inl e, r') \<Rightarrow> (InboundError (SessionIo e), r', 0)
     | (Inr None, r') \<Rightarrow> (Disconnected, r', 0)
     | (Inr (Some frame), r') \<Rightarrow>
         (case decode_message (take_client_message postcard_v1) frame of
            Inl _ \<Rightarrow> (InboundError DecodeFailed, r', 0) | Inr message \<Rightarrow> (InboundMessage message, r', 0)))"
  by (rule inbound_is_framed) simp

end
