(* ===== verification/Fallible.thy ===== *)
theory Fallible
  imports Prelude
begin

text \<open>
  Code that works on a state and may fail: an operation maps a state to a result and the state it
  leaves, whether it fails or not. The client's database, its engine and the file system are used through
  these operations.
\<close>

definition ret :: "'a \<Rightarrow> 's \<Rightarrow> ('e + 'a) \<times> 's" where
  "ret v s = (Inr v, s)"

definition fail :: "'e \<Rightarrow> 's \<Rightarrow> ('e + 'a) \<times> 's" where
  "fail e s = (Inl e, s)"

text \<open>Rust's \<open>?\<close> and sequencing.\<close>

definition chain :: "('s \<Rightarrow> ('e + 'a) \<times> 's) \<Rightarrow> ('a \<Rightarrow> 's \<Rightarrow> ('e + 'b) \<times> 's) \<Rightarrow> 's \<Rightarrow> ('e + 'b) \<times> 's" where
  "chain m f s = (case m s of (Inl e, s') \<Rightarrow> (Inl e, s') | (Inr v, s') \<Rightarrow> f v s')"

fun for_each :: "('a \<Rightarrow> 's \<Rightarrow> ('e + unit) \<times> 's) \<Rightarrow> 'a list \<Rightarrow> 's \<Rightarrow> ('e + unit) \<times> 's" where
  "for_each f [] = ret ()"
| "for_each f (x # xs) = chain (f x) (\<lambda>_. for_each f xs)"

lemma chain_simps [simp]:
  "chain (ret v) f = f v" "chain (fail e) f = fail e"
  by (simp_all add: chain_def ret_def fail_def fun_eq_iff)

lemma chain_Inr: "chain m f s = (Inr v, s') \<longleftrightarrow> (\<exists>x s1. m s = (Inr x, s1) \<and> f x s1 = (Inr v, s'))"
  by (auto simp: chain_def split: prod.splits sum.splits)

lemma chain_assoc: "chain (chain m f) g = chain m (\<lambda>x. chain (f x) g)"
  by (auto simp: chain_def fun_eq_iff split: prod.splits sum.splits)

lemma chainE:
  assumes "chain m f s = (Inr v, s')"
  obtains x s1 where "m s = (Inr x, s1)" "f x s1 = (Inr v, s')"
  using assms by (auto simp: chain_Inr)

lemma chain_cases:
  assumes "chain m f s = (r, s')"
  obtains x where "m s = (Inl x, s')" "r = Inl x" | v s1 where "m s = (Inr v, s1)" "f v s1 = (r, s')"
  using assms by (auto simp: chain_def split: prod.splits sum.splits)

end
