(* ===== verification/Client_Store.thy ===== *)
theory Client_Store
  imports Fallible Protocol_Frame "HOL-Library.List_Lexorder"
begin

text \<open>
  The client's database (\<open>grotto-client/src/store.rs\<close>): one SQLite connection for identity,
  contacts, MLS state, outbox, inbox and history, with a transaction guard that rolls back when it
  is dropped. An operation maps a store to a result and a store. Every statement asks the
  environment whether the engine fails; the statements are numbered, so the environment may
  choose for each one.
\<close>

section \<open>Errors\<close>

datatype engine_error = EngineFault | EngineConstraint | EngineConversion | EngineNoRows

datatype StoreError =
    StoreQuota
  | StoreDatabase engine_error
  | StoreIo io_kind
  | StoreLockPoisoned
  | StoreInvalidData string
  | UnsupportedSchema int

section \<open>Tables\<close>

record InboxRow =
  ib_event_id :: MessageId
  ib_room :: RoomId
  ib_sequence :: u64
  ib_record :: bytes
  ib_state :: string

record WelcomeInboxRow =
  wi_cursor :: u64
  wi_record :: bytes
  wi_state :: string

record IntentRow =
  in_id :: MessageId
  in_room :: RoomId
  in_target :: "UserId option"
  in_plaintext :: "bytes option"
  in_package :: "bytes option"
  in_attempt :: "MessageId option"

record HistoryRow =
  hi_message_id :: MessageId
  hi_room_id :: RoomId
  hi_sequence :: u64
  hi_author :: UserId
  hi_plaintext :: bytes

record MessageRow =
  mr_message_id :: MessageId
  mr_room_id :: RoomId
  mr_sequence :: u64
  mr_sender_id :: UserId
  mr_body :: bytes

record OutboxRow =
  ob_rowid :: nat
  ob_request_id :: MessageId
  ob_kind :: string
  ob_message :: bytes

record PackageRow =
  pk_package :: bytes
  pk_init_key :: bytes
  pk_leaf_key :: bytes
  pk_expiration :: bytes

record ClientDb =
  cd_delivery_cursors :: "RoomId \<rightharpoonup> u64"
  cd_delivery_inbox :: "InboxRow list"
  cd_welcome_inbox :: "WelcomeInboxRow list"
  cd_welcome_cursor :: u64
  cd_delivery_intents :: "IntentRow list"
  cd_verified_contacts :: "(UserId \<times> bytes \<times> bytes) list" \<comment> \<open>user, MLS key, card\<close>
  cd_transport_identity :: "(UserId \<times> bytes) option"
  cd_mls_groups :: "bytes \<rightharpoonup> bytes"
  cd_mls_epochs :: "((bytes \<times> bytes) \<times> bytes) list" \<comment> \<open>group and epoch, state\<close>
  cd_mls_packages :: "bytes \<rightharpoonup> PackageRow"
  cd_authenticated_history :: "HistoryRow list"
  cd_processing :: "MessageId \<rightharpoonup> string"
  cd_messages :: "MessageRow list"
  cd_outbox :: "OutboxRow list"
  cd_pending_acks :: "(MessageId \<times> RoomId) list"
  cd_mls_identity :: "(bytes \<times> bytes) option"
  cd_rooms :: "(RoomId \<times> rstr \<times> string) list"
  cd_pending_welcome_acks :: "(MessageId \<times> RoomId) list"

definition empty_client_db :: ClientDb where
  "empty_client_db = \<lparr>cd_delivery_cursors = Map.empty, cd_delivery_inbox = [], cd_welcome_inbox = [],
     cd_welcome_cursor = 0, cd_delivery_intents = [], cd_verified_contacts = [],
     cd_transport_identity = None, cd_mls_groups = Map.empty, cd_mls_epochs = [],
     cd_mls_packages = Map.empty, cd_authenticated_history = [], cd_processing = Map.empty,
     cd_messages = [], cd_outbox = [], cd_pending_acks = [], cd_mls_identity = None, cd_rooms = [],
     cd_pending_welcome_acks = []\<rparr>"

section \<open>The store and its statements\<close>

text \<open>
  \<open>st_begun\<close> holds the tables as they were at \<open>BEGIN\<close> while a transaction is open on the
  connection; \<open>st_owner\<close> is the thread the guard belongs to.
\<close>

record ClientStore =
  st_db :: ClientDb
  st_begun :: "ClientDb option"
  st_owner :: "nat option"
  st_poisoned :: bool
  st_new_data_limit :: u64
  st_ticks :: nat

record client_env =
  ce_fault :: "nat \<Rightarrow> bool"
  ce_mutex_poisoned :: bool
  ce_thread :: nat
  ce_page_size :: u64
  ce_page_count :: "nat \<Rightarrow> u64"
  ce_random_user :: "UserId option"
  ce_random_seed :: "bytes option"
  ce_message_ids :: "nat \<Rightarrow> MessageId option"

type_synonym 'a store_op = "ClientStore \<Rightarrow> (StoreError + 'a) \<times> ClientStore"

text \<open>One statement: its result and its effect on the tables when the engine does not fail.\<close>

definition stmt :: "client_env \<Rightarrow> (ClientDb \<Rightarrow> StoreError + 'a \<times> ClientDb) \<Rightarrow> 'a store_op" where
  "stmt env f s =
     (let s' = s\<lparr>st_ticks := Suc (st_ticks s)\<rparr> in
      if ce_fault env (st_ticks s) then (Inl (StoreDatabase EngineFault), s')
      else case f (st_db s) of
             Inl e \<Rightarrow> (Inl e, s')
           | Inr (v, db) \<Rightarrow> (Inr v, s'\<lparr>st_db := db\<rparr>))"

definition query :: "client_env \<Rightarrow> (ClientDb \<Rightarrow> StoreError + 'a) \<Rightarrow> 'a store_op" where
  "query env f = stmt env (\<lambda>db. case f db of Inl e \<Rightarrow> Inl e | Inr v \<Rightarrow> Inr (v, db))"

definition update :: "client_env \<Rightarrow> (ClientDb \<Rightarrow> ClientDb) \<Rightarrow> unit store_op" where
  "update env f = stmt env (\<lambda>db. Inr ((), f db))"

definition lock :: "client_env \<Rightarrow> unit store_op" where
  "lock env s =
     (if st_poisoned s \<or> ce_mutex_poisoned env then fail StoreLockPoisoned s
      else if st_owner s \<noteq> None \<and> st_owner s \<noteq> Some (ce_thread env)
      then fail (StoreInvalidData ''transaction belongs to another worker'') s
      else ret () s)"

definition lock_provider :: "client_env \<Rightarrow> unit store_op" where
  "lock_provider env s =
     (if st_poisoned s \<or> ce_mutex_poisoned env then fail StoreLockPoisoned s else ret () s)"

text \<open>\<open>self.lock()?\<close> followed by one statement, the shape of most operations.\<close>

abbreviation locked_query :: "client_env \<Rightarrow> (ClientDb \<Rightarrow> StoreError + 'a) \<Rightarrow> 'a store_op" where
  "locked_query env f \<equiv> chain (lock env) (\<lambda>_. query env f)"

abbreviation locked_update :: "client_env \<Rightarrow> (ClientDb \<Rightarrow> ClientDb) \<Rightarrow> unit store_op" where
  "locked_update env f \<equiv> chain (lock env) (\<lambda>_. update env f)"

section \<open>Opening\<close>

record client_file =
  cf_user_version :: int
  cf_application_id :: int
  cf_schema_objects :: nat
  cf_contents :: ClientDb

definition client_initialize :: "(nat \<Rightarrow> bool) \<Rightarrow> client_file \<Rightarrow> StoreError + client_file" where
  "client_initialize fault f =
     (if fault 0 \<or> fault 1 then Inl (StoreDatabase EngineFault)
      else if cf_user_version f = 9 \<and> cf_application_id f = 0x4752433a then Inr f
      else if fault 2 then Inl (StoreDatabase EngineFault)
      else if cf_user_version f \<noteq> 0 \<or> cf_application_id f \<noteq> 0 \<or> cf_schema_objects f \<noteq> 0
      then Inl (UnsupportedSchema (cf_user_version f))
      else if fault 3 \<or> fault 4 then Inl (StoreDatabase EngineFault)
      else Inr (f\<lparr>cf_user_version := 9, cf_application_id := 0x4752433a, cf_schema_objects := 19,
             cf_contents := empty_client_db\<rparr>))"

text \<open>The budget of \<open>open\<close>: the environment variable, or one gibibyte, within its range.\<close>

definition new_data_budget :: "rstr option \<Rightarrow> StoreError + u64" where
  "new_data_budget var =
     (case (case var of None \<Rightarrow> Some (1024 * 1024 * 1024) | Some text \<Rightarrow> from_str_radix 10 (2 ^ 64) text) of
        None \<Rightarrow> Inl (StoreInvalidData ''invalid client storage budget'')
      | Some n \<Rightarrow>
          if n < 128 * 1024 \<or> n > 2 ^ 63 - 1 - 64 * 1024 * 1024
          then Inl (StoreInvalidData ''client storage budget out of range'') else Inr (of_nat n))"

definition open_store :: "StoreError + unit \<Rightarrow> (nat \<Rightarrow> bool) \<Rightarrow> rstr option \<Rightarrow> client_file \<Rightarrow> StoreError + ClientStore" where
  "open_store file_lock fault var f =
     (case file_lock of
        Inl e \<Rightarrow> Inl e
      | Inr _ \<Rightarrow>
          (case client_initialize fault f of
             Inl e \<Rightarrow> Inl e
           | Inr f \<Rightarrow>
               (case new_data_budget var of
                  Inl e \<Rightarrow> Inl e
                | Inr budget \<Rightarrow>
                    if fault 5 \<or> fault 6 then Inl (StoreDatabase EngineFault)
                    else Inr \<lparr>st_db = cf_contents f, st_begun = None, st_owner = None, st_poisoned = False,
                           st_new_data_limit = budget, st_ticks = 0\<rparr>)))"

definition admit_new_data :: "client_env \<Rightarrow> nat \<Rightarrow> unit store_op" where
  "admit_new_data env bytes =
     chain (lock env) (\<lambda>_.
     chain (query env (\<lambda>_. Inr (ce_page_size env))) (\<lambda>page_size s.
     chain (query env (\<lambda>_. Inr (ce_page_count env (st_ticks s)))) (\<lambda>pages s.
     if saturating_add (saturating_add (saturating_mul pages page_size) (saturating_mul (of_nat bytes) 3)) (64 * 1024)
        > st_new_data_limit s
     then fail StoreQuota s else ret () s) s))"

section \<open>Transactions\<close>

definition transaction :: "client_env \<Rightarrow> unit store_op" where
  "transaction env =
     chain (lock env) (\<lambda>_ s.
     if st_owner s \<noteq> None then fail (StoreInvalidData ''nested client transaction'') s
     else if ce_fault env (st_ticks s)
     then fail (StoreDatabase EngineFault) (s\<lparr>st_ticks := Suc (st_ticks s)\<rparr>)
     else ret () (s\<lparr>st_ticks := Suc (st_ticks s), st_begun := Some (st_db s), st_owner := Some (ce_thread env)\<rparr>))"

definition commit :: "client_env \<Rightarrow> unit store_op" where
  "commit env =
     chain (lock env) (\<lambda>_ s.
     if ce_fault env (st_ticks s)
     then fail (StoreDatabase EngineFault) (s\<lparr>st_ticks := Suc (st_ticks s)\<rparr>)
     else ret () (s\<lparr>st_ticks := Suc (st_ticks s), st_begun := None, st_owner := None\<rparr>))"

text \<open>
  Dropping a guard that was not committed. If the connection cannot be locked nothing happens;
  if the rollback itself fails the store is closed to all further work.
\<close>

definition drop_transaction :: "client_env \<Rightarrow> ClientStore \<Rightarrow> ClientStore" where
  "drop_transaction env s =
     (case lock env s of
        (Inl _, s') \<Rightarrow> s'
      | (Inr _, s') \<Rightarrow>
          let s'' = s'\<lparr>st_ticks := Suc (st_ticks s')\<rparr> in
          if ce_fault env (st_ticks s') then s''\<lparr>st_poisoned := True\<rparr>
          else s''\<lparr>st_db := (case st_begun s'' of None \<Rightarrow> st_db s'' | Some db \<Rightarrow> db),
                 st_begun := None, st_owner := None\<rparr>)"

text \<open>
  A body run under a guard: \<open>transaction()?\<close>, the body, \<open>commit()?\<close>. A failure of the body or of
  the commit drops the guard.
\<close>

definition in_transaction :: "client_env \<Rightarrow> 'a store_op \<Rightarrow> 'a store_op" where
  "in_transaction env body =
     chain (transaction env) (\<lambda>_ s.
     case chain body (\<lambda>v. chain (commit env) (\<lambda>_. ret v)) s of
       (Inr v, s') \<Rightarrow> (Inr v, s')
     | (Inl e, s') \<Rightarrow> (Inl e, drop_transaction env s'))"

section \<open>Identity\<close>

definition identity_rows :: "client_env \<Rightarrow> (UserId \<times> bytes) store_op" where
  "identity_rows env =
     chain (locked_query env (\<lambda>db. Inr (cd_transport_identity db))) (\<lambda>existing.
     case existing of
       Some (user, seed) \<Rightarrow>
         if length (UserId_to_bytes user) \<noteq> 16 then fail (StoreInvalidData ''stored user ID has wrong length'')
         else if length seed \<noteq> 32 then fail (StoreInvalidData ''invalid identity seed'')
         else ret (user, seed)
     | None \<Rightarrow>
         (case (ce_random_user env, ce_random_seed env) of
            (Some user, Some seed) \<Rightarrow>
              chain (update env (\<lambda>db. db\<lparr>cd_transport_identity := Some (user, seed)\<rparr>)) (\<lambda>_. ret (user, seed))
          | _ \<Rightarrow> fail (StoreInvalidData ''identity randomness failed'')))"

definition identity :: "client_env \<Rightarrow> (UserId \<times> bytes) store_op" where
  "identity env = in_transaction env (identity_rows env)"

definition save_mls_identity :: "client_env \<Rightarrow> bytes \<Rightarrow> bytes \<Rightarrow> unit store_op" where
  "save_mls_identity env public_key secret_key =
     chain (locked_query env (\<lambda>db. Inr (cd_mls_identity db))) (\<lambda>existing.
     if existing \<noteq> None \<and> existing \<noteq> Some (public_key, secret_key)
     then fail (StoreInvalidData ''MLS identity replacement is unsupported'')
     else update env (\<lambda>db. if cd_mls_identity db \<noteq> None then db
       else db\<lparr>cd_mls_identity := Some (public_key, secret_key)\<rparr>))"

definition load_mls_identity :: "client_env \<Rightarrow> (bytes \<times> bytes) option store_op" where
  "load_mls_identity env = locked_query env (\<lambda>db. Inr (cd_mls_identity db))"

section \<open>Received messages\<close>

text \<open>A sequence number is stored as a signed integer.\<close>

definition sequence_fits :: "u64 \<Rightarrow> bool" where
  "sequence_fits n \<longleftrightarrow> n \<le> i64_max"

definition message_row :: "StoredRoomMessage \<Rightarrow> MessageRow" where
  "message_row m = \<lparr>mr_message_id = sm_message_id m, mr_room_id = sm_room_id m, mr_sequence = sm_sequence m,
     mr_sender_id = sm_sender_id m, mr_body = sm_body m\<rparr>"

text \<open>The partial unique index \<open>messages_for_history\<close>: one row per room and positive sequence.\<close>

definition message_conflict :: "MessageRow \<Rightarrow> MessageRow list \<Rightarrow> bool" where
  "message_conflict row rows \<longleftrightarrow>
     mr_sequence row > 0 \<and> list_ex (\<lambda>r. mr_room_id r = mr_room_id row \<and> mr_sequence r = mr_sequence row) rows"

definition store_message :: "client_env \<Rightarrow> StoredRoomMessage \<Rightarrow> bool store_op" where
  "store_message env m =
     chain (locked_query env (\<lambda>db. Inr (find (\<lambda>r. mr_message_id r = sm_message_id m) (cd_messages db)))) (\<lambda>existing.
     case existing of
       Some r \<Rightarrow>
         if r \<noteq> message_row m
         then fail (StoreInvalidData ''received event ID reused with different envelope'') else ret False
     | None \<Rightarrow>
         if \<not> sequence_fits (sm_sequence m) then fail (StoreInvalidData ''message sequence out of range'')
         else stmt env (\<lambda>db.
           if message_conflict (message_row m) (cd_messages db) then Inl (StoreDatabase EngineConstraint)
           else Inr (True, db\<lparr>cd_messages := cd_messages db @ [message_row m]\<rparr>)))"

definition refresh_message :: "client_env \<Rightarrow> StoredRoomMessage \<Rightarrow> unit store_op" where
  "refresh_message env m =
     chain (lock env) (\<lambda>_.
     if \<not> sequence_fits (sm_sequence m) then fail (StoreInvalidData ''message sequence out of range'')
     else stmt env (\<lambda>db.
       let others = filter (\<lambda>r. mr_message_id r \<noteq> sm_message_id m) (cd_messages db) in
       case find (\<lambda>r. mr_message_id r = sm_message_id m) (cd_messages db) of
         None \<Rightarrow>
           if message_conflict (message_row m) (cd_messages db) then Inl (StoreDatabase EngineConstraint)
           else Inr ((), db\<lparr>cd_messages := cd_messages db @ [message_row m]\<rparr>)
       | Some old \<Rightarrow>
           let row = old\<lparr>mr_sequence := sm_sequence m, mr_body := sm_body m\<rparr> in
           if message_conflict row others then Inl (StoreDatabase EngineConstraint)
           else Inr ((), db\<lparr>cd_messages :=
             map (\<lambda>r. if mr_message_id r = sm_message_id m then row else r) (cd_messages db)\<rparr>)))"

section \<open>Outbox\<close>

definition find_entry :: "ClientDb \<Rightarrow> MessageId \<Rightarrow> OutboxRow option" where
  "find_entry db request_id = find (\<lambda>e. ob_request_id e = request_id) (cd_outbox db)"

definition next_outbox_rowid :: "OutboxRow list \<Rightarrow> nat" where
  "next_outbox_rowid rows = Suc (fold max (map ob_rowid rows) 0)"

definition add_outbox :: "MessageId \<Rightarrow> string \<Rightarrow> bytes \<Rightarrow> ClientDb \<Rightarrow> ClientDb" where
  "add_outbox request_id knd message db =
     (if find_entry db request_id \<noteq> None then db
      else db\<lparr>cd_outbox := cd_outbox db @ [\<lparr>ob_rowid = next_outbox_rowid (cd_outbox db),
        ob_request_id = request_id, ob_kind = knd, ob_message = message\<rparr>]\<rparr>)"

definition save_outbox :: "client_env \<Rightarrow> MessageId \<Rightarrow> string \<Rightarrow> bytes \<Rightarrow> unit store_op" where
  "save_outbox env request_id knd message =
     chain (locked_query env (\<lambda>db. Inr (find_entry db request_id))) (\<lambda>existing.
     case existing of
       Some old \<Rightarrow>
         if ob_kind old \<noteq> knd \<or> ob_message old \<noteq> message
         then fail (StoreInvalidData ''attempt ID reused with different payload'')
         else update env (add_outbox request_id knd message)
     | None \<Rightarrow> update env (add_outbox request_id knd message))"

definition delete_outbox :: "MessageId \<Rightarrow> ClientDb \<Rightarrow> ClientDb" where
  "delete_outbox request_id db = db\<lparr>cd_outbox := filter (\<lambda>e. ob_request_id e \<noteq> request_id) (cd_outbox db)\<rparr>"

definition remove_outbox :: "client_env \<Rightarrow> MessageId \<Rightarrow> unit store_op" where
  "remove_outbox env request_id = locked_update env (delete_outbox request_id)"

definition find_outbox :: "client_env \<Rightarrow> MessageId \<Rightarrow> OutboxRow option store_op" where
  "find_outbox env request_id = locked_query env (\<lambda>db. Inr (find_entry db request_id))"

text \<open>
  A page of the outbox: at most 100 rows above \<open>after\<close> in row order, cut where the messages would
  pass 768 KiB, but never before the first one.
\<close>

fun outbox_cut :: "OutboxRow list \<Rightarrow> OutboxRow list \<Rightarrow> nat \<Rightarrow> OutboxRow list" where
  "outbox_cut [] entries bytes = entries"
| "outbox_cut (row # rows) entries bytes =
     (if entries \<noteq> [] \<and> bytes + length (ob_message row) > 768 * 1024 then entries
      else outbox_cut rows (entries @ [row]) (bytes + length (ob_message row)))"

definition select_outbox :: "ClientDb \<Rightarrow> nat \<Rightarrow> OutboxRow list" where
  "select_outbox db after_row = take 100 (sort_key ob_rowid (filter (\<lambda>e. ob_rowid e > after_row) (cd_outbox db)))"

definition outbox_page :: "client_env \<Rightarrow> nat \<Rightarrow> OutboxRow list store_op" where
  "outbox_page env after_row =
     locked_query env (\<lambda>db.
       let page = outbox_cut (select_outbox db after_row) [] 0 in
       if list_ex (\<lambda>e. length (MessageId_to_bytes (ob_request_id e)) \<noteq> 16) page
       then Inl (StoreInvalidData ''stored message ID has wrong length'') else Inr page)"

section \<open>Processing state and history\<close>

definition valid_states :: "string set" where
  "valid_states = {''received'', ''blocked'', ''applied'', ''rejected''}"

definition set_processing :: "client_env \<Rightarrow> MessageId \<Rightarrow> string \<Rightarrow> unit store_op" where
  "set_processing env message_id state =
     chain (lock env) (\<lambda>_. stmt env (\<lambda>db.
       if state \<notin> valid_states then Inl (StoreDatabase EngineConstraint)
       else Inr ((), db\<lparr>cd_processing := (cd_processing db)(message_id \<mapsto> state)\<rparr>)))"

definition is_settled :: "client_env \<Rightarrow> MessageId \<Rightarrow> bool store_op" where
  "is_settled env message_id =
     locked_query env (\<lambda>db. Inr (cd_processing db message_id \<in> {Some ''applied'', Some ''rejected''}))"

definition put_history :: "HistoryRow \<Rightarrow> ClientDb \<Rightarrow> ClientDb" where
  "put_history row db =
     db\<lparr>cd_authenticated_history :=
       (if hi_message_id row \<in> hi_message_id ` set (cd_authenticated_history db)
        then map (\<lambda>r. if hi_message_id r = hi_message_id row then r\<lparr>hi_sequence := hi_sequence row\<rparr> else r)
          (cd_authenticated_history db)
        else cd_authenticated_history db @ [row])\<rparr>"

definition record_plaintext :: "client_env \<Rightarrow> StoredRoomMessage \<Rightarrow> UserId \<Rightarrow> bytes \<Rightarrow> unit store_op" where
  "record_plaintext env m author plaintext =
     chain (lock env) (\<lambda>_. stmt env (\<lambda>db.
       if \<not> sequence_fits (sm_sequence m) then Inl (StoreDatabase EngineConversion)
       else Inr ((), put_history \<lparr>hi_message_id = sm_message_id m, hi_room_id = sm_room_id m,
         hi_sequence = sm_sequence m, hi_author = author, hi_plaintext = plaintext\<rparr> db)))"

text \<open>The newest 100 messages below \<open>before_sequence\<close>, the latest row first among equal sequences, returned oldest first.\<close>

definition select_history :: "ClientDb \<Rightarrow> RoomId \<Rightarrow> u64 option \<Rightarrow> HistoryRow list" where
  "select_history db room before_sequence =
     take 100 (rev (sort_key hi_sequence (filter (\<lambda>r. hi_room_id r = room
       \<and> (case before_sequence of None \<Rightarrow> True | Some n \<Rightarrow> hi_sequence r < n)) (cd_authenticated_history db))))"

definition history :: "client_env \<Rightarrow> RoomId \<Rightarrow> u64 option \<Rightarrow> HistoryRow list store_op" where
  "history env room before_sequence =
     chain (lock env) (\<lambda>_.
     query env (\<lambda>db.
       if (case before_sequence of None \<Rightarrow> False | Some n \<Rightarrow> \<not> sequence_fits n) then Inl (StoreDatabase EngineConversion)
       else let rows = select_history db room before_sequence in
         if list_ex (\<lambda>r. length (MessageId_to_bytes (hi_message_id r)) \<noteq> 16) rows
         then Inl (StoreInvalidData ''stored message ID has wrong length'')
         else if list_ex (\<lambda>r. length (UserId_to_bytes (hi_author r)) \<noteq> 16) rows
         then Inl (StoreInvalidData ''stored user ID has wrong length'')
         else Inr (rev rows)))"

section \<open>Pending acknowledgements\<close>

definition insert_ignore :: "'k \<times> 'v \<Rightarrow> ('k \<times> 'v) list \<Rightarrow> ('k \<times> 'v) list" where
  "insert_ignore row rows = (if fst row \<in> fst ` set rows then rows else rows @ [row])"

definition record_pending_acks :: "client_env \<Rightarrow> (MessageId \<times> RoomId) list \<Rightarrow> unit store_op" where
  "record_pending_acks env ids =
     chain (lock env) (\<lambda>_. for_each (\<lambda>row. update env (\<lambda>db.
       db\<lparr>cd_pending_acks := insert_ignore row (cd_pending_acks db)\<rparr>)) ids)"

definition clear_pending_acks :: "client_env \<Rightarrow> MessageId list \<Rightarrow> unit store_op" where
  "clear_pending_acks env ids =
     chain (lock env) (\<lambda>_. for_each (\<lambda>m. update env (\<lambda>db.
       db\<lparr>cd_pending_acks := filter (\<lambda>row. fst row \<noteq> m) (cd_pending_acks db)\<rparr>)) ids)"

text \<open>Reading identifiers back checks their length.\<close>

definition parse_pairs :: "(MessageId \<times> RoomId) list \<Rightarrow> StoreError + (MessageId \<times> RoomId) list" where
  "parse_pairs rows =
     (case find (\<lambda>(m, r). length (MessageId_to_bytes m) \<noteq> 16 \<or> length (RoomId_to_bytes r) \<noteq> 16) rows of
        None \<Rightarrow> Inr rows
      | Some (m, _) \<Rightarrow>
          Inl (StoreInvalidData (if length (MessageId_to_bytes m) \<noteq> 16
            then ''stored message ID has wrong length'' else ''stored room ID has wrong length'')))"

definition load_pending_acks :: "client_env \<Rightarrow> (MessageId \<times> RoomId) list store_op" where
  "load_pending_acks env = locked_query env (\<lambda>db. parse_pairs (cd_pending_acks db))"

definition record_pending_welcome_acks :: "client_env \<Rightarrow> (MessageId \<times> RoomId) list \<Rightarrow> unit store_op" where
  "record_pending_welcome_acks env ids =
     chain (lock env) (\<lambda>_. for_each (\<lambda>row. update env (\<lambda>db.
       db\<lparr>cd_pending_welcome_acks := insert_ignore row (cd_pending_welcome_acks db)\<rparr>)) ids)"

definition clear_pending_welcome_acks :: "client_env \<Rightarrow> MessageId list \<Rightarrow> unit store_op" where
  "clear_pending_welcome_acks env ids =
     chain (lock env) (\<lambda>_. for_each (\<lambda>m. update env (\<lambda>db.
       db\<lparr>cd_pending_welcome_acks := filter (\<lambda>row. fst row \<noteq> m) (cd_pending_welcome_acks db)\<rparr>)) ids)"

definition load_pending_welcome_acks :: "client_env \<Rightarrow> (MessageId \<times> RoomId) list store_op" where
  "load_pending_welcome_acks env = locked_query env (\<lambda>db. parse_pairs (cd_pending_welcome_acks db))"

section \<open>Rooms\<close>

fun put_room :: "RoomId \<Rightarrow> rstr \<Rightarrow> string \<Rightarrow> (RoomId \<times> rstr \<times> string) list \<Rightarrow> (RoomId \<times> rstr \<times> string) list" where
  "put_room room name origin [] = [(room, name, origin)]"
| "put_room room name origin ((r, n, og) # rows) =
     (if r = room then (r, name, og) # rows else (r, n, og) # put_room room name origin rows)"

definition upsert_room :: "client_env \<Rightarrow> RoomId \<Rightarrow> rstr \<Rightarrow> string \<Rightarrow> unit store_op" where
  "upsert_room env room name origin =
     (case normalize_room_name name of
        Inl _ \<Rightarrow> fail (StoreInvalidData ''invalid room name'')
      | Inr name \<Rightarrow> locked_update env (\<lambda>db. db\<lparr>cd_rooms := put_room room name origin (cd_rooms db)\<rparr>))"

text \<open>SQLite orders text by its UTF-8 bytes.\<close>

definition list_rooms :: "client_env \<Rightarrow> (RoomId \<times> rstr \<times> string) list store_op" where
  "list_rooms env =
     locked_query env (\<lambda>db.
       if list_ex (\<lambda>(room, _). length (RoomId_to_bytes room) \<noteq> 16) (cd_rooms db)
       then Inl (StoreInvalidData ''stored room ID has wrong length'')
       else Inr (sort_key (\<lambda>(_, name, _). utf8_encode name) (cd_rooms db)))"

definition client_room_name :: "client_env \<Rightarrow> RoomId \<Rightarrow> rstr option store_op" where
  "client_room_name env room = locked_query env (\<lambda>db. Inr (map_option fst (map_of (cd_rooms db) room)))"

section \<open>Reasoning about operations\<close>

lemma lock_keeps: "lock env s = (r, s') \<Longrightarrow> s' = s"
  by (auto simp: lock_def ret_def fail_def split: if_splits)

text \<open>An operation that leaves the guard alone and never touches the saved tables.\<close>

definition keeps_guard :: "'a store_op \<Rightarrow> bool" where
  "keeps_guard m \<longleftrightarrow> (\<forall>s r s'. m s = (r, s') \<longrightarrow>
     st_begun s' = st_begun s \<and> st_owner s' = st_owner s \<and> st_poisoned s' = st_poisoned s
     \<and> st_new_data_limit s' = st_new_data_limit s)"

named_theorems guard_ops \<open>operations that keep the transaction guard\<close>

lemma keeps_guard_ret [guard_ops]: "keeps_guard (ret v)"
  by (simp add: keeps_guard_def ret_def)

lemma keeps_guard_fail [guard_ops]: "keeps_guard (fail e)"
  by (simp add: keeps_guard_def fail_def)

lemma keeps_guard_chain [guard_ops]: "keeps_guard m \<Longrightarrow> (\<And>x. keeps_guard (f x)) \<Longrightarrow> keeps_guard (chain m f)"
  unfolding keeps_guard_def chain_def by (fastforce split: prod.splits sum.splits)

lemma keeps_guard_lock [guard_ops]: "keeps_guard (lock env)" "keeps_guard (lock_provider env)"
  by (auto simp: keeps_guard_def lock_def lock_provider_def ret_def fail_def)

lemma keeps_guard_stmt [guard_ops]: "keeps_guard (stmt env f)"
  by (auto simp: keeps_guard_def stmt_def Let_def split: if_splits sum.splits)

lemma keeps_guard_query [guard_ops]: "keeps_guard (query env f)" "keeps_guard (update env g)"
  by (simp_all add: query_def update_def keeps_guard_stmt)

lemma keeps_guard_if [guard_ops]: "keeps_guard m \<Longrightarrow> keeps_guard n \<Longrightarrow> keeps_guard (if c then m else n)"
  by simp

lemma keeps_guard_option [guard_ops]:
  "keeps_guard m \<Longrightarrow> (\<And>x. keeps_guard (f x)) \<Longrightarrow> keeps_guard (case v of None \<Rightarrow> m | Some x \<Rightarrow> f x)"
  by (cases v) simp_all

lemma keeps_guard_for_each [guard_ops]: "(\<And>x. keeps_guard (f x)) \<Longrightarrow> keeps_guard (for_each f xs)"
  by (induction xs) (auto intro: guard_ops)

end
