(* ===== verification/Client_Contacts.thy ===== *)
theory Client_Contacts
  imports Client_Store
begin

text \<open>
  Contact cards and pins (\<open>grotto-client/src/contacts.rs\<close>), and the identity check the MLS library
  calls back. The signature library is an argument: whether a key is valid and whether a signature
  verifies strictly under it, and the signer.
\<close>

section \<open>Contact cards\<close>

definition CONTACT_DOMAIN :: bytes where
  "CONTACT_DOMAIN = map (\<lambda>c. of_nat (of_char c)) ''GROTTO-CONTACT-V1'' @ [0]"

definition CARD_BYTES :: nat where
  "CARD_BYTES = 145"

record ContactCard =
  card_user :: UserId
  card_transport_key :: bytes
  card_mls_key :: bytes
  card_signature :: bytes

definition contact_transcript :: "ContactCard \<Rightarrow> bytes" where
  "contact_transcript cc =
     CONTACT_DOMAIN @ UserId_to_bytes (card_user cc) @ card_transport_key cc @ card_mls_key cc"

definition card_bytes :: "ContactCard \<Rightarrow> bytes" where
  "card_bytes cc =
     [1] @ UserId_to_bytes (card_user cc) @ card_transport_key cc @ card_mls_key cc @ card_signature cc"

definition card_encode :: "ContactCard \<Rightarrow> rstr" where
  "card_encode cc = hex_string (card_bytes cc)"

definition card_fingerprint :: "(bytes \<Rightarrow> bytes) \<Rightarrow> ContactCard \<Rightarrow> rstr" where
  "card_fingerprint sha256 cc = cert_fingerprint_sha256_hex sha256 (card_bytes cc)"

text \<open>
  \<open>own\<close>: the card of the local identity, signed with the transport key; \<open>public_of\<close> and \<open>sign\<close>
  are the signature library's.
\<close>

definition card_own :: "client_env \<Rightarrow> (bytes \<Rightarrow> bytes) \<Rightarrow> (bytes \<Rightarrow> bytes \<Rightarrow> bytes) \<Rightarrow> ContactCard store_op" where
  "card_own env public_of sign =
     chain (identity env) (\<lambda>(user, seed).
     chain (load_mls_identity env) (\<lambda>keys.
     case keys of
       None \<Rightarrow> fail (StoreInvalidData ''MLS identity missing'')
     | Some (public, _) \<Rightarrow>
         if length public \<noteq> 32 then fail (StoreInvalidData ''invalid MLS public key'')
         else let cc = \<lparr>card_user = user, card_transport_key = public_of seed, card_mls_key = public,
                card_signature = replicate 64 0\<rparr>
           in ret (cc\<lparr>card_signature := sign seed (contact_transcript cc)\<rparr>)))"

text \<open>The loop over the 145 bytes reads each pair of characters as a hexadecimal byte.\<close>

definition card_parse ::
  "(bytes \<Rightarrow> bool) \<Rightarrow> (bytes \<Rightarrow> bytes \<Rightarrow> bytes \<Rightarrow> bool) \<Rightarrow> rstr \<Rightarrow> StoreError + ContactCard" where
  "card_parse valid_key verify_strict text =
     (if str_len text \<noteq> CARD_BYTES * 2 \<or> \<not> is_ascii text
      then Inl (StoreInvalidData ''invalid contact card size'')
      else case hex_pairs text of
        None \<Rightarrow> Inl (StoreInvalidData ''invalid contact encoding'')
      | Some bs \<Rightarrow>
          if bs ! 0 \<noteq> 1 then Inl (StoreInvalidData ''unsupported contact card version'')
          else let cc = \<lparr>card_user = UserId (take 16 (drop 1 bs)), card_transport_key = take 32 (drop 17 bs),
                 card_mls_key = take 32 (drop 49 bs), card_signature = drop 81 bs\<rparr> in
            if valid_key (card_transport_key cc)
               \<and> verify_strict (card_transport_key cc) (contact_transcript cc) (card_signature cc)
            then Inr cc else Inl (StoreInvalidData ''invalid contact signature''))"

section \<open>Pins\<close>

text \<open>
  \<open>import\<close>: the user compares the fingerprint out of band. The result is \<open>None\<close> if the call
  panics, which it does only if the digest is not 32 bytes long.
\<close>

definition pin_contact :: "ContactCard \<Rightarrow> ClientDb \<Rightarrow> ClientDb" where
  "pin_contact cc db =
     (if map_of (cd_verified_contacts db) (card_user cc) \<noteq> None then db
      else db\<lparr>cd_verified_contacts :=
        cd_verified_contacts db @ [(card_user cc, card_mls_key cc, card_bytes cc)]\<rparr>)"

definition card_import ::
  "client_env \<Rightarrow> (bytes \<Rightarrow> bytes) \<Rightarrow> (bytes \<Rightarrow> bool) \<Rightarrow> (bytes \<Rightarrow> bytes \<Rightarrow> bytes \<Rightarrow> bool)
   \<Rightarrow> ContactCard \<Rightarrow> rstr \<Rightarrow> ClientStore \<Rightarrow> ((StoreError + unit) \<times> ClientStore) option" where
  "card_import env sha256 valid_key verify_strict cc independent_fingerprint s =
     (case parse_fingerprint_hex independent_fingerprint of
        Inl _ \<Rightarrow> Some (Inl (StoreInvalidData ''invalid fingerprint''), s)
      | Inr given \<Rightarrow>
          (case parse_fingerprint_hex (card_fingerprint sha256 cc) of
             Inl _ \<Rightarrow> None
           | Inr actual \<Rightarrow> Some (
               if given \<noteq> actual
               then (Inl (StoreInvalidData ''independent contact fingerprint does not match''), s)
               else case card_parse valid_key verify_strict (card_encode cc) of
                 Inl e \<Rightarrow> (Inl e, s)
               | Inr _ \<Rightarrow>
                   chain (locked_query env (\<lambda>db. Inr (map_of (cd_verified_contacts db) (card_user cc)))) (\<lambda>existing.
                   case existing of
                     Some (_, old) \<Rightarrow>
                       if old \<noteq> card_bytes cc
                       then fail (StoreInvalidData ''contact keys changed; pin preserved'') else ret ()
                   | None \<Rightarrow>
                       chain (admit_new_data env CARD_BYTES) (\<lambda>_.
                       locked_update env (pin_contact cc))) s)))"

section \<open>The identity provider\<close>

text \<open>What the code reads of the MLS library's \<open>SigningIdentity\<close>.\<close>

record SigningIdentity =
  si_basic_identifier :: "bytes option"
  si_signature_key :: bytes

definition verify_member :: "client_env \<Rightarrow> SigningIdentity \<Rightarrow> bytes store_op" where
  "verify_member env i =
     (case si_basic_identifier i of
        None \<Rightarrow> fail (StoreInvalidData ''non-basic credential'')
      | Some identifier \<Rightarrow>
          if length identifier \<noteq> 16
          then fail (StoreInvalidData ''MLS credential must be a Grotto UserId'')
          else chain (lock_provider env) (\<lambda>_.
            chain (query env (\<lambda>db. Inr (map_of (cd_verified_contacts db) (UserId identifier)))) (\<lambda>pinned.
            case pinned of
              None \<Rightarrow> fail (StoreInvalidData ''unverified group member'')
            | Some (key, _) \<Rightarrow>
                if key \<noteq> si_signature_key i
                then fail (StoreInvalidData ''MLS signing key differs from verified contact'')
                else ret identifier)))"

definition validate_member :: "client_env \<Rightarrow> SigningIdentity \<Rightarrow> unit store_op" where
  "validate_member env i = chain (verify_member env i) (\<lambda>_. ret ())"

definition validate_external_sender :: "SigningIdentity \<Rightarrow> unit store_op" where
  "validate_external_sender i = fail (StoreInvalidData ''external MLS senders are unsupported'')"

definition provider_identity :: "client_env \<Rightarrow> SigningIdentity \<Rightarrow> bytes store_op" where
  "provider_identity env i = verify_member env i"

definition valid_successor :: "client_env \<Rightarrow> SigningIdentity \<Rightarrow> SigningIdentity \<Rightarrow> bool store_op" where
  "valid_successor env predecessor successor =
     chain (verify_member env predecessor) (\<lambda>_.
     chain (verify_member env successor) (\<lambda>_. ret (predecessor = successor)))"

end
