(* ===== verification/Client_Mls_Storage.thy ===== *)
theory Client_Mls_Storage
  imports Client_Store
begin

text \<open>
  The storage callbacks of the MLS library on the application's connection
  (\<open>grotto-client/src/mls_storage.rs\<close>): group snapshots, retained epochs and private key packages.
  Writes are refused outside an application transaction, so that MLS state is committed or rolled
  back with the application's own rows.
\<close>

section \<open>Operations\<close>

record GroupState =
  gs_id :: bytes
  gs_data :: bytes

record EpochRecord =
  ep_id :: u64
  ep_data :: bytes

record KeyPackageData =
  kd_key_package_bytes :: bytes
  kd_init_key :: bytes
  kd_leaf_node_key :: bytes
  kd_expiration :: u64

definition u64_from_be_bytes :: "bytes \<Rightarrow> u64" where
  "u64_from_be_bytes bs = of_nat (be_value bs)"

text \<open>\<open>is_autocommit\<close>: no transaction is open on the connection.\<close>

definition require_transaction :: "unit store_op" where
  "require_transaction s =
     (if st_begun s = None then fail (StoreInvalidData ''MLS write requires an application transaction'') s
      else ret () s)"

definition group_state :: "client_env \<Rightarrow> bytes \<Rightarrow> bytes option store_op" where
  "group_state env group_id =
     chain (lock_provider env) (\<lambda>_. query env (\<lambda>db. Inr (cd_mls_groups db group_id)))"

definition group_epoch :: "client_env \<Rightarrow> bytes \<Rightarrow> u64 \<Rightarrow> bytes option store_op" where
  "group_epoch env group_id epoch_id =
     chain (lock_provider env) (\<lambda>_.
     query env (\<lambda>db. Inr (map_of (cd_mls_epochs db) (group_id, u64_to_be_bytes epoch_id))))"

fun put_row :: "'k \<Rightarrow> 'v \<Rightarrow> ('k \<times> 'v) list \<Rightarrow> ('k \<times> 'v) list" where
  "put_row k v [] = [(k, v)]"
| "put_row k v ((k', v') # rows) = (if k' = k then (k, v) # rows else (k', v') # put_row k v rows)"

definition write_epoch :: "client_env \<Rightarrow> bytes \<Rightarrow> EpochRecord \<Rightarrow> unit store_op" where
  "write_epoch env group_id r =
     update env (\<lambda>db. db\<lparr>cd_mls_epochs :=
       put_row (group_id, u64_to_be_bytes (ep_id r)) (ep_data r) (cd_mls_epochs db)\<rparr>)"

definition group_write :: "client_env \<Rightarrow> GroupState \<Rightarrow> EpochRecord list \<Rightarrow> EpochRecord list \<Rightarrow> unit store_op" where
  "group_write env state inserts updates =
     chain (lock_provider env) (\<lambda>_.
     chain require_transaction (\<lambda>_.
     chain (update env (\<lambda>db. db\<lparr>cd_mls_groups := (cd_mls_groups db)(gs_id state \<mapsto> gs_data state)\<rparr>)) (\<lambda>_.
     for_each (write_epoch env (gs_id state)) (inserts @ updates))))"

text \<open>\<open>MAX\<close> over blobs compares bytes; no row gives \<open>NULL\<close>.\<close>

definition select_max_epoch :: "ClientDb \<Rightarrow> bytes \<Rightarrow> bytes option" where
  "select_max_epoch db group_id =
     (case map (snd \<circ> fst) (filter (\<lambda>row. fst (fst row) = group_id) (cd_mls_epochs db)) of
        [] \<Rightarrow> None | e # es \<Rightarrow> Some (fold max es e))"

definition max_epoch_id :: "client_env \<Rightarrow> bytes \<Rightarrow> u64 option store_op" where
  "max_epoch_id env group_id =
     chain (lock_provider env) (\<lambda>_.
     chain (query env (\<lambda>db. Inr (select_max_epoch db group_id))) (\<lambda>found.
     case found of
       None \<Rightarrow> ret None
     | Some bs \<Rightarrow>
         if length bs \<noteq> 8 then fail (StoreInvalidData ''invalid retained epoch'')
         else ret (Some (u64_from_be_bytes bs))))"

definition package_delete :: "client_env \<Rightarrow> bytes \<Rightarrow> unit store_op" where
  "package_delete env package_id =
     chain (lock_provider env) (\<lambda>_.
     chain require_transaction (\<lambda>_.
     update env (\<lambda>db. db\<lparr>cd_mls_packages := (cd_mls_packages db)(package_id := None)\<rparr>)))"

definition package_insert :: "client_env \<Rightarrow> bytes \<Rightarrow> KeyPackageData \<Rightarrow> unit store_op" where
  "package_insert env package_id pkg =
     chain (lock_provider env) (\<lambda>_.
     chain require_transaction (\<lambda>_.
     stmt env (\<lambda>db.
       if cd_mls_packages db package_id \<noteq> None then Inl (StoreDatabase EngineConstraint)
       else Inr ((), db\<lparr>cd_mls_packages := (cd_mls_packages db)(package_id \<mapsto>
         \<lparr>pk_package = kd_key_package_bytes pkg, pk_init_key = kd_init_key pkg,
          pk_leaf_key = kd_leaf_node_key pkg, pk_expiration = u64_to_be_bytes (kd_expiration pkg)\<rparr>)\<rparr>))))"

definition package_get :: "client_env \<Rightarrow> bytes \<Rightarrow> KeyPackageData option store_op" where
  "package_get env package_id =
     chain (lock_provider env) (\<lambda>_.
     chain (query env (\<lambda>db. Inr (cd_mls_packages db package_id))) (\<lambda>row.
     case row of
       None \<Rightarrow> ret None
     | Some r \<Rightarrow>
         if length (pk_expiration r) \<noteq> 8 then fail (StoreInvalidData ''invalid package expiration'')
         else ret (Some \<lparr>kd_key_package_bytes = pk_package r, kd_init_key = pk_init_key r,
           kd_leaf_node_key = pk_leaf_key r, kd_expiration = u64_from_be_bytes (pk_expiration r)\<rparr>)))"

section \<open>Byte order and number order\<close>

lemma u64_be_roundtrip [simp]: "u64_from_be_bytes (u64_to_be_bytes w) = w"
  by (simp add: u64_from_be_bytes_def u64_to_be_bytes_def be_value_be_bytes)

lemma be_bytes_less:
  "m < 256 ^ k \<Longrightarrow> n < 256 ^ k \<Longrightarrow> m < n \<Longrightarrow> be_bytes k m < be_bytes k n"
proof (induction k arbitrary: m n)
  case (Suc k)
  have div: "m div 256 < 256 ^ k" "n div 256 < 256 ^ k"
    using Suc.prems(1,2) by (simp_all add: less_mult_imp_div_less mult.commute)
  show ?case
  proof (cases "m div 256 < n div 256")
    case True
    from Suc.IH [OF div this] have "be_bytes k (m div 256) < be_bytes k (n div 256)" .
    then show ?thesis by (auto simp: list_less_def intro: lexord_append_leftI lexord_sufI)
  next
    case False
    have "m div 256 \<le> n div 256" using Suc.prems(3) by (simp add: div_le_mono)
    with False have eq: "m div 256 = n div 256" by simp
    have "m = m div 256 * 256 + m mod 256" "n = n div 256 * 256 + n mod 256" by simp_all
    with Suc.prems(3) eq have "m mod 256 < n mod 256" by linarith
    with eq show ?thesis
      by (simp add: list_less_def lexord_append_leftI word_less_nat_alt unat_byte_of)
  qed
qed simp

lemma u64_bytes_le: "u64_to_be_bytes v \<le> u64_to_be_bytes w \<longleftrightarrow> v \<le> w"
proof -
  have "u64_to_be_bytes v < u64_to_be_bytes w" if "v < w" for v w :: u64
    using that be_bytes_less [of "unat v" 8 "unat w"] by (simp add: u64_to_be_bytes_def word_less_nat_alt)
  then have "v < w \<Longrightarrow> ?thesis" "w < v \<Longrightarrow> ?thesis" by (force dest: leD less_imp_le)+
  then show ?thesis by (cases v w rule: linorder_cases) auto
qed

lemma fold_max_u64:
  "fold max (map u64_to_be_bytes ws) (u64_to_be_bytes w) = u64_to_be_bytes (fold max ws w)"
  by (induction ws arbitrary: w) (auto simp: max_def u64_bytes_le)

end
