(* ===== verification/Client_Session.thy ===== *)
theory Client_Session
  imports Client_Contacts Client_Mls_Storage
begin

text \<open>
  The MLS session of the client (\<open>grotto-client/src/mls_session.rs\<close>) with the canonical wire form of
  \<open>grotto-mls/src/lib.rs\<close>. The MLS library itself is an argument: a record of the operations the
  session calls, each of which may use the storage and identity callbacks of the application and
  therefore takes and returns the store. What the session relies on is \<open>documented_library\<close>.
\<close>

section \<open>Errors and the library\<close>

datatype ProcessingFault = FaultBlocked | FaultRejected

datatype mls_error = IdentityProviderError | GroupStorageError | OtherMlsError

datatype client_error =
    ClientStoreError StoreError
  | ClientMessageText string
  | ClientMls mls_error
  | ClientFault ProcessingFault
  | ClientEncode
  | ClientDecode DecodeMessageError
  | ClientRandomness
  | ClientSignature
  | ClientIo io_kind
  | ClientElapsed
  | ClientProtocol ProtocolError

datatype ReceivedMessage =
    ReceivedApplication nat bytes bytes \<comment> \<open>sender index, authenticated data, data\<close>
  | ReceivedCommit nat bytes bool \<comment> \<open>committer, authenticated data, external\<close>
  | ReceivedOther

datatype Processed =
    ProcessedApplication bytes bytes \<comment> \<open>plaintext, author\<close>
  | ProcessedCommit u64
  | ProcessedProposal u64
  | ProcessedIgnored

type_synonym 'a mls_op = "ClientStore \<Rightarrow> (mls_error + 'a) \<times> ClientStore"

text \<open>An operation on a group returns the group as it leaves it, whether it fails or not.\<close>

type_synonym ('g, 'a) group_op = "'g \<Rightarrow> ClientStore \<Rightarrow> ((mls_error + 'a) \<times> 'g) \<times> ClientStore"

record ('g, 'm) mls_library =
  ml_from_bytes :: "bytes \<Rightarrow> 'm option"
  ml_to_bytes :: "'m \<Rightarrow> bytes option"
  ml_epoch :: "'m \<Rightarrow> u64 option"
  ml_key_package_identity :: "'m \<Rightarrow> SigningIdentity option"
  ml_load_group :: "client_env \<Rightarrow> bytes \<Rightarrow> 'g mls_op"
  ml_create_group_with_id :: "client_env \<Rightarrow> bytes \<Rightarrow> 'g mls_op"
  ml_join_group :: "client_env \<Rightarrow> 'm \<Rightarrow> 'g mls_op"
  ml_generate_key_package_message :: "client_env \<Rightarrow> 'm mls_op"
  ml_group_id :: "'g \<Rightarrow> bytes"
  ml_roster :: "'g \<Rightarrow> (nat \<times> SigningIdentity) list"
  ml_current_epoch :: "'g \<Rightarrow> u64"
  ml_has_pending_commit :: "'g \<Rightarrow> bool"
  ml_clear_pending_commit :: "'g \<Rightarrow> 'g"
  ml_encrypt :: "client_env \<Rightarrow> bytes \<Rightarrow> bytes \<Rightarrow> ('g, 'm) group_op"
  ml_commit_add :: "client_env \<Rightarrow> bytes \<Rightarrow> 'm \<Rightarrow> ('g, 'm \<times> 'm list) group_op"
  ml_apply_pending_commit :: "client_env \<Rightarrow> ('g, unit) group_op"
  ml_process_incoming_message :: "client_env \<Rightarrow> 'm \<Rightarrow> ('g, ReceivedMessage) group_op"
  ml_write_to_storage :: "client_env \<Rightarrow> ('g, unit) group_op"

text \<open>\<open>grotto_mls::from_wire\<close> and \<open>to_wire\<close>.\<close>

definition to_wire :: "('g, 'm) mls_library \<Rightarrow> 'm \<Rightarrow> client_error + bytes" where
  "to_wire lib msg =
     (case ml_to_bytes lib msg of
        None \<Rightarrow> Inl (ClientMessageText ''mls serialize failed'') | Some bs \<Rightarrow> Inr bs)"

definition from_wire :: "('g, 'm) mls_library \<Rightarrow> bytes \<Rightarrow> client_error + 'm" where
  "from_wire lib bs =
     (case ml_from_bytes lib bs of
        None \<Rightarrow> Inl (ClientMessageText ''mls parse failed'')
      | Some message \<Rightarrow>
          and_then (to_wire lib message) (\<lambda>wire.
          if wire \<noteq> bs then Inl (ClientMessageText ''noncanonical or trailing MLS bytes'') else Inr message))"

section \<open>The session\<close>

text \<open>
  The state an engine operation works on: the store and the cached groups. The list of groups
  stands for the hash map; every key occurs once.
\<close>

record 'g Engine =
  en_store :: ClientStore
  en_groups :: "(RoomId \<times> 'g) list"

type_synonym ('g, 'a) engine_op = "'g Engine \<Rightarrow> (client_error + 'a) \<times> 'g Engine"

definition in_store :: "'a store_op \<Rightarrow> ('g, 'a) engine_op" where
  "in_store m e = (let (r, s) = m (en_store e) in (map_err ClientStoreError r, e\<lparr>en_store := s\<rparr>))"

definition in_library :: "'a mls_op \<Rightarrow> ('g, 'a) engine_op" where
  "in_library m e = (let (r, s) = m (en_store e) in (map_err ClientMls r, e\<lparr>en_store := s\<rparr>))"

text \<open>A value computed without touching the state, and an error replaced by another.\<close>

definition from_result :: "'e + 'a \<Rightarrow> 's \<Rightarrow> ('e + 'a) \<times> 's" where
  "from_result r s = (r, s)"

definition or_else :: "('s \<Rightarrow> ('e + 'a) \<times> 's) \<Rightarrow> 'f \<Rightarrow> 's \<Rightarrow> ('f + 'a) \<times> 's" where
  "or_else m f s = (let (r, s') = m s in (map_err (\<lambda>_. f) r, s'))"

text \<open>A \<open>match\<close> on the result of an operation.\<close>

definition match_result :: "('s \<Rightarrow> ('e + 'a) \<times> 's) \<Rightarrow> ('e \<Rightarrow> 's \<Rightarrow> 'r) \<Rightarrow> ('a \<Rightarrow> 's \<Rightarrow> 'r) \<Rightarrow> 's \<Rightarrow> 'r" where
  "match_result m h f s = (case m s of (Inl x, s') \<Rightarrow> h x s' | (Inr v, s') \<Rightarrow> f v s')"

definition atomic :: "client_env \<Rightarrow> ('g, 'a) engine_op \<Rightarrow> ('g, 'a) engine_op" where
  "atomic env operation =
     chain (in_store (transaction env)) (\<lambda>_ e.
     case chain operation (\<lambda>v. chain (in_store (commit env)) (\<lambda>_. ret v)) e of
       (Inr v, e') \<Rightarrow> (Inr v, e')
     | (Inl error, e') \<Rightarrow> (Inl error, e'\<lparr>en_store := drop_transaction env (en_store e'), en_groups := []\<rparr>))"

text \<open>A plain transaction guard around engine code.\<close>

definition with_transaction :: "client_env \<Rightarrow> ('g, 'a) engine_op \<Rightarrow> ('g, 'a) engine_op" where
  "with_transaction env body =
     chain (in_store (transaction env)) (\<lambda>_ e.
     case chain body (\<lambda>v. chain (in_store (commit env)) (\<lambda>_. ret v)) e of
       (Inr v, e') \<Rightarrow> (Inr v, e')
     | (Inl error, e') \<Rightarrow> (Inl error, e'\<lparr>en_store := drop_transaction env (en_store e')\<rparr>))"

definition verify_roster :: "('g, 'm) mls_library \<Rightarrow> client_env \<Rightarrow> client_error \<Rightarrow> 'g \<Rightarrow> ('g, unit) engine_op" where
  "verify_roster lib env error g =
     for_each (\<lambda>i. chain (or_else (in_store (provider_identity env i)) error) (\<lambda>_. ret ()))
       (map snd (ml_roster lib g))"

definition put_group :: "RoomId \<Rightarrow> 'g \<Rightarrow> ('g, unit) engine_op" where
  "put_group room g e = (Inr (), e\<lparr>en_groups := put_row room g (en_groups e)\<rparr>)"

definition load_into_cache :: "('g, 'm) mls_library \<Rightarrow> client_env \<Rightarrow> RoomId \<Rightarrow> ('g, unit) engine_op" where
  "load_into_cache lib env room e =
     (if map_of (en_groups e) room \<noteq> None then (Inr (), e)
      else
        chain (or_else (in_library (ml_load_group lib env (RoomId_to_bytes room)))
                 (ClientMessageText ''no local MLS group for room'')) (\<lambda>group.
        chain (verify_roster lib env (ClientMessageText ''stored group contains an unverified or changed member'') group) (\<lambda>_.
        put_group room group))
        (if length (en_groups e) \<ge> 8 then e\<lparr>en_groups := []\<rparr> else e))"

definition group_mut :: "('g, 'm) mls_library \<Rightarrow> client_env \<Rightarrow> RoomId \<Rightarrow> ('g, 'g) engine_op" where
  "group_mut lib env room =
     chain (load_into_cache lib env room) (\<lambda>_ e.
     case map_of (en_groups e) room of
       None \<Rightarrow> (Inl (ClientMessageText ''MLS group vanished''), e)
     | Some g \<Rightarrow> (Inr g, e))"

text \<open>A library call on the cached group, which stays in the cache as the call leaves it.\<close>

definition on_group :: "RoomId \<Rightarrow> 'g \<Rightarrow> ('g, 'a) group_op \<Rightarrow> ('g, 'a) engine_op" where
  "on_group room g m e =
     (case m g (en_store e) of ((r, g'), s) \<Rightarrow>
        (map_err ClientMls r, e\<lparr>en_store := s, en_groups := put_row room g' (en_groups e)\<rparr>))"

definition has_group :: "('g, 'm) mls_library \<Rightarrow> client_env \<Rightarrow> RoomId \<Rightarrow> ('g, bool) engine_op" where
  "has_group lib env room e = (let (r, e') = group_mut lib env room e in (Inr (\<not> isl r), e'))"

definition persist :: "('g, 'm) mls_library \<Rightarrow> client_env \<Rightarrow> RoomId \<Rightarrow> ('g, unit) engine_op" where
  "persist lib env room =
     chain (group_mut lib env room) (\<lambda>g. on_group room g (ml_write_to_storage lib env))"

definition create_group :: "('g, 'm) mls_library \<Rightarrow> client_env \<Rightarrow> RoomId \<Rightarrow> ('g, u64) engine_op" where
  "create_group lib env room e =
     (case group_mut lib env room e of
        (Inr g, e') \<Rightarrow> (Inr (ml_current_epoch lib g), e')
      | (Inl _, e') \<Rightarrow>
          chain (in_library (ml_create_group_with_id lib env (RoomId_to_bytes room))) (\<lambda>g.
          chain (put_group room g) (\<lambda>_.
          chain (persist lib env room) (\<lambda>_.
          ret (ml_current_epoch lib g)))) e')"

definition contains_user :: "('g, 'm) mls_library \<Rightarrow> client_env \<Rightarrow> RoomId \<Rightarrow> UserId \<Rightarrow> ('g, bool) engine_op" where
  "contains_user lib env room user =
     chain (group_mut lib env room) (\<lambda>g.
     ret (list_ex (\<lambda>(_, i). si_basic_identifier i = Some (UserId_to_bytes user)) (ml_roster lib g)))"

definition current_epoch :: "('g, 'm) mls_library \<Rightarrow> client_env \<Rightarrow> RoomId \<Rightarrow> ('g, u64) engine_op" where
  "current_epoch lib env room = chain (group_mut lib env room) (\<lambda>g. ret (ml_current_epoch lib g))"

definition encrypt_bound ::
  "('g, 'm) mls_library \<Rightarrow> client_env \<Rightarrow> RoomId \<Rightarrow> bytes \<Rightarrow> bytes \<Rightarrow> ('g, u64 \<times> bytes) engine_op" where
  "encrypt_bound lib env room plaintext aad =
     chain (group_mut lib env room) (\<lambda>g.
     if ml_has_pending_commit lib g then fail (ClientMessageText ''room has an unresolved commit'')
     else
       chain (on_group room g (ml_encrypt lib env plaintext aad)) (\<lambda>message.
       chain (from_result (to_wire lib message)) (\<lambda>bs.
       chain (persist lib env room) (\<lambda>_.
       ret (ml_current_epoch lib g, bs)))))"

definition build_pending_add ::
  "('g, 'm) mls_library \<Rightarrow> client_env \<Rightarrow> RoomId \<Rightarrow> bytes \<Rightarrow> bytes \<Rightarrow> ('g, u64 \<times> bytes \<times> bytes) engine_op" where
  "build_pending_add lib env room package aad =
     chain (from_result (from_wire lib package)) (\<lambda>package.
     chain (group_mut lib env room) (\<lambda>g.
     if ml_has_pending_commit lib g then fail (ClientMessageText ''room has an unresolved commit'')
     else
       chain (on_group room g (ml_commit_add lib env aad package)) (\<lambda>(commit_message, welcome_messages).
       chain (from_result (to_wire lib commit_message)) (\<lambda>body.
       case welcome_messages of
         [] \<Rightarrow> fail (ClientMessageText ''missing Welcome'')
       | first # _ \<Rightarrow>
           chain (from_result (to_wire lib first)) (\<lambda>welcome_bytes.
           chain (persist lib env room) (\<lambda>_.
           ret (ml_current_epoch lib g, body, welcome_bytes)))))))"

definition discard_pending :: "('g, 'm) mls_library \<Rightarrow> client_env \<Rightarrow> RoomId \<Rightarrow> ('g, unit) engine_op" where
  "discard_pending lib env room =
     chain (group_mut lib env room) (\<lambda>g.
     chain (put_group room (ml_clear_pending_commit lib g)) (\<lambda>_.
     persist lib env room))"

definition apply_accepted_commit :: "('g, 'm) mls_library \<Rightarrow> client_env \<Rightarrow> RoomId \<Rightarrow> ('g, unit) engine_op" where
  "apply_accepted_commit lib env room =
     chain (group_mut lib env room) (\<lambda>g.
     chain (on_group room g (ml_apply_pending_commit lib env)) (\<lambda>_.
     persist lib env room))"

text \<open>
  \<open>process_bound\<close>: an event is processed only if it is canonical, of its stated and of the
  current epoch, of its stated kind, sent by the member its envelope names, and bound to the
  room, event and parent of the envelope; afterwards every member has to be a verified contact.
\<close>

definition processing_error :: "mls_error \<Rightarrow> client_error" where
  "processing_error error =
     (case error of
        IdentityProviderError \<Rightarrow> ClientFault FaultBlocked
      | GroupStorageError \<Rightarrow> ClientMls GroupStorageError
      | OtherMlsError \<Rightarrow> ClientFault FaultRejected)"

definition run_incoming ::
  "('g, 'm) mls_library \<Rightarrow> client_env \<Rightarrow> RoomId \<Rightarrow> 'g \<Rightarrow> 'm \<Rightarrow> ('g, ReceivedMessage \<times> 'g) engine_op" where
  "run_incoming lib env room g incoming e =
     (case ml_process_incoming_message lib env incoming g (en_store e) of ((r, g'), s) \<Rightarrow>
        (case r of Inl error \<Rightarrow> Inl (processing_error error) | Inr received \<Rightarrow> Inr (received, g'),
         e\<lparr>en_store := s, en_groups := put_row room g' (en_groups e)\<rparr>))"

text \<open>Sender, authenticated data and outcome of a message of the kind the event states.\<close>

definition classify :: "('g, 'm) mls_library \<Rightarrow> Event \<Rightarrow> 'g \<Rightarrow> ReceivedMessage \<Rightarrow> (nat \<times> bytes \<times> Processed) option" where
  "classify lib event g received =
     (case received of
        ReceivedApplication sender aad contents \<Rightarrow>
          if ap_content_type (ev_operation event) = Application
          then Some (sender, aad, ProcessedApplication contents (UserId_to_bytes (ev_sender event))) else None
      | ReceivedCommit committer aad is_external \<Rightarrow>
          if ap_content_type (ev_operation event) = Commit \<and> \<not> is_external
          then Some (committer, aad, ProcessedCommit (ml_current_epoch lib g)) else None
      | ReceivedOther \<Rightarrow> None)"

definition with_author :: "bytes \<Rightarrow> Processed \<Rightarrow> Processed" where
  "with_author author outcome =
     (case outcome of ProcessedApplication plaintext _ \<Rightarrow> ProcessedApplication plaintext author | p \<Rightarrow> p)"

definition process_bound :: "('g, 'm) mls_library \<Rightarrow> client_env \<Rightarrow> Event \<Rightarrow> ('g, Processed) engine_op" where
  "process_bound lib env event =
     (let room = ap_room (ev_operation event);
          rejected = fail (ClientFault FaultRejected) in
      case from_wire lib (ap_body (ev_operation event)) of
        Inl _ \<Rightarrow> rejected
      | Inr incoming \<Rightarrow>
          if ml_epoch lib incoming \<noteq> Some (ap_epoch (ev_operation event)) then rejected
          else
            chain (group_mut lib env room) (\<lambda>g.
            if ml_epoch lib incoming \<noteq> Some (ml_current_epoch lib g)
            then fail (ClientFault
              (case ml_epoch lib incoming of
                 Some epoch \<Rightarrow> if epoch > ml_current_epoch lib g then FaultBlocked else FaultRejected
               | None \<Rightarrow> FaultRejected))
            else
              chain (run_incoming lib env room g incoming) (\<lambda>(received, g').
              case classify lib event g' received of
                None \<Rightarrow> rejected
              | Some (sender, aad, outcome) \<Rightarrow>
                  (case map_of (rev (ml_roster lib g)) sender of
                     None \<Rightarrow> rejected
                   | Some i \<Rightarrow>
                       (case si_basic_identifier i of
                          None \<Rightarrow> rejected
                        | Some actual \<Rightarrow>
                            if actual \<noteq> UserId_to_bytes (ev_sender event)
                               \<or> aad \<noteq> event_authenticated_data room (ev_id event) (ap_parent (ev_operation event))
                            then rejected
                            else
                              chain (verify_roster lib env (ClientFault FaultBlocked) g') (\<lambda>_.
                              chain (persist lib env room) (\<lambda>_.
                              ret (with_author actual outcome))))))))"

definition join_group :: "('g, 'm) mls_library \<Rightarrow> client_env \<Rightarrow> RoomId \<Rightarrow> bytes \<Rightarrow> ('g, u64) engine_op" where
  "join_group lib env room welcome_bytes =
     chain (has_group lib env room) (\<lambda>present.
     if present then current_epoch lib env room
     else
       chain (from_result (from_wire lib welcome_bytes)) (\<lambda>message.
       chain (in_library (ml_join_group lib env message)) (\<lambda>g.
       if ml_group_id lib g \<noteq> RoomId_to_bytes room
       then fail (ClientMessageText ''welcome is for a different group than the envelope claims'')
       else
         chain (verify_roster lib env (ClientMessageText ''welcome contains an unverified or changed member'') g) (\<lambda>_.
         chain (put_group room g) (\<lambda>_.
         chain (persist lib env room) (\<lambda>_.
         ret (ml_current_epoch lib g)))))))"

fun generate_key_packages :: "('g, 'm) mls_library \<Rightarrow> client_env \<Rightarrow> nat \<Rightarrow> ('g, bytes list) engine_op" where
  "generate_key_packages lib env 0 = ret []"
| "generate_key_packages lib env (Suc n) =
     chain (in_library (ml_generate_key_package_message lib env)) (\<lambda>package.
     chain (from_result (to_wire lib package)) (\<lambda>bs.
     chain (generate_key_packages lib env n) (\<lambda>rest. ret (bs # rest))))"

section \<open>What the library may do to the store\<close>

text \<open>
  The library reaches the database only through the callbacks: it leaves the transaction guard
  alone, changes no table but those of MLS, and none at all outside a transaction.
\<close>

definition app_part :: "ClientDb \<Rightarrow> ClientDb" where
  "app_part db = db\<lparr>cd_mls_groups := Map.empty, cd_mls_epochs := [], cd_mls_packages := Map.empty\<rparr>"

definition same_guard :: "ClientStore \<Rightarrow> ClientStore \<Rightarrow> bool" where
  "same_guard s s' \<longleftrightarrow>
     st_begun s' = st_begun s \<and> st_owner s' = st_owner s \<and> st_poisoned s' = st_poisoned s
     \<and> st_new_data_limit s' = st_new_data_limit s"

definition mls_only :: "(ClientStore \<Rightarrow> 'r \<times> ClientStore) \<Rightarrow> bool" where
  "mls_only m \<longleftrightarrow> (\<forall>s r s'. m s = (r, s') \<longrightarrow>
     same_guard s s' \<and> app_part (st_db s') = app_part (st_db s) \<and> (st_begun s = None \<longrightarrow> st_db s' = st_db s))"

definition documented_library :: "('g, 'm) mls_library \<Rightarrow> client_env \<Rightarrow> bool" where
  "documented_library lib env \<longleftrightarrow>
     (\<forall>group_id. mls_only (ml_load_group lib env group_id) \<and> mls_only (ml_create_group_with_id lib env group_id))
     \<and> (\<forall>m. mls_only (ml_join_group lib env m)) \<and> mls_only (ml_generate_key_package_message lib env)
     \<and> (\<forall>plaintext aad g. mls_only (ml_encrypt lib env plaintext aad g))
     \<and> (\<forall>aad m g. mls_only (ml_commit_add lib env aad m g))
     \<and> (\<forall>g. mls_only (ml_apply_pending_commit lib env g))
     \<and> (\<forall>m g. mls_only (ml_process_incoming_message lib env m g))
     \<and> (\<forall>g. mls_only (ml_write_to_storage lib env g))"

text \<open>The callbacks the application provides have this behaviour, and so has every sequence of them.\<close>

locale storage_callback =
  fixes call :: "ClientStore \<Rightarrow> ('e + 'a) \<times> ClientStore"
  assumes guard: "call s = (r, s') \<Longrightarrow> same_guard s s'"
    and tables: "call s = (r, s') \<Longrightarrow> app_part (st_db s') = app_part (st_db s)"
    and outside: "call s = (r, s') \<Longrightarrow> st_begun s = None \<Longrightarrow> st_db s' = st_db s"
begin

lemma mls_only_call: "mls_only call"
  using guard tables outside by (simp add: mls_only_def)

lemma mls_only_then:
  assumes "\<And>v. mls_only (f v)"
  shows "mls_only (chain call f)"
  unfolding mls_only_def
proof (intro allI impI)
  fix s r s' assume run: "chain call f s = (r, s')"
  obtain q s1 where first: "call s = (q, s1)" by (cases "call s")
  note one = guard [OF first] tables [OF first] outside [OF first]
  show "same_guard s s' \<and> app_part (st_db s') = app_part (st_db s) \<and> (st_begun s = None \<longrightarrow> st_db s' = st_db s)"
  proof (cases q)
    case (Inl e)
    with run first one show ?thesis by (auto simp: chain_def)
  next
    case (Inr v)
    with run first have "f v s1 = (r, s')" by (simp add: chain_def)
    with assms [of v] have "same_guard s1 s' \<and> app_part (st_db s') = app_part (st_db s1)
        \<and> (st_begun s1 = None \<longrightarrow> st_db s' = st_db s1)" by (simp add: mls_only_def)
    with one show ?thesis by (auto simp: same_guard_def)
  qed
qed

end

lemma lock_provider_cases:
  "lock_provider env s = (r, s') \<Longrightarrow> s' = s"
  by (auto simp: lock_provider_def ret_def fail_def split: if_splits)

lemma chain_lock_provider:
  assumes "chain (lock_provider env) f s = (r, s')"
  shows "s' = s \<or> f () s = (r, s')"
  using assms by (auto simp: lock_provider_def chain_def ret_def fail_def split: if_splits)

text \<open>A callback that only reads, and one that writes after asking for a transaction.\<close>

lemma reading_callback:
  assumes "\<And>v. f v = ret (g v) \<or> (\<exists>e. f v = fail e)"
  shows "storage_callback (chain (lock_provider env) (\<lambda>_. chain (query env q) f))"
proof
  fix s r s' assume "chain (lock_provider env) (\<lambda>_. chain (query env q) f) s = (r, s')"
  from chain_lock_provider [OF this] have "same_guard s s' \<and> st_db s' = st_db s"
  proof
    assume run: "chain (query env q) f s = (r, s')"
    obtain p s1 where first: "query env q s = (p, s1)" by (cases "query env q s")
    then have "same_guard s s1 \<and> st_db s1 = st_db s"
      by (auto simp: query_def stmt_def Let_def same_guard_def split: if_splits sum.splits)
    moreover have "s' = s1"
    proof (cases p)
      case (Inr v)
      with run first have "f v s1 = (r, s')" by (simp add: chain_def)
      with assms [of v] show ?thesis by (auto simp: ret_def fail_def)
    qed (use run first in \<open>auto simp: chain_def\<close>)
    ultimately show ?thesis by simp
  qed (simp add: same_guard_def)
  then show "same_guard s s'" "app_part (st_db s') = app_part (st_db s)"
    "st_begun s = None \<Longrightarrow> st_db s' = st_db s" by simp_all
qed

lemma writing_callback:
  assumes "\<And>s r s'. m s = (r, s') \<Longrightarrow> same_guard s s' \<and> app_part (st_db s') = app_part (st_db s)"
  shows "storage_callback (chain (lock_provider env) (\<lambda>_. chain require_transaction (\<lambda>_. m)))"
proof
  fix s r s' assume "chain (lock_provider env) (\<lambda>_. chain require_transaction (\<lambda>_. m)) s = (r, s')"
  from chain_lock_provider [OF this]
  have "s' = s \<or> (st_begun s \<noteq> None \<and> m s = (r, s'))"
    by (auto simp: chain_def require_transaction_def ret_def fail_def split: if_splits)
  with assms have all: "same_guard s s' \<and> app_part (st_db s') = app_part (st_db s) \<and> (st_begun s = None \<longrightarrow> st_db s' = st_db s)"
    by (auto simp: same_guard_def)
  then show "same_guard s s'" "app_part (st_db s') = app_part (st_db s)"
    "st_begun s = None \<Longrightarrow> st_db s' = st_db s" by simp_all
qed

lemma chain_ret: "chain m ret = m"
  by (auto simp: chain_def ret_def fun_eq_iff split: prod.splits sum.splits)

lemma reading_query: "storage_callback (chain (lock_provider env) (\<lambda>_. query env q))"
  using reading_callback [of ret "\<lambda>v. v" env q] by (simp add: chain_ret)

lemma update_tables:
  assumes "\<And>db. app_part (f db) = app_part db" "update env f s = (r, s')"
  shows "same_guard s s' \<and> app_part (st_db s') = app_part (st_db s)"
  using assms by (auto simp: update_def stmt_def Let_def same_guard_def split: if_splits)

lemma chain_tables:
  assumes "\<And>s r s'. m s = (r, s') \<Longrightarrow> same_guard s s' \<and> app_part (st_db s') = app_part (st_db s)"
    and "\<And>v s r s'. f v s = (r, s') \<Longrightarrow> same_guard s s' \<and> app_part (st_db s') = app_part (st_db s)"
    and "chain m f s = (r, s')"
  shows "same_guard s s' \<and> app_part (st_db s') = app_part (st_db s)"
proof -
  obtain q s1 where first: "m s = (q, s1)" by (cases "m s")
  note one = assms(1) [OF first]
  show ?thesis
  proof (cases q)
    case (Inr v)
    with assms(3) first have "f v s1 = (r, s')" by (simp add: chain_def)
    with assms(2) [OF this] one show ?thesis by (simp add: same_guard_def)
  qed (use assms(3) first one in \<open>auto simp: chain_def\<close>)
qed

lemma for_each_tables:
  assumes "\<And>x s r s'. f x s = (r, s') \<Longrightarrow> same_guard s s' \<and> app_part (st_db s') = app_part (st_db s)"
    and "for_each f xs s = (r, s')"
  shows "same_guard s s' \<and> app_part (st_db s') = app_part (st_db s)"
  using assms(2)
proof (induction xs arbitrary: s r s')
  case Nil
  then show ?case by (simp add: ret_def same_guard_def)
next
  case (Cons x xs)
  show ?case
    by (rule chain_tables [OF assms(1) _ Cons.prems [unfolded for_each.simps]]) (auto dest: Cons.IH)
qed

lemma write_epoch_tables:
  "write_epoch env group_id record s = (r, s') \<Longrightarrow> same_guard s s' \<and> app_part (st_db s') = app_part (st_db s)"
  unfolding write_epoch_def by (erule update_tables [rotated]) (simp add: app_part_def)

interpretation state_callback: storage_callback "group_state env group_id" for env group_id
  unfolding group_state_def by (rule reading_query)

interpretation epoch_callback: storage_callback "group_epoch env group_id epoch_id" for env group_id epoch_id
  unfolding group_epoch_def by (rule reading_query)

interpretation max_epoch_callback: storage_callback "max_epoch_id env group_id" for env group_id
  unfolding max_epoch_id_def
  by (rule reading_callback [where g = "map_option u64_from_be_bytes"]) (auto split: option.splits)

interpretation get_callback: storage_callback "package_get env package_id" for env package_id
  unfolding package_get_def
  by (rule reading_callback [where g = "map_option (\<lambda>r. \<lparr>kd_key_package_bytes = pk_package r, kd_init_key = pk_init_key r,
    kd_leaf_node_key = pk_leaf_key r, kd_expiration = u64_from_be_bytes (pk_expiration r)\<rparr>)"]) (auto split: option.splits)

interpretation write_callback: storage_callback "group_write env state inserts updates" for env state inserts updates
  unfolding group_write_def
  by (rule writing_callback, erule chain_tables [rotated 2])
    (erule update_tables [rotated], simp add: app_part_def, erule for_each_tables [rotated], erule write_epoch_tables)

interpretation delete_callback: storage_callback "package_delete env package_id" for env package_id
  unfolding package_delete_def
  by (rule writing_callback, erule update_tables [rotated]) (simp add: app_part_def)

interpretation insert_callback: storage_callback "package_insert env package_id pkg" for env package_id pkg
  unfolding package_insert_def
  by (rule writing_callback)
    (auto simp: stmt_def Let_def same_guard_def app_part_def split: if_splits)

lemma failing_callback: "storage_callback (fail e)"
  by unfold_locales (auto simp: fail_def same_guard_def)

lemma verify_member_callback: "storage_callback (verify_member env i)"
proof (cases "\<exists>ident. si_basic_identifier i = Some ident \<and> length ident = 16")
  case True
  then obtain ident where "si_basic_identifier i = Some ident" "length ident = 16" by blast
  then show ?thesis
    unfolding verify_member_def
    by simp (rule reading_callback [where g = "\<lambda>_. ident"], auto split: option.splits)
qed (auto simp: verify_member_def failing_callback split: option.splits)

interpretation identity_callback: storage_callback "provider_identity env i" for env i
  unfolding provider_identity_def by (rule verify_member_callback)

end
