(* ===== verification/Client_Commands.thy ===== *)
theory Client_Commands
  imports Protocol_Ids
begin

text \<open>
  The command line of the client (\<open>grotto-client/src/lib.rs\<close>, from \<open>terminal_safe\<close> on): what a line
  of input means, and what is done to text before it reaches the terminal.
\<close>

section \<open>Text helpers of the standard library\<close>

definition strip_prefix :: "rstr \<Rightarrow> rstr \<Rightarrow> rstr option" where
  "strip_prefix p s = (if take (length p) s = p then Some (drop (length p) s) else None)"

text \<open>\<open>split_whitespace\<close>: the maximal runs of characters that are not white space.\<close>

function split_whitespace :: "rstr \<Rightarrow> rstr list" where
  "split_whitespace s =
     (case trim_start s of
        [] \<Rightarrow> []
      | c # cs \<Rightarrow>
          (c # takeWhile (\<lambda>x. \<not> is_whitespace x) cs)
          # split_whitespace (dropWhile (\<lambda>x. \<not> is_whitespace x) cs))"
  by pat_completeness auto
termination
proof (relation "measure length", simp, clarsimp)
  fix s c cs assume s: "trim_start s = c # cs"
  have "length (dropWhile (\<lambda>x. \<not> is_whitespace x) cs) \<le> length cs" by (rule length_dropWhile_le)
  also have "length cs < length (trim_start s)" by (simp add: s)
  also have "\<dots> \<le> length s" by (simp add: trim_start_def length_dropWhile_le)
  finally show "length (dropWhile (\<lambda>x. \<not> is_whitespace x) cs) < length s" .
qed

declare split_whitespace.simps [simp del]

text \<open>\<open>starts_with(char::is_whitespace)\<close>.\<close>

definition starts_blank :: "rstr \<Rightarrow> bool" where
  "starts_blank s \<longleftrightarrow> (case s of [] \<Rightarrow> False | c # _ \<Rightarrow> is_whitespace c)"

section \<open>Commands\<close>

datatype UserCommand =
    SetFetchGrantCommand UserId bool
  | ContactExport
  | ContactImport rstr rstr
  | ListContacts
  | CreateRoomCommand rstr
  | PublishKeyPackagesCommand nat
  | AddToRoom RoomId UserId
  | ListRooms
  | SendRoomMessage RoomId bytes
  | FetchRoomHistory RoomId "u64 option"
  | SyncWelcomes

datatype CommandError =
    CommandUsage
  | ImportUsage
  | CannotCreateRoom RoomNameError
  | InvalidRoomId ParseIdError
  | EmptyMessage
  | MessageTooLong
  | PublishCount
  | InvalidContactUserId
  | InvalidUserId ParseIdError
  | InvalidSequence

definition MAX_MESSAGE_BODY_BYTES :: nat where
  "MAX_MESSAGE_BODY_BYTES = 64 * 1024"

definition parse_room_id :: "rstr list \<Rightarrow> CommandError + (RoomId \<times> rstr list)" where
  "parse_room_id parts =
     (case parts of
        [] \<Rightarrow> Inl CommandUsage
      | part # rest \<Rightarrow>
          and_then (map_err InvalidRoomId (id_from_str RoomId part)) (\<lambda>room. Inr (room, rest)))"

definition parse_import :: "rstr \<Rightarrow> CommandError + UserCommand option" where
  "parse_import arguments =
     (case split_whitespace arguments of
        [cc, fingerprint] \<Rightarrow> Inr (Some (ContactImport cc fingerprint))
      | _ \<Rightarrow> Inl ImportUsage)"

definition parse_create :: "rstr \<Rightarrow> CommandError + UserCommand option" where
  "parse_create name =
     (if name \<noteq> [] \<and> \<not> starts_blank name then Inl CommandUsage
      else and_then (map_err CannotCreateRoom (normalize_room_name name)) (\<lambda>name. Inr (Some (CreateRoomCommand name))))"

definition parse_send :: "rstr \<Rightarrow> CommandError + UserCommand option" where
  "parse_send arguments =
     (if arguments \<noteq> [] \<and> \<not> starts_blank arguments then Inl CommandUsage
      else
        let arguments = trim_start arguments in
        if \<not> list_ex is_whitespace arguments then Inl CommandUsage
        else
          and_then (map_err InvalidRoomId (id_from_str RoomId (takeWhile (\<lambda>c. \<not> is_whitespace c) arguments))) (\<lambda>room.
          let body = utf8_encode (trim_start (dropWhile (\<lambda>c. \<not> is_whitespace c) arguments)) in
          if body = [] then Inl EmptyMessage
          else if length body > MAX_MESSAGE_BODY_BYTES then Inl MessageTooLong
          else Inr (Some (SendRoomMessage room body))))"

definition parse_publish :: "rstr \<Rightarrow> CommandError + UserCommand option" where
  "parse_publish arguments =
     (if arguments \<noteq> [] \<and> \<not> starts_blank arguments then Inl CommandUsage
      else
        let arguments = trim arguments in
        and_then (if arguments = [] then Inr 5
          else case from_str_radix 10 (2 ^ 64) arguments of None \<Rightarrow> Inl CommandUsage | Some n \<Rightarrow> Inr n) (\<lambda>count.
        if count = 0 \<or> count > 64 then Inl PublishCount else Inr (Some (PublishKeyPackagesCommand count))))"

definition parse_add :: "rstr list \<Rightarrow> CommandError + UserCommand option" where
  "parse_add parts =
     and_then (parse_room_id parts) (\<lambda>(room, parts).
     case parts of
       [] \<Rightarrow> Inl CommandUsage
     | part # rest \<Rightarrow>
         and_then (map_err InvalidUserId (id_from_str UserId part)) (\<lambda>user.
         if rest \<noteq> [] then Inl CommandUsage else Inr (Some (AddToRoom room user))))"

definition parse_history :: "rstr list \<Rightarrow> CommandError + UserCommand option" where
  "parse_history parts =
     and_then (parse_room_id parts) (\<lambda>(room, parts).
     and_then (case parts of
         [] \<Rightarrow> Inr None
       | part # _ \<Rightarrow>
           (case from_str_radix 10 (2 ^ 64) part of
              None \<Rightarrow> Inl InvalidSequence | Some n \<Rightarrow> Inr (Some (of_nat n)))) (\<lambda>before_sequence.
     if length parts > 1 then Inl CommandUsage else Inr (Some (FetchRoomHistory room before_sequence))))"

definition parse_grant :: "rstr \<Rightarrow> (bool \<times> rstr) option" where
  "parse_grant input =
     (case strip_prefix (str_of ''/contact grant '') input of
        Some s \<Rightarrow> Some (True, s)
      | None \<Rightarrow> map_option (Pair False) (strip_prefix (str_of ''/contact revoke '') input))"

definition parse_command :: "rstr \<Rightarrow> CommandError + UserCommand option" where
  "parse_command input =
     (let input = trim input in
      if input = [] then Inr None
      else if input = str_of ''/contact export'' then Inr (Some ContactExport)
      else if input = str_of ''/contacts'' then Inr (Some ListContacts)
      else case strip_prefix (str_of ''/contact import '') input of Some arguments \<Rightarrow> parse_import arguments
      | None \<Rightarrow> (case strip_prefix (str_of ''/create'') input of Some name \<Rightarrow> parse_create name
      | None \<Rightarrow> (case strip_prefix (str_of ''/send'') input of Some arguments \<Rightarrow> parse_send arguments
      | None \<Rightarrow> (case strip_prefix (str_of ''/publish'') input of Some arguments \<Rightarrow> parse_publish arguments
      | None \<Rightarrow>
          if input = str_of ''/rooms'' then Inr (Some ListRooms)
          else if input = str_of ''/welcomes'' then Inr (Some SyncWelcomes)
          else case parse_grant input of
            Some (allowed, arguments) \<Rightarrow>
              and_then (map_err (\<lambda>_. InvalidContactUserId) (id_from_str UserId (trim arguments))) (\<lambda>requester.
              Inr (Some (SetFetchGrantCommand requester allowed)))
          | None \<Rightarrow>
              (case split_whitespace input of
                 [] \<Rightarrow> Inl CommandUsage
               | command # parts \<Rightarrow>
                   if command = str_of ''/add'' then parse_add parts
                   else if command = str_of ''/history'' then parse_history parts
                   else Inl CommandUsage)))))"

section \<open>Terminal output\<close>

definition terminal_safe :: "rstr \<Rightarrow> rstr" where
  "terminal_safe text = map (\<lambda>c. if is_control c then 0xFFFD else c) text"

end
