(* ===== verification/Client_Engine.thy ===== *)
theory Client_Engine
  imports Client_Session Client_Commands
begin

text \<open>
  The engine of the client (\<open>grotto-client/src/delivery.rs\<close>), as far as it works on the database
  and the MLS session alone: commands, the journal of requests, the completion of a request by its
  response, received events and how they are applied, new attempts and Welcomes. The exchange with
  the relay is in \<open>Client_Delivery\<close>. Terminal output and counters are left out.
\<close>

section \<open>Surroundings\<close>

text \<open>What the engine runs in: the environment, the libraries and the local user.\<close>

record ('g, 'm) client_world =
  cw_env :: client_env
  cw_lib :: "('g, 'm) mls_library"
  cw_pc :: postcard
  cw_sha256 :: "bytes \<Rightarrow> bytes"
  cw_valid_key :: "bytes \<Rightarrow> bool"
  cw_verify_strict :: "bytes \<Rightarrow> bytes \<Rightarrow> bytes \<Rightarrow> bool"
  cw_public_of :: "bytes \<Rightarrow> bytes"
  cw_sign :: "bytes \<Rightarrow> bytes \<Rightarrow> bytes"
  cw_user :: UserId

text \<open>Queries and updates of the engine on the locked connection.\<close>

abbreviation select :: "('g, 'm) client_world \<Rightarrow> (ClientDb \<Rightarrow> StoreError + 'a) \<Rightarrow> ('g, 'a) engine_op" where
  "select w f \<equiv> in_store (locked_query (cw_env w) f)"

abbreviation execute_sql :: "('g, 'm) client_world \<Rightarrow> (ClientDb \<Rightarrow> ClientDb) \<Rightarrow> ('g, unit) engine_op" where
  "execute_sql w f \<equiv> in_store (locked_update (cw_env w) f)"

definition insert_row ::
  "('g, 'm) client_world \<Rightarrow> (ClientDb \<Rightarrow> bool) \<Rightarrow> (ClientDb \<Rightarrow> ClientDb) \<Rightarrow> ('g, unit) engine_op" where
  "insert_row w conflict f =
     in_store (chain (lock (cw_env w)) (\<lambda>_. stmt (cw_env w) (\<lambda>db.
       if conflict db then Inl (StoreDatabase EngineConstraint) else Inr ((), f db))))"

text \<open>\<open>MessageId::new()\<close>.\<close>

definition new_message_id :: "('g, 'm) client_world \<Rightarrow> ('g, MessageId) engine_op" where
  "new_message_id w e =
     (case ce_message_ids (cw_env w) (st_ticks (en_store e)) of
        None \<Rightarrow> Inl ClientRandomness | Some m \<Rightarrow> Inr m,
      e\<lparr>en_store := (en_store e)\<lparr>st_ticks := Suc (st_ticks (en_store e))\<rparr>\<rparr>)"

abbreviation text_error :: "string \<Rightarrow> ('g, 'a) engine_op" where
  "text_error t \<equiv> fail (ClientMessageText t)"

definition encode_as :: "'a encoder \<Rightarrow> 'a \<Rightarrow> client_error + bytes" where
  "encode_as ser message = map_err (\<lambda>_. ClientEncode) (encode_message ser message)"

definition decode_as :: "'a decoder \<Rightarrow> bytes \<Rightarrow> client_error + 'a" where
  "decode_as d bs = map_err ClientDecode (decode_message d bs)"

section \<open>Queries\<close>

definition envelope :: "Event \<Rightarrow> StoredRoomMessage" where
  "envelope event = \<lparr>sm_message_id = ev_id event, sm_room_id = ap_room (ev_operation event),
     sm_sequence = ap_parent (ev_operation event) + 1, sm_sender_id = ev_sender event,
     sm_epoch = ap_epoch (ev_operation event), sm_content_type = ap_content_type (ev_operation event),
     sm_body = ap_body (ev_operation event)\<rparr>"

text \<open>An attempt of the room is in the outbox and its event was not received.\<close>

definition select_unresolved :: "ClientDb \<Rightarrow> RoomId \<Rightarrow> bool" where
  "select_unresolved db room \<longleftrightarrow>
     list_ex (\<lambda>i. in_room i = room \<and>
       (case in_attempt i of
          None \<Rightarrow> False
        | Some a \<Rightarrow> find_entry db a \<noteq> None \<and> \<not> list_ex (\<lambda>row. ib_event_id row = a) (cd_delivery_inbox db)))
       (cd_delivery_intents db)"

definition unresolved :: "('g, 'm) client_world \<Rightarrow> RoomId \<Rightarrow> ('g, bool) engine_op" where
  "unresolved w room = select w (\<lambda>db. Inr (select_unresolved db room))"

definition cursor_of :: "ClientDb \<Rightarrow> RoomId \<Rightarrow> u64" where
  "cursor_of db room = (case cd_delivery_cursors db room of None \<Rightarrow> 0 | Some n \<Rightarrow> n)"

definition cursor :: "('g, 'm) client_world \<Rightarrow> RoomId \<Rightarrow> ('g, u64) engine_op" where
  "cursor w room = select w (\<lambda>db. Inr (cursor_of db room))"

section \<open>Requests\<close>

definition is_acknowledge :: "Request \<Rightarrow> bool" where
  "is_acknowledge request \<longleftrightarrow> (case request of Acknowledge _ _ \<Rightarrow> True | _ \<Rightarrow> False)"

definition journal :: "('g, 'm) client_world \<Rightarrow> MessageId \<Rightarrow> Request \<Rightarrow> ('g, unit) engine_op" where
  "journal w request_id request =
     chain (if is_acknowledge request then ret ()
            else chain (from_result (encode_as (ser_request (cw_pc w)) request)) (\<lambda>bs.
              in_store (admit_new_data (cw_env w) (length bs)))) (\<lambda>_.
     chain (from_result (encode_as (ser_client_message (cw_pc w)) (ClientDelivery request_id request))) (\<lambda>bs.
     in_store (save_outbox (cw_env w) request_id ''Delivery'' bs)))"

definition parse_card :: "('g, 'm) client_world \<Rightarrow> rstr \<Rightarrow> client_error + ContactCard" where
  "parse_card w text = map_err ClientStoreError (card_parse (cw_valid_key w) (cw_verify_strict w) text)"

definition require_contact :: "('g, 'm) client_world \<Rightarrow> UserId \<Rightarrow> ('g, ContactCard) engine_op" where
  "require_contact w user =
     chain (select w (\<lambda>db.
       case map_of (cd_verified_contacts db) user of
         None \<Rightarrow> Inl (StoreDatabase EngineNoRows) | Some (_, bs) \<Rightarrow> Inr bs)) (\<lambda>bs.
     from_result (parse_card w (hex_string bs)))"

text \<open>Identifiers are unique in the table of intents, and so are rooms.\<close>

definition intent_conflict :: "MessageId \<Rightarrow> RoomId \<Rightarrow> ClientDb \<Rightarrow> bool" where
  "intent_conflict m room db \<longleftrightarrow> list_ex (\<lambda>i. in_id i = m \<or> in_room i = room) (cd_delivery_intents db)"

definition add_intent ::
  "MessageId \<Rightarrow> RoomId \<Rightarrow> UserId option \<Rightarrow> bytes option \<Rightarrow> ClientDb \<Rightarrow> ClientDb" where
  "add_intent m room target plaintext db =
     db\<lparr>cd_delivery_intents := cd_delivery_intents db @
       [\<lparr>in_id = m, in_room = room, in_target = target, in_plaintext = plaintext, in_package = None, in_attempt = None\<rparr>]\<rparr>"

definition intent :: "('g, 'm) client_world \<Rightarrow> RoomId \<Rightarrow> UserId option \<Rightarrow> bytes option \<Rightarrow> ('g, unit) engine_op" where
  "intent w room target plaintext =
     chain (in_store (admit_new_data (cw_env w) (case plaintext of None \<Rightarrow> 16 | Some bs \<Rightarrow> length bs))) (\<lambda>_.
     chain (has_group (cw_lib w) (cw_env w) room) (\<lambda>present.
     if \<not> present then text_error ''no verified MLS group for room''
     else
       chain (in_store (lock (cw_env w))) (\<lambda>_.
       chain (new_message_id w) (\<lambda>m.
       insert_row w (intent_conflict m room) (add_intent m room target plaintext)))))"

section \<open>Commands\<close>

definition import_card :: "('g, 'm) client_world \<Rightarrow> ContactCard \<Rightarrow> rstr \<Rightarrow> ('g, unit) engine_op" where
  "import_card w cc fingerprint e =
     (case card_import (cw_env w) (cw_sha256 w) (cw_valid_key w) (cw_verify_strict w) cc fingerprint (en_store e) of
        None \<Rightarrow> (Inl (ClientMessageText ''panic''), e)
      | Some (r, s) \<Rightarrow> (map_err ClientStoreError r, e\<lparr>en_store := s\<rparr>))"

definition list_contacts :: "('g, 'm) client_world \<Rightarrow> ('g, unit) engine_op" where
  "list_contacts w =
     chain (select w (\<lambda>db. Inr (sort_key (UserId_to_bytes \<circ> fst) (cd_verified_contacts db)))) (\<lambda>rows.
     for_each (\<lambda>(_, _, bs). chain (from_result (parse_card w (hex_string bs))) (\<lambda>_. ret ())) rows)"

definition command :: "('g, 'm) client_world \<Rightarrow> UserCommand \<Rightarrow> ('g, unit) engine_op" where
  "command w c =
     (case c of
        ContactExport \<Rightarrow> chain (in_store (card_own (cw_env w) (cw_public_of w) (cw_sign w))) (\<lambda>_. ret ())
      | ContactImport text fingerprint \<Rightarrow>
          chain (from_result (parse_card w text)) (\<lambda>cc. import_card w cc fingerprint)
      | ListContacts \<Rightarrow> list_contacts w
      | ListRooms \<Rightarrow> chain (in_store (list_rooms (cw_env w))) (\<lambda>_. ret ())
      | FetchRoomHistory room before_sequence \<Rightarrow>
          chain (in_store (history (cw_env w) room before_sequence)) (\<lambda>_. ret ())
      | CreateRoomCommand name \<Rightarrow> chain (new_message_id w) (\<lambda>m. journal w m (CreateRoom name))
      | PublishKeyPackagesCommand count \<Rightarrow>
          chain (new_message_id w) (\<lambda>m.
          atomic (cw_env w)
            (chain (generate_key_packages (cw_lib w) (cw_env w) count) (\<lambda>packages.
             journal w m (PublishKeyPackages packages))))
      | AddToRoom room user \<Rightarrow> chain (require_contact w user) (\<lambda>_. intent w room (Some user) None)
      | SendRoomMessage room body \<Rightarrow> intent w room None (Some body)
      | SyncWelcomes \<Rightarrow> ret ()
      | SetFetchGrantCommand requester allowed \<Rightarrow>
          chain (require_contact w requester) (\<lambda>_.
          chain (new_message_id w) (\<lambda>m. journal w m (SetFetchGrant requester allowed))))"

section \<open>Received events\<close>

definition same_event :: "Event \<Rightarrow> u64 \<Rightarrow> InboxRow \<Rightarrow> bool" where
  "same_event event sequence row \<longleftrightarrow>
     ib_event_id row = ev_id event \<or> (ib_room row = ap_room (ev_operation event) \<and> ib_sequence row = sequence)"

definition add_inbox :: "Event \<Rightarrow> u64 \<Rightarrow> bytes \<Rightarrow> ClientDb \<Rightarrow> ClientDb" where
  "add_inbox event sequence bs db =
     db\<lparr>cd_delivery_inbox := cd_delivery_inbox db @
       [\<lparr>ib_event_id = ev_id event, ib_room = ap_room (ev_operation event), ib_sequence = sequence,
         ib_record = bs, ib_state = ''received''\<rparr>]\<rparr>"

definition receive :: "('g, 'm) client_world \<Rightarrow> Event \<Rightarrow> ('g, unit) engine_op" where
  "receive w event =
     (case event_sequence event of
        None \<Rightarrow> text_error ''invalid event sequence''
      | Some sequence \<Rightarrow>
          if \<not> sequence_fits sequence then text_error ''invalid event sequence''
          else
            chain (from_result (encode_as (ser_event (cw_pc w)) event)) (\<lambda>bs.
            chain (select w (\<lambda>db. Inr (find (same_event event sequence) (cd_delivery_inbox db)))) (\<lambda>existing.
            case existing of
              Some row \<Rightarrow> if ib_record row \<noteq> bs then text_error ''relay equivocated about an event'' else ret ()
            | None \<Rightarrow>
                chain (in_store (admit_new_data (cw_env w) (length bs))) (\<lambda>_.
                insert_row w (\<lambda>db. list_ex (same_event event sequence) (cd_delivery_inbox db))
                  (add_inbox event sequence bs)))))"

definition set_inbox_state :: "MessageId \<Rightarrow> string \<Rightarrow> ClientDb \<Rightarrow> ClientDb" where
  "set_inbox_state m state db =
     db\<lparr>cd_delivery_inbox :=
       map (\<lambda>row. if ib_event_id row = m then row\<lparr>ib_state := state\<rparr> else row) (cd_delivery_inbox db)\<rparr>"

definition set_cursor :: "RoomId \<Rightarrow> u64 \<Rightarrow> ClientDb \<Rightarrow> ClientDb" where
  "set_cursor room n db = db\<lparr>cd_delivery_cursors := (cd_delivery_cursors db)(room \<mapsto> n)\<rparr>"

definition finish_event :: "('g, 'm) client_world \<Rightarrow> Event \<Rightarrow> string \<Rightarrow> ('g, unit) engine_op" where
  "finish_event w event state =
     chain (execute_sql w (set_inbox_state (ev_id event) state)) (\<lambda>_.
     chain (execute_sql w (set_cursor (ap_room (ev_operation event)) (ap_parent (ev_operation event) + 1))) (\<lambda>_.
     journal w (acknowledgement_id (cw_sha256 w) (cw_user w) [ev_id event] []) (Acknowledge [ev_id event] [])))"

definition delete_intents :: "MessageId \<Rightarrow> ClientDb \<Rightarrow> ClientDb" where
  "delete_intents m db = db\<lparr>cd_delivery_intents := filter (\<lambda>i. in_attempt i \<noteq> Some m) (cd_delivery_intents db)\<rparr>"

definition set_history_sequence :: "MessageId \<Rightarrow> u64 \<Rightarrow> ClientDb \<Rightarrow> ClientDb" where
  "set_history_sequence m n db =
     db\<lparr>cd_authenticated_history :=
       map (\<lambda>r. if hi_message_id r = m then r\<lparr>hi_sequence := n\<rparr> else r) (cd_authenticated_history db)\<rparr>"

text \<open>The own event: it has to be the exact attempt that the outbox holds.\<close>

definition apply_own :: "('g, 'm) client_world \<Rightarrow> Event \<Rightarrow> OutboxRow option \<Rightarrow> ('g, unit) engine_op" where
  "apply_own w event own =
     (case own of
        None \<Rightarrow> text_error ''own event has no exact durable attempt''
      | Some entry \<Rightarrow>
          chain (from_result (decode_as (take_client_message (cw_pc w)) (ob_message entry))) (\<lambda>message.
          case message of
            ClientDelivery request_id (AppendRoomOperation operation) \<Rightarrow>
              if request_id \<noteq> ev_id event \<or> operation \<noteq> ev_operation event
              then text_error ''own event differs from exact attempt''
              else
                chain (if ap_content_type operation = Commit
                       then apply_accepted_commit (cw_lib w) (cw_env w) (ap_room (ev_operation event)) else ret ()) (\<lambda>_.
                chain (in_store (remove_outbox (cw_env w) (ev_id event))) (\<lambda>_.
                chain (execute_sql w (delete_intents (ev_id event))) (\<lambda>_.
                execute_sql w (set_history_sequence (ev_id event) (ap_parent (ev_operation event) + 1)))))
          | _ \<Rightarrow> text_error ''invalid own attempt''))"

definition apply_foreign :: "('g, 'm) client_world \<Rightarrow> Event \<Rightarrow> ('g, unit) engine_op" where
  "apply_foreign w event =
     chain (process_bound (cw_lib w) (cw_env w) event) (\<lambda>processed.
     case processed of
       ProcessedApplication plaintext author \<Rightarrow>
         if length author \<noteq> 16 then text_error ''invalid stored user''
         else in_store (record_plaintext (cw_env w) (envelope event) (UserId author) plaintext)
     | _ \<Rightarrow> ret ())"

definition apply_body :: "('g, 'm) client_world \<Rightarrow> Event \<Rightarrow> OutboxRow option \<Rightarrow> ('g, unit) engine_op" where
  "apply_body w event own =
     chain (if ev_sender event = cw_user w then apply_own w event own else apply_foreign w event) (\<lambda>_.
     finish_event w event ''applied'')"

text \<open>
  What follows the transaction. The result says whether the room can go on. After a success the source
  may read the history to print the message, which can still fail.
\<close>

definition conclude_event :: "('g, 'm) client_world \<Rightarrow> Event \<Rightarrow> client_error + unit \<Rightarrow> ('g, bool) engine_op" where
  "conclude_event w event result =
     (case result of
        Inr _ \<Rightarrow>
          chain (if ev_sender event = cw_user w \<and> ap_content_type (ev_operation event) = Application
                 then chain (in_store (history (cw_env w) (ap_room (ev_operation event)) None)) (\<lambda>_. ret ())
                 else ret ()) (\<lambda>_. ret True)
      | Inl error \<Rightarrow>
          if error = ClientFault FaultBlocked
          then chain (execute_sql w (set_inbox_state (ev_id event) ''blocked'')) (\<lambda>_. ret False)
          else if error = ClientFault FaultRejected
          then chain (with_transaction (cw_env w) (finish_event w event ''rejected'')) (\<lambda>_. ret True)
          else fail error)"

definition apply_next :: "('g, 'm) client_world \<Rightarrow> Event \<Rightarrow> OutboxRow option \<Rightarrow> ('g, bool) engine_op" where
  "apply_next w event own e =
     (let (result, e') = atomic (cw_env w) (apply_body w event own) e in conclude_event w event result e')"

definition apply_event :: "('g, 'm) client_world \<Rightarrow> Event \<Rightarrow> ('g, bool) engine_op" where
  "apply_event w event =
     chain (cursor w (ap_room (ev_operation event))) (\<lambda>n.
     if n \<noteq> ap_parent (ev_operation event) then text_error ''attempted noncontiguous MLS processing''
     else chain (in_store (find_outbox (cw_env w) (ev_id event))) (apply_next w event))"

section \<open>Responses\<close>

definition settle_request :: "('g, 'm) client_world \<Rightarrow> MessageId \<Rightarrow> ('g, unit) engine_op" where
  "settle_request w request_id = in_store (remove_outbox (cw_env w) request_id)"

definition complete_created :: "('g, 'm) client_world \<Rightarrow> MessageId \<Rightarrow> rstr \<Rightarrow> RoomId \<Rightarrow> ('g, unit) engine_op" where
  "complete_created w request_id name room =
     atomic (cw_env w)
       (chain (create_group (cw_lib w) (cw_env w) room) (\<lambda>_.
        chain (in_store (upsert_room (cw_env w) room name ''created'')) (\<lambda>_.
        chain (execute_sql w (\<lambda>db. if cd_delivery_cursors db room = None then set_cursor room 0 db else db)) (\<lambda>_.
        settle_request w request_id))))"

definition reserved_for :: "MessageId \<Rightarrow> UserId \<Rightarrow> IntentRow \<Rightarrow> bool" where
  "reserved_for request_id recipient i \<longleftrightarrow> in_attempt i = Some request_id \<and> in_target i = Some recipient"

definition set_package :: "MessageId \<Rightarrow> UserId \<Rightarrow> bytes \<Rightarrow> ClientDb \<Rightarrow> ClientDb" where
  "set_package request_id recipient package db =
     db\<lparr>cd_delivery_intents := map (\<lambda>i. if reserved_for request_id recipient i
        then i\<lparr>in_package := Some package, in_attempt := None\<rparr> else i) (cd_delivery_intents db)\<rparr>"

definition complete_reserved ::
  "('g, 'm) client_world \<Rightarrow> MessageId \<Rightarrow> UserId \<Rightarrow> bytes \<Rightarrow> ('g, unit) engine_op" where
  "complete_reserved w request_id recipient package =
     chain (from_result (from_wire (cw_lib w) package)) (\<lambda>message.
     case ml_key_package_identity (cw_lib w) message of
       None \<Rightarrow> text_error ''response is not a KeyPackage''
     | Some i \<Rightarrow>
         chain (in_store (verify_member (cw_env w) i)) (\<lambda>actual.
         if actual \<noteq> UserId_to_bytes recipient then text_error ''KeyPackage target mismatch''
         else with_transaction (cw_env w)
           (chain (in_store (chain (lock (cw_env w)) (\<lambda>_. stmt (cw_env w) (\<lambda>db.
              Inr (length (filter (reserved_for request_id recipient) (cd_delivery_intents db)),
                   set_package request_id recipient package db))))) (\<lambda>changed.
            if changed \<noteq> 1 then text_error ''reservation has no matching durable target''
            else settle_request w request_id))))"

definition delete_history :: "MessageId \<Rightarrow> ClientDb \<Rightarrow> ClientDb" where
  "delete_history m db =
     db\<lparr>cd_authenticated_history := filter (\<lambda>r. hi_message_id r \<noteq> m) (cd_authenticated_history db)\<rparr>"

definition release_intents :: "MessageId \<Rightarrow> ClientDb \<Rightarrow> ClientDb" where
  "release_intents m db =
     db\<lparr>cd_delivery_intents := map (\<lambda>i. if in_attempt i = Some m then i\<lparr>in_attempt := None\<rparr> else i)
        (cd_delivery_intents db)\<rparr>"

definition complete_conflict :: "('g, 'm) client_world \<Rightarrow> MessageId \<Rightarrow> Append \<Rightarrow> ('g, unit) engine_op" where
  "complete_conflict w request_id operation =
     atomic (cw_env w)
       (chain (if ap_content_type operation = Commit
               then discard_pending (cw_lib w) (cw_env w) (ap_room operation) else ret ()) (\<lambda>_.
        chain (settle_request w request_id) (\<lambda>_.
        chain (execute_sql w (delete_history request_id)) (\<lambda>_.
        execute_sql w (release_intents request_id)))))"

definition complete_rejected :: "('g, 'm) client_world \<Rightarrow> MessageId \<Rightarrow> Request \<Rightarrow> ('g, unit) engine_op" where
  "complete_rejected w request_id request =
     atomic (cw_env w)
       (chain (case request of
                 AppendRoomOperation operation \<Rightarrow>
                   if ap_content_type operation = Commit
                   then discard_pending (cw_lib w) (cw_env w) (ap_room operation) else ret ()
               | _ \<Rightarrow> ret ()) (\<lambda>_.
        chain (execute_sql w (delete_intents request_id)) (\<lambda>_.
        settle_request w request_id)))"

definition complete :: "('g, 'm) client_world \<Rightarrow> MessageId \<Rightarrow> Request \<Rightarrow> Response \<Rightarrow> ('g, unit) engine_op" where
  "complete w request_id request response =
     (let differs = text_error ''response differs from durable operation'' in
      case response of
        Rejected reason \<Rightarrow>
          if reason \<in> {Overloaded, Quota, Internal} then ret ()
          else complete_rejected w request_id request
      | _ \<Rightarrow>
          (case request of
             CreateRoom name \<Rightarrow>
               (case response of RoomCreated room \<Rightarrow> complete_created w request_id name room | _ \<Rightarrow> differs)
           | PublishKeyPackages packages \<Rightarrow>
               (case response of
                  KeyPackagesPublished count \<Rightarrow>
                    if count = of_nat (length packages) then settle_request w request_id else differs
                | _ \<Rightarrow> differs)
           | SetFetchGrant _ _ \<Rightarrow>
               (case response of FetchGrantSet \<Rightarrow> settle_request w request_id | _ \<Rightarrow> differs)
           | ReserveKeyPackage recipient \<Rightarrow>
               (case response of
                  KeyPackage actual package \<Rightarrow>
                    if recipient = actual then complete_reserved w request_id recipient package else differs
                | _ \<Rightarrow> differs)
           | AppendRoomOperation operation \<Rightarrow>
               (case response of
                  AppendAccepted event \<Rightarrow>
                    if ev_id event = request_id \<and> ev_sender event = cw_user w \<and> ev_operation event = operation
                    then receive w event else differs
                | HeadConflict room head \<Rightarrow>
                    if room = ap_room operation \<and> head \<noteq> ap_parent operation
                    then complete_conflict w request_id operation else differs
                | _ \<Rightarrow> differs)
           | Acknowledge _ _ \<Rightarrow>
               (case response of Acknowledged \<Rightarrow> settle_request w request_id | _ \<Rightarrow> differs)
           | _ \<Rightarrow> differs))"

section \<open>New attempts\<close>

definition set_attempt :: "MessageId \<Rightarrow> MessageId \<Rightarrow> ClientDb \<Rightarrow> ClientDb" where
  "set_attempt intent_id m db =
     db\<lparr>cd_delivery_intents := map (\<lambda>i. if in_id i = intent_id then i\<lparr>in_attempt := Some m\<rparr> else i)
        (cd_delivery_intents db)\<rparr>"

definition build_add ::
  "('g, 'm) client_world \<Rightarrow> bytes \<Rightarrow> RoomId \<Rightarrow> MessageId \<Rightarrow> u64 \<Rightarrow> UserId option \<Rightarrow> bytes \<Rightarrow> ('g, Request) engine_op" where
  "build_add w seed room m parent target package =
     chain (build_pending_add (cw_lib w) (cw_env w) room package (event_authenticated_data room m parent))
       (\<lambda>(epoch, body, welcome_bytes).
     case target of
       None \<Rightarrow> text_error ''add intent has no target''
     | Some recipient \<Rightarrow>
         ret (AppendRoomOperation \<lparr>ap_room = room, ap_parent = parent, ap_epoch = epoch, ap_content_type = Commit,
           ap_body = body, ap_welcome = Some \<lparr>wa_recipient = recipient, wa_body = welcome_bytes,
             wa_signature = Ed25519SignatureBytes
               (cw_sign w seed (welcome_transcript (cw_sha256 w) recipient room m (parent + 1) welcome_bytes))\<rparr>\<rparr>))"

definition build_send ::
  "('g, 'm) client_world \<Rightarrow> RoomId \<Rightarrow> MessageId \<Rightarrow> u64 \<Rightarrow> bytes option \<Rightarrow> ('g, Request) engine_op" where
  "build_send w room m parent plaintext =
     (case plaintext of
        None \<Rightarrow> text_error ''send intent has no plaintext''
      | Some plaintext \<Rightarrow>
          chain (encrypt_bound (cw_lib w) (cw_env w) room plaintext (event_authenticated_data room m parent))
            (\<lambda>(epoch, body).
          let operation = \<lparr>ap_room = room, ap_parent = parent, ap_epoch = epoch, ap_content_type = Application,
            ap_body = body, ap_welcome = None\<rparr> in
          chain (in_store (record_plaintext (cw_env w)
            (envelope \<lparr>ev_id = m, ev_sender = cw_user w, ev_operation = operation\<rparr>) (cw_user w) plaintext)) (\<lambda>_.
          ret (AppendRoomOperation operation))))"

definition build_request ::
  "('g, 'm) client_world \<Rightarrow> bytes \<Rightarrow> IntentRow \<Rightarrow> MessageId \<Rightarrow> u64 \<Rightarrow> ('g, Request) engine_op" where
  "build_request w seed row m parent =
     (case in_package row of
        Some package \<Rightarrow> build_add w seed (in_room row) m parent (in_target row) package
      | None \<Rightarrow>
          (case in_target row of
             Some recipient \<Rightarrow> ret (ReserveKeyPackage recipient)
           | None \<Rightarrow> build_send w (in_room row) m parent (in_plaintext row)))"

definition attempt_body ::
  "('g, 'm) client_world \<Rightarrow> bytes \<Rightarrow> IntentRow \<Rightarrow> MessageId \<Rightarrow> u64 \<Rightarrow> ('g, unit) engine_op" where
  "attempt_body w seed row m parent =
     chain (build_request w seed row m parent) (\<lambda>request.
     chain (journal w m request) (\<lambda>_.
     execute_sql w (set_attempt (in_id row) m)))"

text \<open>One intent: whether an attempt was built. A room with unprocessed events is left alone.\<close>

definition build_attempt :: "('g, 'm) client_world \<Rightarrow> IntentRow \<Rightarrow> ('g, bool) engine_op" where
  "build_attempt w row =
     (let room = in_room row in
      if length (RoomId_to_bytes room) \<noteq> 16 then text_error ''invalid stored room''
      else
        chain (has_group (cw_lib w) (cw_env w) room) (\<lambda>present.
        if \<not> present then ret False
        else
          chain (cursor w room) (\<lambda>room_cursor.
          chain (select w (\<lambda>db. Inr (list_ex (\<lambda>row. ib_room row = room \<and> ib_sequence row > room_cursor)
            (cd_delivery_inbox db)))) (\<lambda>blocked.
          if blocked then ret False
          else if (case in_target row of None \<Rightarrow> False | Some u \<Rightarrow> length (UserId_to_bytes u) \<noteq> 16)
          then text_error ''invalid stored user''
          else
            chain (new_message_id w) (\<lambda>m.
            chain (cursor w room) (\<lambda>parent.
            chain (in_store (identity (cw_env w))) (\<lambda>(_, seed).
            chain (atomic (cw_env w) (attempt_body w seed row m parent)) (\<lambda>_. ret True))))))))"

fun build_each :: "('g, 'm) client_world \<Rightarrow> IntentRow list \<Rightarrow> bool \<Rightarrow> ('g, bool) engine_op" where
  "build_each w [] built = ret built"
| "build_each w (row # rows) built = chain (build_attempt w row) (\<lambda>b. build_each w rows (built \<or> b))"

definition build_attempts :: "('g, 'm) client_world \<Rightarrow> ('g, bool) engine_op" where
  "build_attempts w =
     chain (select w (\<lambda>db. Inr (filter (\<lambda>i. in_attempt i = None) (cd_delivery_intents db)))) (\<lambda>rows.
     build_each w rows False)"

section \<open>Welcomes\<close>

text \<open>The earliest unsettled Welcome above a cursor.\<close>

definition pending_welcome :: "u64 \<Rightarrow> WelcomeInboxRow \<Rightarrow> bool" where
  "pending_welcome after row \<longleftrightarrow> wi_cursor row > after \<and> wi_state row \<in> {''received'', ''blocked''}"

definition next_welcome :: "ClientDb \<Rightarrow> u64 \<Rightarrow> WelcomeInboxRow option" where
  "next_welcome db after =
     (case sort_key wi_cursor (filter (pending_welcome after) (cd_welcome_inbox db)) of
        [] \<Rightarrow> None | row # _ \<Rightarrow> Some row)"

definition set_welcome_state :: "u64 \<Rightarrow> string \<Rightarrow> ClientDb \<Rightarrow> ClientDb" where
  "set_welcome_state c state db =
     db\<lparr>cd_welcome_inbox :=
       map (\<lambda>row. if wi_cursor row = c then row\<lparr>wi_state := state\<rparr> else row) (cd_welcome_inbox db)\<rparr>"

definition verify_welcome :: "('g, 'm) client_world \<Rightarrow> WelcomeDelivery \<Rightarrow> ('g, unit) engine_op" where
  "verify_welcome w wd =
     (if wd_sequence wd = 0 \<or> \<not> sequence_fits (wd_sequence wd) then text_error ''invalid Welcome boundary''
      else
        chain (require_contact w (wd_inviter wd)) (\<lambda>cc.
        if cw_valid_key w (card_transport_key cc)
           \<and> cw_verify_strict w (card_transport_key cc)
               (welcome_transcript (cw_sha256 w) (cw_user w) (wd_room wd) (wd_event wd) (wd_sequence wd)
                  (wa_body (wd_attachment wd)))
               (signature_bytes (wa_signature (wd_attachment wd)))
        then ret () else fail ClientSignature))"

definition accept_welcome :: "('g, 'm) client_world \<Rightarrow> u64 \<Rightarrow> WelcomeDelivery \<Rightarrow> ('g, unit) engine_op" where
  "accept_welcome w c wd =
     chain (has_group (cw_lib w) (cw_env w) (wd_room wd)) (\<lambda>present.
     if present then text_error ''room already exists; refusing another Welcome boundary''
     else
       chain (join_group (cw_lib w) (cw_env w) (wd_room wd) (wa_body (wd_attachment wd))) (\<lambda>_.
       chain (contains_user (cw_lib w) (cw_env w) (wd_room wd) (wd_inviter wd)) (\<lambda>member.
       if \<not> member then text_error ''Welcome signer is not a group member''
       else
         chain (insert_row w (\<lambda>db. cd_delivery_cursors db (wd_room wd) \<noteq> None)
           (set_cursor (wd_room wd) (wd_sequence wd))) (\<lambda>_.
         chain (in_store (upsert_room (cw_env w) (wd_room wd) (wd_room_name wd) ''welcomed'')) (\<lambda>_.
         chain (execute_sql w (set_welcome_state c ''applied'')) (\<lambda>_.
         journal w (acknowledgement_id (cw_sha256 w) (cw_user w) [] [c]) (Acknowledge [] [c])))))))"

definition block_welcome :: "('g, 'm) client_world \<Rightarrow> u64 \<Rightarrow> ('g, unit) engine_op" where
  "block_welcome w c = execute_sql w (set_welcome_state c ''blocked'')"

definition process_welcome :: "('g, 'm) client_world \<Rightarrow> WelcomeInboxRow \<Rightarrow> ('g, unit) engine_op" where
  "process_welcome w row =
     chain (from_result (decode_as (take_welcome (cw_pc w)) (wi_record row))) (\<lambda>wd.
     match_result (verify_welcome w wd)
       (\<lambda>_. block_welcome w (wi_cursor row))
       (\<lambda>_. match_result (atomic (cw_env w) (accept_welcome w (wi_cursor row) wd))
          (\<lambda>_. block_welcome w (wi_cursor row))
          (\<lambda>_. ret ())))"

text \<open>One turn of the loop: the cursor of the row it dealt with, if there was one.\<close>

definition welcome_turn :: "('g, 'm) client_world \<Rightarrow> u64 \<Rightarrow> ('g, u64 option) engine_op" where
  "welcome_turn w after =
     chain (select w (\<lambda>db. Inr (next_welcome db after))) (\<lambda>found.
     case found of
       None \<Rightarrow> ret None
     | Some row \<Rightarrow> chain (process_welcome w row) (\<lambda>_. ret (Some (wi_cursor row))))"

lemma next_welcome_after: "next_welcome db after = Some row \<Longrightarrow> after < wi_cursor row"
proof -
  let ?rows = "sort_key wi_cursor (filter (pending_welcome after) (cd_welcome_inbox db))"
  assume "next_welcome db after = Some row"
  then have "\<exists>rest. ?rows = row # rest" by (auto simp: next_welcome_def split: list.splits)
  then have "row \<in> set ?rows" by (metis list.set_intros(1))
  then show ?thesis by (simp add: pending_welcome_def)
qed

lemma in_store_Inr: "in_store m e = (Inr v, e') \<longleftrightarrow> (\<exists>s. m (en_store e) = (Inr v, s) \<and> e' = e\<lparr>en_store := s\<rparr>)"
  by (auto simp: in_store_def split: prod.splits)

lemma query_Inr:
  "query env f s = (Inr v, s') \<longleftrightarrow>
     \<not> ce_fault env (st_ticks s) \<and> f (st_db s) = Inr v \<and> s' = s\<lparr>st_ticks := Suc (st_ticks s)\<rparr>"
  by (auto simp: query_def stmt_def Let_def split: sum.splits)

lemma select_Inr:
  "select w f e = (Inr v, e') \<Longrightarrow> f (st_db (en_store e)) = Inr v"
  by (auto simp: in_store_Inr chain_Inr query_Inr dest!: lock_keeps)

lemma welcome_turn_advances:
  assumes "welcome_turn w after e = (Inr (Some c), e')"
  shows "after < c"
  using assms
  by (auto simp: welcome_turn_def chain_Inr [where m = "select w f" for f] ret_def fail_def chain_Inr
    dest!: select_Inr next_welcome_after split: option.splits)

lemma welcome_turn_measure:
  assumes "welcome_turn w after e = (Inr (Some c), e')"
  shows "18446744073709551616 - unat c < 18446744073709551616 - unat after"
proof -
  from welcome_turn_advances [OF assms] have "unat after < unat c" by (simp add: word_less_nat_alt)
  moreover have "unat c < 18446744073709551616" using unsigned_less [of c] by simp
  ultimately show ?thesis by linarith
qed

function process_welcomes_from :: "('g, 'm) client_world \<Rightarrow> u64 \<Rightarrow> ('g, unit) engine_op" where
  "process_welcomes_from w after e =
     (case welcome_turn w after e of
        (Inl error, e') \<Rightarrow> (Inl error, e')
      | (Inr None, e') \<Rightarrow> (Inr (), e')
      | (Inr (Some c), e') \<Rightarrow> process_welcomes_from w c e')"
  by pat_completeness auto
termination
  by (relation "measure (\<lambda>(w, after, e). 18446744073709551616 - unat after)") (auto intro: welcome_turn_measure dest: sym)

definition process_welcomes :: "('g, 'm) client_world \<Rightarrow> ('g, unit) engine_op" where
  "process_welcomes w = process_welcomes_from w 0"

end
