(* ===== verification/Client_Delivery.thy ===== *)
theory Client_Delivery
  imports Client_Engine
begin

text \<open>
  The client's exchange with the relay (\<open>grotto-client/src/delivery.rs\<close>): requests on the wire,
  the sweep over the outbox, recovery of Welcomes and room histories, and the session loop. What the
  relay sends is a finite script, in the order in which the reader task hands it over; the end
  of the script is the end of the connection. A loop that the relay can prolong, such as the repetition of
  a request that is put off, goes on for as long as the script does, as it does in the code for as long as the connection lasts;
  the scripts range over everything a relay can do before the connection ends.
\<close>

section \<open>The wire\<close>

datatype incoming = Arrived RelayMessage | Broken client_error | Silence

record Wire =
  wr_incoming :: "incoming list"
  wr_sent :: "(MessageId \<times> Request) list"
  wr_fault :: "nat \<Rightarrow> client_error option" \<comment> \<open>writing the nth frame fails or takes too long\<close>

record 'g Client =
  cl_engine :: "'g Engine"
  cl_wire :: Wire

type_synonym ('g, 'a) client_op = "'g Client \<Rightarrow> (client_error + 'a) \<times> 'g Client"

definition on_engine :: "('g, 'a) engine_op \<Rightarrow> ('g, 'a) client_op" where
  "on_engine m cl = (let (r, e) = m (cl_engine cl) in (r, cl\<lparr>cl_engine := e\<rparr>))"

abbreviation disconnected :: client_error where
  "disconnected \<equiv> ClientIo ConnectionReset"

text \<open>Waiting for the response: notifications are skipped, anything else but the response is an error.\<close>

fun await :: "MessageId \<Rightarrow> incoming list \<Rightarrow> (client_error + Response) \<times> incoming list" where
  "await m [] = (Inl disconnected, [])"
| "await m (Silence # rest) = (Inl ClientElapsed, rest)"
| "await m (Broken error # rest) = (Inl error, rest)"
| "await m (Arrived message # rest) =
     (case message of
        DeliveryChanged \<Rightarrow> await m rest
      | RelayDelivery request_id response \<Rightarrow>
          if request_id = m then (Inr response, rest)
          else (Inl (ClientMessageText ''unexpected V9 response''), rest)
      | _ \<Rightarrow> (Inl (ClientMessageText ''unexpected V9 response''), rest))"

definition wire_request :: "('g, 'm) client_world \<Rightarrow> MessageId \<Rightarrow> Request \<Rightarrow> ('g, Response) client_op" where
  "wire_request w m request cl =
     (case encode_as (ser_client_message (cw_pc w)) (ClientDelivery m request) of
        Inl error \<Rightarrow> (Inl error, cl)
      | Inr _ \<Rightarrow>
          let wire = cl_wire cl;
              wire = wire\<lparr>wr_sent := wr_sent wire @ [(m, request)]\<rparr> in
          case wr_fault wire (length (wr_sent (cl_wire cl))) of
            Some error \<Rightarrow> (Inl error, cl\<lparr>cl_wire := wire\<rparr>)
          | None \<Rightarrow>
              (case await m (wr_incoming wire) of (r, rest) \<Rightarrow>
                 (r, cl\<lparr>cl_wire := wire\<lparr>wr_incoming := rest\<rparr>\<rparr>)))"

lemma await_shrinks: "await m script = (Inr response, rest) \<Longrightarrow> length rest < length script"
  by (induction m script rule: await.induct)
    (auto split: RelayMessage.splits if_splits intro: less_SucI)

lemma await_le: "await m script = (r, rest) \<Longrightarrow> length rest \<le> length script"
  by (induction m script rule: await.induct)
    (auto split: RelayMessage.splits if_splits intro: le_SucI)

abbreviation remaining :: "'g Client \<Rightarrow> nat" where
  "remaining cl \<equiv> length (wr_incoming (cl_wire cl))"

lemma wire_request_shrinks: "wire_request w m request cl = (Inr response, cl') \<Longrightarrow> remaining cl' < remaining cl"
  by (auto simp: wire_request_def Let_def dest: await_shrinks split: sum.splits option.splits prod.splits)

definition try_again :: "Response \<Rightarrow> bool" where
  "try_again response \<longleftrightarrow> response \<in> {Rejected Overloaded, Rejected Internal}"

function read_loop :: "('g, 'm) client_world \<Rightarrow> MessageId \<Rightarrow> Request \<Rightarrow> ('g, Response) client_op" where
  "read_loop w m request cl =
     (case wire_request w m request cl of
        (Inl error, cl') \<Rightarrow> (Inl error, cl')
      | (Inr response, cl') \<Rightarrow> if try_again response then read_loop w m request cl' else (Inr response, cl'))"
  by pat_completeness auto
termination
  by (relation "measure (\<lambda>(w, m, request, cl). remaining cl)") (auto intro: wire_request_shrinks dest: sym)

declare read_loop.simps [simp del]

definition wire_read :: "('g, 'm) client_world \<Rightarrow> Request \<Rightarrow> ('g, Response) client_op" where
  "wire_read w request =
     chain (on_engine (new_message_id w)) (\<lambda>m. read_loop w m request)"

section \<open>Recovering Welcomes\<close>

definition add_welcome_row :: "u64 \<Rightarrow> bytes \<Rightarrow> ClientDb \<Rightarrow> ClientDb" where
  "add_welcome_row c bs db =
     db\<lparr>cd_welcome_inbox := cd_welcome_inbox db @ [\<lparr>wi_cursor = c, wi_record = bs, wi_state = ''received''\<rparr>]\<rparr>"

text \<open>The loop over a page; the result is the last cursor. Cursors are stored as signed integers.\<close>

fun store_welcomes :: "('g, 'm) client_world \<Rightarrow> u64 \<Rightarrow> WelcomeDelivery list \<Rightarrow> ('g, u64) engine_op" where
  "store_welcomes w previous [] = ret previous"
| "store_welcomes w previous (wd # rest) =
     (if wd_cursor wd \<le> previous \<or> wa_recipient (wd_attachment wd) \<noteq> cw_user w
      then text_error ''Welcome cursor or target mismatch''
      else
        chain (in_store (lock (cw_env w))) (\<lambda>_.
        chain (from_result (encode_as (ser_welcome (cw_pc w)) wd)) (\<lambda>bs.
        chain (if sequence_fits (wd_cursor wd)
               then insert_row w (\<lambda>db. list_ex (\<lambda>row. wi_cursor row = wd_cursor wd) (cd_welcome_inbox db))
                 (add_welcome_row (wd_cursor wd) bs)
               else fail (ClientStoreError (StoreDatabase EngineConversion))) (\<lambda>_.
        store_welcomes w (wd_cursor wd) rest))))"

definition store_welcome_page :: "('g, 'm) client_world \<Rightarrow> u64 \<Rightarrow> WelcomeDelivery list \<Rightarrow> ('g, unit) engine_op" where
  "store_welcome_page w after wds =
     chain (in_store (admit_new_data (cw_env w) (sum_list (map (\<lambda>wd. length (wa_body (wd_attachment wd)) + 1024) wds)))) (\<lambda>_.
     with_transaction (cw_env w)
       (chain (store_welcomes w after wds) (\<lambda>final.
        execute_sql w (\<lambda>db. db\<lparr>cd_welcome_cursor := final\<rparr>))))"

text \<open>One turn of the loop: whether to go on.\<close>

definition welcome_page_turn :: "('g, 'm) client_world \<Rightarrow> ('g, bool) client_op" where
  "welcome_page_turn w =
     chain (on_engine (select w (\<lambda>db. Inr (cd_welcome_cursor db)))) (\<lambda>c.
     chain (wire_read w (FetchWelcomes c)) (\<lambda>response.
     case response of
       Welcomes after_cursor wds mre \<Rightarrow>
         if after_cursor \<noteq> c \<or> (mre \<and> wds = []) then fail (ClientMessageText ''invalid Welcome page cursor'')
         else if wds = [] then ret False
         else chain (on_engine (store_welcome_page w c wds)) (\<lambda>_. ret mre)
     | _ \<Rightarrow> fail (ClientMessageText ''invalid Welcome recovery response'')))"

lemma on_engine_wire: "on_engine m cl = (r, cl') \<Longrightarrow> cl_wire cl' = cl_wire cl"
  by (auto simp: on_engine_def split: prod.splits)

lemma read_loop_shrinks: "read_loop w m request cl = (Inr response, cl') \<Longrightarrow> remaining cl' < remaining cl"
proof (induction w m request cl rule: read_loop.induct)
  case (1 w m request cl)
  from 1(2) obtain r cl1 where first: "wire_request w m request cl = (Inr r, cl1)"
    by (subst (asm) read_loop.simps) (auto split: prod.splits sum.splits)
  note shrink = wire_request_shrinks [OF this]
  show ?case
  proof (cases "try_again r")
    case True
    with 1(2) first have "read_loop w m request cl1 = (Inr response, cl')" by (subst (asm) read_loop.simps) simp
    with 1(1) [OF first [symmetric] refl True] shrink show ?thesis by simp
  next
    case False
    with 1(2) first shrink show ?thesis by (subst (asm) read_loop.simps) simp
  qed
qed

lemma wire_read_shrinks: "wire_read w request cl = (Inr response, cl') \<Longrightarrow> remaining cl' < remaining cl"
  by (auto simp: wire_read_def chain_Inr dest!: on_engine_wire read_loop_shrinks)

lemma welcome_page_turn_shrinks: "welcome_page_turn w cl = (Inr v, cl') \<Longrightarrow> remaining cl' < remaining cl"
  by (auto simp: welcome_page_turn_def ret_def fail_def elim!: chainE dest!: on_engine_wire wire_read_shrinks
    split: Response.splits if_splits)

function welcome_loop :: "('g, 'm) client_world \<Rightarrow> ('g, unit) client_op" where
  "welcome_loop w cl =
     (case welcome_page_turn w cl of
        (Inl error, cl') \<Rightarrow> (Inl error, cl')
      | (Inr again, cl') \<Rightarrow> if again then welcome_loop w cl' else (Inr (), cl'))"
  by pat_completeness auto
termination
  by (relation "measure (\<lambda>(w, cl). remaining cl)") (auto intro: welcome_page_turn_shrinks dest: sym)

declare welcome_loop.simps [simp del]

section \<open>Recovering room histories\<close>

fun receive_page :: "('g, 'm) client_world \<Rightarrow> RoomId \<Rightarrow> u64 \<Rightarrow> Event list \<Rightarrow> ('g, unit) engine_op" where
  "receive_page w room expected [] = ret ()"
| "receive_page w room expected (event # rest) =
     (if ap_room (ev_operation event) \<noteq> room \<or> ap_parent (ev_operation event) \<noteq> expected
      then text_error ''noncontiguous room event page''
      else chain (receive w event) (\<lambda>_. receive_page w room (expected + 1) rest))"

text \<open>Whether every event of the page was applied or rejected; the first blocked one ends the loop.\<close>

fun apply_page :: "('g, 'm) client_world \<Rightarrow> Event list \<Rightarrow> ('g, bool) engine_op" where
  "apply_page w [] = ret True"
| "apply_page w (event # rest) =
     chain (apply_event w event) (\<lambda>done. if done then apply_page w rest else ret False)"

definition process_page :: "('g, 'm) client_world \<Rightarrow> RoomId \<Rightarrow> u64 \<Rightarrow> Event list \<Rightarrow> ('g, bool) engine_op" where
  "process_page w room c events = chain (receive_page w room c events) (\<lambda>_. apply_page w events)"

definition events_response ::
  "('g, 'm) client_world \<Rightarrow> RoomHead \<Rightarrow> u64 \<Rightarrow> Response \<Rightarrow> ('g, bool) client_op" where
  "events_response w head c response =
     (case response of
        RoomEvents room after_sequence events _ \<Rightarrow>
          if room \<noteq> rh_room head \<or> after_sequence \<noteq> c \<or> events = []
          then fail (ClientMessageText ''room history omitted a required sequence'')
          else on_engine (process_page w room c events)
      | _ \<Rightarrow> fail (ClientMessageText ''invalid room recovery response''))"

definition catch_up_turn :: "('g, 'm) client_world \<Rightarrow> RoomHead \<Rightarrow> ('g, bool) client_op" where
  "catch_up_turn w head =
     chain (on_engine (cursor w (rh_room head))) (\<lambda>n.
     if \<not> n < rh_sequence head then ret False
     else
       chain (on_engine (cursor w (rh_room head))) (\<lambda>c.
       chain (wire_read w (FetchRoomEvents (rh_room head) c)) (events_response w head c)))"

lemma catch_up_turn_shrinks: "catch_up_turn w head cl = (Inr True, cl') \<Longrightarrow> remaining cl' < remaining cl"
  by (auto simp: catch_up_turn_def events_response_def ret_def fail_def elim!: chainE dest!: on_engine_wire wire_read_shrinks
    split: Response.splits if_splits)

function catch_up :: "('g, 'm) client_world \<Rightarrow> RoomHead \<Rightarrow> ('g, unit) client_op" where
  "catch_up w head cl =
     (case catch_up_turn w head cl of
        (Inl error, cl') \<Rightarrow> (Inl error, cl')
      | (Inr again, cl') \<Rightarrow> if again then catch_up w head cl' else (Inr (), cl'))"
  by pat_completeness auto
termination
  by (relation "measure (\<lambda>(w, head, cl). remaining cl)") (auto intro: catch_up_turn_shrinks dest: sym)

declare catch_up.simps [simp del]

text \<open>One entry of the room index; the rooms come in the order of their identifiers.\<close>

definition sync_head :: "('g, 'm) client_world \<Rightarrow> RoomId option \<Rightarrow> RoomHead \<Rightarrow> ('g, unit) client_op" where
  "sync_head w after_room head =
     (if (case after_room of None \<Rightarrow> False | Some r \<Rightarrow> RoomId_to_bytes r \<ge> RoomId_to_bytes (rh_room head))
      then fail (ClientMessageText ''room index is not ordered'')
      else
        chain (if \<not> sequence_fits (rh_sequence head) then ret True
               else chain (on_engine (cursor w (rh_room head))) (\<lambda>c. ret (rh_sequence head < c))) (\<lambda>invalid.
        if invalid then fail (ClientMessageText ''invalid or regressing room head'')
        else
          chain (on_engine (in_store (upsert_room (cw_env w) (rh_room head) (rh_name head) ''subscribed''))) (\<lambda>_.
          chain (on_engine (unresolved w (rh_room head))) (\<lambda>waiting.
          if waiting then ret ()
          else
            chain (on_engine (has_group (cw_lib w) (cw_env w) (rh_room head))) (\<lambda>present.
            if \<not> present then ret () else catch_up w head)))))"

fun sync_heads :: "('g, 'm) client_world \<Rightarrow> RoomId option \<Rightarrow> RoomHead list \<Rightarrow> ('g, RoomId option) client_op" where
  "sync_heads w after_room [] = ret after_room"
| "sync_heads w after_room (head # rest) =
     chain (sync_head w after_room head) (\<lambda>_. sync_heads w (Some (rh_room head)) rest)"

definition index_turn :: "('g, 'm) client_world \<Rightarrow> RoomId option \<Rightarrow> ('g, RoomId option \<times> bool) client_op" where
  "index_turn w after_room =
     chain (wire_read w (SyncIndex after_room)) (\<lambda>response.
     case response of
       SyncIndexPage rooms mre \<Rightarrow>
         if mre \<and> rooms = [] then fail (ClientMessageText ''empty continuing room index'')
         else chain (sync_heads w after_room rooms) (\<lambda>next_room. ret (next_room, mre))
     | _ \<Rightarrow> fail (ClientMessageText ''invalid room index response''))"

lemma catch_up_turn_le: "catch_up_turn w head cl = (Inr v, cl') \<Longrightarrow> remaining cl' \<le> remaining cl"
  by (auto simp: catch_up_turn_def events_response_def ret_def fail_def elim!: chainE dest!: on_engine_wire wire_read_shrinks
    split: Response.splits if_splits)

lemma catch_up_le: "catch_up w head cl = (Inr v, cl') \<Longrightarrow> remaining cl' \<le> remaining cl"
proof (induction w head cl rule: catch_up.induct)
  case (1 w head cl)
  from 1(2) obtain again cl1 where turn: "catch_up_turn w head cl = (Inr again, cl1)"
    by (subst (asm) catch_up.simps) (auto split: prod.splits sum.splits)
  note le = catch_up_turn_le [OF this]
  show ?case
  proof (cases again)
    case True
    with 1(2) turn have "catch_up w head cl1 = (Inr v, cl')" by (subst (asm) catch_up.simps) simp
    with 1(1) [OF turn [symmetric] refl True] le show ?thesis by simp
  next
    case False
    with 1(2) turn le show ?thesis by (subst (asm) catch_up.simps) simp
  qed
qed

lemma sync_head_le: "sync_head w after_room head cl = (Inr v, cl') \<Longrightarrow> remaining cl' \<le> remaining cl"
  by (auto simp: sync_head_def ret_def fail_def elim!: chainE dest!: on_engine_wire catch_up_le split: if_splits)

lemma sync_heads_le: "sync_heads w after_room rooms cl = (Inr v, cl') \<Longrightarrow> remaining cl' \<le> remaining cl"
  by (induction rooms arbitrary: after_room cl) (force simp: ret_def elim!: chainE dest: sync_head_le)+

lemma index_turn_shrinks: "index_turn w after_room cl = (Inr v, cl') \<Longrightarrow> remaining cl' < remaining cl"
  by (auto simp: index_turn_def ret_def fail_def elim!: chainE dest!: sync_heads_le wire_read_shrinks
    split: Response.splits if_splits)

function index_loop :: "('g, 'm) client_world \<Rightarrow> RoomId option \<Rightarrow> ('g, unit) client_op" where
  "index_loop w after_room cl =
     (case index_turn w after_room cl of
        (Inl error, cl') \<Rightarrow> (Inl error, cl')
      | (Inr (next_room, mre), cl') \<Rightarrow> if mre then index_loop w next_room cl' else (Inr (), cl'))"
  by pat_completeness auto
termination
  by (relation "measure (\<lambda>(w, after_room, cl). remaining cl)") (auto intro: index_turn_shrinks dest: sym)

declare index_loop.simps [simp del]

definition synchronize :: "('g, 'm) client_world \<Rightarrow> ('g, unit) client_op" where
  "synchronize w =
     chain (welcome_loop w) (\<lambda>_.
     chain (on_engine (process_welcomes w)) (\<lambda>_.
     index_loop w None))"

section \<open>Driving the engine\<close>

text \<open>One entry of the outbox: the exact message is sent again and its response completed.\<close>

definition send_entry :: "('g, 'm) client_world \<Rightarrow> OutboxRow \<Rightarrow> ('g, unit) client_op" where
  "send_entry w entry =
     chain (from_result (decode_as (take_client_message (cw_pc w)) (ob_message entry))) (\<lambda>message.
     case message of
       ClientDelivery request_id request \<Rightarrow>
         if request_id \<noteq> ob_request_id entry then fail (ClientMessageText ''outbox ID mismatch'')
         else
           chain (wire_request w request_id request) (\<lambda>response.
           on_engine (complete w request_id request response))
     | _ \<Rightarrow> fail (ClientMessageText ''unsupported old outbox protocol''))"

text \<open>One page: the row to continue after, or \<open>None\<close> if the page is empty.\<close>

definition sweep_turn :: "('g, 'm) client_world \<Rightarrow> nat \<Rightarrow> ('g, nat option) client_op" where
  "sweep_turn w after =
     chain (on_engine (in_store (outbox_page (cw_env w) after))) (\<lambda>page.
     if page = [] then ret None
     else chain (for_each (send_entry w) page) (\<lambda>_. ret (Some (ob_rowid (last page)))))"

lemma send_entry_shrinks: "send_entry w entry cl = (Inr v, cl') \<Longrightarrow> remaining cl' < remaining cl"
  by (auto simp: send_entry_def from_result_def ret_def fail_def elim!: chainE
    dest!: on_engine_wire wire_request_shrinks split: ClientMessage.splits if_splits)

lemma send_entries_le: "for_each (send_entry w) page cl = (Inr v, cl') \<Longrightarrow> remaining cl' \<le> remaining cl"
  by (induction page arbitrary: cl) (force simp: ret_def elim!: chainE dest: send_entry_shrinks)+

lemma sweep_turn_shrinks: "sweep_turn w after cl = (Inr (Some n), cl') \<Longrightarrow> remaining cl' < remaining cl"
proof -
  assume "sweep_turn w after cl = (Inr (Some n), cl')"
  then obtain entry page cl1 where cl1: "cl_wire cl1 = cl_wire cl"
    and "for_each (send_entry w) (entry # page) cl1 = (Inr (), cl')"
    by (fastforce simp: sweep_turn_def ret_def elim!: chainE dest!: on_engine_wire split: if_splits
      simp: neq_Nil_conv)
  then obtain u cl2 where "send_entry w entry cl1 = (Inr u, cl2)" "for_each (send_entry w) page cl2 = (Inr (), cl')"
    by (auto elim: chainE)
  from send_entry_shrinks [OF this(1)] send_entries_le [OF this(2)] cl1 show ?thesis by simp
qed

function sweep :: "('g, 'm) client_world \<Rightarrow> nat \<Rightarrow> ('g, unit) client_op" where
  "sweep w after cl =
     (case sweep_turn w after cl of
        (Inl error, cl') \<Rightarrow> (Inl error, cl')
      | (Inr None, cl') \<Rightarrow> (Inr (), cl')
      | (Inr (Some n), cl') \<Rightarrow> sweep w n cl')"
  by pat_completeness auto
termination
  by (relation "measure (\<lambda>(w, after, cl). remaining cl)") (auto intro: sweep_turn_shrinks dest: sym)

declare sweep.simps [simp del]

text \<open>\<open>drive_inner\<close>: at most four rounds, as long as new attempts were built.\<close>

fun drive_rounds :: "nat \<Rightarrow> ('g, 'm) client_world \<Rightarrow> ('g, unit) client_op" where
  "drive_rounds 0 w = ret ()"
| "drive_rounds (Suc n) w =
     chain (sweep w 0) (\<lambda>_.
     chain (synchronize w) (\<lambda>_.
     chain (on_engine (build_attempts w)) (\<lambda>built.
     if built then drive_rounds n w else ret ())))"

definition drive :: "('g, 'm) client_world \<Rightarrow> ('g, unit) client_op" where
  "drive w = drive_rounds 4 w"

text \<open>
  The session loop of \<open>run\<close>, over what its \<open>select!\<close> picks: a line of input or its end, a message of
  the relay, or the timer. The value says whether the loop goes on.
\<close>

datatype pick = PickLine "io_kind + rstr" | PickInputEnd | PickWire | PickTimer

definition run_command :: "('g, 'm) client_world \<Rightarrow> UserCommand \<Rightarrow> ('g, unit) client_op" where
  "run_command w c cl = (let (r, cl') = on_engine (command w c) cl in drive w cl')"

definition run_turn :: "('g, 'm) client_world \<Rightarrow> pick \<Rightarrow> ('g, bool) client_op" where
  "run_turn w p cl =
     (case p of
        PickInputEnd \<Rightarrow> (Inr False, cl)
      | PickLine (Inl error) \<Rightarrow> (Inl (ClientIo error), cl)
      | PickLine (Inr line) \<Rightarrow>
          (case parse_command line of
             Inr (Some c) \<Rightarrow> chain (run_command w c) (\<lambda>_. ret True) cl
           | _ \<Rightarrow> (Inr True, cl))
      | PickWire \<Rightarrow>
          (let popped = cl\<lparr>cl_wire := (cl_wire cl)\<lparr>wr_incoming := tl (wr_incoming (cl_wire cl))\<rparr>\<rparr> in
           case wr_incoming (cl_wire cl) of
             [] \<Rightarrow> (Inl disconnected, cl)
           | Silence # _ \<Rightarrow> (Inr True, popped)
           | Broken error # _ \<Rightarrow> (Inl error, popped)
           | Arrived message # _ \<Rightarrow>
               if message = DeliveryChanged then chain (drive w) (\<lambda>_. ret True) popped
               else (Inl (ClientMessageText ''unexpected V9 response''), popped))
      | PickTimer \<Rightarrow> chain (drive w) (\<lambda>_. ret True) cl)"

fun run_picks :: "('g, 'm) client_world \<Rightarrow> pick list \<Rightarrow> ('g, bool) client_op" where
  "run_picks w [] = ret True"
| "run_picks w (p # ps) = chain (run_turn w p) (\<lambda>again. if again then run_picks w ps else ret False)"

definition run_engine :: "('g, 'm) client_world \<Rightarrow> pick list \<Rightarrow> ('g, bool) client_op" where
  "run_engine w ps = chain (drive w) (\<lambda>_. run_picks w ps)"

end
