(* ===== verification/Client_Views.thy ===== *)
theory Client_Views
  imports Client_Delivery
begin

text \<open>
  Which operations leave which tables alone. A view is a part of the tables; an operation keeps it if
  neither a success nor an error changes it, nor the transaction guard. The rules follow the
  combinators; for the views the MLS library cannot reach they extend to the whole session.
\<close>

section \<open>Keeping a view\<close>

named_theorems keep_intros \<open>operations that leave the guard and a view alone\<close>

definition keeps_store :: "(ClientDb \<Rightarrow> 'v) \<Rightarrow> (ClientStore \<Rightarrow> 'r \<times> ClientStore) \<Rightarrow> bool" where
  "keeps_store view m \<longleftrightarrow> (\<forall>s r s'. m s = (r, s') \<longrightarrow> same_guard s s' \<and> view (st_db s') = view (st_db s))"

definition keeps :: "(ClientDb \<Rightarrow> 'v) \<Rightarrow> ('g, 'a) engine_op \<Rightarrow> bool" where
  "keeps view m \<longleftrightarrow> (\<forall>e r e'. m e = (r, e') \<longrightarrow>
     same_guard (en_store e) (en_store e') \<and> view (st_db (en_store e')) = view (st_db (en_store e)))"

lemma keepsD:
  assumes "keeps view m" "m e = (r, e')"
  shows "same_guard (en_store e) (en_store e')" "view (st_db (en_store e')) = view (st_db (en_store e))"
  using assms by (auto simp: keeps_def)

lemma same_guard_refl [simp]: "same_guard s s"
  by (simp add: same_guard_def)

lemma keeps_storeI: "(\<And>s r s'. m s = (r, s') \<Longrightarrow> same_guard s s' \<and> view (st_db s') = view (st_db s)) \<Longrightarrow> keeps_store view m"
  by (simp add: keeps_store_def)

lemma keepsI:
  "(\<And>e r e'. m e = (r, e') \<Longrightarrow> same_guard (en_store e) (en_store e') \<and> view (st_db (en_store e')) = view (st_db (en_store e)))
   \<Longrightarrow> keeps view m"
  by (simp add: keeps_def)

lemma keeps_basic [keep_intros]:
  "keeps_store view (ret v)" "keeps_store view (fail x)" "keeps view (ret v)" "keeps view (fail error)" "keeps view (from_result q)"
  "keeps view (put_group room g)"
  by (simp_all add: keeps_store_def keeps_def ret_def fail_def from_result_def put_group_def)

lemma keeps_chain [keep_intros]: "keeps view m \<Longrightarrow> (\<And>v. keeps view (f v)) \<Longrightarrow> keeps view (chain m f)"
  unfolding keeps_def by (fastforce elim!: chain_cases simp: same_guard_def)

lemma keeps_store_chain [keep_intros]: "keeps_store view m \<Longrightarrow> (\<And>v. keeps_store view (f v)) \<Longrightarrow> keeps_store view (chain m f)"
  unfolding keeps_store_def by (fastforce elim!: chain_cases simp: same_guard_def)

lemma keeps_in_store [keep_intros]: "keeps_store view m \<Longrightarrow> keeps view (in_store m)"
  by (fastforce simp: keeps_store_def keeps_def in_store_def split: prod.splits)

lemma keeps_in_library [keep_intros]: "keeps_store view m \<Longrightarrow> keeps view (in_library m)"
  by (fastforce simp: keeps_store_def keeps_def in_library_def split: prod.splits)

lemma keeps_or_else [keep_intros]: "keeps view m \<Longrightarrow> keeps view (or_else m error)"
  by (fastforce simp: keeps_def or_else_def split: prod.splits)

lemma keeps_on_group [keep_intros]: "keeps_store view (m g) \<Longrightarrow> keeps view (on_group room g m)"
  by (fastforce simp: keeps_store_def keeps_def on_group_def split: prod.splits)

lemma keeps_if [keep_intros]: "keeps view m \<Longrightarrow> keeps view n \<Longrightarrow> keeps view (if c then m else n)"
  by simp

lemma keeps_store_if [keep_intros]: "keeps_store view m \<Longrightarrow> keeps_store view n \<Longrightarrow> keeps_store view (if c then m else n)"
  by simp

lemma keeps_for_each [keep_intros]: "(\<And>x. keeps view (f x)) \<Longrightarrow> keeps view (for_each f xs)"
  by (induction xs) (auto intro!: keep_intros)

lemma keeps_store_for_each [keep_intros]: "(\<And>x. keeps_store view (f x)) \<Longrightarrow> keeps_store view (for_each f xs)"
  by (induction xs) (auto intro!: keep_intros)

lemma keeps_option [keep_intros]:
  "keeps view m \<Longrightarrow> (\<And>x. keeps view (f x)) \<Longrightarrow> keeps view (case v of None \<Rightarrow> m | Some x \<Rightarrow> f x)"
  by (cases v) simp_all

lemma keeps_store_option [keep_intros]:
  "keeps_store view m \<Longrightarrow> (\<And>x. keeps_store view (f x)) \<Longrightarrow> keeps_store view (case v of None \<Rightarrow> m | Some x \<Rightarrow> f x)"
  by (cases v) simp_all

lemma keeps_prod [keep_intros]:
  "(\<And>a b. keeps view (f a b)) \<Longrightarrow> keeps view (case p of (a, b) \<Rightarrow> f a b)"
  "(\<And>a b. keeps_store view (h a b)) \<Longrightarrow> keeps_store view (case p of (a, b) \<Rightarrow> h a b)"
  by (cases p; simp)+

lemma keeps_lock [keep_intros]: "keeps_store view (lock env)" "keeps_store view (lock_provider env)"
  by (auto simp: keeps_store_def lock_def lock_provider_def ret_def fail_def)

lemma keeps_query [keep_intros]: "keeps_store view (query env f)"
  by (auto simp: keeps_store_def query_def stmt_def Let_def same_guard_def split: if_splits sum.splits)

lemma keeps_stmt:
  "(\<And>db v db'. f db = Inr (v, db') \<Longrightarrow> view db' = view db) \<Longrightarrow> keeps_store view (stmt env f)"
  by (auto simp: keeps_store_def stmt_def Let_def same_guard_def split: if_splits sum.splits)

lemma keeps_update: "(\<And>db. view (f db) = view db) \<Longrightarrow> keeps_store view (update env f)"
  unfolding update_def by (rule keeps_stmt) auto

lemma keeps_list [keep_intros]:
  "keeps view m \<Longrightarrow> (\<And>x xs. keeps view (f x xs)) \<Longrightarrow> keeps view (case ws of [] \<Rightarrow> m | x # xs \<Rightarrow> f x xs)"
  by (cases ws) simp_all

lemma keeps_sum [keep_intros]:
  "(\<And>x. keeps view (m x)) \<Longrightarrow> (\<And>x. keeps view (f x)) \<Longrightarrow> keeps view (case v of Inl x \<Rightarrow> m x | Inr x \<Rightarrow> f x)"
  by (cases v) simp_all

lemma keeps_own_request [keep_intros]:
  "keeps view m \<Longrightarrow> (\<And>request_id operation. keeps view (f request_id operation)) \<Longrightarrow>
   keeps view (case message of ClientDelivery request_id (AppendRoomOperation operation) \<Rightarrow> f request_id operation | _ \<Rightarrow> m)"
  by (auto split: ClientMessage.splits Request.splits)

lemma keeps_processed [keep_intros]:
  "keeps view m \<Longrightarrow> (\<And>plaintext author. keeps view (f plaintext author)) \<Longrightarrow>
   keeps view (case processed of ProcessedApplication plaintext author \<Rightarrow> f plaintext author | _ \<Rightarrow> m)"
  by (auto split: Processed.splits)

lemma keeps_request [keep_intros]:
  "(\<And>operation. keeps view (f operation)) \<Longrightarrow> keeps view n \<Longrightarrow>
   keeps view (case request of AppendRoomOperation operation \<Rightarrow> f operation | _ \<Rightarrow> n)"
  by (cases request) simp_all

lemma keeps_insert_row [keep_intros]: "(\<And>db. view (f db) = view db) \<Longrightarrow> keeps view (insert_row w conflict f)"
  unfolding insert_row_def by (intro keep_intros keeps_stmt) (auto split: if_splits)

lemma keeps_execute [keep_intros]: "(\<And>db. view (f db) = view db) \<Longrightarrow> keeps view (execute_sql w f)"
  by (intro keep_intros keeps_update)

lemma keeps_new_message_id [keep_intros]: "keeps view (new_message_id w)"
  by (auto simp: keeps_def new_message_id_def same_guard_def)

lemma keeps_queries [keep_intros]: "keeps view (cursor w room)" "keeps view (unresolved w room)"
  unfolding cursor_def unresolved_def by (intro keep_intros)+

lemma keeps_admit [keep_intros]: "keeps_store view (admit_new_data env n)"
proof -
  have decide: "keeps_store view (\<lambda>s. if b s then fail StoreQuota s else ret () s)" for b
    by (auto simp: keeps_store_def fail_def ret_def)
  have "keeps_store view (chain (query env (\<lambda>_. Inr (ce_page_count env k))) (\<lambda>pages s. if b pages s then fail StoreQuota s else ret () s))"
    for k b by (intro keep_intros decide)
  then have "keeps_store view (\<lambda>s. chain (query env (\<lambda>_. Inr (ce_page_count env (st_ticks s))))
      (\<lambda>pages s. if b pages s then fail StoreQuota s else ret () s) s)" for b
    unfolding keeps_store_def by blast
  then show ?thesis unfolding admit_new_data_def by (intro keep_intros)
qed

lemma keeps_reads [keep_intros]:
  "keeps_store view (find_outbox env m)" "keeps_store view (outbox_page env n)" "keeps_store view (history env room before)"
  "keeps_store view (list_rooms env)" "keeps_store view (load_mls_identity env)"
  unfolding find_outbox_def outbox_page_def history_def list_rooms_def load_mls_identity_def
  by (intro keep_intros)+

lemma keeps_require_contact [keep_intros]: "keeps view (require_contact w user)"
  unfolding require_contact_def by (intro keep_intros)

text \<open>Writing operations, for the views their statements leave alone.\<close>

lemma keeps_save_outbox:
  "(\<And>m knd bs db. view (add_outbox m knd bs db) = view db) \<Longrightarrow> keeps_store view (save_outbox env m knd bs)"
  unfolding save_outbox_def by (intro keep_intros keeps_update)

lemma keeps_journal:
  "(\<And>m knd bs db. view (add_outbox m knd bs db) = view db) \<Longrightarrow> keeps view (journal w m request)"
  unfolding journal_def by (intro keep_intros keeps_save_outbox)

lemma keeps_upsert_room:
  "(\<And>db rs. view (db\<lparr>cd_rooms := rs\<rparr>) = view db) \<Longrightarrow> keeps_store view (upsert_room env room name origin)"
  unfolding upsert_room_def by (cases "normalize_room_name name") (simp_all add: keep_intros keeps_update)

section \<open>Views out of the reach of the library\<close>

locale app_view =
  fixes view :: "ClientDb \<Rightarrow> 'v"
  assumes view_app: "view (app_part db) = view db"
begin

lemma mls_only_keeps: "mls_only m \<Longrightarrow> keeps_store view m"
proof (rule keeps_storeI)
  fix s r s' assume "mls_only m" "m s = (r, s')"
  then have "same_guard s s'" "app_part (st_db s') = app_part (st_db s)" by (auto simp: mls_only_def)
  with view_app show "same_guard s s' \<and> view (st_db s') = view (st_db s)" by metis
qed

lemma keeps_verify_member [keep_intros]: "keeps_store view (verify_member env i)" "keeps_store view (provider_identity env i)"
  using mls_only_keeps [OF identity_callback.mls_only_call] by (simp_all add: provider_identity_def)

lemma library_keeps [keep_intros]:
  assumes "documented_library lib env"
  shows "keeps_store view (ml_load_group lib env group_id)" "keeps_store view (ml_create_group_with_id lib env group_id)"
    "keeps_store view (ml_join_group lib env message)" "keeps_store view (ml_generate_key_package_message lib env)"
    "keeps_store view (ml_encrypt lib env plaintext aad g)" "keeps_store view (ml_commit_add lib env aad message g)"
    "keeps_store view (ml_apply_pending_commit lib env g)" "keeps_store view (ml_process_incoming_message lib env message g)"
    "keeps_store view (ml_write_to_storage lib env g)"
  using assms by (simp_all add: documented_library_def mls_only_keeps)

lemma keeps_verify_roster [keep_intros]: "keeps view (verify_roster lib env error g)"
  unfolding verify_roster_def by (intro keep_intros)

lemma keeps_load_into_cache [keep_intros]:
  assumes "documented_library lib env"
  shows "keeps view (load_into_cache lib env room)"
proof (rule keepsI)
  fix e r e' assume run: "load_into_cache lib env room e = (r, e')"
  have "keeps view (chain (or_else (in_library (ml_load_group lib env (RoomId_to_bytes room)))
                 (ClientMessageText ''no local MLS group for room'')) (\<lambda>group.
        chain (verify_roster lib env (ClientMessageText ''stored group contains an unverified or changed member'') group) (\<lambda>_.
        put_group room group)))" (is "keeps view ?m")
    by (intro keep_intros assms)
  then have m: "?m e1 = (r, e') \<Longrightarrow> same_guard (en_store e1) (en_store e') \<and> view (st_db (en_store e')) = view (st_db (en_store e1))"
    for e1 by (simp add: keeps_def)
  let ?e1 = "if length (en_groups e) \<ge> 8 then e\<lparr>en_groups := []\<rparr> else e"
  from run have "e' = e \<or> ?m ?e1 = (r, e')"
    unfolding load_into_cache_def by (simp only: split: if_split_asm) auto
  with m [of ?e1] show "same_guard (en_store e) (en_store e') \<and> view (st_db (en_store e')) = view (st_db (en_store e))"
    by (cases "length (en_groups e) \<ge> 8") auto
qed

lemma keeps_group_mut [keep_intros]: "documented_library lib env \<Longrightarrow> keeps view (group_mut lib env room)"
proof -
  have "keeps view (\<lambda>e. case map_of (en_groups e) room of
      None \<Rightarrow> (Inl (ClientMessageText ''MLS group vanished''), e) | Some g \<Rightarrow> (Inr g, e))"
    by (rule keepsI) (auto split: option.splits)
  then show "documented_library lib env \<Longrightarrow> keeps view (group_mut lib env room)"
    unfolding group_mut_def by (intro keep_intros)
qed

lemma keeps_has_group [keep_intros]: "documented_library lib env \<Longrightarrow> keeps view (has_group lib env room)"
  using keeps_group_mut [of lib env room] by (fastforce simp: keeps_def has_group_def split: prod.splits)

lemma keeps_session [keep_intros]:
  assumes "documented_library lib env"
  shows "keeps view (persist lib env room)" "keeps view (contains_user lib env room user)" "keeps view (current_epoch lib env room)"
    "keeps view (encrypt_bound lib env room plaintext aad)" "keeps view (discard_pending lib env room)"
    "keeps view (apply_accepted_commit lib env room)"
  unfolding persist_def contains_user_def current_epoch_def encrypt_bound_def discard_pending_def apply_accepted_commit_def
  by (intro keep_intros assms)+

lemma keeps_create_group [keep_intros]:
  assumes lib: "documented_library lib env"
  shows "keeps view (create_group lib env room)"
proof (rule keepsI)
  fix e r e' assume run: "create_group lib env room e = (r, e')"
  obtain q e1 where first: "group_mut lib env room e = (q, e1)" by (cases "group_mut lib env room e")
  from keeps_group_mut [OF lib] first
  have one: "same_guard (en_store e) (en_store e1) \<and> view (st_db (en_store e1)) = view (st_db (en_store e))"
    by (auto simp: keeps_def)
  have "keeps view (chain (in_library (ml_create_group_with_id lib env (RoomId_to_bytes room))) (\<lambda>g.
      chain (put_group room g) (\<lambda>_. chain (persist lib env room) (\<lambda>_. ret (ml_current_epoch lib g)))))"
    by (intro keep_intros lib)
  with run first one show "same_guard (en_store e) (en_store e') \<and> view (st_db (en_store e')) = view (st_db (en_store e))"
    unfolding create_group_def keeps_def
    by (cases q) (fastforce simp: same_guard_def)+
qed

lemma keeps_build_pending_add [keep_intros]:
  "documented_library lib env \<Longrightarrow> keeps view (build_pending_add lib env room package aad)"
  unfolding build_pending_add_def by (intro keep_intros)

lemma keeps_run_incoming [keep_intros]:
  assumes "documented_library lib env"
  shows "keeps view (run_incoming lib env room g message)"
  using library_keeps(8) [OF assms, of message g]
  by (fastforce simp: keeps_def keeps_store_def run_incoming_def split: prod.splits)

lemma keeps_process_bound [keep_intros]: "documented_library lib env \<Longrightarrow> keeps view (process_bound lib env event)"
  unfolding process_bound_def Let_def by (intro keep_intros)

lemma keeps_join_group [keep_intros]: "documented_library lib env \<Longrightarrow> keeps view (join_group lib env room bs)"
  unfolding join_group_def by (intro keep_intros)

lemma keeps_generate [keep_intros]: "documented_library lib env \<Longrightarrow> keeps view (generate_key_packages lib env n)"
  by (induction n) (auto intro!: keep_intros)

end

text \<open>The empty view: the guard alone.\<close>

interpretation guard: app_view "\<lambda>_. ()"
  by unfold_locales simp

end
