(* ===== verification/Client_Transactions.thy ===== *)
theory Client_Transactions
  imports Client_Views
begin

text \<open>
  The transaction guard of the client. The durable tables are those of the last commit; a body under a
  guard makes its tables durable only if it succeeds and the commit does.
\<close>

section \<open>Durable tables\<close>

definition durable_db :: "ClientStore \<Rightarrow> ClientDb" where
  "durable_db s = (case st_begun s of None \<Rightarrow> st_db s | Some db \<Rightarrow> db)"

definition idle :: "ClientStore \<Rightarrow> bool" where
  "idle s \<longleftrightarrow> st_begun s = None \<and> st_owner s = None"

text \<open>Between operations no transaction is open, unless a rollback failed and closed the store.\<close>

definition at_rest :: "ClientStore \<Rightarrow> bool" where
  "at_rest s \<longleftrightarrow> idle s \<or> st_poisoned s"

text \<open>A store inside a transaction that has not changed a table yet.\<close>

definition just_begun :: "client_env \<Rightarrow> ClientStore \<Rightarrow> bool" where
  "just_begun env s \<longleftrightarrow>
     st_begun s = Some (st_db s) \<and> st_owner s = Some (ce_thread env) \<and> \<not> st_poisoned s \<and> \<not> ce_mutex_poisoned env"

lemma keeps_durable:
  assumes "keeps view m" "m e = (r, e')"
  shows "at_rest (en_store e) \<Longrightarrow> at_rest (en_store e')"
    and "view (durable_db (en_store e')) = view (durable_db (en_store e))"
  using keepsD [OF assms] by (auto simp: at_rest_def idle_def durable_db_def same_guard_def split: option.splits)

section \<open>Outcomes\<close>

lemma transaction_cases:
  assumes "at_rest s" "transaction env s = (r, s')"
  shows "(\<exists>x. r = Inl x) \<and> at_rest s' \<and> durable_db s' = durable_db s \<or> r = Inr () \<and> just_begun env s' \<and> st_db s' = durable_db s"
  using assms
  by (auto simp: transaction_def chain_def lock_def ret_def fail_def at_rest_def durable_db_def idle_def just_begun_def
    split: if_splits option.splits)

lemma commit_cases:
  assumes "commit env s = (r, s')"
  shows "(\<exists>x. r = Inl x) \<and> same_guard s s' \<and> st_db s' = st_db s
    \<or> r = Inr () \<and> idle s' \<and> st_db s' = st_db s"
  using assms
  by (auto simp: commit_def chain_def lock_def ret_def fail_def idle_def same_guard_def split: if_splits)

lemma drop_restores:
  assumes "just_begun env s1" "same_guard s1 s"
  shows "durable_db (drop_transaction env s) = st_db s1 \<and> at_rest (drop_transaction env s)"
  using assms
  by (auto simp: drop_transaction_def lock_def ret_def durable_db_def idle_def at_rest_def just_begun_def same_guard_def Let_def)

lemma in_store_cases:
  "in_store m e = (r, e') \<Longrightarrow> \<exists>q s'. m (en_store e) = (q, s') \<and> r = map_err ClientStoreError q \<and> e' = e\<lparr>en_store := s'\<rparr>"
  by (auto simp: in_store_def split: prod.splits)

lemma in_store_chain: "in_store (chain m f) = chain (in_store m) (\<lambda>v. in_store (f v))"
  by (auto simp: in_store_def chain_def fun_eq_iff split: prod.splits sum.splits)

text \<open>What a body under a guard did to the durable tables.\<close>

definition committed :: "client_env \<Rightarrow> ('g, 'a) engine_op \<Rightarrow> 'g Engine \<Rightarrow> client_error + 'a \<Rightarrow> ClientDb \<Rightarrow> bool" where
  "committed env body e r db \<longleftrightarrow>
     (\<exists>e1 e2 v. just_begun env (en_store e1) \<and> st_db (en_store e1) = durable_db (en_store e) \<and> en_groups e1 = en_groups e
        \<and> body e1 = (Inr v, e2) \<and> r = Inr v \<and> db = st_db (en_store e2))"

lemma transaction_outcome:
  assumes rest: "at_rest (en_store e)" and run: "with_transaction env body e = (r, e')"
    and guard: "\<And>e1 q e2. just_begun env (en_store e1) \<Longrightarrow> st_db (en_store e1) = durable_db (en_store e) \<Longrightarrow>
      body e1 = (q, e2) \<Longrightarrow> same_guard (en_store e1) (en_store e2)"
  shows "at_rest (en_store e')
    \<and> ((\<exists>x. r = Inl x) \<and> durable_db (en_store e') = durable_db (en_store e)
       \<or> idle (en_store e') \<and> committed env body e r (durable_db (en_store e')))"
proof -
  obtain q s1 where t: "transaction env (en_store e) = (q, s1)" by (cases "transaction env (en_store e)")
  from transaction_cases [OF rest t] show ?thesis
  proof
    assume "(\<exists>x. q = Inl x) \<and> at_rest s1 \<and> durable_db s1 = durable_db (en_store e)"
    with run t show ?thesis by (auto simp: with_transaction_def chain_def in_store_def)
  next
    assume begun: "q = Inr () \<and> just_begun env s1 \<and> st_db s1 = durable_db (en_store e)"
    let ?e1 = "e\<lparr>en_store := s1\<rparr>"
    obtain p e2 where b: "body ?e1 = (p, e2)" by (cases "body ?e1")
    from begun guard [OF _ _ b] have kept: "same_guard s1 (en_store e2)" by simp
    show ?thesis
    proof (cases p)
      case (Inl x)
      with run t b begun have "r = Inl x" "en_store e' = drop_transaction env (en_store e2)"
        by (auto simp: with_transaction_def chain_def in_store_def)
      with drop_restores [OF _ kept] begun show ?thesis by auto
    next
      case (Inr v)
      obtain c s3 where c: "commit env (en_store e2) = (c, s3)" by (cases "commit env (en_store e2)")
      from commit_cases [OF c] show ?thesis
      proof
        assume failed: "(\<exists>x. c = Inl x) \<and> same_guard (en_store e2) s3 \<and> st_db s3 = st_db (en_store e2)"
        with run t b begun Inr c have "\<exists>x. r = Inl x" "en_store e' = drop_transaction env s3"
          by (auto simp: with_transaction_def chain_def in_store_def)
        moreover have "same_guard s1 s3" using failed kept by (auto simp: same_guard_def)
        ultimately show ?thesis using drop_restores begun by auto
      next
        assume finished: "c = Inr () \<and> idle s3 \<and> st_db s3 = st_db (en_store e2)"
        with run t b begun Inr c have r: "r = Inr v" "en_store e' = s3"
          by (auto simp: with_transaction_def chain_def in_store_def ret_def)
        moreover have "durable_db s3 = st_db (en_store e2)" using finished by (simp add: durable_db_def idle_def)
        ultimately have "committed env body e r (durable_db (en_store e'))"
          unfolding committed_def using begun b Inr by (intro exI [of _ ?e1] exI [of _ e2] exI [of _ v]) simp
        with finished r show ?thesis by (simp add: at_rest_def)
      qed
    qed
  qed
qed

lemma atomic_as_transaction:
  assumes "atomic env body e = (r, e')"
  obtains e'' where "with_transaction env body e = (r, e'')" "en_store e'' = en_store e'"
  using assms
  by (auto simp: atomic_def with_transaction_def chain_def in_store_def split: prod.splits sum.splits)

text \<open>A body that keeps a view: for the view the guard makes no difference.\<close>

lemma transaction_keeps:
  assumes "keeps view body" "at_rest (en_store e)" "with_transaction env body e = (r, e')"
  shows "at_rest (en_store e') \<and> view (durable_db (en_store e')) = view (durable_db (en_store e))"
proof -
  from transaction_outcome [OF assms(2,3)] keepsD(1) [OF assms(1)]
  have "at_rest (en_store e') \<and> (durable_db (en_store e') = durable_db (en_store e) \<or> committed env body e r (durable_db (en_store e')))"
    by blast
  then show ?thesis using keepsD(2) [OF assms(1)] by (auto simp: committed_def)
qed

lemma in_store_transaction: "in_store (in_transaction env m) = with_transaction env (in_store m)"
proof
  fix e :: "'g Engine"
  obtain q s1 where t: "transaction env (en_store e) = (q, s1)" by (cases "transaction env (en_store e)")
  show "in_store (in_transaction env m) e = with_transaction env (in_store m) e"
  proof (cases q)
    case (Inr u)
    obtain p s2 where m: "m s1 = (p, s2)" by (cases "m s1")
    obtain c s3 where c: "commit env s2 = (c, s3)" by (cases "commit env s2")
    from t m c Inr show ?thesis
      by (cases p; cases c) (simp_all add: in_store_def in_transaction_def with_transaction_def chain_def ret_def)
  qed (simp add: t in_store_def in_transaction_def with_transaction_def chain_def)
qed

section \<open>The loop over stored Welcomes\<close>

lemma process_welcomes_closed:
  assumes turn: "\<And>after e r e'. Q e \<Longrightarrow> welcome_turn w after e = (r, e') \<Longrightarrow> Q e' \<and> R e e'"
    and trans: "\<And>e e1 e'. R e e1 \<Longrightarrow> R e1 e' \<Longrightarrow> R e e'"
    and "Q e" "process_welcomes_from w after e = (r, e')"
  shows "Q e' \<and> R e e'"
  using assms(3,4)
proof (induction "18446744073709551616 - unat after" arbitrary: after e rule: less_induct)
  case less
  obtain q e1 where first: "welcome_turn w after e = (q, e1)" by (cases "welcome_turn w after e")
  note one = turn [OF less.prems(1) first]
  show ?case
  proof (cases "\<exists>c. q = Inr (Some c)")
    case True
    then obtain c where q: "q = Inr (Some c)" by blast
    from less.prems(2) first q have "process_welcomes_from w c e1 = (r, e')" by simp
    with less.hyps [OF welcome_turn_measure [OF first [unfolded q]]] one show ?thesis by (blast intro: trans)
  next
    case False
    with less.prems(2) first have "e' = e1" by (auto split: sum.splits option.splits)
    with one show ?thesis by simp
  qed
qed

end
