(* ===== verification/Client_Invariant.thy ===== *)
theory Client_Invariant
  imports Client_Transactions
begin

text \<open>
  What every client operation keeps, whatever the relay sends and whichever statement fails: the
  received events are never changed or dropped, and the cursor of a room moves only over events that
  are recorded and settled.
\<close>

section \<open>The received history\<close>

definition settled :: "InboxRow \<Rightarrow> bool" where
  "settled row \<longleftrightarrow> ib_state row \<in> {''applied'', ''rejected''}"

text \<open>The event a row was written for.\<close>

definition row_of :: "postcard \<Rightarrow> Event \<Rightarrow> InboxRow \<Rightarrow> bool" where
  "row_of pc event row \<longleftrightarrow>
     wf_event event \<and> ib_event_id row = ev_id event \<and> ib_room row = ap_room (ev_operation event)
     \<and> event_sequence event = Some (ib_sequence row) \<and> sequence_fits (ib_sequence row)
     \<and> encode_as (ser_event pc) event = Inr (ib_record row)"

definition inbox_ok :: "postcard \<Rightarrow> ClientDb \<Rightarrow> bool" where
  "inbox_ok pc db \<longleftrightarrow>
     distinct (map ib_event_id (cd_delivery_inbox db))
     \<and> distinct (map (\<lambda>row. (ib_room row, ib_sequence row)) (cd_delivery_inbox db))
     \<and> (\<forall>row \<in> set (cd_delivery_inbox db). \<exists>event. row_of pc event row)
     \<and> (\<forall>row \<in> set (cd_delivery_inbox db). settled row \<longrightarrow>
          (\<exists>n. cd_delivery_cursors db (ib_room row) = Some n \<and> ib_sequence row \<le> n))"

definition continues :: "InboxRow \<Rightarrow> InboxRow \<Rightarrow> bool" where
  "continues row row' \<longleftrightarrow>
     ib_event_id row' = ib_event_id row \<and> ib_room row' = ib_room row \<and> ib_sequence row' = ib_sequence row
     \<and> ib_record row' = ib_record row \<and> (settled row \<longrightarrow> settled row')"

definition inbox_grows :: "ClientDb \<Rightarrow> ClientDb \<Rightarrow> bool" where
  "inbox_grows db db' \<longleftrightarrow>
     (\<forall>row \<in> set (cd_delivery_inbox db). \<exists>row' \<in> set (cd_delivery_inbox db'). continues row row')"

text \<open>Every sequence above \<open>n\<close> up to \<open>n'\<close> has a settled row.\<close>

definition covers :: "ClientDb \<Rightarrow> RoomId \<Rightarrow> u64 \<Rightarrow> u64 \<Rightarrow> bool" where
  "covers db room n n' \<longleftrightarrow>
     (\<forall>k. n < k \<and> k \<le> n' \<longrightarrow>
        (\<exists>row \<in> set (cd_delivery_inbox db). ib_room row = room \<and> ib_sequence row = k \<and> settled row))"

definition cursors_advance :: "ClientDb \<Rightarrow> ClientDb \<Rightarrow> bool" where
  "cursors_advance db db' \<longleftrightarrow>
     (\<forall>room n. cd_delivery_cursors db room = Some n \<longrightarrow>
        (\<exists>n'. cd_delivery_cursors db' room = Some n' \<and> n \<le> n' \<and> covers db' room n n'))"

definition app_grows :: "ClientDb \<Rightarrow> ClientDb \<Rightarrow> bool" where
  "app_grows db db' \<longleftrightarrow> inbox_grows db db' \<and> cursors_advance db db'"

definition quiet_db :: "ClientDb \<Rightarrow> ClientDb \<Rightarrow> bool" where
  "quiet_db db db' \<longleftrightarrow>
     cd_delivery_inbox db' = cd_delivery_inbox db \<and> cd_delivery_cursors db' = cd_delivery_cursors db"

lemma continues_trans: "continues a b \<Longrightarrow> continues b c \<Longrightarrow> continues a c"
  by (auto simp: continues_def)

lemma continues_refl [simp]: "continues a a"
  by (simp add: continues_def)

lemma inbox_grows_trans: "inbox_grows a b \<Longrightarrow> inbox_grows b c \<Longrightarrow> inbox_grows a c"
  unfolding inbox_grows_def by (meson continues_trans)

lemma covers_grows: "inbox_grows b c \<Longrightarrow> covers b room n m \<Longrightarrow> covers c room n m"
  unfolding covers_def inbox_grows_def continues_def by metis

lemma covers_join: "covers db room n m \<Longrightarrow> covers db room m n' \<Longrightarrow> covers db room n n'"
  unfolding covers_def by (metis le_less_linear)

lemma covers_empty [simp]: "covers db room n n"
  by (auto simp: covers_def)

lemma cursors_advanceD:
  assumes "cursors_advance db db'" "cd_delivery_cursors db room = Some n"
  obtains n' where "cd_delivery_cursors db' room = Some n'" "n \<le> n'" "covers db' room n n'"
  using assms unfolding cursors_advance_def by blast

lemma app_grows_trans [trans]:
  assumes "app_grows a b" "app_grows b c"
  shows "app_grows a c"
proof -
  have bc: "inbox_grows b c" using assms by (simp add: app_grows_def)
  have "cursors_advance a c"
    unfolding cursors_advance_def
  proof (intro allI impI)
    fix room n assume "cd_delivery_cursors a room = Some n"
    with assms(1) obtain m where m: "cd_delivery_cursors b room = Some m" "n \<le> m" "covers b room n m"
      unfolding app_grows_def by (blast elim: cursors_advanceD)
    from m(1) assms(2) obtain n' where n': "cd_delivery_cursors c room = Some n'" "m \<le> n'" "covers c room m n'"
      unfolding app_grows_def by (blast elim: cursors_advanceD)
    from covers_join [OF covers_grows [OF bc m(3)] n'(3)] m(2) n'(1,2)
    show "\<exists>n'. cd_delivery_cursors c room = Some n' \<and> n \<le> n' \<and> covers c room n n'" by auto
  qed
  moreover have "inbox_grows a c" using assms by (auto simp: app_grows_def intro: inbox_grows_trans)
  ultimately show ?thesis by (simp add: app_grows_def)
qed

lemma quiet_refl [simp]: "quiet_db db db"
  by (simp add: quiet_db_def)

lemma inbox_grows_same: "cd_delivery_inbox db' = cd_delivery_inbox db \<Longrightarrow> inbox_grows db db'"
  unfolding inbox_grows_def using continues_refl by metis

lemma quiet_grows: "quiet_db db db' \<Longrightarrow> app_grows db db'"
  by (simp add: quiet_db_def app_grows_def inbox_grows_same cursors_advance_def)

lemma app_grows_refl [simp]: "app_grows db db"
  by (rule quiet_grows) simp

lemma quiet_ok: "quiet_db db db' \<Longrightarrow> inbox_ok pc db' \<longleftrightarrow> inbox_ok pc db"
  by (simp add: quiet_db_def inbox_ok_def)

section \<open>Operations that touch neither inbox nor cursors\<close>

definition inbox_view :: "ClientDb \<Rightarrow> InboxRow list \<times> (RoomId \<rightharpoonup> u64)" where
  "inbox_view db = (cd_delivery_inbox db, cd_delivery_cursors db)"

abbreviation calm_store :: "(ClientStore \<Rightarrow> 'r \<times> ClientStore) \<Rightarrow> bool" where
  "calm_store \<equiv> keeps_store inbox_view"

abbreviation calm :: "('g, 'a) engine_op \<Rightarrow> bool" where
  "calm \<equiv> keeps inbox_view"

lemma quiet_view: "inbox_view db' = inbox_view db \<longleftrightarrow> quiet_db db db'"
  by (simp add: inbox_view_def quiet_db_def)

lemma calm_def:
  "calm m \<longleftrightarrow> (\<forall>e r e'. m e = (r, e') \<longrightarrow>
     same_guard (en_store e) (en_store e') \<and> quiet_db (st_db (en_store e)) (st_db (en_store e')))"
  by (simp add: keeps_def quiet_view)

lemma calm_store_def:
  "calm_store m \<longleftrightarrow> (\<forall>s r s'. m s = (r, s') \<longrightarrow> same_guard s s' \<and> quiet_db (st_db s) (st_db s'))"
  by (simp add: keeps_store_def quiet_view)

lemma calmI:
  "(\<And>e r e'. m e = (r, e') \<Longrightarrow> same_guard (en_store e) (en_store e') \<and> quiet_db (st_db (en_store e)) (st_db (en_store e')))
   \<Longrightarrow> calm m"
  by (simp add: calm_def)

interpretation inbox: app_view inbox_view
  by unfold_locales (simp add: inbox_view_def app_part_def)

section \<open>Store operations\<close>

lemma quiet_updates [simp]:
  "inbox_view (delete_outbox m db) = inbox_view db" "inbox_view (add_outbox m knd bs db) = inbox_view db"
  "inbox_view (put_history row db) = inbox_view db" "inbox_view (add_intent m room target plaintext db) = inbox_view db"
  "inbox_view (delete_intents m db) = inbox_view db" "inbox_view (set_history_sequence m n db) = inbox_view db"
  "inbox_view (set_package m u p db) = inbox_view db" "inbox_view (delete_history m db) = inbox_view db"
  "inbox_view (release_intents m db) = inbox_view db" "inbox_view (set_attempt i m db) = inbox_view db"
  "inbox_view (set_welcome_state c state db) = inbox_view db" "inbox_view (add_welcome_row c bs db) = inbox_view db"
  "inbox_view (pin_contact cc db) = inbox_view db"
  "inbox_view (db\<lparr>cd_rooms := rs\<rparr>) = inbox_view db" "inbox_view (db\<lparr>cd_welcome_cursor := c\<rparr>) = inbox_view db"
  by (simp_all add: inbox_view_def delete_outbox_def add_outbox_def put_history_def add_intent_def delete_intents_def
    set_history_sequence_def set_package_def delete_history_def release_intents_def set_attempt_def
    set_welcome_state_def add_welcome_row_def pin_contact_def)

lemma calm_store_ops [keep_intros]:
  "calm_store (save_outbox env m knd bs)" "calm_store (remove_outbox env m)" "calm_store (record_plaintext env sm u bs)"
  "calm_store (upsert_room env room name origin)"
  unfolding remove_outbox_def record_plaintext_def
  by (auto intro!: keep_intros keeps_save_outbox keeps_upsert_room keeps_update keeps_stmt split: if_splits)

lemma calm_import_card [keep_intros]: "calm (import_card w cc fingerprint)"
proof (rule calmI)
  fix e r e'
  let ?body = "chain (locked_query (cw_env w) (\<lambda>db. Inr (map_of (cd_verified_contacts db) (card_user cc)))) (\<lambda>existing.
    case existing of
      Some (_, old) \<Rightarrow>
        if old \<noteq> card_bytes cc then fail (StoreInvalidData ''contact keys changed; pin preserved'') else ret ()
    | None \<Rightarrow> chain (admit_new_data (cw_env w) CARD_BYTES) (\<lambda>_. locked_update (cw_env w) (pin_contact cc)))"
  have "calm_store ?body" by (intro keep_intros keeps_update) simp
  then have body: "?body s = (q, s') \<Longrightarrow> same_guard s s' \<and> quiet_db (st_db s) (st_db s')" for s q s'
    by (simp add: calm_store_def)
  assume "import_card w cc fingerprint e = (r, e')"
  then have "en_store e' = en_store e \<or> (\<exists>q. ?body (en_store e) = (q, en_store e'))"
    by (auto simp: import_card_def card_import_def split: sum.splits if_splits prod.splits option.splits)
  with body show "same_guard (en_store e) (en_store e') \<and> quiet_db (st_db (en_store e)) (st_db (en_store e'))"
    by auto
qed

lemma calm_journal [keep_intros]: "calm (journal w m request)"
  by (rule keeps_journal) simp

lemma calm_settle [keep_intros]: "calm (settle_request w m)"
  unfolding settle_request_def by (intro keep_intros)

section \<open>Engine operations\<close>

abbreviation documented :: "('g, 'm) client_world \<Rightarrow> bool" where
  "documented w \<equiv> documented_library (cw_lib w) (cw_env w)"

lemma calm_intent [keep_intros]: "documented w \<Longrightarrow> calm (intent w room target plaintext)"
  unfolding intent_def by (intro keep_intros) simp_all

lemma calm_list_contacts [keep_intros]: "calm (list_contacts w)"
  unfolding list_contacts_def by (intro keep_intros)

lemma calm_build_request [keep_intros]:
  assumes "documented w"
  shows "calm (build_request w seed row m parent)"
  unfolding build_request_def build_add_def build_send_def Let_def by (intro keep_intros assms)

lemma calm_attempt_body [keep_intros]: "documented w \<Longrightarrow> calm (attempt_body w seed row m parent)"
  unfolding attempt_body_def by (intro keep_intros) simp_all

lemma calm_apply_own [keep_intros]: "documented w \<Longrightarrow> calm (apply_own w event own)"
  unfolding apply_own_def by (intro keep_intros) simp_all

lemma calm_apply_foreign [keep_intros]: "documented w \<Longrightarrow> calm (apply_foreign w event)"
  unfolding apply_foreign_def by (intro keep_intros)

lemma calm_verify_welcome [keep_intros]: "calm (verify_welcome w wd)"
  unfolding verify_welcome_def by (intro keep_intros)

lemma calm_store_welcomes [keep_intros]: "calm (store_welcomes w previous wds)"
  by (induction w previous wds rule: store_welcomes.induct) (auto intro!: keep_intros)

end
