(* ===== verification/Client_Safety.thy ===== *)
theory Client_Safety
  imports Client_Invariant
begin

text \<open>
  Every engine operation, and the whole session loop, is steady: from a store whose durable
  tables are in order it leads to such a store, and the durable tables only grow. The proofs follow the
  structure of the code; the two places where a cursor moves are handled in detail.
\<close>

section \<open>Steady operations\<close>

definition good :: "postcard \<Rightarrow> ClientStore \<Rightarrow> bool" where
  "good pc s \<longleftrightarrow> inbox_ok pc (durable_db s) \<and> at_rest s"

definition steady :: "postcard \<Rightarrow> ('g, 'a) engine_op \<Rightarrow> bool" where
  "steady pc m \<longleftrightarrow> (\<forall>e r e'. good pc (en_store e) \<longrightarrow> m e = (r, e') \<longrightarrow>
     good pc (en_store e') \<and> app_grows (durable_db (en_store e)) (durable_db (en_store e')))"

named_theorems steady_intros \<open>operations under which the durable tables only grow\<close>

lemma steadyI:
  "(\<And>e r e'. good pc (en_store e) \<Longrightarrow> m e = (r, e') \<Longrightarrow>
     good pc (en_store e') \<and> app_grows (durable_db (en_store e)) (durable_db (en_store e'))) \<Longrightarrow> steady pc m"
  by (simp add: steady_def)

lemma steadyD:
  "steady pc m \<Longrightarrow> good pc (en_store e) \<Longrightarrow> m e = (r, e') \<Longrightarrow>
     good pc (en_store e') \<and> app_grows (durable_db (en_store e)) (durable_db (en_store e'))"
  by (simp add: steady_def)

lemma quiet_durable:
  assumes "same_guard s s'" "quiet_db (st_db s) (st_db s')"
  shows "quiet_db (durable_db s) (durable_db s')"
  using assms by (auto simp: same_guard_def durable_db_def split: option.splits)

lemma calm_good:
  assumes "calm m" "good pc (en_store e)" "m e = (r, e')"
  shows "good pc (en_store e') \<and> quiet_db (durable_db (en_store e)) (durable_db (en_store e'))"
proof -
  from assms(1,3) have same: "same_guard (en_store e) (en_store e')"
    and "quiet_db (st_db (en_store e)) (st_db (en_store e'))" by (auto simp: calm_def)
  then have "quiet_db (durable_db (en_store e)) (durable_db (en_store e'))" by (rule quiet_durable)
  with assms(2) same show ?thesis by (auto simp: good_def quiet_ok idle_def at_rest_def same_guard_def)
qed

lemma calm_steady: "calm m \<Longrightarrow> steady pc m"
  by (rule steadyI) (auto dest: calm_good intro: quiet_grows)

lemma steady_chain [steady_intros]:
  assumes "steady pc m" "\<And>v. steady pc (f v)"
  shows "steady pc (chain m f)"
proof (rule steadyI)
  fix e r e' assume good: "good pc (en_store e)" and "chain m f e = (r, e')"
  from this(2) show "good pc (en_store e') \<and> app_grows (durable_db (en_store e)) (durable_db (en_store e'))"
  proof (cases rule: chain_cases)
    case (1 x)
    with steadyD [OF assms(1) good] show ?thesis by blast
  next
    case (2 v e1)
    from steadyD [OF assms(1) good 2(1)] have one: "good pc (en_store e1)" "app_grows (durable_db (en_store e)) (durable_db (en_store e1))"
      by simp_all
    from steadyD [OF assms(2) one(1) 2(2)] one(2) show ?thesis by (blast intro: app_grows_trans)
  qed
qed

lemma steady_if [steady_intros]: "steady pc m \<Longrightarrow> steady pc n \<Longrightarrow> steady pc (if c then m else n)"
  by simp

lemma steady_option [steady_intros]:
  "steady pc m \<Longrightarrow> (\<And>x. steady pc (f x)) \<Longrightarrow> steady pc (case v of None \<Rightarrow> m | Some x \<Rightarrow> f x)"
  by (cases v) simp_all

lemma steady_for_each [steady_intros]: "(\<And>x. steady pc (f x)) \<Longrightarrow> steady pc (for_each f xs)"
  by (induction xs) (simp_all add: steady_chain calm_steady keeps_basic)

section \<open>Transactions\<close>

text \<open>What a body has to guarantee, from tables where \<open>P\<close> holds, for its transaction to be steady.\<close>

definition commits_well :: "postcard \<Rightarrow> client_env \<Rightarrow> (ClientDb \<Rightarrow> bool) \<Rightarrow> ('g, 'a) engine_op \<Rightarrow> bool" where
  "commits_well pc env P body \<longleftrightarrow>
     (\<forall>e r e'. just_begun env (en_store e) \<longrightarrow> inbox_ok pc (st_db (en_store e)) \<longrightarrow> P (st_db (en_store e)) \<longrightarrow> body e = (r, e') \<longrightarrow>
        same_guard (en_store e) (en_store e') \<and>
        (\<forall>v. r = Inr v \<longrightarrow> inbox_ok pc (st_db (en_store e')) \<and> app_grows (st_db (en_store e)) (st_db (en_store e'))))"

lemma commits_wellD:
  assumes "commits_well pc env P body" "just_begun env (en_store e)" "inbox_ok pc (st_db (en_store e))"
    and "P (st_db (en_store e))" "body e = (r, e')"
  shows "same_guard (en_store e) (en_store e')"
    and "r = Inr v \<Longrightarrow> inbox_ok pc (st_db (en_store e')) \<and> app_grows (st_db (en_store e)) (st_db (en_store e'))"
  using assms by (auto simp: commits_well_def)

lemma calmD:
  assumes "calm m" "m e = (r, e')"
  shows "same_guard (en_store e) (en_store e')" "quiet_db (st_db (en_store e)) (st_db (en_store e'))"
  using assms by (auto simp: calm_def)

lemma calm_commits_well: "calm m \<Longrightarrow> commits_well pc env P m"
  unfolding commits_well_def using calmD quiet_grows quiet_ok by blast

text \<open>
  The outcome of a guarded body: an error leaves the durable tables as they were, a success makes the
  body's tables durable.
\<close>

lemma with_transaction_outcome:
  assumes good: "good pc (en_store e)" and run: "with_transaction env body e = (r, e')"
    and body: "commits_well pc env P body" "P (durable_db (en_store e))"
  shows "(\<exists>x. r = Inl x) \<and> good pc (en_store e') \<and> durable_db (en_store e') = durable_db (en_store e)
    \<or> (\<exists>v. r = Inr v) \<and> good pc (en_store e') \<and> app_grows (durable_db (en_store e)) (durable_db (en_store e'))
      \<and> committed env body e r (durable_db (en_store e'))"
proof -
  from good have rest: "at_rest (en_store e)" and ok: "inbox_ok pc (durable_db (en_store e))" by (simp_all add: good_def)
  have "at_rest (en_store e')
    \<and> ((\<exists>x. r = Inl x) \<and> durable_db (en_store e') = durable_db (en_store e)
       \<or> idle (en_store e') \<and> committed env body e r (durable_db (en_store e')))"
    by (rule transaction_outcome [OF rest run], rule commits_wellD [OF body(1)]) (use ok body(2) in simp_all)
  then consider "at_rest (en_store e')" "\<exists>x. r = Inl x" "durable_db (en_store e') = durable_db (en_store e)"
    | "at_rest (en_store e')" "committed env body e r (durable_db (en_store e'))" by blast
  then show ?thesis
  proof cases
    case 1
    with ok show ?thesis by (simp add: good_def)
  next
    case 2
    then obtain e1 e2 v where c: "just_begun env (en_store e1)" "st_db (en_store e1) = durable_db (en_store e)"
      "body e1 = (Inr v, e2)" "r = Inr v" "durable_db (en_store e') = st_db (en_store e2)" by (auto simp: committed_def)
    from commits_wellD(2) [OF body(1) c(1) _ _ c(3) refl] c(2,5) ok body(2)
    have "inbox_ok pc (durable_db (en_store e')) \<and> app_grows (durable_db (en_store e)) (durable_db (en_store e'))" by simp
    with 2 c(4) show ?thesis by (simp add: good_def)
  qed
qed

lemma with_transaction_steady [steady_intros]:
  assumes "commits_well pc env (\<lambda>_. True) body"
  shows "steady pc (with_transaction env body)"
proof (rule steadyI)
  fix e r e' assume "good pc (en_store e)" "with_transaction env body e = (r, e')"
  from with_transaction_outcome [OF this assms TrueI]
  show "good pc (en_store e') \<and> app_grows (durable_db (en_store e)) (durable_db (en_store e'))" by auto
qed

lemma atomic_steady [steady_intros]:
  assumes "commits_well pc env (\<lambda>_. True) body"
  shows "steady pc (atomic env body)"
proof (rule steadyI)
  fix e r e' assume good: "good pc (en_store e)" and "atomic env body e = (r, e')"
  from this(2) obtain e'' where "with_transaction env body e = (r, e'')" "en_store e'' = en_store e'"
    by (rule atomic_as_transaction)
  with steadyD [OF with_transaction_steady [OF assms] good this(1)]
  show "good pc (en_store e') \<and> app_grows (durable_db (en_store e)) (durable_db (en_store e'))" by simp
qed

lemma calm_identity_rows: "calm_store (identity_rows env)"
  unfolding identity_rows_def
  by (auto intro!: keep_intros keeps_update simp: inbox_view_def split: option.splits)

lemma steady_identity [steady_intros]: "steady pc (in_store (identity env))"
  unfolding identity_def in_store_transaction
  by (intro steady_intros calm_commits_well keeps_in_store calm_identity_rows)

section \<open>Statements on the inbox and the cursors\<close>

text \<open>A locked statement outside a transaction: nothing happens to a poisoned store.\<close>

lemma locked_stmt_cases:
  assumes "chain (lock env) (\<lambda>_. stmt env f) s = (r, s')"
  shows "same_guard s s' \<and> (st_db s' = st_db s \<or> \<not> st_poisoned s \<and> (\<exists>v. f (st_db s) = Inr (v, st_db s')))"
  using assms
  by (auto simp: chain_def lock_def stmt_def Let_def ret_def fail_def same_guard_def split: if_splits sum.splits)

lemma stmt_good:
  assumes "good pc s" "chain (lock env) (\<lambda>_. stmt env f) s = (r, s')"
    and "\<And>v db. f (durable_db s) = Inr (v, db) \<Longrightarrow> inbox_ok pc db \<and> app_grows (durable_db s) db"
  shows "good pc s' \<and> app_grows (durable_db s) (durable_db s')"
proof -
  from locked_stmt_cases [OF assms(2)] show ?thesis
  proof (elim conjE disjE exE)
    assume "same_guard s s'" "st_db s' = st_db s"
    then have "durable_db s' = durable_db s" by (auto simp: durable_db_def same_guard_def split: option.splits)
    with assms(1) \<open>same_guard s s'\<close> show ?thesis by (auto simp: good_def idle_def at_rest_def same_guard_def)
  next
    fix v assume guard: "same_guard s s'" and "\<not> st_poisoned s" and f: "f (st_db s) = Inr (v, st_db s')"
    with assms(1) have "idle s" by (simp add: good_def at_rest_def)
    then have "durable_db s = st_db s" "idle s'" "durable_db s' = st_db s'"
      using guard by (auto simp: idle_def at_rest_def durable_db_def same_guard_def)
    with assms(3) [of v "st_db s'"] f show ?thesis by (simp add: good_def at_rest_def)
  qed
qed

lemma steady_insert_row:
  assumes "\<And>db. inbox_ok pc db \<Longrightarrow> \<not> conflict db \<Longrightarrow> inbox_ok pc (f db) \<and> app_grows db (f db)"
  shows "steady pc (insert_row w conflict f)"
proof (rule steadyI)
  fix e r e' assume good: "good pc (en_store e)" and run: "insert_row w conflict f e = (r, e')"
  from run obtain q where "chain (lock (cw_env w)) (\<lambda>_. stmt (cw_env w) (\<lambda>db.
      if conflict db then Inl (StoreDatabase EngineConstraint) else Inr ((), f db))) (en_store e) = (q, en_store e')"
    unfolding insert_row_def by (auto dest: in_store_cases)
  then show "good pc (en_store e') \<and> app_grows (durable_db (en_store e)) (durable_db (en_store e'))"
    by (rule stmt_good [OF good]) (use assms good in \<open>auto simp: good_def split: if_splits\<close>)
qed

lemma select_durable:
  assumes "good pc (en_store e)" "select w f e = (r, e')"
  shows "durable_db (en_store e') = durable_db (en_store e) \<and> good pc (en_store e')
    \<and> (\<forall>v. r = Inr v \<longrightarrow> f (durable_db (en_store e)) = Inr v)"
proof -
  from assms(2) obtain q s' where run: "locked_query (cw_env w) f (en_store e) = (q, s')"
    and eq: "r = map_err ClientStoreError q" "e' = e\<lparr>en_store := s'\<rparr>" by (blast dest: in_store_cases)
  from run have same: "same_guard (en_store e) s'" "st_db s' = st_db (en_store e)"
    and val: "\<And>v. q = Inr v \<Longrightarrow> f (st_db (en_store e)) = Inr v \<and> \<not> st_poisoned (en_store e)"
    by (auto simp: chain_def lock_def query_def stmt_def Let_def ret_def fail_def same_guard_def
      split: if_splits sum.splits)
  then have "durable_db s' = durable_db (en_store e)" by (auto simp: durable_db_def same_guard_def split: option.splits)
  moreover have "good pc s'" using assms(1) same calculation by (auto simp: good_def idle_def at_rest_def same_guard_def)
  moreover have "f (durable_db (en_store e)) = Inr v" if "r = Inr v" for v
    using val [of v] that eq assms(1) by (auto simp: good_def idle_def at_rest_def durable_db_def)
  ultimately show ?thesis using eq by simp
qed

lemma insert_row_Inr:
  assumes "good pc (en_store e)" "insert_row w conflict f e = (Inr v, e')"
  shows "\<not> conflict (durable_db (en_store e)) \<and> durable_db (en_store e') = f (durable_db (en_store e))"
proof -
  from assms(2) have "\<not> st_poisoned (en_store e)" "same_guard (en_store e) (en_store e')"
    "\<not> conflict (st_db (en_store e))" "st_db (en_store e') = f (st_db (en_store e))"
    by (auto simp: insert_row_def in_store_Inr chain_def lock_def stmt_def Let_def ret_def fail_def same_guard_def
      split: if_splits sum.splits)
  with assms(1) show ?thesis by (auto simp: good_def idle_def at_rest_def durable_db_def same_guard_def)
qed

section \<open>Receiving events\<close>

definition recorded :: "postcard \<Rightarrow> ClientDb \<Rightarrow> Event \<Rightarrow> bool" where
  "recorded pc db event \<longleftrightarrow> (\<exists>row \<in> set (cd_delivery_inbox db). row_of pc event row)"

lemma recorded_grows: "inbox_grows db db' \<Longrightarrow> recorded pc db event \<Longrightarrow> recorded pc db' event"
  unfolding inbox_grows_def recorded_def continues_def row_of_def by metis

lemma encode_event_inj:
  assumes "postcard_wire pc" "wf_event event" "wf_event event'"
    and "encode_as (ser_event pc) event = Inr bs" "encode_as (ser_event pc) event' = Inr bs"
  shows "event' = event"
proof -
  have "ser_event pc event = bs" "ser_event pc event' = bs"
    using assms(4,5) by (auto simp: encode_as_def encode_message_def Let_def split: if_splits)
  with postcard_wire.event_roundtrip [OF assms(1,2), of "[]"] postcard_wire.event_roundtrip [OF assms(1,3), of "[]"]
  show ?thesis by simp
qed

lemma add_inbox_ok:
  assumes "inbox_ok pc db" "\<not> list_ex (same_event event sequence) (cd_delivery_inbox db)"
    and "event_sequence event = Some sequence" "sequence_fits sequence"
    and "encode_as (ser_event pc) event = Inr bs" "wf_event event"
  shows "inbox_ok pc (add_inbox event sequence bs db) \<and> app_grows db (add_inbox event sequence bs db)
    \<and> recorded pc (add_inbox event sequence bs db) event"
proof -
  let ?db = "add_inbox event sequence bs db"
  let ?row = "\<lparr>ib_event_id = ev_id event, ib_room = ap_room (ev_operation event), ib_sequence = sequence,
     ib_record = bs, ib_state = ''received''\<rparr>"
  have inbox: "cd_delivery_inbox ?db = cd_delivery_inbox db @ [?row]"
    and cursors: "cd_delivery_cursors ?db = cd_delivery_cursors db" by (simp_all add: add_inbox_def)
  have row: "row_of pc event ?row" "\<not> settled ?row" using assms(3-6) by (simp_all add: row_of_def settled_def)
  have fresh: "ev_id event \<notin> ib_event_id ` set (cd_delivery_inbox db)"
    "(ap_room (ev_operation event), sequence) \<notin> (\<lambda>row. (ib_room row, ib_sequence row)) ` set (cd_delivery_inbox db)"
    using assms(2) by (auto simp: list_ex_iff same_event_def)
  have "inbox_grows db ?db" unfolding inbox_grows_def inbox using continues_refl by fastforce
  moreover have "inbox_ok pc ?db"
    using assms(1) row fresh unfolding inbox_ok_def inbox cursors by auto
  ultimately show ?thesis
    using row inbox by (auto simp: app_grows_def cursors_advance_def cursors recorded_def)
qed

lemma receive_new:
  assumes "event_sequence event = Some sequence" "sequence_fits sequence"
    and "encode_as (ser_event (cw_pc w)) event = Inr bs" "wf_event event"
    and good: "good (cw_pc w) (en_store e)"
    and run: "chain (in_store (admit_new_data (cw_env w) (length bs))) (\<lambda>_.
      insert_row w (\<lambda>db. list_ex (same_event event sequence) (cd_delivery_inbox db)) (add_inbox event sequence bs)) e = (r, e')"
  shows "good (cw_pc w) (en_store e') \<and> app_grows (durable_db (en_store e)) (durable_db (en_store e'))
    \<and> (\<forall>v. r = Inr v \<longrightarrow> recorded (cw_pc w) (durable_db (en_store e')) event)"
  using run
proof (cases rule: chain_cases)
  case (1 x)
  with calm_good [OF keeps_in_store [OF keeps_admit] good 1(1)] show ?thesis by (auto intro: quiet_grows)
next
  case (2 u e2)
  from calm_good [OF keeps_in_store [OF keeps_admit] good 2(1)]
  have e2: "good (cw_pc w) (en_store e2)" "app_grows (durable_db (en_store e)) (durable_db (en_store e2))"
    by (auto intro: quiet_grows)
  note add = add_inbox_ok [OF _ _ assms(1-4)]
  have "inbox_ok (cw_pc w) db \<Longrightarrow> \<not> list_ex (same_event event sequence) (cd_delivery_inbox db) \<Longrightarrow>
      inbox_ok (cw_pc w) (add_inbox event sequence bs db) \<and> app_grows db (add_inbox event sequence bs db)" for db
    using add by blast
  from steadyD [OF steady_insert_row [OF this] e2(1) 2(2)] e2(2)
  have e': "good (cw_pc w) (en_store e')" "app_grows (durable_db (en_store e)) (durable_db (en_store e'))"
    by (auto intro: app_grows_trans)
  have "recorded (cw_pc w) (durable_db (en_store e')) event" if "r = Inr v" for v
  proof -
    from that 2(2) have "insert_row w (\<lambda>db. list_ex (same_event event sequence) (cd_delivery_inbox db))
      (add_inbox event sequence bs) e2 = (Inr v, e')" by simp
    note new = insert_row_Inr [OF e2(1) this]
    have "inbox_ok (cw_pc w) (durable_db (en_store e2))" using e2(1) by (simp add: good_def)
    from add [OF this] new show ?thesis by simp
  qed
  with e' show ?thesis by blast
qed

lemma receive_outcome:
  assumes wire: "postcard_wire (cw_pc w)" and wf: "wf_event event"
    and good: "good (cw_pc w) (en_store e)" and run: "receive w event e = (r, e')"
  shows "good (cw_pc w) (en_store e') \<and> app_grows (durable_db (en_store e)) (durable_db (en_store e'))
    \<and> (\<forall>v. r = Inr v \<longrightarrow> recorded (cw_pc w) (durable_db (en_store e')) event)"
proof (cases "\<exists>sequence bs. event_sequence event = Some sequence \<and> sequence_fits sequence
    \<and> encode_as (ser_event (cw_pc w)) event = Inr bs")
  case False
  with run good show ?thesis
    by (auto simp: receive_def fail_def chain_def from_result_def split: option.splits if_splits sum.splits)
next
  case True
  then obtain sequence bs where seq: "event_sequence event = Some sequence" "sequence_fits sequence"
    and bs: "encode_as (ser_event (cw_pc w)) event = Inr bs" by blast
  let ?find = "\<lambda>db. find (same_event event sequence) (cd_delivery_inbox db)"
  let ?next = "\<lambda>existing. case existing of
      Some row \<Rightarrow> if ib_record row \<noteq> bs then text_error ''relay equivocated about an event'' else ret ()
    | None \<Rightarrow> chain (in_store (admit_new_data (cw_env w) (length bs))) (\<lambda>_.
        insert_row w (\<lambda>db. list_ex (same_event event sequence) (cd_delivery_inbox db)) (add_inbox event sequence bs))"
  from run seq bs have run: "chain (select w (\<lambda>db. Inr (?find db))) ?next e = (r, e')"
    by (simp add: receive_def from_result_def chain_def)
  then show ?thesis
  proof (cases rule: chain_cases)
    case (1 x)
    with select_durable [OF good 1(1)] show ?thesis by simp
  next
    case (2 existing e1)
    note sel = select_durable [OF good 2(1)]
    then have d: "durable_db (en_store e1) = durable_db (en_store e)" "good (cw_pc w) (en_store e1)"
      and found: "existing = ?find (durable_db (en_store e))" by auto
    show ?thesis
    proof (cases existing)
      case None
      with 2(2) receive_new [OF seq bs wf d(2)] d(1) show ?thesis by simp
    next
      case (Some row)
      then have row: "row \<in> set (cd_delivery_inbox (durable_db (en_store e)))"
        using found by (auto simp: find_Some_iff)
      with good obtain event' where event': "row_of (cw_pc w) event' row" by (auto simp: good_def inbox_ok_def)
      have "recorded (cw_pc w) (durable_db (en_store e)) event" if "ib_record row = bs"
        using encode_event_inj [OF wire wf _ bs, of event'] event' that row by (auto simp: row_of_def recorded_def)
      with 2(2) Some d good show ?thesis by (auto simp: fail_def ret_def split: if_splits)
    qed
  qed
qed

section \<open>Applying events\<close>

lemma execute_cases:
  assumes "execute_sql w f e = (r, e')"
  shows "same_guard (en_store e) (en_store e') \<and> (\<forall>v. r = Inr v \<longrightarrow> st_db (en_store e') = f (st_db (en_store e)))"
  using assms
  by (auto simp: in_store_def chain_def lock_def update_def stmt_def Let_def ret_def fail_def same_guard_def
    split: prod.splits if_splits sum.splits)

lemma same_guard_trans: "same_guard a b \<Longrightarrow> same_guard b c \<Longrightarrow> same_guard a c"
  by (simp add: same_guard_def)

lemma finish_event_cases:
  assumes "finish_event w event state e = (r, e')"
  shows "same_guard (en_store e) (en_store e') \<and> (\<forall>v. r = Inr v \<longrightarrow>
    quiet_db (set_cursor (ap_room (ev_operation event)) (ap_parent (ev_operation event) + 1)
      (set_inbox_state (ev_id event) state (st_db (en_store e)))) (st_db (en_store e')))"
  using assms unfolding finish_event_def
proof (cases rule: chain_cases)
  case (1 x)
  with execute_cases [OF 1(1)] show ?thesis by simp
next
  case (2 u e1)
  note one = execute_cases [OF 2(1)]
  from 2(2) show ?thesis
  proof (cases rule: chain_cases)
    case (1 x)
    with execute_cases [OF 1(1)] one show ?thesis by (auto intro: same_guard_trans)
  next
    case (2 u' e2)
    note two = execute_cases [OF 2(1)]
    from calmD [OF calm_journal 2(2)] one two show ?thesis by (auto intro: same_guard_trans)
  qed
qed

lemma event_sequence_next:
  assumes "event_sequence event = Some n"
  shows "n = ap_parent (ev_operation event) + 1" "ap_parent (ev_operation event) < n"
    "ap_parent (ev_operation event) < k \<Longrightarrow> k \<le> n \<Longrightarrow> k = n"
proof -
  let ?p = "ap_parent (ev_operation event)"
  from assms show n: "n = ?p + 1" by (auto simp: event_sequence_def checked_add_def split: if_splits)
  from assms have "unat ?p + 1 < 2 ^ 64" by (auto simp: event_sequence_def checked_add_def split: if_splits)
  then have u: "unat n = unat ?p + 1" unfolding n by (subst unat_word_ariths) simp
  then show "?p < n" by (simp add: word_less_nat_alt)
  show "?p < k \<Longrightarrow> k \<le> n \<Longrightarrow> k = n" using u by (simp add: word_less_nat_alt word_le_nat_alt word_unat_eq_iff)
qed

lemma inbox_grows_map:
  assumes "cd_delivery_inbox db' = map f (cd_delivery_inbox db)" "\<And>x. x \<in> set (cd_delivery_inbox db) \<Longrightarrow> continues x (f x)"
  shows "inbox_grows db db'"
  using assms by (auto simp: inbox_grows_def)

lemma inbox_ok_map:
  assumes ok: "inbox_ok pc db" and inbox: "cd_delivery_inbox db' = map f (cd_delivery_inbox db)"
    and same: "\<And>x. ib_event_id (f x) = ib_event_id x" "\<And>x. ib_room (f x) = ib_room x"
      "\<And>x. ib_sequence (f x) = ib_sequence x" "\<And>x. ib_record (f x) = ib_record x"
    and below: "\<And>x. x \<in> set (cd_delivery_inbox db) \<Longrightarrow> settled (f x) \<Longrightarrow>
      \<exists>n. cd_delivery_cursors db' (ib_room x) = Some n \<and> ib_sequence x \<le> n"
  shows "inbox_ok pc db'"
proof -
  have "row_of pc event (f x) \<longleftrightarrow> row_of pc event x" for event x by (simp add: row_of_def same)
  with ok below show ?thesis unfolding inbox_ok_def inbox by (simp add: comp_def same)
qed

lemma settle_event:
  assumes ok: "inbox_ok pc db" and rec: "recorded pc db event"
    and cur: "cursor_of db (ap_room (ev_operation event)) = ap_parent (ev_operation event)"
    and state: "state \<in> {''applied'', ''rejected''}"
    and db': "db' = set_cursor (ap_room (ev_operation event)) (ap_parent (ev_operation event) + 1)
      (set_inbox_state (ev_id event) state db)"
  shows "inbox_ok pc db' \<and> app_grows db db'"
proof -
  let ?room = "ap_room (ev_operation event)" and ?n = "ap_parent (ev_operation event) + 1"
  let ?up = "\<lambda>row. if ib_event_id row = ev_id event then row\<lparr>ib_state := state\<rparr> else row"
  have inbox: "cd_delivery_inbox db' = map ?up (cd_delivery_inbox db)"
    and cursors: "cd_delivery_cursors db' = (cd_delivery_cursors db)(?room \<mapsto> ?n)"
    by (simp_all add: db' set_cursor_def set_inbox_state_def)
  from rec obtain row where row: "row \<in> set (cd_delivery_inbox db)" "row_of pc event row"
    by (auto simp: recorded_def)
  note seq = event_sequence_next [of event "ib_sequence row"]
  have n: "ib_sequence row = ?n" "ap_parent (ev_operation event) < ?n" using seq row(2) by (auto simp: row_of_def)
  have keep: "ib_event_id (?up x) = ib_event_id x" "ib_room (?up x) = ib_room x" "ib_sequence (?up x) = ib_sequence x"
    "ib_record (?up x) = ib_record x" "settled x \<Longrightarrow> settled (?up x)" for x
    using state by (auto simp: settled_def)
  have only: "x = row" if "x \<in> set (cd_delivery_inbox db)" "ib_event_id x = ev_id event" for x
  proof -
    have "inj_on ib_event_id (set (cd_delivery_inbox db))" using ok by (simp add: inbox_ok_def distinct_map)
    then show ?thesis by (rule inj_onD) (use row that in \<open>simp_all add: row_of_def\<close>)
  qed
  have advance: "cd_delivery_cursors db ?room = Some m \<Longrightarrow> m = ap_parent (ev_operation event)" for m
    using cur by (simp add: cursor_of_def)
  have new: "?up row \<in> set (cd_delivery_inbox db')" "settled (?up row)" "ib_room (?up row) = ?room" "ib_sequence (?up row) = ?n"
    using row state n by (auto simp: inbox settled_def row_of_def)
  have "continues x (?up x)" for x unfolding continues_def using keep [of x] by blast
  then have "inbox_grows db db'" by (rule inbox_grows_map [OF inbox])
  moreover have "covers db' ?room (ap_parent (ev_operation event)) ?n"
    unfolding covers_def
  proof (intro allI impI)
    fix k assume "ap_parent (ev_operation event) < k \<and> k \<le> ?n"
    with seq(3) [of k] row(2) n(1) have "k = ?n" by (simp add: row_of_def)
    with new show "\<exists>row\<in>set (cd_delivery_inbox db'). ib_room row = ?room \<and> ib_sequence row = k \<and> settled row"
      by (intro bexI [OF _ new(1)]) simp
  qed
  then have "cursors_advance db db'"
    unfolding cursors_advance_def cursors using advance n(2) by (auto intro: less_imp_le)
  moreover have "inbox_ok pc db'"
  proof (rule inbox_ok_map [OF ok inbox keep(1-4)])
    fix x assume x: "x \<in> set (cd_delivery_inbox db)" "settled (?up x)"
    show "\<exists>m. cd_delivery_cursors db' (ib_room x) = Some m \<and> ib_sequence x \<le> m"
    proof (cases "ib_event_id x = ev_id event")
      case True
      with only x new show ?thesis by (auto simp: cursors)
    next
      case False
      with x ok obtain m where "cd_delivery_cursors db (ib_room x) = Some m" "ib_sequence x \<le> m"
        by (auto simp: inbox_ok_def)
      with advance n(2) show ?thesis by (auto simp: cursors intro: less_imp_le order.trans)
    qed
  qed
  ultimately show ?thesis by (simp add: app_grows_def)
qed

text \<open>The tables an event can be applied to: it is recorded and next in its room.\<close>

definition next_event :: "postcard \<Rightarrow> Event \<Rightarrow> ClientDb \<Rightarrow> bool" where
  "next_event pc event db \<longleftrightarrow>
     recorded pc db event \<and> cursor_of db (ap_room (ev_operation event)) = ap_parent (ev_operation event)"

lemma quiet_cursor: "quiet_db db db' \<Longrightarrow> cursor_of db' room = cursor_of db room"
  by (simp add: quiet_db_def cursor_of_def)

lemma quiet_recorded: "quiet_db db db' \<Longrightarrow> recorded pc db' event = recorded pc db event"
  by (simp add: quiet_db_def recorded_def)

lemma cursor_of_set [simp]: "cursor_of (set_cursor room n db) room = n"
  by (simp add: cursor_of_def set_cursor_def)

lemmas quiet_facts = quiet_cursor quiet_recorded quiet_ok

lemma finish_event_settles:
  assumes "finish_event w event state e = (r, e')" "state \<in> {''applied'', ''rejected''}"
    and "inbox_ok pc (st_db (en_store e))" "next_event pc event (st_db (en_store e))"
  shows "same_guard (en_store e) (en_store e') \<and> (\<forall>v. r = Inr v \<longrightarrow>
    inbox_ok pc (st_db (en_store e')) \<and> app_grows (st_db (en_store e)) (st_db (en_store e'))
    \<and> cursor_of (st_db (en_store e')) (ap_room (ev_operation event)) = ap_parent (ev_operation event) + 1)"
proof -
  let ?db = "set_cursor (ap_room (ev_operation event)) (ap_parent (ev_operation event) + 1)
      (set_inbox_state (ev_id event) state (st_db (en_store e)))"
  note fin = finish_event_cases [OF assms(1)]
  from settle_event [OF assms(3) _ _ assms(2) refl] assms(4)
  have settle: "inbox_ok pc ?db" "app_grows (st_db (en_store e)) ?db" by (auto simp: next_event_def)
  have "inbox_ok pc db \<and> app_grows (st_db (en_store e)) db
      \<and> cursor_of db (ap_room (ev_operation event)) = ap_parent (ev_operation event) + 1" if q: "quiet_db ?db db" for db
    using settle quiet_grows [OF q] by (auto simp: quiet_facts [OF q] intro: app_grows_trans)
  with fin show ?thesis by blast
qed

lemma apply_body_settles:
  assumes doc: "documented w" and run: "apply_body w event own e = (r, e')"
    and ok: "inbox_ok pc (st_db (en_store e))" "next_event pc event (st_db (en_store e))"
  shows "same_guard (en_store e) (en_store e') \<and> (\<forall>v. r = Inr v \<longrightarrow>
    inbox_ok pc (st_db (en_store e')) \<and> app_grows (st_db (en_store e)) (st_db (en_store e'))
    \<and> cursor_of (st_db (en_store e')) (ap_room (ev_operation event)) = ap_parent (ev_operation event) + 1)"
proof -
  have calm: "calm (if ev_sender event = cw_user w then apply_own w event own else apply_foreign w event)"
    by (intro keep_intros doc)
  from run show ?thesis unfolding apply_body_def
  proof (cases rule: chain_cases)
    case (1 x)
    with calmD [OF calm 1(1)] show ?thesis by simp
  next
    case (2 v e1)
    note one = calmD [OF calm 2(1)]
    from ok one(2) have e1: "inbox_ok pc (st_db (en_store e1))" "next_event pc event (st_db (en_store e1))"
      by (simp_all add: next_event_def quiet_facts)
    from finish_event_settles [OF 2(2) _ e1] have two: "same_guard (en_store e1) (en_store e')"
      "\<And>v. r = Inr v \<Longrightarrow> inbox_ok pc (st_db (en_store e')) \<and> app_grows (st_db (en_store e1)) (st_db (en_store e'))
        \<and> cursor_of (st_db (en_store e')) (ap_room (ev_operation event)) = ap_parent (ev_operation event) + 1"
      by simp_all
    from same_guard_trans [OF one(1) two(1)] two(2) app_grows_trans [OF quiet_grows [OF one(2)]] show ?thesis by blast
  qed
qed

lemma settles_commits_well:
  assumes "\<And>e r e'. body e = (r, e') \<Longrightarrow> inbox_ok pc (st_db (en_store e)) \<Longrightarrow> P (st_db (en_store e)) \<Longrightarrow>
    same_guard (en_store e) (en_store e') \<and> (\<forall>v. r = Inr v \<longrightarrow>
      inbox_ok pc (st_db (en_store e')) \<and> app_grows (st_db (en_store e)) (st_db (en_store e')) \<and> Q (st_db (en_store e')))"
  shows "commits_well pc env P body"
  unfolding commits_well_def using assms by blast

lemma block_event:
  assumes ok: "inbox_ok pc db" and ev: "next_event pc event db"
  shows "inbox_ok pc (set_inbox_state (ev_id event) ''blocked'' db) \<and> app_grows db (set_inbox_state (ev_id event) ''blocked'' db)"
proof -
  let ?db = "set_inbox_state (ev_id event) ''blocked'' db"
  let ?up = "\<lambda>row. if ib_event_id row = ev_id event then row\<lparr>ib_state := ''blocked''\<rparr> else row"
  have inbox: "cd_delivery_inbox ?db = map ?up (cd_delivery_inbox db)"
    and cursors: "cd_delivery_cursors ?db = cd_delivery_cursors db" by (simp_all add: set_inbox_state_def)
  have open_row: "\<not> settled x" if x: "x \<in> set (cd_delivery_inbox db)" "ib_event_id x = ev_id event" for x
  proof
    assume "settled x"
    from ev obtain row where row: "row \<in> set (cd_delivery_inbox db)" "row_of pc event row"
      by (auto simp: next_event_def recorded_def)
    have "inj_on ib_event_id (set (cd_delivery_inbox db))" using ok by (simp add: inbox_ok_def distinct_map)
    then have "x = row" by (rule inj_onD) (use row x in \<open>simp_all add: row_of_def\<close>)
    with ok row \<open>settled x\<close> obtain n where "cd_delivery_cursors db (ap_room (ev_operation event)) = Some n"
      "ib_sequence row \<le> n" by (auto simp: inbox_ok_def row_of_def)
    with ev event_sequence_next(2) [of event "ib_sequence row"] row(2) show False
      by (simp add: next_event_def cursor_of_def row_of_def)
  qed
  then have "x \<in> set (cd_delivery_inbox db) \<Longrightarrow> continues x (?up x)" for x by (auto simp: continues_def)
  then have "inbox_grows db ?db" by (rule inbox_grows_map [OF inbox])
  moreover have "inbox_ok pc ?db"
  proof (rule inbox_ok_map [OF ok inbox])
    fix x assume "x \<in> set (cd_delivery_inbox db)" "settled (?up x)"
    with ok show "\<exists>n. cd_delivery_cursors ?db (ib_room x) = Some n \<and> ib_sequence x \<le> n"
      by (auto simp: inbox_ok_def cursors settled_def split: if_splits)
  qed simp_all
  ultimately show ?thesis by (simp add: app_grows_def cursors_advance_def cursors)
qed

text \<open>An event transaction that succeeds moves the cursor past the event; one that fails changes nothing.\<close>

lemma settling_transaction:
  assumes good: "good pc (en_store e)" and run: "with_transaction env body e = (r, e')"
    and ev: "next_event pc event (durable_db (en_store e))"
    and body: "\<And>e r e'. body e = (r, e') \<Longrightarrow> inbox_ok pc (st_db (en_store e)) \<Longrightarrow>
      next_event pc event (st_db (en_store e)) \<Longrightarrow>
      same_guard (en_store e) (en_store e') \<and> (\<forall>v. r = Inr v \<longrightarrow>
        inbox_ok pc (st_db (en_store e')) \<and> app_grows (st_db (en_store e)) (st_db (en_store e'))
        \<and> cursor_of (st_db (en_store e')) (ap_room (ev_operation event)) = ap_parent (ev_operation event) + 1)"
  shows "good pc (en_store e') \<and> app_grows (durable_db (en_store e)) (durable_db (en_store e'))
    \<and> ((\<exists>x. r = Inl x) \<longrightarrow> durable_db (en_store e') = durable_db (en_store e))
    \<and> ((\<exists>v. r = Inr v) \<longrightarrow>
        cursor_of (durable_db (en_store e')) (ap_room (ev_operation event)) = ap_parent (ev_operation event) + 1)"
proof -
  note well = settles_commits_well [where P = "next_event pc event" and env = env, OF body]
  from with_transaction_outcome [OF good run well ev] show ?thesis
  proof
    assume "(\<exists>v. r = Inr v) \<and> good pc (en_store e') \<and> app_grows (durable_db (en_store e)) (durable_db (en_store e'))
      \<and> committed env body e r (durable_db (en_store e'))"
    then obtain e1 e2 v where r: "\<exists>v. r = Inr v" "good pc (en_store e')" "app_grows (durable_db (en_store e)) (durable_db (en_store e'))"
      and b: "body e1 = (Inr v, e2)" "st_db (en_store e1) = durable_db (en_store e)" "durable_db (en_store e') = st_db (en_store e2)"
      by (auto simp: committed_def)
    from body [OF b(1)] b(2) ev good have "cursor_of (st_db (en_store e2)) (ap_room (ev_operation event)) = ap_parent (ev_operation event) + 1"
      by (simp add: good_def)
    with r b(3) show ?thesis by auto
  qed auto
qed

abbreviation blocked_in :: "ClientDb \<Rightarrow> Event \<Rightarrow> bool" where
  "blocked_in db event \<equiv> \<exists>row \<in> set (cd_delivery_inbox db). ib_event_id row = ev_id event \<and> ib_state row = ''blocked''"

definition applied_outcome :: "postcard \<Rightarrow> Event \<Rightarrow> 'g Engine \<Rightarrow> client_error + bool \<Rightarrow> 'g Engine \<Rightarrow> bool" where
  "applied_outcome pc event e r e' \<longleftrightarrow>
     good pc (en_store e') \<and> app_grows (durable_db (en_store e)) (durable_db (en_store e'))
     \<and> (r = Inr True \<longrightarrow>
         cursor_of (durable_db (en_store e')) (ap_room (ev_operation event)) = ap_parent (ev_operation event) + 1)
     \<and> (r = Inr False \<longrightarrow>
         cursor_of (durable_db (en_store e')) (ap_room (ev_operation event)) = ap_parent (ev_operation event)
         \<and> blocked_in (durable_db (en_store e')) event)"

lemma block_outcome:
  assumes good: "good pc (en_store e)" and ev: "next_event pc event (durable_db (en_store e))"
    and run: "chain (execute_sql w (set_inbox_state (ev_id event) ''blocked'')) (\<lambda>_. ret False) e = (r, e')"
  shows "applied_outcome pc event e r e'"
proof -
  let ?f = "set_inbox_state (ev_id event) ''blocked''"
  let ?ins = "insert_row w (\<lambda>_. False) ?f"
  have eq: "execute_sql w ?f = ?ins" by (simp add: insert_row_def update_def)
  from run obtain q where q: "?ins e = (q, e')" "r = Inr False \<longrightarrow> (\<exists>v. q = Inr v)" "r \<noteq> Inr True"
    by (auto simp: eq ret_def elim!: chain_cases)
  from q(1) obtain q' where st: "chain (lock (cw_env w)) (\<lambda>_. stmt (cw_env w) (\<lambda>db. Inr ((), ?f db))) (en_store e) = (q', en_store e')"
    by (auto simp: insert_row_def dest: in_store_cases)
  have "inbox_ok pc (durable_db (en_store e))" using good by (simp add: good_def)
  from block_event [OF this ev] stmt_good [OF good st]
  have base: "good pc (en_store e') \<and> app_grows (durable_db (en_store e)) (durable_db (en_store e'))" by auto
  have "blocked_in (?f db) event \<and> cursor_of (?f db) room = cursor_of db room" if "recorded pc db event" for db room
  proof -
    from that obtain row where row: "row \<in> set (cd_delivery_inbox db)" "ib_event_id row = ev_id event"
      by (auto simp: recorded_def row_of_def)
    let ?row = "row\<lparr>ib_state := ''blocked''\<rparr>"
    have "?row \<in> set (cd_delivery_inbox (?f db))" using row by (auto simp: set_inbox_state_def)
    then have "blocked_in (?f db) event"
      by (rule rev_bexI [where x = ?row and P = "\<lambda>r. ib_event_id r = ev_id event \<and> ib_state r = ''blocked''"])
        (use row(2) in simp)
    then show ?thesis by (simp add: cursor_of_def set_inbox_state_def)
  qed
  with insert_row_Inr [OF good] q ev base show ?thesis
    unfolding applied_outcome_def next_event_def by fastforce
qed

lemma applied_outcome_via:
  assumes "applied_outcome pc event e1 r e'" "app_grows (durable_db (en_store e)) (durable_db (en_store e1))"
  shows "applied_outcome pc event e r e'"
  using assms by (auto simp: applied_outcome_def intro: app_grows_trans)

lemma conclude_event_outcome:
  assumes good: "good pc (en_store e)"
    and ok: "\<And>v. result = Inr v \<Longrightarrow>
      cursor_of (durable_db (en_store e)) (ap_room (ev_operation event)) = ap_parent (ev_operation event) + 1"
    and ev: "\<And>x. result = Inl x \<Longrightarrow> next_event pc event (durable_db (en_store e))"
    and run: "conclude_event w event result e = (r, e')"
  shows "applied_outcome pc event e r e'"
proof (cases result)
  case (Inr v)
  let ?m = "if ev_sender event = cw_user w \<and> ap_content_type (ev_operation event) = Application
    then chain (in_store (history (cw_env w) (ap_room (ev_operation event)) None)) (\<lambda>_. ret ()) else ret ()"
  have calm: "calm (?m :: ('a, unit) engine_op)" by (intro keep_intros)
  from run Inr obtain q where q: "?m e = (q, e')" "r \<noteq> Inr False"
    by (auto simp: conclude_event_def ret_def elim!: chain_cases)
  from calm_good [OF calm good q(1)] ok [OF Inr] q(2) show ?thesis
    by (auto simp: applied_outcome_def quiet_facts intro: quiet_grows)
next
  case (Inl x)
  note ev = ev [OF Inl]
  consider "x = ClientFault FaultBlocked" | "x = ClientFault FaultRejected"
    | "x \<noteq> ClientFault FaultBlocked" "x \<noteq> ClientFault FaultRejected" by blast
  then show ?thesis
  proof cases
    case 1
    with run Inl have "chain (execute_sql w (set_inbox_state (ev_id event) ''blocked'')) (\<lambda>_. ret False) e = (r, e')"
      by (simp add: conclude_event_def)
    then show ?thesis by (rule block_outcome [OF good ev])
  next
    case 2
    with run Inl obtain q where q: "with_transaction (cw_env w) (finish_event w event ''rejected'') e = (q, e')"
      "r = Inr True \<longrightarrow> (\<exists>v. q = Inr v)" "r \<noteq> Inr False"
      by (auto simp: conclude_event_def ret_def elim!: chain_cases)
    from settling_transaction [OF good q(1) ev] finish_event_settles [where state = "''rejected''" and w = w] q(2,3)
    show ?thesis unfolding applied_outcome_def by blast
  qed (use run Inl good in \<open>auto simp: conclude_event_def fail_def applied_outcome_def\<close>)
qed

lemma apply_next_outcome:
  assumes doc: "documented w" and good: "good pc (en_store e)"
    and ev: "next_event pc event (durable_db (en_store e))" and run: "apply_next w event own e = (r, e')"
  shows "applied_outcome pc event e r e'"
proof -
  obtain result e1 where at: "atomic (cw_env w) (apply_body w event own) e = (result, e1)"
    by (cases "atomic (cw_env w) (apply_body w event own) e")
  then obtain e2 where tr: "with_transaction (cw_env w) (apply_body w event own) e = (result, e2)" "en_store e2 = en_store e1"
    by (rule atomic_as_transaction)
  note outcome = settling_transaction [OF good tr(1) ev, unfolded tr(2)]
  have out: "good pc (en_store e1)" "app_grows (durable_db (en_store e)) (durable_db (en_store e1))"
    "\<And>x. result = Inl x \<Longrightarrow> durable_db (en_store e1) = durable_db (en_store e)"
    "\<And>v. result = Inr v \<Longrightarrow>
      cursor_of (durable_db (en_store e1)) (ap_room (ev_operation event)) = ap_parent (ev_operation event) + 1"
    using outcome apply_body_settles [OF doc] by blast+
  from run at have "conclude_event w event result e1 = (r, e')" by (simp add: apply_next_def)
  then have "applied_outcome pc event e1 r e'"
    by (rule conclude_event_outcome [OF out(1), rotated -1]) (use out(3,4) ev in auto)
  then show ?thesis using out(2) by (rule applied_outcome_via)
qed

lemma apply_event_outcome:
  assumes doc: "documented w" and good: "good pc (en_store e)"
    and rec: "recorded pc (durable_db (en_store e)) event" and run: "apply_event w event e = (r, e')"
  shows "applied_outcome pc event e r e'"
  using run unfolding apply_event_def
proof (cases rule: chain_cases)
  case (1 x)
  from calm_good [OF keeps_queries(1) good 1(1)] 1(2) show ?thesis
    by (auto simp: applied_outcome_def intro: quiet_grows)
next
  case (2 n e1)
  from select_durable [OF good 2(1) [unfolded cursor_def]]
  have e1: "durable_db (en_store e1) = durable_db (en_store e)" "good pc (en_store e1)"
    and n: "n = cursor_of (durable_db (en_store e)) (ap_room (ev_operation event))" by auto
  show ?thesis
  proof (cases "n = ap_parent (ev_operation event)")
    case True
    note find_calm = keeps_in_store [OF keeps_reads(1)]
    from 2(2) True have "chain (in_store (find_outbox (cw_env w) (ev_id event))) (apply_next w event) e1 = (r, e')" by simp
    then show ?thesis
    proof (cases rule: chain_cases)
      case (1 x)
      from calm_good [OF find_calm e1(2) 1(1)] 1(2) e1(1) show ?thesis
        by (auto simp: applied_outcome_def intro: quiet_grows)
    next
      case (2 own e2)
      from calm_good [OF find_calm e1(2) 2(1)] e1(1)
      have e2: "good pc (en_store e2)" "quiet_db (durable_db (en_store e)) (durable_db (en_store e2))" by auto
      have "next_event pc event (durable_db (en_store e2))"
        using True n rec by (simp add: next_event_def quiet_facts [OF e2(2)])
      from apply_next_outcome [OF doc e2(1) this 2(2)] show ?thesis
        by (rule applied_outcome_via) (rule quiet_grows [OF e2(2)])
    qed
  qed (use 2(2) e1 in \<open>auto simp: applied_outcome_def fail_def\<close>)
qed

section \<open>The remaining engine operations\<close>

text \<open>Code inside a transaction that keeps the inbox in order at every step.\<close>

definition inner :: "postcard \<Rightarrow> ('g, 'a) engine_op \<Rightarrow> bool" where
  "inner pc m \<longleftrightarrow> (\<forall>e r e'. inbox_ok pc (st_db (en_store e)) \<longrightarrow> m e = (r, e') \<longrightarrow>
     same_guard (en_store e) (en_store e') \<and> (\<forall>v. r = Inr v \<longrightarrow>
       inbox_ok pc (st_db (en_store e')) \<and> app_grows (st_db (en_store e)) (st_db (en_store e'))))"

lemma innerD:
  assumes "inner pc m" "inbox_ok pc (st_db (en_store e))" "m e = (r, e')"
  shows "same_guard (en_store e) (en_store e')"
    and "r = Inr v \<Longrightarrow> inbox_ok pc (st_db (en_store e')) \<and> app_grows (st_db (en_store e)) (st_db (en_store e'))"
  using assms unfolding inner_def by blast+

lemma inner_commits_well: "inner pc m \<Longrightarrow> commits_well pc env P m"
  unfolding inner_def commits_well_def by blast

lemma calm_inner: "calm m \<Longrightarrow> inner pc m"
  unfolding inner_def using calmD quiet_grows quiet_ok by blast

lemma inner_chain:
  assumes "inner pc m" "\<And>v. inner pc (f v)"
  shows "inner pc (chain m f)"
  unfolding inner_def
proof (intro allI impI)
  fix e r e' assume ok: "inbox_ok pc (st_db (en_store e))" and "chain m f e = (r, e')"
  from this(2) show "same_guard (en_store e) (en_store e') \<and> (\<forall>v. r = Inr v \<longrightarrow>
      inbox_ok pc (st_db (en_store e')) \<and> app_grows (st_db (en_store e)) (st_db (en_store e')))"
  proof (cases rule: chain_cases)
    case (1 x)
    with innerD(1) [OF assms(1) ok 1(1)] show ?thesis by simp
  next
    case (2 v e1)
    note one = innerD(1) [OF assms(1) ok 2(1)] innerD(2) [OF assms(1) ok 2(1) refl]
    then have ok1: "inbox_ok pc (st_db (en_store e1))" by simp
    from same_guard_trans [OF one(1) innerD(1) [OF assms(2) ok1 2(2)]] innerD(2) [OF assms(2) ok1 2(2)] one(2)
    show ?thesis by (blast intro: app_grows_trans)
  qed
qed

lemma inner_if: "inner pc m \<Longrightarrow> inner pc n \<Longrightarrow> inner pc (if c then m else n)"
  by simp

lemma inner_insert_row:
  assumes "\<And>db. inbox_ok pc db \<Longrightarrow> \<not> conflict db \<Longrightarrow> inbox_ok pc (f db) \<and> app_grows db (f db)"
  shows "inner pc (insert_row w conflict f)"
  unfolding inner_def
proof (intro allI impI)
  fix e r e' assume ok: "inbox_ok pc (st_db (en_store e))" and "insert_row w conflict f e = (r, e')"
  then have "same_guard (en_store e) (en_store e')" "\<And>v. r = Inr v \<Longrightarrow>
      \<not> conflict (st_db (en_store e)) \<and> st_db (en_store e') = f (st_db (en_store e))"
    by (auto simp: insert_row_def in_store_def chain_def lock_def stmt_def Let_def ret_def fail_def same_guard_def
      split: if_splits sum.splits prod.splits)
  with assms [OF ok] show "same_guard (en_store e) (en_store e') \<and> (\<forall>v. r = Inr v \<longrightarrow>
      inbox_ok pc (st_db (en_store e')) \<and> app_grows (st_db (en_store e)) (st_db (en_store e')))" by auto
qed

lemma new_cursor:
  assumes "inbox_ok pc db" "cd_delivery_cursors db room = None"
  shows "inbox_ok pc (set_cursor room n db) \<and> app_grows db (set_cursor room n db)"
proof -
  have cursors: "cd_delivery_cursors (set_cursor room n db) r = (if r = room then Some n else cd_delivery_cursors db r)" for r
    by (simp add: set_cursor_def)
  have inbox: "cd_delivery_inbox (set_cursor room n db) = cd_delivery_inbox db" by (simp add: set_cursor_def)
  have "row \<in> set (cd_delivery_inbox db) \<Longrightarrow> settled row \<Longrightarrow> ib_room row \<noteq> room" for row
    using assms by (auto simp: inbox_ok_def)
  with assms show ?thesis
    by (auto simp: inbox_ok_def app_grows_def inbox_grows_same cursors_advance_def cursors inbox)
qed

lemma inner_complete_created: "documented w \<Longrightarrow> inner pc (chain (create_group (cw_lib w) (cw_env w) room) (\<lambda>_.
        chain (in_store (upsert_room (cw_env w) room name ''created'')) (\<lambda>_.
        chain (execute_sql w (\<lambda>db. if cd_delivery_cursors db room = None then set_cursor room 0 db else db)) (\<lambda>_.
        settle_request w request_id))))"
proof -
  let ?f = "\<lambda>db. if cd_delivery_cursors db room = None then set_cursor room 0 db else db"
  have "execute_sql w ?f = insert_row w (\<lambda>_. False) ?f" by (simp add: insert_row_def update_def)
  moreover have "inner pc (insert_row w (\<lambda>_. False) ?f)" by (rule inner_insert_row) (use new_cursor in auto)
  ultimately show "documented w \<Longrightarrow> ?thesis"
    by (simp only:) (intro inner_chain calm_inner [OF inbox.keeps_create_group] calm_inner [OF keeps_in_store [OF calm_store_ops(4)]]
      calm_inner [OF calm_settle])
qed

lemma inner_accept_welcome:
  assumes doc: "documented w"
  shows "inner pc (accept_welcome w c wd)"
proof -
  have calm: "calm (execute_sql w (set_welcome_state c ''applied''))" by (intro keep_intros) simp
  have ins: "inner pc (insert_row w (\<lambda>db. cd_delivery_cursors db (wd_room wd) \<noteq> None) (set_cursor (wd_room wd) (wd_sequence wd)))"
    by (rule inner_insert_row) (use new_cursor in auto)
  show ?thesis unfolding accept_welcome_def
    by (intro inner_chain inner_if ins calm [THEN calm_inner] keeps_in_store [OF calm_store_ops(4), THEN calm_inner] inbox.keeps_has_group [OF doc, THEN calm_inner]
      inbox.keeps_join_group [OF doc, THEN calm_inner] inbox.keeps_session(2) [OF doc, THEN calm_inner] keeps_basic(4) [THEN calm_inner]
      calm_journal [THEN calm_inner])
qed

lemma steady_card_own [steady_intros]: "steady pc (in_store (card_own env public_of sign))"
proof -
  have "calm (in_store (chain (load_mls_identity env) (\<lambda>keys. case keys of
      None \<Rightarrow> fail (StoreInvalidData ''MLS identity missing'')
    | Some (public, _) \<Rightarrow>
        if length public \<noteq> 32 then fail (StoreInvalidData ''invalid MLS public key'')
        else let cc = \<lparr>card_user = user, card_transport_key = public_of seed, card_mls_key = public,
               card_signature = replicate 64 0\<rparr>
          in ret (cc\<lparr>card_signature := sign seed (contact_transcript cc)\<rparr>))))" for user seed
    unfolding Let_def by (intro keep_intros)
  then show ?thesis
    unfolding card_own_def in_store_chain [of "identity env"]
    by (intro steady_chain steady_identity) (auto split: prod.split intro: calm_steady)
qed

lemma steady_command [steady_intros]:
  assumes doc: "documented w"
  shows "steady pc (command w c)"
proof -
  have publish: "calm (chain (generate_key_packages (cw_lib w) (cw_env w) n) (\<lambda>packages.
      journal w m (PublishKeyPackages packages)))" for n m by (intro keep_intros doc)
  show ?thesis
  proof (cases c)
    case ContactExport
    then show ?thesis by (auto simp: command_def intro: steady_chain steady_card_own calm_steady [OF keeps_basic(3)])
  next
    case (PublishKeyPackagesCommand n)
    then show ?thesis
      by (simp add: command_def steady_chain [OF calm_steady [OF keeps_new_message_id]] atomic_steady [OF calm_commits_well [OF publish]])
  qed (simp_all add: command_def, (rule calm_steady, intro keep_intros doc)+)
qed

lemma steady_build_each:
  assumes doc: "documented w"
  shows "steady pc (build_each w rows built)"
proof (induction rows arbitrary: built)
  case (Cons row rows)
  have attempt: "steady pc (chain (in_store (identity (cw_env w))) (\<lambda>(_, seed).
      chain (atomic (cw_env w) (attempt_body w seed row m parent)) (\<lambda>_. ret True)))" for m parent
    by (rule steady_chain [OF steady_identity])
      (auto split: prod.split intro!: steady_chain atomic_steady calm_commits_well calm_attempt_body doc calm_steady [OF keeps_basic(3)])
  have "steady pc (build_attempt w row)"
    unfolding build_attempt_def Let_def
    by (intro steady_chain steady_if attempt calm_steady [OF inbox.keeps_has_group [OF doc]] calm_steady [OF keeps_basic(3)]
      calm_steady [OF keeps_basic(4)] calm_steady [OF keeps_queries(1)] calm_steady [OF keeps_new_message_id]
      calm_steady [OF keeps_in_store [OF keeps_store_chain [OF keeps_lock(1) keeps_query]]])
  with Cons.IH show ?case by (auto intro: steady_chain)
qed (auto intro: calm_steady keeps_basic)

lemma steady_build_attempts [steady_intros]: "documented w \<Longrightarrow> steady pc (build_attempts w)"
  unfolding build_attempts_def by (intro steady_chain steady_build_each calm_steady keep_intros)

lemma calm_block_welcome: "calm (block_welcome w c)"
  unfolding block_welcome_def by (intro keep_intros) simp

lemma steady_match:
  assumes "steady pc m" "\<And>x. steady pc (h x)" "\<And>v. steady pc (f v)"
  shows "steady pc (match_result m h f)"
proof (rule steadyI)
  fix e r e' assume good: "good pc (en_store e)" and run: "match_result m h f e = (r, e')"
  obtain q e1 where m: "m e = (q, e1)" by (cases "m e")
  from steadyD [OF assms(1) good m] have one: "good pc (en_store e1)" "app_grows (durable_db (en_store e)) (durable_db (en_store e1))"
    by simp_all
  have "good pc (en_store e') \<and> app_grows (durable_db (en_store e1)) (durable_db (en_store e'))"
  proof (cases q)
    case (Inl x)
    with run m steadyD [OF assms(2) one(1)] show ?thesis by (simp add: match_result_def)
  next
    case (Inr v)
    with run m steadyD [OF assms(3) one(1)] show ?thesis by (simp add: match_result_def)
  qed
  with one(2) show "good pc (en_store e') \<and> app_grows (durable_db (en_store e)) (durable_db (en_store e'))"
    by (blast intro: app_grows_trans)
qed

lemma steady_process_welcome:
  assumes doc: "documented w"
  shows "steady pc (process_welcome w row)"
  unfolding process_welcome_def
  by (intro steady_chain steady_match atomic_steady inner_commits_well inner_accept_welcome doc
    calm_steady [OF calm_block_welcome] calm_steady [OF calm_verify_welcome] calm_steady [OF keeps_basic(3)]
    calm_steady [OF keeps_basic(5)])

lemma steady_welcome_turn: "documented w \<Longrightarrow> steady pc (welcome_turn w after)"
  unfolding welcome_turn_def
  by (intro steady_chain steady_option steady_process_welcome calm_steady [OF keeps_basic(3)]
    calm_steady [OF keeps_in_store [OF keeps_store_chain [OF keeps_lock(1) keeps_query]]])

lemma steady_process_welcomes [steady_intros]: "documented w \<Longrightarrow> steady pc (process_welcomes w)"
  unfolding process_welcomes_def
  by (rule steadyI, rule process_welcomes_closed [where Q = "\<lambda>e. good pc (en_store e)" and
        R = "\<lambda>e e'. app_grows (durable_db (en_store e)) (durable_db (en_store e'))"])
    (use steadyD [OF steady_welcome_turn] in \<open>blast intro: app_grows_trans\<close>)+

section \<open>Responses\<close>

lemma steady_receive:
  "postcard_wire (cw_pc w) \<Longrightarrow> wf_event event \<Longrightarrow> steady (cw_pc w) (receive w event)"
  by (rule steadyI) (blast dest: receive_outcome)

lemma steady_complete_created: "documented w \<Longrightarrow> steady pc (complete_created w m name room)"
  unfolding complete_created_def by (intro atomic_steady inner_commits_well inner_complete_created)

lemma steady_complete_conflict: "documented w \<Longrightarrow> steady pc (complete_conflict w m operation)"
  unfolding complete_conflict_def by (intro atomic_steady calm_commits_well keep_intros) simp_all

lemma steady_complete_rejected: "documented w \<Longrightarrow> steady pc (complete_rejected w m request)"
  unfolding complete_rejected_def by (intro atomic_steady calm_commits_well keep_intros) simp_all

lemma steady_complete_reserved:
  shows "steady pc (complete_reserved w m recipient package)"
proof -
  have "calm (chain (in_store (chain (lock (cw_env w)) (\<lambda>_. stmt (cw_env w) (\<lambda>db.
              Inr (length (filter (reserved_for m recipient) (cd_delivery_intents db)),
                   set_package m recipient package db))))) (\<lambda>changed.
            if changed \<noteq> 1 then text_error ''reservation has no matching durable target''
            else settle_request w m))"
    by (intro keep_intros keeps_stmt) auto
  then show ?thesis
    unfolding complete_reserved_def
    by (intro steady_chain steady_option steady_if with_transaction_steady calm_commits_well
      calm_steady [OF keeps_basic(4)] calm_steady [OF keeps_basic(5)] calm_steady [OF keeps_in_store [OF inbox.keeps_verify_member(1)]])
qed

lemma steady_complete:
  assumes doc: "documented w" and wire: "postcard_wire (cw_pc w)" and wf: "wf_response response"
  shows "steady (cw_pc w) (complete w m request response)"
proof -
  note parts = steady_complete_created [OF doc] steady_complete_conflict [OF doc] steady_complete_rejected [OF doc]
    steady_complete_reserved calm_steady [OF calm_settle] calm_steady [OF keeps_basic(3)] calm_steady [OF keeps_basic(4)]
  show ?thesis
  proof (cases response)
    case (AppendAccepted event)
    with steady_receive [OF wire] wf have "steady (cw_pc w) (receive w event)" by (simp add: wf_response_def)
    with AppendAccepted show ?thesis by (cases request) (simp_all add: complete_def Let_def parts)
  next
    case (Rejected reason)
    then show ?thesis by (simp add: complete_def parts)
  qed (cases request; simp add: complete_def Let_def parts)+
qed

section \<open>Pages of events\<close>

definition page_outcome :: "postcard \<Rightarrow> RoomId \<Rightarrow> u64 \<Rightarrow> Event list \<Rightarrow> 'g Engine \<Rightarrow> client_error + bool \<Rightarrow> 'g Engine \<Rightarrow> bool" where
  "page_outcome pc room n events e r e' \<longleftrightarrow>
     good pc (en_store e') \<and> app_grows (durable_db (en_store e)) (durable_db (en_store e'))
     \<and> (r = Inr True \<longrightarrow> cursor_of (durable_db (en_store e')) room = n + of_nat (length events))
     \<and> (r = Inr False \<longrightarrow> (\<exists>event \<in> set events.
          cursor_of (durable_db (en_store e')) room = ap_parent (ev_operation event) \<and> blocked_in (durable_db (en_store e')) event))"

fun numbered :: "RoomId \<Rightarrow> u64 \<Rightarrow> Event list \<Rightarrow> bool" where
  "numbered room n [] = True"
| "numbered room n (event # events) =
     (ap_room (ev_operation event) = room \<and> ap_parent (ev_operation event) = n \<and> numbered room (n + 1) events)"

lemma receive_page_outcome:
  assumes wire: "postcard_wire (cw_pc w)" and wf: "list_all wf_event events"
    and good: "good (cw_pc w) (en_store e)" and run: "receive_page w room n events e = (r, e')"
  shows "good (cw_pc w) (en_store e') \<and> app_grows (durable_db (en_store e)) (durable_db (en_store e'))
    \<and> (\<forall>v. r = Inr v \<longrightarrow> numbered room n events \<and> (\<forall>event \<in> set events. recorded (cw_pc w) (durable_db (en_store e')) event))"
  using wf good run
proof (induction events arbitrary: n e)
  case (Cons event events)
  show ?case
  proof (cases "ap_room (ev_operation event) = room \<and> ap_parent (ev_operation event) = n")
    case True
    with Cons.prems(3) have "chain (receive w event) (\<lambda>_. receive_page w room (n + 1) events) e = (r, e')" by simp
    then show ?thesis
    proof (cases rule: chain_cases)
      case (1 x)
      with receive_outcome [OF wire _ Cons.prems(2) 1(1)] Cons.prems(1) show ?thesis by simp
    next
      case (2 v e1)
      from receive_outcome [OF wire _ Cons.prems(2) 2(1)] Cons.prems(1)
      have one: "good (cw_pc w) (en_store e1)" "app_grows (durable_db (en_store e)) (durable_db (en_store e1))"
        "recorded (cw_pc w) (durable_db (en_store e1)) event" by simp_all
      from Cons.IH [OF _ one(1) 2(2)] Cons.prems(1)
      have two: "good (cw_pc w) (en_store e')" "app_grows (durable_db (en_store e1)) (durable_db (en_store e'))"
        "\<forall>v. r = Inr v \<longrightarrow> numbered room (n + 1) events \<and> (\<forall>event \<in> set events. recorded (cw_pc w) (durable_db (en_store e')) event)"
        by simp_all
      have "recorded (cw_pc w) (durable_db (en_store e')) event"
        using recorded_grows one(3) two(2) by (auto simp: app_grows_def)
      with two True app_grows_trans [OF one(2) two(2)] show ?thesis by auto
    qed
  qed (use Cons.prems in \<open>auto simp: fail_def\<close>)
qed (auto simp: ret_def)

lemma apply_page_outcome:
  assumes doc: "documented w"
    and good: "good pc (en_store e)" and rec: "\<forall>event \<in> set events. recorded pc (durable_db (en_store e)) event"
    and cur: "cursor_of (durable_db (en_store e)) room = n" and num: "numbered room n events"
    and run: "apply_page w events e = (r, e')"
  shows "page_outcome pc room n events e r e'"
  using good rec cur num run
proof (induction events arbitrary: n e)
  case Nil
  then show ?case by (auto simp: ret_def page_outcome_def)
next
  case (Cons event events)
  then have ev: "recorded pc (durable_db (en_store e)) event" "ap_room (ev_operation event) = room"
    "ap_parent (ev_operation event) = n" "numbered room (n + 1) events" by simp_all
  from Cons.prems(5) have "chain (apply_event w event) (\<lambda>fin. if fin then apply_page w events else ret False) e = (r, e')"
    by simp
  then show ?case
  proof (cases rule: chain_cases)
    case (1 x)
    from apply_event_outcome [OF doc Cons.prems(1) ev(1) 1(1)] 1(2) show ?thesis
      by (simp add: applied_outcome_def page_outcome_def)
  next
    case (2 fin e1)
    note one = apply_event_outcome [OF doc Cons.prems(1) ev(1) 2(1)]
    then have e1: "good pc (en_store e1)" "app_grows (durable_db (en_store e)) (durable_db (en_store e1))"
      by (simp_all add: applied_outcome_def)
    show ?thesis
    proof (cases fin)
      case False
      with 2(2) one ev show ?thesis by (auto simp: applied_outcome_def page_outcome_def ret_def)
    next
      case True
      have "\<forall>event \<in> set events. recorded pc (durable_db (en_store e1)) event"
        using Cons.prems(2) e1(2) recorded_grows by (auto simp: app_grows_def)
      moreover have "cursor_of (durable_db (en_store e1)) room = n + 1" using one True ev by (simp add: applied_outcome_def)
      ultimately have "page_outcome pc room (n + 1) events e1 r e'"
        using Cons.IH [OF e1(1)] ev(4) 2(2) True by simp
      then show ?thesis using e1(2) by (auto simp: page_outcome_def add_ac intro: app_grows_trans)
    qed
  qed
qed

text \<open>Receiving moves no cursor.\<close>

definition keeps_cursors :: "('g, 'a) engine_op \<Rightarrow> bool" where
  "keeps_cursors m \<longleftrightarrow> (\<forall>e r e'. m e = (r, e') \<longrightarrow> same_guard (en_store e) (en_store e')
     \<and> cd_delivery_cursors (st_db (en_store e')) = cd_delivery_cursors (st_db (en_store e)))"

lemma keeps_cursorsD:
  assumes "keeps_cursors m" "m e = (r, e')"
  shows "cursor_of (durable_db (en_store e')) room = cursor_of (durable_db (en_store e)) room"
proof -
  from assms have "same_guard (en_store e) (en_store e')"
    "cd_delivery_cursors (st_db (en_store e')) = cd_delivery_cursors (st_db (en_store e))"
    unfolding keeps_cursors_def by blast+
  then show ?thesis by (auto simp: same_guard_def durable_db_def cursor_of_def split: option.splits)
qed

lemma calm_keeps_cursors: "calm m \<Longrightarrow> keeps_cursors m"
  unfolding keeps_cursors_def quiet_db_def calm_def by meson

lemma keeps_cursors_chain:
  assumes "keeps_cursors m" "\<And>v. keeps_cursors (f v)"
  shows "keeps_cursors (chain m f)"
  unfolding keeps_cursors_def
proof (intro allI impI)
  fix e r e' assume "chain m f e = (r, e')"
  then show "same_guard (en_store e) (en_store e')
     \<and> cd_delivery_cursors (st_db (en_store e')) = cd_delivery_cursors (st_db (en_store e))"
  proof (cases rule: chain_cases)
    case (1 x)
    with assms(1) show ?thesis unfolding keeps_cursors_def by blast
  next
    case (2 v e1)
    with assms(1) assms(2) [of v] have "same_guard (en_store e) (en_store e1)" "same_guard (en_store e1) (en_store e')"
      "cd_delivery_cursors (st_db (en_store e1)) = cd_delivery_cursors (st_db (en_store e))"
      "cd_delivery_cursors (st_db (en_store e')) = cd_delivery_cursors (st_db (en_store e1))"
      unfolding keeps_cursors_def by blast+
    then show ?thesis by (auto intro: same_guard_trans)
  qed
qed

lemma keeps_cursors_insert: "keeps_cursors (insert_row w conflict (add_inbox event n bs))"
  unfolding keeps_cursors_def
  by (auto simp: insert_row_def in_store_def chain_def lock_def stmt_def Let_def ret_def fail_def same_guard_def
    add_inbox_def split: if_splits sum.splits prod.splits)

lemma keeps_cursors_cases:
  "keeps_cursors m \<Longrightarrow> keeps_cursors n \<Longrightarrow> keeps_cursors (if c then m else n)"
  "keeps_cursors m \<Longrightarrow> (\<And>x. keeps_cursors (f x)) \<Longrightarrow> keeps_cursors (case v of None \<Rightarrow> m | Some x \<Rightarrow> f x)"
  by (simp, cases v, simp_all)

lemma receive_keeps_cursors: "keeps_cursors (receive w event)"
  unfolding receive_def
  by (intro keeps_cursors_cases keeps_cursors_chain keeps_cursors_insert keeps_basic(3,4,5) [THEN calm_keeps_cursors]
    keeps_in_store [OF keeps_admit, THEN calm_keeps_cursors]
    keeps_in_store [OF keeps_store_chain [OF keeps_lock(1) keeps_query], THEN calm_keeps_cursors])

lemma receive_page_keeps_cursors: "keeps_cursors (receive_page w room n events)"
  by (induction events arbitrary: n)
    (simp_all add: keeps_cursors_chain receive_keeps_cursors calm_keeps_cursors [OF keeps_basic(3)] calm_keeps_cursors [OF keeps_basic(4)])

lemma page_outcome_via:
  assumes "page_outcome pc room n events e1 r e'" "app_grows (durable_db (en_store e)) (durable_db (en_store e1))"
  shows "page_outcome pc room n events e r e'"
  using assms by (auto simp: page_outcome_def intro: app_grows_trans)

lemma process_page_outcome:
  assumes doc: "documented w" and wire: "postcard_wire (cw_pc w)" and wf: "list_all wf_event events"
    and good: "good (cw_pc w) (en_store e)" and cur: "cursor_of (durable_db (en_store e)) room = n"
    and run: "process_page w room n events e = (r, e')"
  shows "page_outcome (cw_pc w) room n events e r e'"
  using run unfolding process_page_def
proof (cases rule: chain_cases)
  case (1 x)
  with receive_page_outcome [OF wire wf good 1(1)] show ?thesis by (simp add: page_outcome_def)
next
  case (2 v e1)
  from receive_page_outcome [OF wire wf good 2(1)]
  have one: "good (cw_pc w) (en_store e1)" "app_grows (durable_db (en_store e)) (durable_db (en_store e1))"
    "numbered room n events" "\<forall>event \<in> set events. recorded (cw_pc w) (durable_db (en_store e1)) event" by simp_all
  have "cursor_of (durable_db (en_store e1)) room = n"
    using keeps_cursorsD [OF receive_page_keeps_cursors 2(1)] cur by simp
  from apply_page_outcome [OF doc one(1,4) this one(3) 2(2)] one(2) show ?thesis by (rule page_outcome_via)
qed

end
