(* ===== verification/Client_Loops.thy ===== *)
theory Client_Loops
  imports Client_Delivery
begin

text \<open>
  The loops of the client that wait for the relay, with one induction principle for all of them, and
  the count of requests: an operation that succeeds has used up at least one message of the
  relay for every request it sent, and one that fails has sent at most one request more.
\<close>

section \<open>Loops over turns\<close>

text \<open>
  A turn either ends the loop or says how it continues, and then it has used up a message. What
  holds of every turn and composes holds of the loop.
\<close>

locale wire_loop =
  fixes turn :: "'s \<Rightarrow> ('g, 't) client_op"
    and continue :: "'t \<Rightarrow> 's option"
    and outcome :: "'t \<Rightarrow> 'b"
    and loop :: "'s \<Rightarrow> ('g, 'b) client_op"
  assumes unfold: "loop s cl =
      (case turn s cl of
         (Inl error, cl') \<Rightarrow> (Inl error, cl')
       | (Inr t, cl') \<Rightarrow> (case continue t of None \<Rightarrow> (Inr (outcome t), cl') | Some s' \<Rightarrow> loop s' cl'))"
    and shrinks: "turn s cl = (Inr t, cl') \<Longrightarrow> continue t = Some s' \<Longrightarrow> remaining cl' < remaining cl"
begin

lemma loop_closed:
  assumes turn: "\<And>s cl r cl'. Q cl \<Longrightarrow> turn s cl = (r, cl') \<Longrightarrow> Q cl' \<and> R (isl r) cl cl'"
    and compose: "\<And>b cl cl1 cl'. R False cl cl1 \<Longrightarrow> R b cl1 cl' \<Longrightarrow> R b cl cl'"
    and Q: "Q cl" and run: "loop s cl = (r, cl')"
  shows "Q cl' \<and> R (isl r) cl cl'"
  using Q run
proof (induction "remaining cl" arbitrary: s cl rule: less_induct)
  case less
  obtain q cl1 where first: "turn s cl = (q, cl1)" by (cases "turn s cl")
  note one = turn [OF less.prems(1) first]
  show ?case
  proof (cases "\<exists>t s'. q = Inr t \<and> continue t = Some s'")
    case True
    then obtain t s' where q: "q = Inr t" "continue t = Some s'" by blast
    with less.prems(2) first have "loop s' cl1 = (r, cl')" by (subst (asm) unfold) simp
    with less.hyps [OF shrinks [OF first [unfolded q(1)] q(2)]] one have "Q cl' \<and> R (isl r) cl1 cl'" by blast
    with one q(1) show ?thesis by (auto intro: compose)
  next
    case False
    with less.prems(2) first have "cl' = cl1" "isl r = isl q"
      by (subst (asm) unfold; auto split: sum.splits option.splits)+
    with one show ?thesis by simp
  qed
qed

text \<open>A loop that ends well ends with a turn that does not continue.\<close>

lemma last_turn:
  assumes turn: "\<And>s cl r cl'. Q cl \<Longrightarrow> turn s cl = (r, cl') \<Longrightarrow> Q cl'"
    and Q: "Q cl" and run: "loop s cl = (Inr v, cl')"
  shows "\<exists>s1 cl1 t. Q cl1 \<and> turn s1 cl1 = (Inr t, cl') \<and> continue t = None \<and> v = outcome t"
  using Q run
proof (induction "remaining cl" arbitrary: s cl rule: less_induct)
  case less
  obtain t cl1 where first: "turn s cl = (Inr t, cl1)"
    using less.prems(2) by (subst (asm) unfold) (auto split: prod.splits sum.splits)
  show ?case
  proof (cases "continue t")
    case None
    with less.prems first show ?thesis by (subst (asm) unfold) auto
  next
    case (Some s')
    with less.prems(2) first have "loop s' cl1 = (Inr v, cl')" by (subst (asm) unfold) simp
    with less.hyps [OF shrinks [OF first Some]] turn [OF less.prems(1) first] show ?thesis by blast
  qed
qed

end

text \<open>Continuing with nothing to hand over.\<close>

abbreviation again_if :: "bool \<Rightarrow> unit option" where
  "again_if b \<equiv> if b then Some () else None"

interpretation reading: wire_loop "\<lambda>_. wire_request w m request" "\<lambda>response. again_if (try_again response)"
    "\<lambda>response. response" "\<lambda>_. read_loop w m request" for w m request
  by unfold_locales
    (subst read_loop.simps, auto dest: wire_request_shrinks split: sum.splits prod.splits)

interpretation welcoming: wire_loop "\<lambda>_. welcome_page_turn w" again_if "\<lambda>_. ()" "\<lambda>_. welcome_loop w" for w
  by unfold_locales
    (subst welcome_loop.simps, auto dest: welcome_page_turn_shrinks split: sum.splits prod.splits)

interpretation catching: wire_loop "\<lambda>_. catch_up_turn w head" again_if "\<lambda>_. ()" "\<lambda>_. catch_up w head" for w head
  by unfold_locales
    (subst catch_up.simps, auto dest: catch_up_turn_shrinks split: sum.splits prod.splits if_splits)

interpretation indexing: wire_loop "index_turn w" "\<lambda>(room, mre). if mre then Some room else None" "\<lambda>_. ()" "index_loop w" for w
  by unfold_locales
    (subst index_loop.simps, auto dest: index_turn_shrinks split: sum.splits prod.splits)

interpretation sweeping: wire_loop "sweep_turn w" "\<lambda>n. n" "\<lambda>_. ()" "sweep w" for w
  by unfold_locales
    (subst sweep.simps, auto dest: sweep_turn_shrinks split: sum.splits prod.splits option.splits)

section \<open>Lockstep with the relay\<close>

abbreviation sent :: "'g Client \<Rightarrow> nat" where
  "sent cl \<equiv> length (wr_sent (cl_wire cl))"

definition lockstep :: "('g, 'a) client_op \<Rightarrow> bool" where
  "lockstep m \<longleftrightarrow> (\<forall>cl r cl'. m cl = (r, cl') \<longrightarrow>
     sent cl' + remaining cl' \<le> sent cl + remaining cl + (if isl r then 1 else 0))"

named_theorems lockstep_intros \<open>operations in lockstep with the relay\<close>

lemma lockstepI:
  "(\<And>cl r cl'. m cl = (r, cl') \<Longrightarrow> sent cl' + remaining cl' \<le> sent cl + remaining cl + (if isl r then 1 else 0))
   \<Longrightarrow> lockstep m"
  by (simp add: lockstep_def)

lemma lockstepD:
  assumes "lockstep m"
  shows "m cl = (Inl x, cl') \<Longrightarrow> sent cl' + remaining cl' \<le> sent cl + remaining cl + 1"
    and "m cl = (Inr v, cl') \<Longrightarrow> sent cl' + remaining cl' \<le> sent cl + remaining cl"
  using assms by (fastforce simp: lockstep_def)+

lemma lockstep_basic [lockstep_intros]:
  "lockstep (ret v)" "lockstep (fail x)" "lockstep (from_result q)" "lockstep (on_engine m)"
  by (auto simp: lockstep_def ret_def fail_def from_result_def on_engine_def split: prod.splits)

text \<open>A successful first part leaves the whole allowance to the second.\<close>

lemma lockstep_chain [lockstep_intros]:
  assumes "lockstep m" "\<And>v. lockstep (f v)"
  shows "lockstep (chain m f)"
proof (rule lockstepI)
  fix cl r cl' assume run: "chain m f cl = (r, cl')"
  obtain q cl1 where m: "m cl = (q, cl1)" by (cases "m cl")
  show "sent cl' + remaining cl' \<le> sent cl + remaining cl + (if isl r then 1 else 0)"
  proof (cases q)
    case (Inl x)
    with run m lockstepD(1) [OF assms(1)] show ?thesis by (auto simp: chain_def)
  next
    case (Inr v)
    with run m have "f v cl1 = (r, cl')" by (simp add: chain_def)
    with assms(2) have "sent cl' + remaining cl' \<le> sent cl1 + remaining cl1 + (if isl r then 1 else 0)"
      by (simp add: lockstep_def)
    with lockstepD(2) [OF assms(1)] m Inr show ?thesis by fastforce
  qed
qed

lemma lockstep_if [lockstep_intros]: "lockstep m \<Longrightarrow> lockstep n \<Longrightarrow> lockstep (if c then m else n)"
  by simp

lemma lockstep_for_each [lockstep_intros]: "(\<And>x. lockstep (f x)) \<Longrightarrow> lockstep (for_each f xs)"
  by (induction xs) (auto intro!: lockstep_intros)

lemma lockstep_wire_request [lockstep_intros]: "lockstep (wire_request w m request)"
proof (rule lockstepI)
  fix cl r cl' assume run: "wire_request w m request cl = (r, cl')"
  show "sent cl' + remaining cl' \<le> sent cl + remaining cl + (if isl r then 1 else 0)"
  proof (cases r)
    case (Inl x)
    with run show ?thesis
      by (auto simp: wire_request_def Let_def dest!: await_le split: sum.splits option.splits prod.splits)
  next
    case (Inr response)
    from run have "sent cl' \<le> sent cl + 1"
      by (auto simp: wire_request_def Let_def split: sum.splits option.splits prod.splits)
    with Inr wire_request_shrinks [of w m request cl response cl'] run show ?thesis by simp
  qed
qed

text \<open>A loop whose turns are in lockstep.\<close>

context wire_loop
begin

lemma lockstep_loop:
  assumes "\<And>s. lockstep (turn s)"
  shows "lockstep (loop s)"
proof (rule lockstepI)
  fix cl r cl' assume run: "loop s cl = (r, cl')"
  let ?R = "\<lambda>b cl cl'. sent cl' + remaining cl' \<le> sent cl + remaining cl + (if b then 1 else 0)"
  have "True \<and> ?R (isl r) cl cl'"
    by (rule loop_closed [where Q = "\<lambda>_. True" and R = ?R, OF _ _ TrueI run])
      (use assms in \<open>auto simp: lockstep_def\<close>)
  then show "?R (isl r) cl cl'" by simp
qed

end

lemma lockstep_wire_read [lockstep_intros]: "lockstep (wire_read w request)"
  unfolding wire_read_def
  by (intro lockstep_chain lockstep_basic reading.lockstep_loop lockstep_wire_request)

lemma lockstep_response [lockstep_intros]:
  "(\<And>a b c. lockstep (f a b c)) \<Longrightarrow> lockstep n \<Longrightarrow> lockstep (case response of Welcomes a b c \<Rightarrow> f a b c | _ \<Rightarrow> n)"
  "(\<And>a b c d. lockstep (g a b c d)) \<Longrightarrow> lockstep n \<Longrightarrow> lockstep (case response of RoomEvents a b c d \<Rightarrow> g a b c d | _ \<Rightarrow> n)"
  "(\<And>a b. lockstep (h a b)) \<Longrightarrow> lockstep n \<Longrightarrow> lockstep (case response of SyncIndexPage a b \<Rightarrow> h a b | _ \<Rightarrow> n)"
  by (cases response; simp)+

lemma lockstep_message [lockstep_intros]:
  "(\<And>a b. lockstep (h a b)) \<Longrightarrow> lockstep n \<Longrightarrow> lockstep (case message of ClientDelivery a b \<Rightarrow> h a b | _ \<Rightarrow> n)"
  by (cases message) simp_all

lemma lockstep_turns:
  "lockstep (welcome_page_turn w)" "lockstep (catch_up_turn w head)"
  unfolding welcome_page_turn_def catch_up_turn_def events_response_def by (intro lockstep_intros)+

lemma lockstep_loops [lockstep_intros]: "lockstep (welcome_loop w)" "lockstep (catch_up w head)"
  by (rule welcoming.lockstep_loop [OF lockstep_turns(1)], rule catching.lockstep_loop [OF lockstep_turns(2)])

lemma lockstep_sync_heads [lockstep_intros]: "lockstep (sync_heads w after_room heads)"
  by (induction heads arbitrary: after_room) (auto simp: sync_head_def intro!: lockstep_intros)

lemma lockstep_index_turn: "lockstep (index_turn w after_room)"
  unfolding index_turn_def by (intro lockstep_intros)

lemma lockstep_index_loop [lockstep_intros]: "lockstep (index_loop w after_room)"
  by (rule indexing.lockstep_loop [OF lockstep_index_turn])

lemma lockstep_send_entry [lockstep_intros]: "lockstep (send_entry w entry)"
  unfolding send_entry_def by (intro lockstep_intros)

lemma lockstep_sweep_turn: "lockstep (sweep_turn w after)"
  unfolding sweep_turn_def by (intro lockstep_intros)

lemma lockstep_sweep [lockstep_intros]: "lockstep (sweep w after)"
  by (rule sweeping.lockstep_loop [OF lockstep_sweep_turn])

lemma lockstep_drive [lockstep_intros]: "lockstep (drive w)"
proof -
  have "lockstep (drive_rounds n w)" for n
    by (induction n) (auto simp: synchronize_def intro!: lockstep_intros)
  then show ?thesis by (simp add: drive_def)
qed

lemma lockstep_run_turn [lockstep_intros]: "lockstep (run_turn w p)"
proof (rule lockstepI)
  fix cl r cl' assume run: "run_turn w p cl = (r, cl')"
  have go: "lockstep (chain (drive w) (\<lambda>_. ret True))" by (intro lockstep_intros)
  have command: "lockstep (chain (run_command w c) (\<lambda>_. ret True))" for c
  proof -
    have "run_command w c = (\<lambda>cl. drive w (snd (on_engine (command w c) cl)))"
      by (auto simp: run_command_def fun_eq_iff split: prod.splits)
    moreover have "lockstep (\<lambda>cl. drive w (snd (on_engine (command w c) cl)))"
      using lockstep_drive [of w] by (fastforce simp: lockstep_def on_engine_def split: prod.splits)
    ultimately show ?thesis by (intro lockstep_intros) simp
  qed
  show "sent cl' + remaining cl' \<le> sent cl + remaining cl + (if isl r then 1 else 0)"
  proof (cases p)
    case (PickLine line)
    with run command [THEN lockstepD(1)] command [THEN lockstepD(2)] show ?thesis
      by (cases line; cases r) (auto simp: run_turn_def split: sum.splits option.splits)
  next
    case PickWire
    with run go show ?thesis
      by (fastforce simp: run_turn_def lockstep_def Let_def split: list.splits incoming.splits if_splits)
  next
    case PickTimer
    with run go show ?thesis by (simp add: run_turn_def lockstep_def)
  qed (use run in \<open>auto simp: run_turn_def\<close>)
qed

lemma lockstep_run_engine: "lockstep (run_engine w ps)"
proof -
  have "lockstep (run_picks w ps)" by (induction ps) (auto intro!: lockstep_intros)
  then show ?thesis unfolding run_engine_def by (intro lockstep_intros)
qed

end
