(* ===== verification/Client_Contract.thy ===== *)
theory Client_Contract
  imports Client_Loops Client_Transactions
begin

text \<open>
  What the session loop needs of the engine to keep a property of it: a contract with one law per
  engine operation the exchange calls. Every relation on engines with these laws holds between
  the beginning and the end of a whole session, whatever the relay sends.
\<close>

section \<open>Well-formed scripts\<close>

text \<open>What the reader task hands over was decoded, so it is well formed.\<close>

definition script_ok :: "incoming list \<Rightarrow> bool" where
  "script_ok script \<longleftrightarrow> (\<forall>message. Arrived message \<in> set script \<longrightarrow> wf_relay_message message)"

lemma script_ok_tl: "script_ok script \<Longrightarrow> script_ok (tl script)"
  by (cases script) (auto simp: script_ok_def)

lemma await_ok:
  assumes "script_ok script" "await m script = (r, rest)"
  shows "script_ok rest \<and> (\<forall>response. r = Inr response \<longrightarrow> wf_response response)"
  using assms
  by (induction m script rule: await.induct)
    (auto simp: script_ok_def wf_relay_message_def split: RelayMessage.splits if_splits)

lemma wire_request_ok:
  assumes "script_ok (wr_incoming (cl_wire cl))" "wire_request w m request cl = (r, cl')"
  shows "script_ok (wr_incoming (cl_wire cl')) \<and> cl_engine cl' = cl_engine cl
    \<and> (\<forall>response. r = Inr response \<longrightarrow> wf_response response)"
  using assms
  by (auto simp: wire_request_def Let_def dest!: await_ok [rotated] split: sum.splits option.splits prod.splits)

lemma read_loop_ok:
  assumes "script_ok (wr_incoming (cl_wire cl))" "read_loop w m request cl = (r, cl')"
  shows "script_ok (wr_incoming (cl_wire cl')) \<and> cl_engine cl' = cl_engine cl
    \<and> (\<forall>response. r = Inr response \<longrightarrow> wf_response response)"
proof -
  let ?Q = "\<lambda>cl. script_ok (wr_incoming (cl_wire cl))"
  have "?Q cl' \<and> cl_engine cl' = cl_engine cl"
    by (rule reading.loop_closed [where Q = ?Q and R = "\<lambda>_ cl cl'. cl_engine cl' = cl_engine cl", OF _ _ assms])
      (auto dest: wire_request_ok)
  moreover have "wf_response response" if "r = Inr response" for response
    using reading.last_turn [where Q = ?Q, OF _ assms(1) assms(2) [unfolded that]] wire_request_ok by blast
  ultimately show ?thesis by blast
qed

section \<open>The contract\<close>

definition engine_keeps :: "('g Engine \<Rightarrow> bool) \<Rightarrow> ('g Engine \<Rightarrow> 'g Engine \<Rightarrow> bool) \<Rightarrow> ('g, 'a) engine_op \<Rightarrow> bool" where
  "engine_keeps Q R m \<longleftrightarrow> (\<forall>e r e'. Q e \<longrightarrow> m e = (r, e') \<longrightarrow> Q e' \<and> R e e')"

definition client_keeps :: "('g Engine \<Rightarrow> bool) \<Rightarrow> ('g Engine \<Rightarrow> 'g Engine \<Rightarrow> bool) \<Rightarrow> ('g, 'a) client_op \<Rightarrow> bool" where
  "client_keeps Q R m \<longleftrightarrow> (\<forall>cl r cl'. Q (cl_engine cl) \<longrightarrow> script_ok (wr_incoming (cl_wire cl)) \<longrightarrow> m cl = (r, cl') \<longrightarrow>
     Q (cl_engine cl') \<and> script_ok (wr_incoming (cl_wire cl')) \<and> R (cl_engine cl) (cl_engine cl'))"

lemma client_keepsI:
  "(\<And>cl r cl'. Q (cl_engine cl) \<Longrightarrow> script_ok (wr_incoming (cl_wire cl)) \<Longrightarrow> m cl = (r, cl') \<Longrightarrow>
     Q (cl_engine cl') \<and> script_ok (wr_incoming (cl_wire cl')) \<and> R (cl_engine cl) (cl_engine cl')) \<Longrightarrow> client_keeps Q R m"
  unfolding client_keeps_def by blast

lemma client_keepsD:
  "client_keeps Q R m \<Longrightarrow> Q (cl_engine cl) \<Longrightarrow> script_ok (wr_incoming (cl_wire cl)) \<Longrightarrow> m cl = (r, cl') \<Longrightarrow>
     Q (cl_engine cl') \<and> script_ok (wr_incoming (cl_wire cl')) \<and> R (cl_engine cl) (cl_engine cl')"
  unfolding client_keeps_def by blast

locale engine_contract =
  fixes w :: "('g, 'm) client_world"
    and Q :: "'g Engine \<Rightarrow> bool"
    and R :: "'g Engine \<Rightarrow> 'g Engine \<Rightarrow> bool"
  assumes same: "R e e"
    and compose: "R e e1 \<Longrightarrow> R e1 e' \<Longrightarrow> R e e'"
    and law_new_message_id: "engine_keeps Q R (new_message_id w)"
    and law_cursor: "engine_keeps Q R (cursor w room)"
    and law_unresolved: "engine_keeps Q R (unresolved w room)"
    and law_has_group: "engine_keeps Q R (has_group (cw_lib w) (cw_env w) room)"
    and law_welcome_cursor: "engine_keeps Q R (select w (\<lambda>db. Inr (cd_welcome_cursor db)))"
    and law_upsert_room: "engine_keeps Q R (in_store (upsert_room (cw_env w) room name origin))"
    and law_outbox_page: "engine_keeps Q R (in_store (outbox_page (cw_env w) n))"
    and law_store_welcome_page: "engine_keeps Q R (store_welcome_page w c wds)"
    and law_process_welcomes: "engine_keeps Q R (process_welcomes w)"
    and law_process_page: "list_all wf_event events \<Longrightarrow> engine_keeps Q R (process_page w room c events)"
    and law_complete: "wf_response response \<Longrightarrow> engine_keeps Q R (complete w m request response)"
    and law_build_attempts: "engine_keeps Q R (build_attempts w)"
    and law_command: "engine_keeps Q R (command w user_command)"
begin

abbreviation kept :: "('g, 'a) client_op \<Rightarrow> bool" where
  "kept m \<equiv> client_keeps Q R m"

lemma kept_basic: "kept (ret v)" "kept (fail x)" "kept (from_result q)"
  by (simp_all add: client_keeps_def ret_def fail_def from_result_def same)

lemma kept_engine: "engine_keeps Q R m \<Longrightarrow> kept (on_engine m)"
  by (rule client_keepsI) (auto simp: engine_keeps_def on_engine_def split: prod.splits)

text \<open>The second operation may rely on what the first one returns.\<close>

lemma kept_then:
  assumes m: "kept m"
    and f: "\<And>v cl cl1. script_ok (wr_incoming (cl_wire cl)) \<Longrightarrow> m cl = (Inr v, cl1) \<Longrightarrow> kept (f v)"
  shows "kept (chain m f)"
proof (rule client_keepsI)
  fix cl r cl' assume Q: "Q (cl_engine cl)" "script_ok (wr_incoming (cl_wire cl))" and "chain m f cl = (r, cl')"
  from this(3) show "Q (cl_engine cl') \<and> script_ok (wr_incoming (cl_wire cl')) \<and> R (cl_engine cl) (cl_engine cl')"
  proof (cases rule: chain_cases)
    case (1 x)
    with client_keepsD [OF m Q 1(1)] show ?thesis by simp
  next
    case (2 v cl1)
    note one = client_keepsD [OF m Q 2(1)]
    with client_keepsD [OF f [OF Q(2) 2(1)] _ _ 2(2)] show ?thesis by (blast intro: compose)
  qed
qed

lemma kept_chain: "kept m \<Longrightarrow> (\<And>v. kept (f v)) \<Longrightarrow> kept (chain m f)"
  by (rule kept_then)

lemma kept_if: "kept m \<Longrightarrow> kept n \<Longrightarrow> kept (if c then m else n)"
  by simp

lemma kept_for_each: "(\<And>x. kept (f x)) \<Longrightarrow> kept (for_each f xs)"
  by (induction xs) (simp_all add: kept_basic kept_chain)

lemma kept_request:
  assumes "\<And>response. wf_response response \<Longrightarrow> kept (f response)"
  shows "kept (chain (wire_request w m request) f)"
  by (rule kept_then) (auto simp: same dest: wire_request_ok intro!: client_keepsI assms)

lemma kept_read:
  assumes "\<And>response. wf_response response \<Longrightarrow> kept (f response)"
  shows "kept (chain (wire_read w request) f)"
proof -
  have loop: "kept (read_loop w m request)" for m
    by (rule client_keepsI) (auto simp: same dest: read_loop_ok)
  have "kept (chain (read_loop w m request) f)" for m
    by (rule kept_then [OF loop]) (auto dest: read_loop_ok intro: assms)
  then show ?thesis
    unfolding wire_read_def chain_assoc by (rule kept_chain [OF kept_engine [OF law_new_message_id]])
qed

end

text \<open>A loop of kept turns is kept.\<close>

context wire_loop
begin

lemma client_keeps_loop:
  assumes turn: "\<And>s. client_keeps Q R (turn s)" and trans: "\<And>e e1 e'. R e e1 \<Longrightarrow> R e1 e' \<Longrightarrow> R e e'"
  shows "client_keeps Q R (loop s)"
proof (rule client_keepsI)
  fix cl r cl' assume Q: "Q (cl_engine cl)" "script_ok (wr_incoming (cl_wire cl))" and run: "loop s cl = (r, cl')"
  let ?Q = "\<lambda>cl. Q (cl_engine cl) \<and> script_ok (wr_incoming (cl_wire cl))"
  have "?Q cl' \<and> R (cl_engine cl) (cl_engine cl')"
    by (rule loop_closed [where Q = ?Q and R = "\<lambda>_ cl cl'. R (cl_engine cl) (cl_engine cl')", OF _ _ _ run])
      (use client_keepsD [OF turn] trans Q in blast)+
  then show "Q (cl_engine cl') \<and> script_ok (wr_incoming (cl_wire cl')) \<and> R (cl_engine cl) (cl_engine cl')" by blast
qed

end

section \<open>The session\<close>

context engine_contract
begin

lemma kept_welcome_loop: "kept (welcome_loop w)"
proof (rule welcoming.client_keeps_loop [OF _ compose])
  show "kept (welcome_page_turn w)"
    unfolding welcome_page_turn_def
    by (intro kept_chain [OF kept_engine [OF law_welcome_cursor]] kept_read)
      (auto split: Response.split intro!: kept_basic kept_chain kept_engine law_store_welcome_page)
qed

lemma kept_catch_up: "kept (catch_up w head)"
proof (rule catching.client_keeps_loop [OF _ compose])
  show "kept (catch_up_turn w head)"
    unfolding catch_up_turn_def
    by (intro kept_chain kept_if kept_read kept_basic kept_engine law_cursor)
      (auto simp: events_response_def wf_response_def split: Response.splits intro!: kept_basic kept_engine law_process_page)
qed

lemma kept_sync_heads: "kept (sync_heads w after_room heads)"
proof -
  have "kept (sync_head w after_room head)" for after_room head
    unfolding sync_head_def
    by (intro kept_if kept_chain kept_basic kept_catch_up kept_engine law_cursor law_upsert_room law_unresolved law_has_group)
  then show ?thesis by (induction heads arbitrary: after_room) (auto intro!: kept_basic kept_chain)
qed

lemma kept_index_loop: "kept (index_loop w after_room)"
proof (rule indexing.client_keeps_loop [OF _ compose])
  show "kept (index_turn w after_room)" for after_room
    unfolding index_turn_def
    by (rule kept_read) (auto split: Response.split intro!: kept_basic kept_chain kept_sync_heads)
qed

lemma kept_sweep: "kept (sweep w after)"
proof (rule sweeping.client_keeps_loop [OF _ compose])
  have entry: "kept (send_entry w entry)" for entry
    unfolding send_entry_def
    by (auto split: ClientMessage.split intro!: kept_chain [OF kept_basic(3)] kept_basic kept_request kept_engine law_complete)
  show "kept (sweep_turn w after)" for after
    unfolding sweep_turn_def
    by (intro kept_chain kept_if kept_basic kept_for_each entry kept_engine law_outbox_page)
qed

lemma kept_drive: "kept (drive w)"
proof -
  have "kept (drive_rounds n w)" for n
    by (induction n) (auto simp: synchronize_def intro!: kept_basic kept_chain kept_sweep kept_welcome_loop kept_index_loop
      kept_engine law_process_welcomes law_build_attempts)
  then show ?thesis by (simp add: drive_def)
qed

lemma kept_run_command: "kept (run_command w c)"
proof (rule client_keepsI)
  fix cl r cl' assume Q: "Q (cl_engine cl)" "script_ok (wr_incoming (cl_wire cl))" and run: "run_command w c cl = (r, cl')"
  obtain q cl1 where first: "on_engine (command w c) cl = (q, cl1)" by (cases "on_engine (command w c) cl")
  with run have "drive w cl1 = (r, cl')" by (simp add: run_command_def)
  with client_keepsD [OF kept_engine [OF law_command] Q first] client_keepsD [OF kept_drive]
  show "Q (cl_engine cl') \<and> script_ok (wr_incoming (cl_wire cl')) \<and> R (cl_engine cl) (cl_engine cl')"
    by (blast intro: compose)
qed

lemma kept_run_turn: "kept (run_turn w p)"
proof (rule client_keepsI)
  fix cl r cl' assume Q: "Q (cl_engine cl)" "script_ok (wr_incoming (cl_wire cl))" and run: "run_turn w p cl = (r, cl')"
  let ?popped = "cl\<lparr>cl_wire := (cl_wire cl)\<lparr>wr_incoming := tl (wr_incoming (cl_wire cl))\<rparr>\<rparr>"
  have driven: "kept (chain m (\<lambda>_. ret True))" if "m = drive w \<or> (\<exists>c. m = run_command w c)" for m
    using that kept_drive kept_run_command by (auto intro!: kept_chain kept_basic)
  from run consider (stay) "cl' = cl \<or> cl' = ?popped"
    | (step) m cl1 where "chain m (\<lambda>_. ret True) cl1 = (r, cl')" "cl1 = cl \<or> cl1 = ?popped"
        "m = drive w \<or> (\<exists>c. m = run_command w c)"
    unfolding run_turn_def Let_def
    by (auto split: pick.splits sum.splits option.splits list.splits incoming.splits if_splits)
  then show "Q (cl_engine cl') \<and> script_ok (wr_incoming (cl_wire cl')) \<and> R (cl_engine cl) (cl_engine cl')"
  proof cases
    case stay
    with Q show ?thesis by (auto simp: same script_ok_tl)
  next
    case (step m cl1)
    with Q have "Q (cl_engine cl1)" "script_ok (wr_incoming (cl_wire cl1))" "cl_engine cl1 = cl_engine cl"
      by (auto simp: script_ok_tl)
    with client_keepsD [OF driven [OF step(3)] _ _ step(1)] show ?thesis by simp
  qed
qed

lemma kept_run_engine: "kept (run_engine w picks)"
proof -
  have "kept (run_picks w picks)" by (induction picks) (auto intro!: kept_basic kept_chain kept_run_turn)
  then show ?thesis unfolding run_engine_def by (intro kept_chain kept_drive)
qed

end

end
