(* ===== verification/Client_Recovery.thy ===== *)
theory Client_Recovery
  imports Client_Safety Client_Contract
begin

text \<open>
  The history of the client over a whole session, as an instance of the contract between engine and
  exchange, and what catching up with a room reaches: the head the relay announced, or an event that
  is blocked.
\<close>

section \<open>The session keeps the history in order\<close>

definition ready :: "postcard \<Rightarrow> 'g Client \<Rightarrow> bool" where
  "ready pc cl \<longleftrightarrow> good pc (en_store (cl_engine cl)) \<and> script_ok (wr_incoming (cl_wire cl))"

abbreviation tables :: "'g Client \<Rightarrow> ClientDb" where
  "tables cl \<equiv> durable_db (en_store (cl_engine cl))"

text \<open>The libraries behave as documented, and the database is in order.\<close>

abbreviation sound :: "('g, 'm) client_world \<Rightarrow> 'g Engine \<Rightarrow> bool" where
  "sound w e \<equiv> documented w \<and> postcard_wire (cw_pc w) \<and> good (cw_pc w) (en_store e)"

abbreviation history_grows :: "'g Engine \<Rightarrow> 'g Engine \<Rightarrow> bool" where
  "history_grows e e' \<equiv> app_grows (durable_db (en_store e)) (durable_db (en_store e'))"

lemma steady_law:
  "(documented w \<Longrightarrow> postcard_wire (cw_pc w) \<Longrightarrow> steady (cw_pc w) m) \<Longrightarrow> engine_keeps (sound w) history_grows m"
  unfolding engine_keeps_def by (blast dest: steadyD)

lemma calm_law: "(documented w \<Longrightarrow> calm m) \<Longrightarrow> engine_keeps (sound w) history_grows m"
  by (rule steady_law) (rule calm_steady)

lemma steady_store_welcome_page: "steady pc (store_welcome_page w c wds)"
proof -
  have "calm (chain (store_welcomes w c wds) (\<lambda>final. execute_sql w (\<lambda>db. db\<lparr>cd_welcome_cursor := final\<rparr>)))"
    by (intro keep_intros) simp
  then show ?thesis
    unfolding store_welcome_page_def
    by (intro steady_chain with_transaction_steady calm_commits_well calm_steady [OF keeps_in_store [OF keeps_admit]])
qed

lemma apply_page_steady:
  assumes "documented w" "good pc (en_store e)" "\<forall>event \<in> set events. recorded pc (durable_db (en_store e)) event"
    and "apply_page w events e = (r, e')"
  shows "good pc (en_store e') \<and> history_grows e e'"
  using assms
proof (induction events arbitrary: e)
  case (Cons event events)
  from Cons.prems(4) have "chain (apply_event w event) (\<lambda>done. if done then apply_page w events else ret False) e = (r, e')" by simp
  then show ?case
  proof (cases rule: chain_cases)
    case (1 x)
    with apply_event_outcome [OF Cons.prems(1,2) _ 1(1)] Cons.prems(3) show ?thesis by (simp add: applied_outcome_def)
  next
    case (2 b e1)
    from apply_event_outcome [OF Cons.prems(1,2) _ 2(1)] Cons.prems(3)
    have one: "good pc (en_store e1)" "history_grows e e1" by (simp_all add: applied_outcome_def)
    have "\<forall>event \<in> set events. recorded pc (durable_db (en_store e1)) event"
      using Cons.prems(3) one(2) by (auto simp: app_grows_def intro: recorded_grows)
    with Cons.IH [OF Cons.prems(1) one(1)] one 2(2) show ?thesis
      by (cases b) (auto simp: ret_def intro: app_grows_trans)
  qed
qed (simp add: ret_def)

lemma steady_process_page:
  assumes doc: "documented w" and wire: "postcard_wire (cw_pc w)" and wf: "list_all wf_event events"
  shows "steady (cw_pc w) (process_page w room c events)"
proof (rule steadyI)
  fix e r e' assume good: "good (cw_pc w) (en_store e)" and "process_page w room c events e = (r, e')"
  from this(2) show "good (cw_pc w) (en_store e') \<and> history_grows e e'"
    unfolding process_page_def
  proof (cases rule: chain_cases)
    case (1 x)
    with receive_page_outcome [OF wire wf good 1(1)] show ?thesis by simp
  next
    case (2 v e1)
    from receive_page_outcome [OF wire wf good 2(1)]
    have one: "good (cw_pc w) (en_store e1)" "history_grows e e1"
      "\<forall>event \<in> set events. recorded (cw_pc w) (durable_db (en_store e1)) event" by simp_all
    with apply_page_steady [OF doc one(1,3) 2(2)] show ?thesis by (blast intro: app_grows_trans)
  qed
qed

interpretation history: engine_contract w "sound w" history_grows for w
proof unfold_locales
  show "history_grows e e" for e :: "'a Engine" by simp
  show "history_grows e e1 \<Longrightarrow> history_grows e1 e' \<Longrightarrow> history_grows e e'" for e e1 e' :: "'a Engine" by (rule app_grows_trans)
  show "engine_keeps (sound w) history_grows (new_message_id w)" "engine_keeps (sound w) history_grows (cursor w room)"
    "engine_keeps (sound w) history_grows (unresolved w room)"
    "engine_keeps (sound w) history_grows (select w (\<lambda>db. Inr (cd_welcome_cursor db)))"
    "engine_keeps (sound w) history_grows (in_store (upsert_room (cw_env w) room name origin))"
    "engine_keeps (sound w) history_grows (in_store (outbox_page (cw_env w) n))"
    "engine_keeps (sound w) history_grows (has_group (cw_lib w) (cw_env w) room)" for room name origin n
    by (rule calm_law, intro keep_intros; assumption?)+
qed (rule steady_law; blast intro: steady_store_welcome_page steady_process_welcomes
  steady_process_page steady_complete steady_build_attempts steady_command)+

lemma session_keeps_history:
  assumes "documented w" "postcard_wire (cw_pc w)" "ready (cw_pc w) cl" "run_engine w picks cl = (r, cl')"
  shows "ready (cw_pc w) cl' \<and> app_grows (tables cl) (tables cl')"
  using client_keepsD [OF history.kept_run_engine _ _ assms(4)] assms(1-3) by (auto simp: ready_def)

text \<open>Reading from the relay changes no table and yields well-formed responses.\<close>

lemma wire_read_ok:
  assumes ready: "ready pc cl" and run: "wire_read w request cl = (r, cl')"
  shows "ready pc cl' \<and> tables cl' = tables cl \<and> (\<forall>response. r = Inr response \<longrightarrow> wf_response response)"
proof -
  have new: "ready pc cl1 \<and> tables cl1 = tables cl" if "on_engine (new_message_id w) cl = (q, cl1)" for q cl1
    using that ready
    by (auto simp: on_engine_def new_message_id_def ready_def good_def durable_db_def idle_def at_rest_def split: option.splits)
  from run show ?thesis unfolding wire_read_def
  proof (cases rule: chain_cases)
    case (1 x)
    with new [OF 1(1)] show ?thesis by simp
  next
    case (2 m cl1)
    from new [OF 2(1)] read_loop_ok [OF _ 2(2)] show ?thesis by (auto simp: ready_def)
  qed
qed

section \<open>Catching up with a room\<close>

text \<open>The next event of a room is recorded and blocked.\<close>

definition stuck :: "ClientDb \<Rightarrow> RoomId \<Rightarrow> bool" where
  "stuck db room \<longleftrightarrow> (\<exists>row \<in> set (cd_delivery_inbox db).
     ib_room row = room \<and> ib_sequence row = cursor_of db room + 1 \<and> ib_state row = ''blocked'')"

lemma stuckI:
  assumes ok: "inbox_ok pc db" and rec: "recorded pc db event" and blk: "blocked_in db event"
    and cur: "cursor_of db room = ap_parent (ev_operation event)" and room: "ap_room (ev_operation event) = room"
  shows "stuck db room"
proof -
  from rec obtain row where row: "row \<in> set (cd_delivery_inbox db)" "row_of pc event row" by (auto simp: recorded_def)
  from blk obtain row' where row': "row' \<in> set (cd_delivery_inbox db)" "ib_event_id row' = ev_id event"
    "ib_state row' = ''blocked''" by blast
  have "inj_on ib_event_id (set (cd_delivery_inbox db))" using ok by (simp add: inbox_ok_def distinct_map)
  then have "row' = row" by (rule inj_onD) (use row row' in \<open>simp_all add: row_of_def\<close>)
  moreover have "ib_sequence row = ap_parent (ev_operation event) + 1"
    using event_sequence_next(1) row(2) by (simp add: row_of_def)
  ultimately show ?thesis using row row' cur room unfolding stuck_def row_of_def by auto
qed

lemma numbered_room: "numbered room n events \<Longrightarrow> event \<in> set events \<Longrightarrow> ap_room (ev_operation event) = room"
  by (induction events arbitrary: n) auto

lemma process_page_stuck:
  assumes doc: "documented w" and wire: "postcard_wire (cw_pc w)" and wf: "list_all wf_event events"
    and good: "good (cw_pc w) (en_store e)" and cur: "cursor_of (durable_db (en_store e)) room = n"
    and run: "process_page w room n events e = (Inr False, e')"
  shows "stuck (durable_db (en_store e')) room"
proof -
  note out = process_page_outcome [OF doc wire wf good cur run]
  from run obtain v e1 where page: "receive_page w room n events e = (Inr v, e1)" "apply_page w events e1 = (Inr False, e')"
    unfolding process_page_def by (auto elim: chainE)
  from receive_page_outcome [OF wire wf good page(1)]
  have one: "good (cw_pc w) (en_store e1)" "numbered room n events"
    "\<forall>event \<in> set events. recorded (cw_pc w) (durable_db (en_store e1)) event" by simp_all
  have cur1: "cursor_of (durable_db (en_store e1)) room = n"
    using keeps_cursorsD [OF receive_page_keeps_cursors page(1)] cur by simp
  from apply_page_outcome [OF doc one(1,3) cur1 one(2) page(2)]
  obtain event where ev: "event \<in> set events" "cursor_of (durable_db (en_store e')) room = ap_parent (ev_operation event)"
    "blocked_in (durable_db (en_store e')) event" and grow: "app_grows (durable_db (en_store e1)) (durable_db (en_store e'))"
    by (auto simp: page_outcome_def)
  have "recorded (cw_pc w) (durable_db (en_store e')) event"
    using recorded_grows grow one(3) ev(1) by (auto simp: app_grows_def)
  then show ?thesis
    using stuckI [of "cw_pc w"] ev numbered_room [OF one(2) ev(1)] out by (simp add: page_outcome_def good_def)
qed

lemma read_cursor:
  assumes "ready pc cl" "on_engine (cursor w room) cl = (r, cl')"
  shows "ready pc cl' \<and> tables cl' = tables cl \<and> (\<forall>n. r = Inr n \<longrightarrow> n = cursor_of (tables cl) room)"
  using assms select_durable [of pc "cl_engine cl" w "\<lambda>db. Inr (cursor_of db room)"]
  by (fastforce simp: on_engine_def ready_def cursor_def split: prod.splits)

definition turn_outcome :: "postcard \<Rightarrow> RoomHead \<Rightarrow> 'g Client \<Rightarrow> client_error + bool \<Rightarrow> 'g Client \<Rightarrow> bool" where
  "turn_outcome pc head cl r cl' \<longleftrightarrow>
     ready pc cl' \<and> app_grows (tables cl) (tables cl')
     \<and> (r = Inr False \<longrightarrow> rh_sequence head \<le> cursor_of (tables cl') (rh_room head) \<or> stuck (tables cl') (rh_room head))"

lemma events_turn:
  assumes doc: "documented w" and wire: "postcard_wire (cw_pc w)"
    and ready: "ready (cw_pc w) cl" and c: "c = cursor_of (tables cl) (rh_room head)" and wf: "wf_response response"
    and run: "events_response w head c response cl = (r, cl')"
  shows "turn_outcome (cw_pc w) head cl r cl'"
proof (cases "\<exists>events mre. response = RoomEvents (rh_room head) c events mre \<and> events \<noteq> []")
  case True
  then obtain events mre where resp: "response = RoomEvents (rh_room head) c events mre" "events \<noteq> []" by blast
  with wf have wfe: "list_all wf_event events" by (simp add: wf_response_def)
  from run resp obtain e where page: "process_page w (rh_room head) c events (cl_engine cl) = (r, e)" "cl' = cl\<lparr>cl_engine := e\<rparr>"
    by (auto simp: events_response_def on_engine_def split: prod.splits)
  have good: "good (cw_pc w) (en_store (cl_engine cl))" using ready by (simp add: ready_def)
  from process_page_outcome [OF doc wire wfe good c [symmetric] page(1)]
    process_page_stuck [OF doc wire wfe good c [symmetric], of e] page ready
  show ?thesis by (auto simp: turn_outcome_def page_outcome_def ready_def)
next
  case False
  with run have "cl' = cl" "r \<noteq> Inr False" by (auto simp: events_response_def fail_def split: Response.splits if_splits)
  with ready show ?thesis by (simp add: turn_outcome_def)
qed

lemma catch_up_turn_outcome:
  assumes doc: "documented w" and wire: "postcard_wire (cw_pc w)"
    and ready: "ready (cw_pc w) cl" and run: "catch_up_turn w head cl = (r, cl')"
  shows "turn_outcome (cw_pc w) head cl r cl'"
proof -
  have same: "turn_outcome (cw_pc w) head cl r cl'" if "ready (cw_pc w) cl'" "tables cl' = tables cl" "r \<noteq> Inr False" for cl'
    using that by (simp add: turn_outcome_def)
  from run show ?thesis unfolding catch_up_turn_def
  proof (cases rule: chain_cases)
    case (1 x)
    with read_cursor [OF ready 1(1)] show ?thesis by (intro same) auto
  next
    case (2 n cl1)
    note one = read_cursor [OF ready 2(1)]
    show ?thesis
    proof (cases "n < rh_sequence head")
      case False
      with 2(2) one show ?thesis by (auto simp: ret_def turn_outcome_def)
    next
      case True
      with 2(2) have "chain (on_engine (cursor w (rh_room head))) (\<lambda>c.
        chain (wire_read w (FetchRoomEvents (rh_room head) c)) (events_response w head c)) cl1 = (r, cl')" by simp
      then show ?thesis
      proof (cases rule: chain_cases)
        case (1 x)
        with read_cursor [OF conjunct1 [OF one] 1(1)] one show ?thesis by (intro same) auto
      next
        case (2 c cl2)
        note two = read_cursor [OF conjunct1 [OF one] 2(1)]
        from 2(2) show ?thesis
        proof (cases rule: chain_cases)
          case (1 x)
          with wire_read_ok [OF conjunct1 [OF two] 1(1)] one two show ?thesis by (intro same) auto
        next
          case (2 response cl3)
          note three = wire_read_ok [OF conjunct1 [OF two] 2(1)]
          then have "c = cursor_of (tables cl3) (rh_room head)" using one two by simp
          from events_turn [OF doc wire _ this _ 2(2)] three one two show ?thesis by (auto simp: turn_outcome_def)
        qed
      qed
    qed
  qed
qed

lemma catch_up_outcome:
  assumes "documented w" "postcard_wire (cw_pc w)" "ready (cw_pc w) cl" "catch_up w head cl = (r, cl')"
  shows "ready (cw_pc w) cl' \<and> app_grows (tables cl) (tables cl')
    \<and> (r = Inr () \<longrightarrow> rh_sequence head \<le> cursor_of (tables cl') (rh_room head) \<or> stuck (tables cl') (rh_room head))"
proof -
  have turn: "ready (cw_pc w) cl1 \<Longrightarrow> catch_up_turn w head cl1 = (q, cl2) \<Longrightarrow> turn_outcome (cw_pc w) head cl1 q cl2" for cl1 q cl2
    by (rule catch_up_turn_outcome [OF assms(1,2)])
  have "ready (cw_pc w) cl' \<and> app_grows (tables cl) (tables cl')"
    using client_keepsD [OF history.kept_catch_up _ _ assms(4)] assms(1-3) by (auto simp: ready_def)
  moreover have "rh_sequence head \<le> cursor_of (tables cl') (rh_room head) \<or> stuck (tables cl') (rh_room head)" if "r = Inr ()"
    using catching.last_turn [where Q = "ready (cw_pc w)", OF _ assms(3) assms(4) [unfolded that]] turn
    by (fastforce simp: turn_outcome_def split: if_splits)
  ultimately show ?thesis by blast
qed

end
