(* ===== verification/Client_Pins.thy ===== *)
theory Client_Pins
  imports Client_Contract
begin

text \<open>
  Verified contacts stay verified and the client stays itself: no operation of the client, and so no
  message of the relay, changes or drops a contact that was pinned, the transport identity or the MLS keys. The
  proof follows the structure of the engine once more, for the view of these tables alone.
\<close>

section \<open>Operations that only add pins\<close>

definition pin_view :: "ClientDb \<Rightarrow> (UserId \<times> bytes \<times> bytes) list \<times> (UserId \<times> bytes) option \<times> (bytes \<times> bytes) option" where
  "pin_view db = (cd_verified_contacts db, cd_transport_identity db, cd_mls_identity db)"

definition pins_kept :: "ClientDb \<Rightarrow> ClientDb \<Rightarrow> bool" where
  "pins_kept db db' \<longleftrightarrow>
     map_of (cd_verified_contacts db) \<subseteq>\<^sub>m map_of (cd_verified_contacts db')
     \<and> (\<forall>v. cd_transport_identity db = Some v \<longrightarrow> cd_transport_identity db' = Some v)
     \<and> (\<forall>v. cd_mls_identity db = Some v \<longrightarrow> cd_mls_identity db' = Some v)"

lemma pins_kept_refl [simp]: "pins_kept db db"
  by (simp add: pins_kept_def)

lemma pins_kept_trans: "pins_kept a b \<Longrightarrow> pins_kept b c \<Longrightarrow> pins_kept a c"
  by (auto simp: pins_kept_def intro: map_le_trans)

lemma pins_kept_same: "pin_view db' = pin_view db \<Longrightarrow> pins_kept db db'"
  by (simp add: pins_kept_def pin_view_def)

interpretation contacts: app_view cd_verified_contacts
  by unfold_locales (simp add: app_part_def)

interpretation pins: app_view pin_view
  by unfold_locales (simp add: app_part_def pin_view_def)

definition pinning :: "('g, 'a) engine_op \<Rightarrow> bool" where
  "pinning m \<longleftrightarrow> (\<forall>e r e'. at_rest (en_store e) \<longrightarrow> m e = (r, e') \<longrightarrow>
     at_rest (en_store e') \<and> pins_kept (durable_db (en_store e)) (durable_db (en_store e')))"

named_theorems pinning_intros \<open>operations under which no pin is lost\<close>

lemma pinningI:
  "(\<And>e r e'. at_rest (en_store e) \<Longrightarrow> m e = (r, e') \<Longrightarrow>
     at_rest (en_store e') \<and> pins_kept (durable_db (en_store e)) (durable_db (en_store e'))) \<Longrightarrow> pinning m"
  by (simp add: pinning_def)

lemma pinningD:
  "pinning m \<Longrightarrow> at_rest (en_store e) \<Longrightarrow> m e = (r, e') \<Longrightarrow>
     at_rest (en_store e') \<and> pins_kept (durable_db (en_store e)) (durable_db (en_store e'))"
  by (simp add: pinning_def)

lemma keeps_pinning: "keeps pin_view m \<Longrightarrow> pinning m"
  by (rule pinningI) (auto dest: keeps_durable intro: pins_kept_same)

lemma pinning_transaction [pinning_intros]:
  assumes "keeps pin_view body"
  shows "pinning (with_transaction env body)" "pinning (atomic env body)"
proof -
  show "pinning (with_transaction env body)"
    by (rule pinningI) (use transaction_keeps [OF assms] in \<open>blast intro: pins_kept_same\<close>)
  show "pinning (atomic env body)"
    by (rule pinningI, erule atomic_as_transaction)
      (use transaction_keeps [OF assms] in \<open>metis pins_kept_same\<close>)
qed

lemma pinning_chain [pinning_intros]:
  assumes "pinning m" "\<And>v. pinning (f v)"
  shows "pinning (chain m f)"
proof (rule pinningI)
  fix e r e' assume rest: "at_rest (en_store e)" and "chain m f e = (r, e')"
  from this(2) show "at_rest (en_store e') \<and> pins_kept (durable_db (en_store e)) (durable_db (en_store e'))"
  proof (cases rule: chain_cases)
    case (1 x)
    with pinningD [OF assms(1) rest] show ?thesis by blast
  next
    case (2 v e1)
    note one = pinningD [OF assms(1) rest 2(1)]
    with pinningD [OF assms(2) _ 2(2)] show ?thesis by (blast intro: pins_kept_trans)
  qed
qed

lemma pinning_cases [pinning_intros]:
  "pinning a \<Longrightarrow> pinning b \<Longrightarrow> pinning (if c then a else b)"
  "pinning a \<Longrightarrow> (\<And>x. pinning (f x)) \<Longrightarrow> pinning (case v of None \<Rightarrow> a | Some x \<Rightarrow> f x)"
  "(\<And>x y. pinning (g x y)) \<Longrightarrow> pinning (case p of (x, y) \<Rightarrow> g x y)"
  by (cases v; cases p; simp)+

lemma pinning_basic [pinning_intros]: "pinning (ret u)" "pinning (fail x)" "pinning (from_result q)"
  by (intro keeps_pinning keep_intros)+

lemma pinning_match [pinning_intros]:
  assumes "pinning m" "\<And>x. pinning (h x)" "\<And>v. pinning (f v)"
  shows "pinning (match_result m h f)"
proof (rule pinningI)
  fix e r e' assume rest: "at_rest (en_store e)" and run: "match_result m h f e = (r, e')"
  obtain q e1 where m: "m e = (q, e1)" by (cases "m e")
  note one = pinningD [OF assms(1) rest m]
  from run m have "(\<exists>x. h x e1 = (r, e')) \<or> (\<exists>v. f v e1 = (r, e'))"
    by (cases q) (auto simp: match_result_def)
  with one assms(2,3) [THEN pinningD] show "at_rest (en_store e') \<and> pins_kept (durable_db (en_store e)) (durable_db (en_store e'))"
    by (blast intro: pins_kept_trans)
qed

section \<open>The engine\<close>

lemma pin_updates [simp]:
  "pin_view (db\<lparr>cd_rooms := rooms\<rparr>) = pin_view db" "pin_view (db\<lparr>cd_welcome_cursor := c\<rparr>) = pin_view db"
  "pin_view (delete_outbox m db) = pin_view db"
  "pin_view (add_outbox m knd bs db) = pin_view db"
  "pin_view (put_history row db) = pin_view db"
  "pin_view (add_intent m room target plaintext db) = pin_view db"
  "pin_view (delete_intents m db) = pin_view db"
  "pin_view (set_history_sequence m n db) = pin_view db"
  "pin_view (set_package m u p db) = pin_view db"
  "pin_view (delete_history m db) = pin_view db"
  "pin_view (release_intents m db) = pin_view db"
  "pin_view (set_attempt i m db) = pin_view db"
  "pin_view (set_welcome_state c state db) = pin_view db"
  "pin_view (add_welcome_row c bs db) = pin_view db"
  "pin_view (set_cursor room n db) = pin_view db"
  "pin_view (set_inbox_state m state db) = pin_view db"
  "pin_view (add_inbox event n bs db) = pin_view db"
  by (simp_all add: pin_view_def delete_outbox_def add_outbox_def put_history_def add_intent_def delete_intents_def
    set_history_sequence_def set_package_def delete_history_def release_intents_def set_attempt_def
    set_welcome_state_def add_welcome_row_def set_cursor_def set_inbox_state_def add_inbox_def)

lemma pins_store [keep_intros]:
  "keeps_store pin_view (remove_outbox env m)" "keeps_store pin_view (record_plaintext env sm u bs)"
  "keeps_store pin_view (upsert_room env room name origin)" "keeps pin_view (journal w m request)"
  "keeps pin_view (settle_request w m)"
  unfolding remove_outbox_def record_plaintext_def settle_request_def
  by (auto intro!: keep_intros keeps_update keeps_stmt keeps_journal keeps_upsert_room split: if_splits option.splits)

lemma pins_finish [keep_intros]: "keeps pin_view (finish_event w event state)"
  unfolding finish_event_def by (intro keep_intros) simp_all

lemma pins_store_welcomes [keep_intros]: "keeps pin_view (store_welcomes w previous wds)"
  by (induction w previous wds rule: store_welcomes.induct) (auto intro!: keep_intros)

text \<open>The identity is written once, in a transaction.\<close>

lemma identity_rows_effect:
  assumes "identity_rows env s = (r, s')"
  shows "same_guard s s' \<and> pins_kept (st_db s) (st_db s')"
  using assms
  by (auto simp: identity_rows_def chain_def lock_def query_def update_def stmt_def ret_def fail_def Let_def same_guard_def pins_kept_def
      split: if_splits option.splits prod.splits sum.splits)

lemma pinning_identity [pinning_intros]: "pinning (in_store (identity env))"
proof (rule pinningI)
  fix e :: "'g Engine" and r e'
  assume rest: "at_rest (en_store e)" and run: "in_store (identity env) e = (r, e')"
  have body: "same_guard (en_store e1) (en_store e2) \<and> pins_kept (st_db (en_store e1)) (st_db (en_store e2))"
    if "in_store (identity_rows env) e1 = (q, e2)" for q and e1 e2 :: "'g Engine"
    using that identity_rows_effect [of env "en_store e1"] by (auto simp: in_store_def split: prod.splits)
  from transaction_outcome [OF rest run [unfolded identity_def in_store_transaction]] body
  show "at_rest (en_store e') \<and> pins_kept (durable_db (en_store e)) (durable_db (en_store e'))"
    by (fastforce simp: committed_def)
qed

text \<open>The one operation that writes a pin, and only where there is none.\<close>

lemma pin_contact_kept: "pins_kept db (pin_contact cc db)"
  by (auto simp: pins_kept_def pin_contact_def map_le_def map_add_def dom_def split: option.splits)
lemma pinning_update:
  assumes "\<And>db. pins_kept db (f db)"
  shows "pinning (execute_sql w f)"
proof (rule pinningI)
  fix e r e' assume "at_rest (en_store e)" "execute_sql w f e = (r, e')"
  with assms [of "st_db (en_store e)"]
  show "at_rest (en_store e') \<and> pins_kept (durable_db (en_store e)) (durable_db (en_store e'))"
    by (auto simp: in_store_def chain_def lock_def ret_def fail_def update_def stmt_def Let_def durable_db_def at_rest_def idle_def
      split: prod.splits if_splits option.splits)
qed

lemma pinning_import_card [pinning_intros]:
  fixes w :: "('g, 'm) client_world"
  shows "pinning (import_card w cc fingerprint)"
proof (rule pinningI)
  fix e r e' assume rest: "at_rest (en_store e)" and run: "import_card w cc fingerprint e = (r, e')"
  let ?body = "chain (locked_query (cw_env w) (\<lambda>db. Inr (map_of (cd_verified_contacts db) (card_user cc)))) (\<lambda>existing.
    case existing of
      Some (_, old) \<Rightarrow>
        if old \<noteq> card_bytes cc then fail (StoreInvalidData ''contact keys changed; pin preserved'') else ret ()
    | None \<Rightarrow> chain (admit_new_data (cw_env w) CARD_BYTES) (\<lambda>_. locked_update (cw_env w) (pin_contact cc)))"
  have split: "in_store (case existing of Some (_, old) \<Rightarrow> a old | None \<Rightarrow> b)
      = (case existing of Some (_, old) \<Rightarrow> in_store (a old) | None \<Rightarrow> in_store b)"
    for existing :: "(bytes \<times> bytes) option" and a b by (cases existing) (auto split: prod.splits)
  have eq: "(in_store ?body :: ('g, unit) engine_op) = chain (select w (\<lambda>db. Inr (map_of (cd_verified_contacts db) (card_user cc)))) (\<lambda>existing.
    case existing of
      Some (_, old) \<Rightarrow> in_store (if old \<noteq> card_bytes cc then fail (StoreInvalidData ''contact keys changed; pin preserved'') else ret ())
    | None \<Rightarrow> chain (in_store (admit_new_data (cw_env w) CARD_BYTES)) (\<lambda>_. execute_sql w (pin_contact cc)))"
    by (simp only: in_store_chain split)
  have "pinning (in_store ?body :: ('g, unit) engine_op)"
    unfolding eq by (intro pinning_intros pinning_update pin_contact_kept keeps_pinning keep_intros)
  then have body: "at_rest s' \<and> pins_kept (durable_db (en_store e)) (durable_db s')" if "?body (en_store e) = (q, s')" for q s'
    using pinningD [OF _ rest, of "in_store ?body :: ('g, unit) engine_op"] that by (fastforce simp: in_store_def)
  from run have "en_store e' = en_store e \<or> (\<exists>q. ?body (en_store e) = (q, en_store e'))"
    by (auto simp: import_card_def card_import_def split: sum.splits if_splits prod.splits option.splits)
  with body rest show "at_rest (en_store e') \<and> pins_kept (durable_db (en_store e)) (durable_db (en_store e'))" by auto
qed

lemma pinning_command [pinning_intros]:
  assumes "documented_library (cw_lib w) (cw_env w)"
  shows "pinning (command w c)"
proof -
  have own: "pinning (in_store (card_own env public_of sign))" for env public_of sign
    unfolding card_own_def in_store_chain
    by (intro pinning_intros) (auto simp: in_store_chain Let_def intro!: keeps_pinning keep_intros split: prod.splits option.splits)
  have intent: "keeps pin_view (intent w room target plaintext)" for room target plaintext
    unfolding intent_def by (intro keep_intros assms) simp_all
  have listing: "keeps pin_view (list_contacts w)"
    unfolding list_contacts_def by (intro keep_intros)
  show ?thesis
    unfolding command_def
    by (cases c; simp) (intro pinning_intros own keeps_pinning keep_intros intent listing assms)+
qed

lemma pinning_receive [pinning_intros]: "pinning (receive w event)"
  unfolding receive_def by (intro keeps_pinning keep_intros) simp_all

lemma pins_apply_body:
  assumes "documented_library (cw_lib w) (cw_env w)"
  shows "keeps pin_view (apply_body w event own)"
  unfolding apply_body_def apply_own_def apply_foreign_def by (intro keep_intros assms) simp_all

lemma pinning_apply_event [pinning_intros]:
  assumes "documented_library (cw_lib w) (cw_env w)"
  shows "pinning (apply_event w event)"
proof -
  have conclude: "pinning (conclude_event w event result)" for result
    unfolding conclude_event_def
    by (cases result; simp only: sum.case) (intro pinning_intros | intro keeps_pinning keep_intros; simp)+
  have "pinning (apply_next w event own)" for own
  proof (rule pinningI)
    fix e r e' assume rest: "at_rest (en_store e)" and "apply_next w event own e = (r, e')"
    from this(2) obtain q e1 where one: "atomic (cw_env w) (apply_body w event own) e = (q, e1)"
      and two: "conclude_event w event q e1 = (r, e')" by (auto simp: apply_next_def split: prod.splits)
    note first = pinningD [OF pinning_transaction(2) [OF pins_apply_body [OF assms]] rest one]
    with pinningD [OF conclude _ two] show "at_rest (en_store e') \<and> pins_kept (durable_db (en_store e)) (durable_db (en_store e'))"
      by (blast intro: pins_kept_trans)
  qed
  moreover have "pinning (cursor w room)" "pinning (in_store (find_outbox (cw_env w) m))" for room m
    by (intro keeps_pinning keep_intros)+
  ultimately show ?thesis unfolding apply_event_def by (intro pinning_intros)
qed

lemma pinning_complete [pinning_intros]:
  assumes doc: "documented_library (cw_lib w) (cw_env w)"
  shows "pinning (complete w m request response)"
proof -
  have created: "pinning (complete_created w m name room)" for name room
    unfolding complete_created_def by (intro pinning_intros keep_intros doc) simp
  have conflict: "pinning (complete_conflict w m operation)" for operation
    unfolding complete_conflict_def by (intro pinning_intros keep_intros doc) simp_all
  have rejected: "pinning (complete_rejected w m request)" for request
    unfolding complete_rejected_def by (intro pinning_intros keep_intros doc) simp_all
  have reserved: "pinning (complete_reserved w m recipient package)" for recipient package
    unfolding complete_reserved_def
    by (intro pinning_intros keep_intros keeps_stmt) (intro keeps_pinning keep_intros | auto)+
  note parts = created conflict rejected reserved pinning_receive pinning_basic keeps_pinning [OF pins_store(5)]
  show ?thesis
    by (cases response; cases request; simp add: complete_def Let_def parts)
qed

lemma pinning_build_attempts [pinning_intros]:
  assumes doc: "documented_library (cw_lib w) (cw_env w)"
  shows "pinning (build_attempts w)"
proof -
  have body: "keeps pin_view (attempt_body w seed row m parent)" for seed row m parent
    unfolding attempt_body_def build_request_def build_add_def build_send_def Let_def by (intro keep_intros doc) simp_all
  have "pinning (build_attempt w row)" for row
    unfolding build_attempt_def Let_def
    by (intro pinning_intros body) (intro keeps_pinning keep_intros doc)+
  then have "pinning (build_each w rows built)" for rows built
    by (induction rows arbitrary: built) (auto intro!: pinning_intros)
  then show ?thesis
    unfolding build_attempts_def by (intro pinning_intros) (intro keeps_pinning keep_intros)
qed

lemma pinning_process_welcomes [pinning_intros]:
  assumes doc: "documented_library (cw_lib w) (cw_env w)"
  shows "pinning (process_welcomes w)"
proof -
  have accept: "keeps pin_view (accept_welcome w c wd)" for c wd
    unfolding accept_welcome_def by (intro keep_intros doc) simp_all
  have verify: "keeps pin_view (verify_welcome w wd)" for wd
    unfolding verify_welcome_def by (intro keep_intros)
  have block: "keeps pin_view (block_welcome w c)" for c
    unfolding block_welcome_def by (intro keep_intros) simp
  have turn: "pinning (welcome_turn w after)" for after
    unfolding welcome_turn_def process_welcome_def
    by (intro pinning_intros accept block [THEN keeps_pinning] verify [THEN keeps_pinning]) (intro keeps_pinning keep_intros)
  show ?thesis
    unfolding process_welcomes_def
    by (rule pinningI, rule process_welcomes_closed [where Q = "\<lambda>e. at_rest (en_store e)" and
          R = "\<lambda>e e'. pins_kept (durable_db (en_store e)) (durable_db (en_store e'))"])
      (use pinningD [OF turn] in \<open>blast intro: pins_kept_trans\<close>)+
qed

section \<open>The session\<close>

lemma pinning_store_welcome_page: "pinning (store_welcome_page w c wds)"
  unfolding store_welcome_page_def
  by (intro pinning_chain pinning_transaction keep_intros keeps_pinning) simp_all

lemma pinning_process_page:
  assumes "documented_library (cw_lib w) (cw_env w)"
  shows "pinning (process_page w room c events)"
proof -
  have "pinning (receive_page w room c events)"
    by (induction w room c events rule: receive_page.induct) (auto intro!: pinning_intros)
  moreover have "pinning (apply_page w events)"
    by (induction events) (auto intro!: pinning_intros assms)
  ultimately show ?thesis unfolding process_page_def by (intro pinning_intros)
qed

abbreviation trusted :: "('g, 'm) client_world \<Rightarrow> 'g Engine \<Rightarrow> bool" where
  "trusted w e \<equiv> documented_library (cw_lib w) (cw_env w) \<and> at_rest (en_store e)"

abbreviation pins_grow :: "'g Engine \<Rightarrow> 'g Engine \<Rightarrow> bool" where
  "pins_grow e e' \<equiv> pins_kept (durable_db (en_store e)) (durable_db (en_store e'))"

lemma pinning_law:
  "(documented_library (cw_lib w) (cw_env w) \<Longrightarrow> pinning m) \<Longrightarrow> engine_keeps (trusted w) pins_grow m"
  unfolding engine_keeps_def by (blast dest: pinningD)

interpretation pinned: engine_contract w "trusted w" pins_grow for w
proof unfold_locales
  show "pins_grow e e" for e :: "'a Engine" by simp
  show "pins_grow e e1 \<Longrightarrow> pins_grow e1 e' \<Longrightarrow> pins_grow e e'" for e e1 e' :: "'a Engine" by (rule pins_kept_trans)
  show "engine_keeps (trusted w) pins_grow (new_message_id w)" "engine_keeps (trusted w) pins_grow (cursor w room)"
    "engine_keeps (trusted w) pins_grow (unresolved w room)"
    "engine_keeps (trusted w) pins_grow (select w (\<lambda>db. Inr (cd_welcome_cursor db)))"
    "engine_keeps (trusted w) pins_grow (in_store (upsert_room (cw_env w) room name origin))"
    "engine_keeps (trusted w) pins_grow (in_store (outbox_page (cw_env w) n))"
    "engine_keeps (trusted w) pins_grow (has_group (cw_lib w) (cw_env w) room)" for room name origin n
    by (rule pinning_law, rule keeps_pinning, intro keep_intros; assumption?)+
qed (rule pinning_law; blast intro: pinning_store_welcome_page pinning_process_welcomes
  pinning_process_page pinning_complete pinning_build_attempts pinning_command)+

lemma session_keeps_pins:
  assumes "documented_library (cw_lib w) (cw_env w)" "at_rest (en_store (cl_engine cl))"
    and "script_ok (wr_incoming (cl_wire cl))" "run_engine w picks cl = (r, cl')"
  shows "pins_kept (durable_db (en_store (cl_engine cl))) (durable_db (en_store (cl_engine cl')))"
  using client_keepsD [OF pinned.kept_run_engine _ _ assms(4)] assms(1-3) by blast

end
