(* ===== verification/Client_Fixture.thy ===== *)
theory Client_Fixture
  imports Client_Recovery Client_Pins Protocol_Claims
begin

text \<open>
  A concrete client, on which the hypotheses of the client's properties are met: a library without
  cryptography that works through the application's callbacks, a database with two pinned contacts and
  one room, and a relay that delivers one message, which the client receives and applies.
\<close>

section \<open>A concrete client\<close>

text \<open>
  A library without cryptography that keeps its groups through the callbacks of the application: a
  group is its identifier, and a message is the authenticated data followed by the contents.
\<close>

definition fx_me :: UserId where
  "fx_me = UserId (replicate 16 0x55)"

definition keeping :: "'g \<Rightarrow> (ClientStore \<Rightarrow> 'r \<times> ClientStore) \<Rightarrow> ClientStore \<Rightarrow> ('r \<times> 'g) \<times> ClientStore" where
  "keeping g m s = (let (r, s') = m s in ((r, g), s'))"

definition fx_signing :: "UserId \<Rightarrow> SigningIdentity" where
  "fx_signing user = \<lparr>si_basic_identifier = Some (UserId_to_bytes user), si_signature_key = UserId_to_bytes user @ UserId_to_bytes user\<rparr>"

definition fx_lib :: "(bytes, bytes) mls_library" where
  "fx_lib = \<lparr>ml_from_bytes = Some, ml_to_bytes = Some, ml_epoch = (\<lambda>_. Some 3),
     ml_key_package_identity = (\<lambda>_. Some (fx_signing fx_user)),
     ml_load_group = (\<lambda>env group_id. or_else
       (chain (group_state env group_id) (\<lambda>found. case found of
          None \<Rightarrow> fail (StoreDatabase EngineNoRows) | Some g \<Rightarrow> ret g)) GroupStorageError),
     ml_create_group_with_id = (\<lambda>env. ret),
     ml_join_group = (\<lambda>env. ret),
     ml_generate_key_package_message = (\<lambda>env. ret [1]),
     ml_group_id = (\<lambda>g. g),
     ml_roster = (\<lambda>_. [(0, fx_signing fx_me), (1, fx_signing fx_user)]),
     ml_current_epoch = (\<lambda>_. 3), ml_has_pending_commit = (\<lambda>_. False), ml_clear_pending_commit = (\<lambda>g. g),
     ml_encrypt = (\<lambda>env plaintext aad g. keeping g (ret (aad @ plaintext))),
     ml_commit_add = (\<lambda>env aad m g. keeping g (ret (aad, [g]))),
     ml_apply_pending_commit = (\<lambda>env g. keeping g (ret ())),
     ml_process_incoming_message = (\<lambda>env m g. keeping g (ret (ReceivedApplication 1 (take 56 m) (drop 56 m)))),
     ml_write_to_storage = (\<lambda>env g. keeping g (or_else (group_write env \<lparr>gs_id = g, gs_data = g\<rparr> [] []) GroupStorageError))\<rparr>"

definition fx_client_env :: client_env where
  "fx_client_env = \<lparr>ce_fault = (\<lambda>_. False), ce_mutex_poisoned = False, ce_thread = 1, ce_page_size = 4096, ce_page_count = (\<lambda>_. 20),
     ce_random_user = Some fx_me, ce_random_seed = Some (replicate 32 9),
     ce_message_ids = (\<lambda>_. Some fx_request_id)\<rparr>"

definition fx_world :: "(bytes, bytes) client_world" where
  "fx_world = \<lparr>cw_env = fx_client_env, cw_lib = fx_lib, cw_pc = postcard_v1, cw_sha256 = (\<lambda>bs. take 32 (bs @ replicate 32 0)),
     cw_valid_key = (\<lambda>_. True), cw_verify_strict = (\<lambda>key transcript signature. signature = replicate 64 0x66),
     cw_public_of = (\<lambda>seed. seed), cw_sign = (\<lambda>seed transcript. replicate 64 0x66), cw_user = fx_me\<rparr>"

definition fx_card :: "UserId \<Rightarrow> ContactCard" where
  "fx_card user = \<lparr>card_user = user, card_transport_key = replicate 32 5,
     card_mls_key = si_signature_key (fx_signing user), card_signature = replicate 64 0x66\<rparr>"

definition fx_store :: ClientStore where
  "fx_store = \<lparr>st_db = pin_contact (fx_card fx_me) (pin_contact (fx_card fx_user)
       (empty_client_db\<lparr>cd_delivery_cursors := [fx_room \<mapsto> 7],
          cd_mls_groups := [RoomId_to_bytes fx_room \<mapsto> RoomId_to_bytes fx_room]\<rparr>)),
     st_begun = None, st_owner = None, st_poisoned = False, st_new_data_limit = 1024 * 1024 * 1024, st_ticks = 0\<rparr>"

definition fx_message :: Event where
  "fx_message = \<lparr>ev_id = fx_event_id, ev_sender = fx_user, ev_operation =
     \<lparr>ap_room = fx_room, ap_parent = 7, ap_epoch = 3, ap_content_type = Application,
      ap_body = event_authenticated_data fx_room fx_event_id 7 @ [104, 105], ap_welcome = None\<rparr>\<rparr>"

definition fx_client :: "incoming list \<Rightarrow> bytes Client" where
  "fx_client script = \<lparr>cl_engine = \<lparr>en_store = fx_store, en_groups = []\<rparr>,
     cl_wire = \<lparr>wr_incoming = script, wr_sent = [], wr_fault = (\<lambda>_. None)\<rparr>\<rparr>"

definition fx_head :: RoomHead where
  "fx_head = \<lparr>rh_room = fx_room, rh_name = str_of ''Cave'', rh_sequence = 8\<rparr>"

text \<open>The library reaches the store through the callbacks alone.\<close>

lemma mls_only_basic: "mls_only (ret v)" "mls_only (fail x)"
  by (simp_all add: mls_only_def ret_def fail_def same_guard_def)

lemma mls_only_or_else: "mls_only m \<Longrightarrow> mls_only (or_else m x)"
  by (fastforce simp: mls_only_def or_else_def split: prod.splits)

lemma mls_only_keeping: "mls_only m \<Longrightarrow> mls_only (keeping g m)"
  by (fastforce simp: mls_only_def keeping_def split: prod.splits)

lemma fx_documented: "documented_library fx_lib env"
proof -
  have load: "mls_only (chain (group_state env group_id) (\<lambda>found. case found of
      None \<Rightarrow> fail (StoreDatabase EngineNoRows) | Some g \<Rightarrow> ret g))" for group_id
    by (rule state_callback.mls_only_then) (auto intro: mls_only_basic split: option.splits)
  show ?thesis
    unfolding documented_library_def
    by (simp add: fx_lib_def mls_only_basic mls_only_or_else [OF load] mls_only_keeping
      mls_only_or_else [OF write_callback.mls_only_call])
qed

lemmas fx_client_defs = fx_world_def fx_client_env_def fx_client_def fx_store_def fx_head_def fx_message_def fx_card_def
  fx_signing_def fx_me_def fx_lib_def

lemma fx_wire: "postcard_wire postcard_v1"
  by unfold_locales

lemma fx_ready: "script_ok script \<Longrightarrow> ready postcard_v1 (fx_client script)"
  by (simp add: ready_def good_def at_rest_def idle_def durable_db_def inbox_ok_def fx_client_def fx_store_def
    pin_contact_def empty_client_db_def)

definition fx_page :: "incoming list" where
  "fx_page = [Arrived (RelayDelivery fx_request_id (RoomEvents fx_room 7 [fx_message] False))]"

lemma fx_page_ok: "script_ok fx_page"
  by (simp add: script_ok_def fx_page_def wf_relay_message_def wf_response_def wf_event_def wf_append_def wf_ids
    fx_message_def fx_defs event_authenticated_data_def)

section \<open>The client at work\<close>

lemma fx_sel [simp]:
  "cw_env fx_world = fx_client_env" "cw_lib fx_world = fx_lib" "cw_pc fx_world = postcard_v1" "cw_user fx_world = fx_me"
  "cw_sha256 fx_world bs = take 32 (bs @ replicate 32 0)"
  "ce_fault fx_client_env n = False" "ce_mutex_poisoned fx_client_env = False" "ce_thread fx_client_env = 1"
  "ce_message_ids fx_client_env n = Some fx_request_id" "ce_page_size fx_client_env = 4096" "ce_page_count fx_client_env n = 20"
  by (simp_all add: fx_world_def fx_client_env_def)

lemma fx_lib_sel [simp]:
  "ml_from_bytes fx_lib = Some" "ml_to_bytes fx_lib = Some" "ml_epoch fx_lib m = Some 3"
  "ml_current_epoch fx_lib g = 3" "ml_roster fx_lib g = [(0, fx_signing fx_me), (1, fx_signing fx_user)]"
  "ml_load_group fx_lib = (\<lambda>env group_id. or_else
       (chain (group_state env group_id) (\<lambda>found. case found of
          None \<Rightarrow> fail (StoreDatabase EngineNoRows) | Some g \<Rightarrow> ret g)) GroupStorageError)"
  "ml_process_incoming_message fx_lib = (\<lambda>env m g. keeping g (ret (ReceivedApplication 1 (take 56 m) (drop 56 m))))"
  "ml_write_to_storage fx_lib = (\<lambda>env g. keeping g (or_else (group_write env \<lparr>gs_id = g, gs_data = g\<rparr> [] []) GroupStorageError))"
  by (simp_all add: fx_lib_def)

lemma fx_message_sel [simp]:
  "ev_id fx_message = fx_event_id" "ev_sender fx_message = fx_user" "ap_room (ev_operation fx_message) = fx_room"
  "ap_parent (ev_operation fx_message) = 7" "ap_epoch (ev_operation fx_message) = 3"
  "ap_content_type (ev_operation fx_message) = Application"
  "ap_body (ev_operation fx_message) = event_authenticated_data fx_room fx_event_id 7 @ [104, 105]"
  "event_sequence fx_message = Some 8"
  by (simp_all add: fx_message_def event_sequence_def checked_add_def)

text \<open>Without faults a statement runs.\<close>

lemma fx_stmt: "stmt fx_client_env f s = (case f (st_db s) of
    Inl x \<Rightarrow> (Inl x, s\<lparr>st_ticks := Suc (st_ticks s)\<rparr>)
  | Inr (v, db) \<Rightarrow> (Inr v, s\<lparr>st_ticks := Suc (st_ticks s), st_db := db\<rparr>))"
  by (simp add: stmt_def Let_def)

definition fx_record :: bytes where "fx_record = ser_event postcard_v1 fx_message"

lemma fx_record_len: "length fx_record = 111"
  by (simp add: fx_record_def fx_message_def wire_eval fx_defs event_authenticated_data_def)

lemma fx_encode: "encode_as (ser_event postcard_v1) fx_message = Inr fx_record"
  by (simp add: encode_as_def encode_message_def MAX_PAYLOAD_def fx_record_len flip: fx_record_def)

definition fx_engine :: "nat \<Rightarrow> bytes Engine" where "fx_engine t = \<lparr>en_store = fx_store\<lparr>st_ticks := t\<rparr>, en_groups = []\<rparr>"
definition fx_holding :: "nat \<Rightarrow> bytes Engine" where "fx_holding t = \<lparr>en_store = fx_store\<lparr>st_ticks := t, st_db := add_inbox fx_message 8 fx_record (st_db fx_store)\<rparr>, en_groups = []\<rparr>"

lemma fx_db: "cd_delivery_cursors (st_db fx_store) = [fx_room \<mapsto> 7]" "cd_delivery_inbox (st_db fx_store) = []"
   "cd_outbox (st_db fx_store) = []" "cd_authenticated_history (st_db fx_store) = []"
   "cd_mls_groups (st_db fx_store) = [RoomId_to_bytes fx_room \<mapsto> RoomId_to_bytes fx_room]"
   "st_owner fx_store = None" "st_ticks fx_store = 0" "st_begun fx_store = None" "st_poisoned fx_store = False" "st_new_data_limit fx_store = 1024 * 1024 * 1024"
  by (simp_all add: fx_store_def pin_contact_def empty_client_db_def)

lemma fx_receive: "receive fx_world fx_message (fx_engine t) = (Inr (), fx_holding (t + 4))"
  by (simp add: receive_def fx_engine_def fx_holding_def sequence_fits_def fx_encode chain_def ret_def from_result_def in_store_def lock_def query_def fx_stmt fx_db insert_row_def admit_new_data_def fx_record_len saturating_add_def saturating_mul_def)


abbreviation gid :: bytes where
  "gid \<equiv> RoomId_to_bytes fx_room"

definition fx_like :: "ClientDb \<Rightarrow> bool" where "fx_like db \<longleftrightarrow> cd_verified_contacts db = cd_verified_contacts (st_db fx_store) \<and> cd_mls_groups db = [gid \<mapsto> gid]"

lemma fx_contacts: "fx_like db \<Longrightarrow> map_of (cd_verified_contacts db) (UserId (UserId_to_bytes fx_user)) = Some (si_signature_key (fx_signing fx_user), card_bytes (fx_card fx_user))"
  "fx_like db \<Longrightarrow> map_of (cd_verified_contacts db) (UserId (UserId_to_bytes fx_me)) = Some (si_signature_key (fx_signing fx_me), card_bytes (fx_card fx_me))"
  by (simp_all add: fx_like_def fx_store_def pin_contact_def fx_card_def empty_client_db_def fx_me_def fx_user_def)

lemma fx_verify: assumes "fx_like (st_db s)" "\<not> st_poisoned s" "user = fx_me \<or> user = fx_user"
  shows "provider_identity fx_client_env (fx_signing user) s = (Inr (UserId_to_bytes user), s\<lparr>st_ticks := Suc (st_ticks s)\<rparr>)"
  using assms fx_contacts [OF assms(1)]
  by (auto simp add: provider_identity_def verify_member_def fx_signing_def chain_def lock_provider_def ret_def fail_def query_def fx_stmt fx_me_def fx_user_def)

lemma fx_roster: assumes "fx_like (st_db (en_store e))" "\<not> st_poisoned (en_store e)"
  shows "verify_roster fx_lib fx_client_env x g e = (Inr (), e\<lparr>en_store := (en_store e)\<lparr>st_ticks := Suc (Suc (st_ticks (en_store e)))\<rparr>\<rparr>)"
  using assms by (simp add: verify_roster_def chain_def or_else_def in_store_def fx_verify ret_def)

lemma fx_like_group: "fx_like db \<Longrightarrow> cd_mls_groups db gid = Some gid"
  by (simp add: fx_like_def)

lemma fx_group: assumes "fx_like (st_db s)" "\<not> st_poisoned s"
  shows "group_mut fx_lib fx_client_env fx_room \<lparr>en_store = s, en_groups = []\<rparr> = (Inr gid, \<lparr>en_store = s\<lparr>st_ticks := st_ticks s + 3\<rparr>, en_groups = [(fx_room, gid)]\<rparr>)"
  using assms fx_like_group [OF assms(1)] by (simp add: group_mut_def load_into_cache_def chain_def or_else_def in_library_def group_state_def lock_provider_def query_def fx_stmt ret_def fx_roster put_group_def)

lemma fx_aad: "length (event_authenticated_data fx_room fx_event_id 7) = 56"
  by (simp add: event_authenticated_data_def fx_defs)

lemma fx_from_wire [simp]: "from_wire fx_lib bs = Inr bs"
  by (simp add: from_wire_def to_wire_def and_then_def)

lemma fx_write: assumes "st_begun s \<noteq> None" "\<not> st_poisoned s"
  shows "group_write fx_client_env \<lparr>gs_id = g, gs_data = g\<rparr> [] [] s = (Inr (), s\<lparr>st_ticks := Suc (st_ticks s), st_db := (st_db s)\<lparr>cd_mls_groups := (cd_mls_groups (st_db s))(g \<mapsto> g)\<rparr>\<rparr>)"
  using assms by (auto simp add: group_write_def chain_def lock_provider_def ret_def require_transaction_def update_def fx_stmt)

lemma fx_persist: assumes "en_groups e = [(fx_room, g)]" "st_begun (en_store e) \<noteq> None" "\<not> st_poisoned (en_store e)"
  shows "persist fx_lib fx_client_env fx_room e = (Inr (), e\<lparr>en_store := (en_store e)\<lparr>st_ticks := Suc (st_ticks (en_store e)),
     st_db := (st_db (en_store e))\<lparr>cd_mls_groups := (cd_mls_groups (st_db (en_store e)))(g \<mapsto> g)\<rparr>\<rparr>, en_groups := put_row fx_room g (en_groups e)\<rparr>)"
  using assms by (simp add: persist_def group_mut_def load_into_cache_def chain_def on_group_def keeping_def or_else_def fx_write)

lemma fx_process: assumes "fx_like (st_db s)" "\<not> st_poisoned s" "st_begun s \<noteq> None"
  shows "process_bound fx_lib fx_client_env fx_message \<lparr>en_store = s, en_groups = []\<rparr>
    = (Inr (ProcessedApplication [104, 105] (UserId_to_bytes fx_user)),
       \<lparr>en_store = s\<lparr>st_ticks := st_ticks s + 6, st_db := (st_db s)\<lparr>cd_mls_groups := (cd_mls_groups (st_db s))(gid \<mapsto> gid)\<rparr>\<rparr>, en_groups = [(fx_room, gid)]\<rparr>)"
  using assms
  by (simp add: process_bound_def Let_def chain_def fx_group run_incoming_def keeping_def ret_def classify_def fx_aad fx_signing_def
   fx_roster fx_persist with_author_def)

lemma fx_like_engine: "fx_like (add_inbox ev n bs (st_db fx_store))"
  by (simp add: fx_like_def add_inbox_def fx_db)

lemma fx_users: "fx_user \<noteq> fx_me" "length (UserId_to_bytes fx_user) = 16" "UserId (UserId_to_bytes fx_user) = fx_user"
  by (simp_all add: fx_user_def fx_me_def)

lemma fx_ack: "encode_as (ser_client_message postcard_v1) (ClientDelivery m (Acknowledge [fx_event_id] [])) 
   = Inr (ser_client_message postcard_v1 (ClientDelivery m (Acknowledge [fx_event_id] [])))" if "length (MessageId_to_bytes m) = 16"
  using that by (cases m) (simp add: encode_as_def encode_message_def MAX_PAYLOAD_def wire_eval fx_defs)

lemma fx_ack_id: "length (MessageId_to_bytes (acknowledgement_id sha user ms ws)) = 16" if "\<And>bs. length (sha bs) = 32"
  using that by (simp add: acknowledgement_id_def Let_def)

lemma fx_body:
  assumes "fx_like (st_db s)" "\<not> st_poisoned s" "st_begun s \<noteq> None" "st_owner s = Some 1" "cd_outbox (st_db s) = []"
    "cd_authenticated_history (st_db s) = []"
  shows "\<exists>e. apply_body fx_world fx_message None \<lparr>en_store = s, en_groups = []\<rparr> = (Inr (), e) \<and> same_guard s (en_store e) \<and> cursor_of (st_db (en_store e)) fx_room = 8"
proof -
  have foreign: "apply_foreign fx_world fx_message \<lparr>en_store = s, en_groups = []\<rparr> = (Inr (), \<lparr>en_store = s\<lparr>st_ticks := st_ticks s + 7, st_db := (put_history \<lparr>hi_message_id = fx_event_id, hi_room_id = fx_room,
         hi_sequence = 8, hi_author = fx_user, hi_plaintext = [104, 105]\<rparr> ((st_db s)\<lparr>cd_mls_groups := (cd_mls_groups (st_db s))(gid \<mapsto> gid)\<rparr>))\<rparr>, en_groups = [(fx_room, gid)]\<rparr>)"
    using assms(1-4) by (simp add: apply_foreign_def chain_def fx_process fx_users in_store_def record_plaintext_def lock_def ret_def fx_stmt envelope_def sequence_fits_def)
  show ?thesis using assms foreign
    by (simp add: apply_body_def fx_users chain_def ret_def from_result_def in_store_def lock_def query_def update_def fx_stmt
     put_history_def finish_event_def journal_def set_inbox_state_def set_cursor_def save_outbox_def 
   add_outbox_def is_acknowledge_def find_entry_def fx_ack fx_ack_id cursor_of_def same_guard_def)
qed

definition fx_after :: "bytes Engine \<Rightarrow> bool" where
  "fx_after e \<longleftrightarrow> idle (en_store e) \<and> \<not> st_poisoned (en_store e) \<and> cursor_of (st_db (en_store e)) fx_room = 8"

lemma fx_atomic: "\<exists>e. atomic fx_client_env (apply_body fx_world fx_message None) (fx_holding t) = (Inr (), e) \<and> fx_after e"
proof -
  let ?s = "en_store (fx_holding t)"
  let ?s1 = "?s\<lparr>st_ticks := Suc t, st_begun := Some (st_db ?s), st_owner := Some 1\<rparr>"
  have db: "cd_outbox (st_db ?s1) = []" "cd_authenticated_history (st_db ?s1) = []" "fx_like (st_db ?s1)"
    by (simp_all add: fx_holding_def fx_like_engine) (simp_all add: add_inbox_def fx_db)
  obtain e where e: "apply_body fx_world fx_message None \<lparr>en_store = ?s1, en_groups = []\<rparr> = (Inr (), e)"
    "same_guard ?s1 (en_store e)" "cursor_of (st_db (en_store e)) fx_room = 8"
    using fx_body [of ?s1] db by (auto simp add: fx_holding_def fx_db)
  then show ?thesis
    by (simp add: atomic_def chain_def transaction_def in_store_def lock_def ret_def fx_holding_def fx_db commit_def same_guard_def idle_def fx_after_def)
qed

lemma fx_reads: "cursor fx_world fx_room (fx_holding t) = (Inr 7, fx_holding (Suc t))"
  "in_store (find_outbox fx_client_env m) (fx_holding t) = (Inr None, fx_holding (Suc t))"
  by (simp_all add: cursor_def find_outbox_def find_entry_def fx_holding_def cursor_of_def chain_def ret_def in_store_def lock_def query_def fx_stmt fx_db add_inbox_def)

lemma fx_apply: "\<exists>e. apply_event fx_world fx_message (fx_holding t) = (Inr True, e) \<and> fx_after e"
proof -
  obtain e where "atomic fx_client_env (apply_body fx_world fx_message None) (fx_holding (Suc (Suc t))) = (Inr (), e)" "fx_after e"
    using fx_atomic by blast
  then show ?thesis
    by (simp add: apply_event_def fx_reads chain_def apply_next_def conclude_event_def fx_users ret_def)
qed


lemma fx_fetch: "encode_as (ser_client_message postcard_v1) (ClientDelivery fx_request_id (FetchRoomEvents fx_room 7)) =
   Inr (ser_client_message postcard_v1 (ClientDelivery fx_request_id (FetchRoomEvents fx_room 7)))"
  by (simp add: encode_as_def encode_message_def MAX_PAYLOAD_def wire_eval fx_defs)

lemma fx_wire_request: "read_loop fx_world fx_request_id (FetchRoomEvents fx_room 7)
   \<lparr>cl_engine = e, cl_wire = \<lparr>wr_incoming = fx_page, wr_sent = [], wr_fault = (\<lambda>_. None)\<rparr>\<rparr>
  = (Inr (RoomEvents fx_room 7 [fx_message] False),
     \<lparr>cl_engine = e, cl_wire = \<lparr>wr_incoming = [], wr_sent = [(fx_request_id, FetchRoomEvents fx_room 7)], wr_fault = (\<lambda>_. None)\<rparr>\<rparr>)"
  by (subst read_loop.simps) (simp add: wire_request_def fx_fetch fx_page_def try_again_def)

lemma fx_cursor: "cursor fx_world fx_room (fx_engine t) = (Inr 7, fx_engine (Suc t))"
  "new_message_id fx_world (fx_engine t) = (Inr fx_request_id, fx_engine (Suc t))"
  by (simp_all add: cursor_def cursor_of_def chain_def in_store_def lock_def ret_def query_def fx_stmt fx_db new_message_id_def fx_engine_def)

lemma fx_start: "fx_client fx_page = \<lparr>cl_engine = fx_engine 0, cl_wire = \<lparr>wr_incoming = fx_page, wr_sent = [], wr_fault = (\<lambda>_. None)\<rparr>\<rparr>"
  by (simp add: fx_client_def fx_engine_def fx_store_def)

lemma fx_catch_up: "\<exists>cl. catch_up fx_world fx_head (fx_client fx_page) = (Inr (), cl) \<and> cursor_of (tables cl) fx_room = 8"
proof -
  obtain e where e: "apply_event fx_world fx_message (fx_holding (Suc (Suc (Suc 0)) + 4)) = (Inr True, e)" "fx_after e"
    using fx_apply by blast
  have page: "process_page fx_world fx_room 7 [fx_message] (fx_engine (Suc (Suc (Suc 0)))) = (Inr True, e)"
    using e(1) by (simp add: process_page_def chain_def fx_receive ret_def)
  let ?cl = "\<lparr>cl_engine = e, cl_wire = \<lparr>wr_incoming = [], wr_sent = [(fx_request_id, FetchRoomEvents fx_room 7)], wr_fault = (\<lambda>_. None)\<rparr>\<rparr>"
  have turn: "catch_up_turn fx_world fx_head (fx_client fx_page) = (Inr True, ?cl)"
    using page by (simp add: catch_up_turn_def fx_start on_engine_def chain_def fx_cursor fx_head_def wire_read_def fx_wire_request events_response_def)
  have "\<exists>e'. catch_up_turn fx_world fx_head ?cl = (Inr False, ?cl\<lparr>cl_engine := e'\<rparr>) \<and> fx_after e'"
    using e(2) by (simp add: catch_up_turn_def fx_head_def on_engine_def cursor_def chain_def in_store_def lock_def ret_def query_def fx_stmt fx_after_def idle_def)
  with turn show ?thesis
    by (auto simp: catch_up.simps fx_after_def durable_db_def idle_def)
qed

text \<open>The store inside a transaction.\<close>

definition fx_begun :: ClientStore where
  "fx_begun = fx_store\<lparr>st_begun := Some (st_db fx_store), st_owner := Some 1\<rparr>"

end
