(* ===== verification/Client_Claims.thy ===== *)
theory Client_Claims
  imports Client_Fixture
begin

text \<open>
  The properties of the client: what a session does to the received history whatever the relay sends,
  what recovery reaches, which messages and Welcomes are accepted, and when a request is over.
\<close>

section \<open>Histories\<close>

text \<open>
  Contiguous history. Whatever a relay sends in a session, in which order the loop is
  woken and whichever statements fail: the inbox stays in order (one row per event and per
  room and sequence, each row the encoding of its event), no recorded event is changed or forgotten,
  and the cursor of a room only moves forward, over events that are recorded and settled.
\<close>

theorem client_history_is_contiguous:
  fixes w :: "('g, 'm) client_world"
  assumes "documented_library (cw_lib w) (cw_env w)" "postcard_wire (cw_pc w)" "ready (cw_pc w) cl"
    and "cl' = snd (run_engine w picks cl)"
  shows "inbox_ok (cw_pc w) (tables cl')
    \<and> inbox_grows (tables cl) (tables cl')
    \<and> (\<forall>room n. cd_delivery_cursors (tables cl) room = Some n \<longrightarrow>
         (\<exists>n'. cd_delivery_cursors (tables cl') room = Some n' \<and> n \<le> n' \<and> covers (tables cl') room n n'))"
proof -
  from session_keeps_history [OF assms(1-3), of picks "fst (run_engine w picks cl)" cl']
  have "ready (cw_pc w) cl' \<and> app_grows (tables cl) (tables cl')" by (simp add: assms(4))
  then show ?thesis by (simp add: ready_def good_def app_grows_def cursors_advance_def)
qed

theorem client_history_is_contiguous_witness:
  "\<exists>n. cd_delivery_cursors (tables (snd (run_engine fx_world [PickTimer, PickWire] (fx_client fx_page)))) fx_room = Some n
     \<and> 7 \<le> n"
proof -
  let ?cl = "fx_client fx_page"
  have "documented_library (cw_lib fx_world) (cw_env fx_world)" "postcard_wire (cw_pc fx_world)" "ready (cw_pc fx_world) ?cl"
    by (simp_all add: fx_world_def fx_documented fx_wire fx_ready [OF fx_page_ok])
  moreover have "cd_delivery_cursors (tables ?cl) fx_room = Some 7"
    by (simp add: fx_client_def fx_store_def durable_db_def pin_contact_def)
  ultimately show ?thesis
    using client_history_is_contiguous [of fx_world ?cl, OF _ _ _ refl, where picks = "[PickTimer, PickWire]"] by blast
qed

text \<open>
  Property C6. Recovery. When catching up with a room returns without an error, the durable cursor
  has reached the head the relay announced, or the next event of the room is recorded and blocked; every
  sequence it moved over is recorded and settled.
\<close>

theorem recovery_reaches_the_head:
  fixes w :: "('g, 'm) client_world"
  assumes "documented_library (cw_lib w) (cw_env w)" "postcard_wire (cw_pc w)" "ready (cw_pc w) cl"
    and "catch_up w head cl = (Inr (), cl')" and "cd_delivery_cursors (tables cl) (rh_room head) = Some n"
  shows "(rh_sequence head \<le> cursor_of (tables cl') (rh_room head) \<or> stuck (tables cl') (rh_room head))
    \<and> covers (tables cl') (rh_room head) n (cursor_of (tables cl') (rh_room head))"
proof -
  from catch_up_outcome [OF assms(1-4)]
  have "app_grows (tables cl) (tables cl')"
    and reached: "rh_sequence head \<le> cursor_of (tables cl') (rh_room head) \<or> stuck (tables cl') (rh_room head)" by auto
  then have "cursors_advance (tables cl) (tables cl')" by (simp add: app_grows_def)
  from cursors_advanceD [OF this assms(5)] reached show ?thesis by (force simp: cursor_of_def)
qed

theorem recovery_reaches_the_head_witness:
  "\<exists>cl'. catch_up fx_world fx_head (fx_client fx_page) = (Inr (), cl') \<and> cursor_of (tables cl') fx_room = 8
     \<and> covers (tables cl') fx_room 7 8"
proof -
  from fx_catch_up obtain cl' where cl': "catch_up fx_world fx_head (fx_client fx_page) = (Inr (), cl')"
    "cursor_of (tables cl') fx_room = 8" by blast
  have "cd_delivery_cursors (tables (fx_client fx_page)) (rh_room fx_head) = Some 7"
    by (simp add: fx_client_def durable_db_def fx_db fx_head_def)
  then have "covers (tables cl') (rh_room fx_head) 7 (cursor_of (tables cl') (rh_room fx_head))"
    using recovery_reaches_the_head [OF _ _ _ cl'(1)] by (simp add: fx_documented fx_wire fx_ready [OF fx_page_ok])
  with cl' show ?thesis by (auto simp: fx_head_def)
qed

section \<open>Received events\<close>

lemma recorded_unique:
  assumes wire: "postcard_wire pc" and ok: "inbox_ok pc db"
    and rows: "row \<in> set (cd_delivery_inbox db)" "row' \<in> set (cd_delivery_inbox db)" "row_of pc event row" "row_of pc event' row'"
    and same: "ev_id event' = ev_id event
      \<or> ap_room (ev_operation event') = ap_room (ev_operation event) \<and> ap_parent (ev_operation event') = ap_parent (ev_operation event)"
  shows "event' = event"
proof -
  have inj: "inj_on ib_event_id (set (cd_delivery_inbox db))"
    "inj_on (\<lambda>row. (ib_room row, ib_sequence row)) (set (cd_delivery_inbox db))"
    using ok by (simp_all add: inbox_ok_def distinct_map)
  have "row' = row"
  proof (cases "ev_id event' = ev_id event")
    case True
    with rows show ?thesis by (intro inj_onD [OF inj(1)]) (simp_all add: row_of_def)
  next
    case False
    with same rows show ?thesis
      by (intro inj_onD [OF inj(2)]) (auto simp: row_of_def event_sequence_def)
  qed
  with rows(3,4) show ?thesis by (auto simp: row_of_def intro: encode_event_inj [OF wire])
qed

text \<open>
  Property C9. Equivocation. Once an event is recorded, a different event with its identifier, or with its
  place in the room, is refused, and the durable tables stay as they are.
\<close>

theorem equivocation_is_detected:
  fixes w :: "('g, 'm) client_world"
  assumes wire: "postcard_wire (cw_pc w)" and good: "good (cw_pc w) (en_store e)"
    and rec: "recorded (cw_pc w) (durable_db (en_store e)) event"
    and wf: "wf_event event'" and diff: "event' \<noteq> event"
    and same: "ev_id event' = ev_id event
      \<or> ap_room (ev_operation event') = ap_room (ev_operation event) \<and> ap_parent (ev_operation event') = ap_parent (ev_operation event)"
  shows "isl (fst (receive w event' e)) \<and> durable_db (en_store (snd (receive w event' e))) = durable_db (en_store e)"
proof (cases "\<exists>sequence bs. event_sequence event' = Some sequence \<and> sequence_fits sequence
    \<and> encode_as (ser_event (cw_pc w)) event' = Inr bs")
  case False
  then show ?thesis
    by (auto simp: receive_def fail_def chain_def from_result_def split: option.splits if_splits sum.splits)
next
  case True
  then obtain n bs where seq: "event_sequence event' = Some n" "sequence_fits n"
    and bs: "encode_as (ser_event (cw_pc w)) event' = Inr bs" by blast
  let ?db = "durable_db (en_store e)"
  have ok: "inbox_ok (cw_pc w) ?db" using good by (simp add: good_def)
  from rec obtain row0 where row0: "row0 \<in> set (cd_delivery_inbox ?db)" "row_of (cw_pc w) event row0"
    by (auto simp: recorded_def)
  with same seq(1) have "same_event event' n row0"
    by (auto simp: same_event_def row_of_def event_sequence_def)
  with row0(1) obtain row where row: "find (same_event event' n) (cd_delivery_inbox ?db) = Some row"
    by (metis find_None_iff not_Some_eq)
  then have "row \<in> set (cd_delivery_inbox ?db)" by (auto simp: find_Some_iff)
  with ok obtain event'' where event'': "row_of (cw_pc w) event'' row" by (auto simp: inbox_ok_def)
  have "ib_record row \<noteq> bs"
  proof
    assume "ib_record row = bs"
    with event'' bs have "event'' = event'"
      using encode_event_inj [OF wire wf _ bs, of event''] by (simp add: row_of_def)
    with recorded_unique [OF wire ok row0(1) \<open>row \<in> _\<close> row0(2) event''] same diff show False by simp
  qed
  moreover obtain q e1 where sel: "select w (\<lambda>db. Inr (find (same_event event' n) (cd_delivery_inbox db))) e = (q, e1)"
    by (cases "select w (\<lambda>db. Inr (find (same_event event' n) (cd_delivery_inbox db))) e")
  ultimately show ?thesis
    using select_durable [OF good sel] row seq bs
    by (cases q) (auto simp: receive_def from_result_def chain_def fail_def)
qed

definition fx_forged :: Event where
  "fx_forged = fx_message\<lparr>ev_sender := fx_me\<rparr>"

theorem equivocation_is_detected_witness:
  "isl (fst (receive fx_world fx_forged (fx_holding 0)))
   \<and> durable_db (en_store (snd (receive fx_world fx_forged (fx_holding 0)))) = durable_db (en_store (fx_holding 0))"
proof -
  let ?row = "\<lparr>ib_event_id = fx_event_id, ib_room = fx_room, ib_sequence = 8, ib_record = fx_record, ib_state = ''received''\<rparr>"
  have inbox: "cd_delivery_inbox (durable_db (en_store (fx_holding 0))) = [?row]"
    and rest: "at_rest (en_store (fx_holding 0))"
    by (simp_all add: fx_holding_def durable_db_def fx_db add_inbox_def at_rest_def idle_def)
  have row: "row_of postcard_v1 fx_message ?row"
    by (simp add: row_of_def fx_encode sequence_fits_def)
      (simp add: fx_message_def wf_event_def wf_append_def wf_ids fx_defs event_authenticated_data_def)
  then have good: "good postcard_v1 (en_store (fx_holding 0))"
    and recorded: "recorded postcard_v1 (durable_db (en_store (fx_holding 0))) fx_message"
    using rest by (auto simp: good_def inbox_ok_def inbox settled_def recorded_def)
  have forged: "wf_event fx_forged" "fx_forged \<noteq> fx_message" "ev_id fx_forged = ev_id fx_message"
    by (simp_all add: fx_forged_def fx_message_def wf_event_def wf_append_def wf_ids fx_defs event_authenticated_data_def fx_me_def)
  show ?thesis
    by (rule equivocation_is_detected [where event = fx_message]) (use good recorded forged in \<open>simp_all add: fx_wire\<close>)
qed

section \<open>Accepted messages\<close>

text \<open>A member whose credential names a verified contact with the signing key that was pinned.\<close>

definition pinned_member :: "ClientDb \<Rightarrow> SigningIdentity \<Rightarrow> bool" where
  "pinned_member db i \<longleftrightarrow> (\<exists>who pin. si_basic_identifier i = Some who \<and> length who = 16
     \<and> map_of (cd_verified_contacts db) (UserId who) = Some (si_signature_key i, pin))"

lemma pinned_member_same: "cd_verified_contacts db' = cd_verified_contacts db \<Longrightarrow> pinned_member db' = pinned_member db"
  by (simp add: pinned_member_def fun_eq_iff)

lemma verify_member_pinned:
  "verify_member env i s = (Inr who, s') \<Longrightarrow> si_basic_identifier i = Some who \<and> pinned_member (st_db s) i"
  by (auto simp: verify_member_def pinned_member_def fail_def ret_def query_Inr elim!: chainE
    dest!: lock_provider_cases split: option.splits if_splits)

lemma verify_roster_pinned:
  assumes "verify_roster lib env x g e = (Inr u, e')"
  shows "list_all (pinned_member (st_db (en_store e))) (map snd (ml_roster lib g))"
proof -
  have "list_all (pinned_member (st_db (en_store e))) members"
    if "for_each (\<lambda>i. chain (or_else (in_store (provider_identity env i)) x) (\<lambda>_. ret ())) members e = (Inr u, e')"
    for members and e e' :: "'a Engine"
    using that
  proof (induction members arbitrary: e)
    case (Cons i members)
    from Cons.prems obtain e1 where one: "chain (or_else (in_store (provider_identity env i)) x) (\<lambda>_. ret ()) e = (Inr (), e1)"
      and later: "for_each (\<lambda>i. chain (or_else (in_store (provider_identity env i)) x) (\<lambda>_. ret ())) members e1 = (Inr u, e')"
      unfolding for_each.simps by (elim chainE [where m = "chain m f" for m f]) simp
    from one obtain who s' where member: "verify_member env i (en_store e) = (Inr who, s')"
      by (auto simp: or_else_def in_store_def provider_identity_def ret_def elim!: chainE split: prod.splits)
    have "keeps cd_verified_contacts (chain (or_else (in_store (provider_identity env i)) x) (\<lambda>_. ret ()))"
      by (intro keep_intros)
    from pinned_member_same [OF keepsD(2) [OF this one]] Cons.IH [OF later] verify_member_pinned [OF member]
    show ?case by simp
  qed simp
  with assms show ?thesis unfolding verify_roster_def by blast
qed

text \<open>The group of a room: the cached one, or the one the library loads under the room's identifier.\<close>

lemma map_of_put_row [simp]: "map_of (put_row k v rows) k = Some v"
  by (induction k v rows rule: put_row.induct) auto

lemma group_mut_Inr:
  assumes "group_mut lib env room e = (Inr g, e')"
  shows "map_of (en_groups e') room = Some g"
    "case map_of (en_groups e) room of
       Some cached \<Rightarrow> g = cached | None \<Rightarrow> \<exists>t. ml_load_group lib env (RoomId_to_bytes room) (en_store e) = (Inr g, t)"
proof -
  show "map_of (en_groups e') room = Some g"
    using assms by (auto simp: group_mut_def elim!: chainE split: option.splits)
  show "case map_of (en_groups e) room of
      Some cached \<Rightarrow> g = cached | None \<Rightarrow> \<exists>t. ml_load_group lib env (RoomId_to_bytes room) (en_store e) = (Inr g, t)"
  proof (cases "map_of (en_groups e) room")
    case None
    let ?e = "if length (en_groups e) \<ge> 8 then e\<lparr>en_groups := []\<rparr> else e"
    from assms None obtain g1 e1 where "or_else (in_library (ml_load_group lib env (RoomId_to_bytes room)))
        (ClientMessageText ''no local MLS group for room'') ?e = (Inr g1, e1)" "g = g1"
      by (auto simp: group_mut_def load_into_cache_def put_group_def elim!: chainE split: option.splits)
    with None show ?thesis by (auto simp: or_else_def in_library_def split: prod.splits if_splits sum.splits)
  qed (use assms in \<open>auto simp: group_mut_def load_into_cache_def elim!: chainE\<close>)
qed

lemma verify_roster_groups:
  assumes "verify_roster lib env error g e = (r, e')"
  shows "en_groups e' = en_groups e"
proof -
  let ?check = "\<lambda>i. chain (or_else (in_store (provider_identity env i)) error) (\<lambda>_. ret ())"
  have one: "en_groups e2 = en_groups e1" if "?check i e1 = (q, e2)" for i e1 e2 and q :: "client_error + unit"
    using that by (auto simp: chain_def or_else_def in_store_def ret_def split: prod.splits sum.splits)
  have "en_groups e2 = en_groups e1" if "for_each ?check is e1 = (q, e2)" for "is" e1 e2 q
    using that
  proof (induction "is" arbitrary: e1)
    case (Cons i "is")
    then show ?case by (auto simp: chain_def [of "?check i"] dest!: one split: prod.splits sum.splits)
  qed (simp add: ret_def)
  with assms show ?thesis unfolding verify_roster_def by blast
qed

lemma persist_Inr:
  assumes "persist lib env room e = (Inr u, e')" "map_of (en_groups e) room = Some g"
  shows "\<exists>g'. ml_write_to_storage lib env g (en_store e) = ((Inr (), g'), en_store e') \<and> map_of (en_groups e') room = Some g'"
  using assms
  by (auto simp: persist_def group_mut_def load_into_cache_def chain_def on_group_def split: prod.splits sum.splits)

text \<open>The steps of an event that is accepted.\<close>

lemma process_bound_steps:
  assumes run: "process_bound lib env event e = (Inr processed, e')"
  obtains message g e1 received g' e2 sender i outcome u e3 v where
    "from_wire lib (ap_body (ev_operation event)) = Inr message"
    "ml_epoch lib message = Some (ap_epoch (ev_operation event))" "ml_current_epoch lib g = ap_epoch (ev_operation event)"
    "group_mut lib env (ap_room (ev_operation event)) e = (Inr g, e1)"
    "run_incoming lib env (ap_room (ev_operation event)) g message e1 = (Inr (received, g'), e2)"
    "classify lib event g' received = Some (sender,
       event_authenticated_data (ap_room (ev_operation event)) (ev_id event) (ap_parent (ev_operation event)), outcome)"
    "map_of (rev (ml_roster lib g)) sender = Some i" "si_basic_identifier i = Some (UserId_to_bytes (ev_sender event))"
    "verify_roster lib env (ClientFault FaultBlocked) g' e2 = (Inr u, e3)"
    "persist lib env (ap_room (ev_operation event)) e3 = (Inr v, e')"
    "processed = with_author (UserId_to_bytes (ev_sender event)) outcome"
proof -
  let ?room = "ap_room (ev_operation event)"
  let ?rest = "\<lambda>message g. chain (run_incoming lib env ?room g message) (\<lambda>(received, g').
      case classify lib event g' received of
        None \<Rightarrow> fail (ClientFault FaultRejected)
      | Some (sender, aad, outcome) \<Rightarrow>
          (case map_of (rev (ml_roster lib g)) sender of
             None \<Rightarrow> fail (ClientFault FaultRejected)
           | Some i \<Rightarrow>
               (case si_basic_identifier i of
                  None \<Rightarrow> fail (ClientFault FaultRejected)
                | Some actual \<Rightarrow>
                    if actual \<noteq> UserId_to_bytes (ev_sender event)
                       \<or> aad \<noteq> event_authenticated_data ?room (ev_id event) (ap_parent (ev_operation event))
                    then fail (ClientFault FaultRejected)
                    else
                      chain (verify_roster lib env (ClientFault FaultBlocked) g') (\<lambda>_.
                      chain (persist lib env ?room) (\<lambda>_.
                      ret (with_author actual outcome))))))"
  from run obtain message g e1 where message: "from_wire lib (ap_body (ev_operation event)) = Inr message"
      "ml_epoch lib message = Some (ap_epoch (ev_operation event))" "ml_current_epoch lib g = ap_epoch (ev_operation event)"
    and group: "group_mut lib env ?room e = (Inr g, e1)" and run1: "?rest message g e1 = (Inr processed, e')"
  proof (cases "from_wire lib (ap_body (ev_operation event))")
    case (Inr message)
    with run have epoch: "ml_epoch lib message = Some (ap_epoch (ev_operation event))"
      and run0: "chain (group_mut lib env ?room) (\<lambda>g. if ml_epoch lib message \<noteq> Some (ml_current_epoch lib g)
          then fail (ClientFault (case ml_epoch lib message of
             Some epoch \<Rightarrow> if epoch > ml_current_epoch lib g then FaultBlocked else FaultRejected | None \<Rightarrow> FaultRejected))
          else ?rest message g) e = (Inr processed, e')"
      unfolding process_bound_def Let_def by (simp_all add: fail_def split: if_splits)
    from run0 obtain g e1 where group: "group_mut lib env ?room e = (Inr g, e1)"
      and more: "ml_epoch lib message = Some (ml_current_epoch lib g)" "?rest message g e1 = (Inr processed, e')"
      by (rule chainE) (simp add: fail_def split: if_splits)
    from that [OF Inr epoch _ group more(2)] epoch more(1) show thesis by simp
  qed (use run in \<open>simp add: process_bound_def Let_def fail_def\<close>)
  from run1 obtain received g' e2 sender aad outcome i where
    incoming: "run_incoming lib env ?room g message e1 = (Inr (received, g'), e2)"
    and classified: "classify lib event g' received = Some (sender, aad, outcome)"
    and sender: "map_of (rev (ml_roster lib g)) sender = Some i" "si_basic_identifier i = Some (UserId_to_bytes (ev_sender event))"
    and aad: "aad = event_authenticated_data ?room (ev_id event) (ap_parent (ev_operation event))"
    and run2: "chain (verify_roster lib env (ClientFault FaultBlocked) g') (\<lambda>_.
        chain (persist lib env ?room) (\<lambda>_. ret (with_author (UserId_to_bytes (ev_sender event)) outcome))) e2 = (Inr processed, e')"
    by (elim chainE) (auto simp: fail_def split: option.splits if_splits prod.splits)
  from run2 obtain u e3 v where roster: "verify_roster lib env (ClientFault FaultBlocked) g' e2 = (Inr u, e3)"
    and written: "persist lib env ?room e3 = (Inr v, e')"
    and processed: "processed = with_author (UserId_to_bytes (ev_sender event)) outcome"
    by (elim chainE) (auto simp: ret_def)
  from that [OF message group incoming classified [unfolded aad] sender roster written processed] show thesis .
qed

text \<open>
  Property C7. Bound messages. An event that the session accepts is canonical MLS of the epoch its
  envelope states, which is the epoch of the group of the envelope's room, cached or loaded under the room's
  identifier. The library processed it in that group and authenticated the room, event and parent of the envelope;
  its sender is the member the envelope names. Afterwards every member of the group is a verified contact with
  the pinned key, and the group that the library left is the one that is written to storage and cached for the room.
\<close>

theorem accepted_messages_are_bound:
  fixes lib :: "('g, 'm) mls_library"
  assumes doc: "documented_library lib env" and run: "process_bound lib env event e = (Inr processed, e')"
  shows "\<exists>message g g' stored s s' s2 received sender i outcome.
     (case map_of (en_groups e) (ap_room (ev_operation event)) of
        Some cached \<Rightarrow> g = cached
      | None \<Rightarrow> \<exists>t. ml_load_group lib env (RoomId_to_bytes (ap_room (ev_operation event))) (en_store e) = (Inr g, t))
     \<and> from_wire lib (ap_body (ev_operation event)) = Inr message
     \<and> ml_epoch lib message = Some (ap_epoch (ev_operation event)) \<and> ml_current_epoch lib g = ap_epoch (ev_operation event)
     \<and> ml_process_incoming_message lib env message g s = ((Inr received, g'), s')
     \<and> classify lib event g' received = Some (sender,
         event_authenticated_data (ap_room (ev_operation event)) (ev_id event) (ap_parent (ev_operation event)), outcome)
     \<and> map_of (rev (ml_roster lib g)) sender = Some i \<and> si_basic_identifier i = Some (UserId_to_bytes (ev_sender event))
     \<and> processed = with_author (UserId_to_bytes (ev_sender event)) outcome
     \<and> list_all (pinned_member (st_db (en_store e'))) (map snd (ml_roster lib g'))
     \<and> ml_write_to_storage lib env g' s2 = ((Inr (), stored), en_store e')
     \<and> map_of (en_groups e') (ap_room (ev_operation event)) = Some stored"
proof -
  let ?room = "ap_room (ev_operation event)"
  from run obtain message g e1 received g' e2 sender i outcome u e3 v where
    message: "from_wire lib (ap_body (ev_operation event)) = Inr message"
      "ml_epoch lib message = Some (ap_epoch (ev_operation event))" "ml_current_epoch lib g = ap_epoch (ev_operation event)"
    and group: "group_mut lib env ?room e = (Inr g, e1)"
    and incoming: "run_incoming lib env ?room g message e1 = (Inr (received, g'), e2)"
    and sender: "classify lib event g' received = Some (sender, event_authenticated_data ?room (ev_id event) (ap_parent (ev_operation event)), outcome)"
      "map_of (rev (ml_roster lib g)) sender = Some i" "si_basic_identifier i = Some (UserId_to_bytes (ev_sender event))"
    and roster: "verify_roster lib env (ClientFault FaultBlocked) g' e2 = (Inr u, e3)"
    and written: "persist lib env ?room e3 = (Inr v, e')"
    and processed: "processed = with_author (UserId_to_bytes (ev_sender event)) outcome"
    by (rule process_bound_steps)
  have keep: "keeps cd_verified_contacts (verify_roster lib env (ClientFault FaultBlocked) g')"
    "keeps cd_verified_contacts (persist lib env ?room)" by (intro keep_intros doc)+
  from pinned_member_same [OF keepsD(2) [OF keep(1) roster]] pinned_member_same [OF keepsD(2) [OF keep(2) written]]
    verify_roster_pinned [OF roster]
  have pinned: "list_all (pinned_member (st_db (en_store e'))) (map snd (ml_roster lib g'))" by simp
  from incoming obtain s s' where library: "ml_process_incoming_message lib env message g s = ((Inr received, g'), s')"
    and cached: "map_of (en_groups e2) ?room = Some g'"
    by (auto simp: run_incoming_def split: prod.splits sum.splits)
  from persist_Inr [OF written] cached verify_roster_groups [OF roster] obtain stored where
    stored: "ml_write_to_storage lib env g' (en_store e3) = ((Inr (), stored), en_store e')" "map_of (en_groups e') ?room = Some stored"
    by auto
  show ?thesis
    using group_mut_Inr(2) [OF group] message library sender processed pinned stored
    by (intro exI [of _ message] exI [of _ g] exI [of _ g'] exI [of _ stored] exI [of _ s] exI [of _ s']
      exI [of _ "en_store e3"] exI [of _ received] exI [of _ sender] exI [of _ i] exI [of _ outcome] conjI)
qed

theorem accepted_messages_are_bound_witness:
  "\<exists>e' stored. process_bound fx_lib fx_client_env fx_message \<lparr>en_store = fx_begun, en_groups = []\<rparr>
       = (Inr (ProcessedApplication [104, 105] (UserId_to_bytes fx_user)), e')
     \<and> map_of (en_groups e') fx_room = Some stored
     \<and> (\<exists>g'. list_all (pinned_member (st_db (en_store e'))) (map snd (ml_roster fx_lib g')))"
proof -
  have room: "ap_room (ev_operation fx_message) = fx_room" by (simp add: fx_message_def)
  obtain e' where e': "process_bound fx_lib fx_client_env fx_message \<lparr>en_store = fx_begun, en_groups = []\<rparr>
       = (Inr (ProcessedApplication [104, 105] (UserId_to_bytes fx_user)), e')"
    using fx_process [of fx_begun] by (simp add: fx_begun_def fx_db fx_like_def)
  with accepted_messages_are_bound [OF fx_documented e', unfolded room] show ?thesis by blast
qed

section \<open>Contacts\<close>

text \<open>
  Pins. A contact that was verified keeps its card and its signing key through every
  session, whatever the relay sends and whatever the user types.
\<close>

theorem contacts_stay_pinned:
  fixes w :: "('g, 'm) client_world"
  assumes "documented_library (cw_lib w) (cw_env w)" "at_rest (en_store (cl_engine cl))"
    and "script_ok (wr_incoming (cl_wire cl))" and "cl' = snd (run_engine w picks cl)"
    and "map_of (cd_verified_contacts (tables cl)) user = Some pin"
  shows "map_of (cd_verified_contacts (tables cl')) user = Some pin"
  using session_keeps_pins [OF assms(1-3), of picks "fst (run_engine w picks cl)" cl'] assms(4,5)
  by (auto simp: pins_kept_def map_le_def dom_def)

theorem contacts_stay_pinned_witness:
  "map_of (cd_verified_contacts (tables (snd (run_engine fx_world [PickTimer] (fx_client fx_page))))) fx_user
     = Some (card_mls_key (fx_card fx_user), card_bytes (fx_card fx_user))"
proof (rule contacts_stay_pinned [OF _ _ _ refl])
  show "documented_library (cw_lib fx_world) (cw_env fx_world)" by (simp add: fx_documented)
  show "at_rest (en_store (cl_engine (fx_client fx_page)))" by (simp add: fx_start fx_engine_def fx_db at_rest_def idle_def)
  show "script_ok (wr_incoming (cl_wire (fx_client fx_page)))" by (simp add: fx_client_def fx_page_ok)
  show "map_of (cd_verified_contacts (tables (fx_client fx_page))) fx_user
      = Some (card_mls_key (fx_card fx_user), card_bytes (fx_card fx_user))"
    by (simp add: fx_client_def durable_db_def fx_store_def pin_contact_def empty_client_db_def fx_card_def fx_users)
qed

end
