(* ===== verification/Client_Request_Claims.thy ===== *)
theory Client_Request_Claims
  imports Client_Fixture
begin

text \<open>
  Transactions, Welcomes and the life of a request in the client: what is durable after an operation,
  which Welcomes are joined, and when an entry leaves the outbox.
\<close>

section \<open>Transactions\<close>

text \<open>
  Property C10. Atomicity. An engine operation under a transaction that fails, for whatever reason,
  leaves the durable tables as they were; one that succeeds makes exactly the tables of its body durable. The
  body may do anything but handle the guard itself.
\<close>

theorem transactions_are_atomic:
  fixes e :: "'g Engine"
  assumes rest: "at_rest (en_store e)" and body: "keeps (\<lambda>_. ()) body" and run: "atomic env body e = (r, e')"
  shows "at_rest (en_store e')
    \<and> (case r of
         Inl _ \<Rightarrow> durable_db (en_store e') = durable_db (en_store e)
       | Inr _ \<Rightarrow> idle (en_store e') \<and> committed env body e r (durable_db (en_store e')))"
proof -
  from run obtain e'' where "with_transaction env body e = (r, e'')" "en_store e'' = en_store e'"
    by (rule atomic_as_transaction)
  from transaction_outcome [OF rest this(1)] keepsD(1) [OF body] this(2) show ?thesis
    by (auto simp: committed_def split: sum.splits)
qed

theorem transactions_are_atomic_witness:
  "durable_db (en_store (snd (atomic fx_client_env
     (chain (execute_sql fx_world (set_welcome_state 1 ''applied'')) (\<lambda>_. text_error ''missing'') :: (bytes, unit) engine_op)
     (fx_engine 0)))) = st_db fx_store"
proof -
  let ?body = "chain (execute_sql fx_world (set_welcome_state 1 ''applied'')) (\<lambda>_. text_error ''missing'')
    :: (bytes, unit) engine_op"
  obtain r e' where run: "atomic fx_client_env ?body (fx_engine 0) = (r, e')" by (cases "atomic fx_client_env ?body (fx_engine 0)")
  then have "r = Inl (ClientMessageText ''missing'')"
    by (auto simp: atomic_def transaction_def chain_def in_store_def lock_def ret_def fail_def fx_engine_def fx_db update_def fx_stmt)
  moreover have "at_rest (en_store (fx_engine 0))" "durable_db (en_store (fx_engine 0)) = st_db fx_store"
    by (simp_all add: fx_engine_def at_rest_def idle_def durable_db_def fx_db)
  moreover have "keeps (\<lambda>_. ()) ?body" by (intro keep_intros) simp
  ultimately show ?thesis using transactions_are_atomic [OF _ _ run] run by simp
qed

section \<open>Welcomes\<close>

text \<open>A Welcome with a boundary in range, signed under the transport key of its inviter's verified card.\<close>

definition authentic :: "('g, 'm) client_world \<Rightarrow> ClientDb \<Rightarrow> WelcomeDelivery \<Rightarrow> bool" where
  "authentic w db wd \<longleftrightarrow>
     wd_sequence wd \<noteq> 0 \<and> sequence_fits (wd_sequence wd)
     \<and> (\<exists>key pin cc. map_of (cd_verified_contacts db) (wd_inviter wd) = Some (key, pin)
          \<and> parse_card w (hex_string pin) = Inr cc \<and> cw_valid_key w (card_transport_key cc)
          \<and> cw_verify_strict w (card_transport_key cc)
              (welcome_transcript (cw_sha256 w) (cw_user w) (wd_room wd) (wd_event wd) (wd_sequence wd)
                 (wa_body (wd_attachment wd)))
              (signature_bytes (wa_signature (wd_attachment wd))))"

lemma keeps_verify_welcome: "keeps view (verify_welcome w wd)"
  unfolding verify_welcome_def by (intro keep_intros)

lemma select_open: "select w f e = (Inr v, e') \<Longrightarrow> \<not> st_poisoned (en_store e)"
  by (auto simp: in_store_Inr lock_def fail_def elim!: chainE split: if_splits)

lemma verify_welcome_authentic:
  assumes "at_rest (en_store e)" "verify_welcome w wd e = (Inr u, e')"
  shows "authentic w (durable_db (en_store e)) wd"
proof -
  from assms(2) have "\<not> st_poisoned (en_store e)"
    by (auto simp: verify_welcome_def require_contact_def fail_def elim!: chainE dest!: select_open split: if_splits)
  with assms(1) have "durable_db (en_store e) = st_db (en_store e)" by (simp add: at_rest_def idle_def durable_db_def)
  with assms(2) show ?thesis
  by (auto simp: verify_welcome_def require_contact_def authentic_def fail_def ret_def from_result_def
    elim!: chainE dest!: select_Inr split: if_splits option.splits)
qed

interpretation cursors: app_view cd_delivery_cursors
  by unfold_locales (simp add: app_part_def)

lemma cursor_updates [simp]:
  "cd_delivery_cursors (set_welcome_state c state db) = cd_delivery_cursors db"
  "cd_delivery_cursors (add_outbox m knd bs db) = cd_delivery_cursors db"
  by (simp_all add: set_welcome_state_def add_outbox_def)

lemma chain_if: "chain (if b then m else n) f = (if b then chain m f else chain n f)"
  by simp

lemma accept_welcome_guard: "documented w \<Longrightarrow> keeps (\<lambda>_. ()) (accept_welcome w c wd)"
  unfolding accept_welcome_def by (intro keep_intros keeps_journal keeps_upsert_room) simp_all

lemma insert_cursor:
  assumes "insert_row w (\<lambda>db. cd_delivery_cursors db room \<noteq> None) (set_cursor room n) e = (Inr u, e')"
  shows "cd_delivery_cursors (st_db (en_store e)) room = None
    \<and> cd_delivery_cursors (st_db (en_store e')) = (cd_delivery_cursors (st_db (en_store e)))(room \<mapsto> n)"
  using assms
  by (auto simp: insert_row_def in_store_Inr chain_def lock_def stmt_def Let_def ret_def fail_def set_cursor_def
    split: if_splits sum.splits)

lemma accept_welcome_cursor:
  assumes doc: "documented w" and run: "accept_welcome w c wd e = (Inr u, e')"
  shows "cd_delivery_cursors (st_db (en_store e)) (wd_room wd) = None
    \<and> cd_delivery_cursors (st_db (en_store e')) = (cd_delivery_cursors (st_db (en_store e)))(wd_room wd \<mapsto> wd_sequence wd)"
proof -
  let ?before = "chain (has_group (cw_lib w) (cw_env w) (wd_room wd)) (\<lambda>present.
     if present then text_error ''room already exists; refusing another Welcome boundary''
     else
       chain (join_group (cw_lib w) (cw_env w) (wd_room wd) (wa_body (wd_attachment wd))) (\<lambda>_.
       chain (contains_user (cw_lib w) (cw_env w) (wd_room wd) (wd_inviter wd)) (\<lambda>member.
       if \<not> member then text_error ''Welcome signer is not a group member'' else ret ())))"
  let ?insert = "insert_row w (\<lambda>db. cd_delivery_cursors db (wd_room wd) \<noteq> None) (set_cursor (wd_room wd) (wd_sequence wd))"
  let ?after = "chain (in_store (upsert_room (cw_env w) (wd_room wd) (wd_room_name wd) ''welcomed'')) (\<lambda>_.
         chain (execute_sql w (set_welcome_state c ''applied'')) (\<lambda>_.
         journal w (acknowledgement_id (cw_sha256 w) (cw_user w) [] [c]) (Acknowledge [] [c])))"
  have "chain ?before (\<lambda>_. chain ?insert (\<lambda>_. ?after)) e = (Inr u, e')"
    using run unfolding accept_welcome_def by (simp only: chain_assoc chain_if chain_simps)
  then obtain x e1 where first: "?before e = (Inr x, e1)" and "chain ?insert (\<lambda>_. ?after) e1 = (Inr u, e')"
    by (rule chainE)
  from this(2) obtain y e2 where insert: "?insert e1 = (Inr y, e2)" and later: "?after e2 = (Inr u, e')"
    by (rule chainE)
  have before: "keeps cd_delivery_cursors ?before" by (intro keep_intros doc)
  have after: "keeps cd_delivery_cursors ?after" by (intro keep_intros keeps_journal keeps_upsert_room) simp_all
  show ?thesis using keepsD(2) [OF before first] insert_cursor [OF insert] keepsD(2) [OF after later] by simp
qed

lemma block_welcome_durable:
  assumes "at_rest (en_store e)" "block_welcome w c e = (r, e')"
  shows "durable_db (en_store e') \<in> {durable_db (en_store e), set_welcome_state c ''blocked'' (durable_db (en_store e))}"
  using assms
  by (auto simp: block_welcome_def in_store_def chain_def lock_def ret_def fail_def update_def stmt_def Let_def durable_db_def
    at_rest_def idle_def split: prod.splits if_splits option.splits)

text \<open>
  Property C8. Verified Welcomes. Processing a stored Welcome does one of two things to the durable
  tables: at most it marks the row as blocked, or the Welcome was authentic, the room had no cursor, and its
  cursor now stands at the sequence the inviter signed.
\<close>

theorem welcomes_are_verified:
  fixes w :: "('g, 'm) client_world"
  assumes doc: "documented_library (cw_lib w) (cw_env w)" and rest: "at_rest (en_store e)"
    and wd: "decode_as (take_welcome (cw_pc w)) (wi_record row) = Inr wd"
    and e': "e' = snd (process_welcome w row e)"
  shows "durable_db (en_store e') \<in> {durable_db (en_store e), set_welcome_state (wi_cursor row) ''blocked'' (durable_db (en_store e))}
    \<or> authentic w (durable_db (en_store e)) wd \<and> cd_delivery_cursors (durable_db (en_store e)) (wd_room wd) = None
      \<and> cd_delivery_cursors (durable_db (en_store e'))
          = (cd_delivery_cursors (durable_db (en_store e)))(wd_room wd \<mapsto> wd_sequence wd)"
proof -
  let ?accept = "accept_welcome w (wi_cursor row) wd"
  obtain q e1 where verify: "verify_welcome w wd e = (q, e1)" by (cases "verify_welcome w wd e")
  have e1: "at_rest (en_store e1)" "durable_db (en_store e1) = durable_db (en_store e)"
    using keeps_durable [OF keeps_verify_welcome [where view = id] verify] rest by simp_all
  show ?thesis
  proof (cases q)
    case (Inl x)
    with wd e' verify have "e' = snd (block_welcome w (wi_cursor row) e1)"
      by (simp add: process_welcome_def match_result_def chain_def from_result_def)
    with block_welcome_durable [OF e1(1)] e1(2) show ?thesis by (metis prod.collapse)
  next
    case (Inr u)
    obtain p e2 where atomic: "atomic (cw_env w) ?accept e1 = (p, e2)" by (cases "atomic (cw_env w) ?accept e1")
    then obtain e3 where t: "with_transaction (cw_env w) ?accept e1 = (p, e3)" "en_store e3 = en_store e2"
      by (rule atomic_as_transaction)
    have guard: "same_guard (en_store a) (en_store b)" if "?accept a = (x, b)" for a x b
      using that accept_welcome_guard [OF doc] keepsD(1) by blast
    have "at_rest (en_store e3) \<and> ((\<exists>x. p = Inl x) \<and> durable_db (en_store e3) = durable_db (en_store e1)
        \<or> idle (en_store e3) \<and> committed (cw_env w) ?accept e1 p (durable_db (en_store e3)))"
      by (rule transaction_outcome [OF e1(1) t(1)]) (rule guard)
    with t(2) consider x where "p = Inl x" "at_rest (en_store e2)" "durable_db (en_store e2) = durable_db (en_store e)"
      | v where "p = Inr v" "committed (cw_env w) ?accept e1 p (durable_db (en_store e2))"
      by (auto simp: e1(2) committed_def)
    then show ?thesis
    proof cases
      case (1 x)
      with wd e' verify Inr atomic have "e' = snd (block_welcome w (wi_cursor row) e2)"
        by (simp add: process_welcome_def match_result_def chain_def from_result_def)
      with block_welcome_durable [OF 1(2)] 1(3) show ?thesis by (metis prod.collapse)
    next
      case (2 v)
      with wd e' verify Inr atomic have "e' = e2"
        by (simp add: process_welcome_def match_result_def chain_def from_result_def ret_def)
      moreover from 2(2) obtain a b where "?accept a = (Inr v, b)" "st_db (en_store a) = durable_db (en_store e)"
        "durable_db (en_store e2) = st_db (en_store b)" using 2(1) e1(2) by (auto simp: committed_def)
      moreover have "authentic w (durable_db (en_store e)) wd"
        by (rule verify_welcome_authentic [OF rest verify [unfolded Inr]])
      ultimately show ?thesis using accept_welcome_cursor [OF doc, of "wi_cursor row" wd a v b] by simp
    qed
  qed
qed

definition fx_welcome_row :: WelcomeInboxRow where
  "fx_welcome_row = \<lparr>wi_cursor = 1, wi_record = ser_welcome postcard_v1 fx_welcome, wi_state = ''received''\<rparr>"

theorem welcomes_are_verified_witness:
  "durable_db (en_store (snd (process_welcome fx_world fx_welcome_row (fx_engine 0))))
     \<in> {durable_db (en_store (fx_engine 0)), set_welcome_state 1 ''blocked'' (durable_db (en_store (fx_engine 0)))}
   \<or> authentic fx_world (durable_db (en_store (fx_engine 0))) fx_welcome"
proof -
  have wd: "decode_as (take_welcome postcard_v1) (wi_record fx_welcome_row) = Inr fx_welcome"
  proof -
    have "wf_welcome fx_welcome" by (simp add: wf_welcome_def wf_attachment_def wf_ids fx_defs wf_name_def str_of_def str_len_def utf8_encode_def utf8_char_def is_scalar_def)
    then have "take_welcome postcard_v1 (ser_welcome postcard_v1 fx_welcome @ []) = Some (fx_welcome, [])"
      by (rule postcard_wire.welcome_roundtrip [OF fx_wire])
    moreover have "length (ser_welcome postcard_v1 fx_welcome) \<le> MAX_PAYLOAD" by (simp add: MAX_PAYLOAD_def fx_defs wire_eval)
    ultimately show ?thesis by (simp add: decode_as_def decode_message_def fx_welcome_row_def)
  qed
  have "at_rest (en_store (fx_engine 0))" by (simp add: fx_engine_def at_rest_def idle_def fx_db)
  with welcomes_are_verified [of fx_world "fx_engine 0" fx_welcome_row, OF _ _ _ refl] wd show ?thesis
    by (auto simp: fx_documented fx_welcome_row_def)
qed

section \<open>The life of a request\<close>

interpretation outbox: app_view cd_outbox
  by unfold_locales (simp add: app_part_def)

lemma outbox_updates [simp]:
  "cd_outbox (set_cursor room n db) = cd_outbox db" "cd_outbox (delete_history m db) = cd_outbox db"
  "cd_outbox (release_intents m db) = cd_outbox db" "cd_outbox (delete_intents m db) = cd_outbox db"
  "cd_outbox (set_package m u p db) = cd_outbox db" "cd_outbox (add_inbox event n bs db) = cd_outbox db"
  by (simp_all add: set_cursor_def delete_history_def release_intents_def delete_intents_def set_package_def add_inbox_def)

text \<open>An operation that keeps the guard and, when it succeeds, has removed one entry and nothing else.\<close>

definition removes :: "MessageId \<Rightarrow> ('g, 'a) engine_op \<Rightarrow> bool" where
  "removes m op \<longleftrightarrow> (\<forall>e r e'. op e = (r, e') \<longrightarrow> same_guard (en_store e) (en_store e')
     \<and> (\<not> isl r \<longrightarrow> cd_outbox (st_db (en_store e')) = filter (\<lambda>row. ob_request_id row \<noteq> m) (cd_outbox (st_db (en_store e)))))"

lemma removesD:
  assumes "removes m op" "op e = (r, e')"
  shows "same_guard (en_store e) (en_store e')"
    and "r = Inr v \<Longrightarrow> cd_outbox (st_db (en_store e')) = filter (\<lambda>row. ob_request_id row \<noteq> m) (cd_outbox (st_db (en_store e)))"
  using assms by (auto simp: removes_def)

lemma removes_settle: "removes m (settle_request w m)"
  by (auto simp: removes_def settle_request_def remove_outbox_def in_store_def chain_def lock_def ret_def fail_def update_def
    stmt_def Let_def delete_outbox_def same_guard_def split: prod.splits if_splits)

lemma removes_before:
  assumes "keeps cd_outbox a" "\<And>v. removes m (f v)"
  shows "removes m (chain a f)"
  unfolding removes_def
proof (intro allI impI)
  fix e r e' assume "chain a f e = (r, e')"
  then show "same_guard (en_store e) (en_store e') \<and> (\<not> isl r \<longrightarrow>
      cd_outbox (st_db (en_store e')) = filter (\<lambda>row. ob_request_id row \<noteq> m) (cd_outbox (st_db (en_store e))))"
  proof (cases rule: chain_cases)
    case (1 x)
    with keepsD(1) [OF assms(1) 1(1)] show ?thesis by simp
  next
    case (2 v e1)
    from keepsD [OF assms(1) 2(1)] removesD [OF assms(2) 2(2)] show ?thesis
      by (cases r) (auto simp: same_guard_def)
  qed
qed

lemma removes_after:
  assumes "removes m a" "\<And>v. keeps cd_outbox (f v)"
  shows "removes m (chain a f)"
  unfolding removes_def
proof (intro allI impI)
  fix e r e' assume "chain a f e = (r, e')"
  then show "same_guard (en_store e) (en_store e') \<and> (\<not> isl r \<longrightarrow>
      cd_outbox (st_db (en_store e')) = filter (\<lambda>row. ob_request_id row \<noteq> m) (cd_outbox (st_db (en_store e))))"
  proof (cases rule: chain_cases)
    case (1 x)
    with removesD(1) [OF assms(1) 1(1)] show ?thesis by simp
  next
    case (2 v e1)
    from removesD [OF assms(1) 2(1)] keepsD [OF assms(2) 2(2)] show ?thesis by (auto simp: same_guard_def)
  qed
qed

lemma find_removed:
  "find (\<lambda>row. ob_request_id row = m') (filter (\<lambda>row. ob_request_id row \<noteq> m) rows)
     = (if m' = m then None else find (\<lambda>row. ob_request_id row = m') rows)"
  by (induction rows) auto

text \<open>An entry that is gone, with every other entry as it was.\<close>

definition settled_in :: "MessageId \<Rightarrow> ClientDb \<Rightarrow> ClientDb \<Rightarrow> bool" where
  "settled_in m db db' \<longleftrightarrow> (\<forall>m'. find_entry db' m' = (if m' = m then None else find_entry db m'))"

lemma settled_inI:
  "cd_outbox db' = filter (\<lambda>row. ob_request_id row \<noteq> m) (cd_outbox db) \<Longrightarrow> settled_in m db db'"
  by (simp add: settled_in_def find_entry_def find_removed)

text \<open>An operation after which, if it succeeds, the entry is gone from the durable tables.\<close>

definition finishes :: "MessageId \<Rightarrow> ('g, 'a) engine_op \<Rightarrow> bool" where
  "finishes m op \<longleftrightarrow> (\<forall>e v e'. at_rest (en_store e) \<longrightarrow> op e = (Inr v, e') \<longrightarrow>
     settled_in m (durable_db (en_store e)) (durable_db (en_store e')))"

lemma finishes_transaction:
  assumes "removes m body"
  shows "finishes m (with_transaction env body)"
  unfolding finishes_def
proof (intro allI impI)
  fix e v e' assume rest: "at_rest (en_store e)" and run: "with_transaction env body e = (Inr v, e')"
  have "at_rest (en_store e') \<and> ((\<exists>x. (Inr v :: client_error + _) = Inl x) \<and> durable_db (en_store e') = durable_db (en_store e)
        \<or> idle (en_store e') \<and> committed env body e (Inr v) (durable_db (en_store e')))"
    by (rule transaction_outcome [OF rest run]) (rule removesD(1) [OF assms])
  then show "settled_in m (durable_db (en_store e)) (durable_db (en_store e'))"
    using removesD(2) [OF assms] by (auto simp: committed_def intro!: settled_inI)
qed

lemma finishes_atomic: "removes m body \<Longrightarrow> finishes m (atomic env body)"
  using finishes_transaction [of m body env] by (fastforce simp: finishes_def elim!: atomic_as_transaction)

lemma finishes_settle: "finishes m (settle_request w m)"
  unfolding finishes_def
proof (intro allI impI)
  fix e v e' assume rest: "at_rest (en_store e)" and run: "settle_request w m e = (Inr v, e')"
  from run have "\<not> st_poisoned (en_store e)"
    by (auto simp: settle_request_def remove_outbox_def in_store_Inr lock_def fail_def elim!: chainE split: if_splits)
  with removesD [OF removes_settle run] rest show "settled_in m (durable_db (en_store e)) (durable_db (en_store e'))"
    by (auto simp: at_rest_def idle_def durable_db_def same_guard_def intro!: settled_inI)
qed

lemma finishes_read:
  assumes "keeps id a" "\<And>v. finishes m (f v)"
  shows "finishes m (chain a f)"
  unfolding finishes_def
proof (intro allI impI)
  fix e v e' assume rest: "at_rest (en_store e)" and "chain a f e = (Inr v, e')"
  from this(2) obtain x e1 where run: "a e = (Inr x, e1)" "f x e1 = (Inr v, e')" by (rule chainE)
  from keeps_durable [OF assms(1) run(1)] rest have "at_rest (en_store e1)" "durable_db (en_store e1) = durable_db (en_store e)" by simp_all
  with assms(2) run(2) show "settled_in m (durable_db (en_store e)) (durable_db (en_store e'))" by (fastforce simp: finishes_def)
qed

lemma finishes_fail: "finishes m (fail x)"
  by (simp add: finishes_def fail_def)

lemma finishes_if: "finishes m a \<Longrightarrow> finishes m b \<Longrightarrow> finishes m (if c then a else b)"
  by simp

lemma finishes_option:
  "finishes m a \<Longrightarrow> (\<And>x. finishes m (f x)) \<Longrightarrow> finishes m (case v of None \<Rightarrow> a | Some x \<Rightarrow> f x)"
  by (cases v) simp_all

lemma removes_if: "removes m a \<Longrightarrow> removes m b \<Longrightarrow> removes m (if c then a else b)"
  by simp

lemma removes_fail: "removes m (fail x)"
  by (simp add: removes_def fail_def)

lemma keeps_verify: "keeps_store view (verify_member env i)"
  unfolding verify_member_def by (intro keep_intros)

lemma finishes_complete:
  assumes doc: "documented w"
  shows "finishes m (complete_created w m name room)" "finishes m (complete_conflict w m operation)"
    "finishes m (complete_rejected w m request)" "finishes m (complete_reserved w m recipient package)"
proof -
  show "finishes m (complete_created w m name room)"
    unfolding complete_created_def
    by (intro finishes_atomic removes_before removes_settle keep_intros keeps_upsert_room doc) simp_all
  show "finishes m (complete_conflict w m operation)"
    unfolding complete_conflict_def
    by (rule finishes_atomic, rule removes_before [OF _ removes_after [OF removes_settle]]) (intro keep_intros doc; simp)+
  show "finishes m (complete_rejected w m request)"
    unfolding complete_rejected_def
    by (intro finishes_atomic removes_before removes_settle keep_intros doc) simp_all
  show "finishes m (complete_reserved w m recipient package)"
    unfolding complete_reserved_def
    by (intro finishes_read finishes_option finishes_if finishes_transaction finishes_fail removes_before removes_if removes_fail
      removes_settle keep_intros keeps_stmt keeps_verify) auto
qed

lemma outbox_keeps_receive: "keeps cd_outbox (receive w event)"
  unfolding receive_def by (intro keep_intros) simp_all

text \<open>
  Property C11. The life of a request. Whether completing a request succeeds, and what it does to the request, is
  decided by the response. A rejection that asks for patience changes nothing at all, so that the exact bytes are
  sent again; every other rejection removes the entry. The acceptance of an append is taken only if it is the own
  operation under its own identifier; then the event is recorded, and the entry stays until the event is applied. A head
  conflict is taken only for the append's room and another head, and every other response only if it answers this
  kind of request, for the recipient asked for and the number of packages sent; then the entry is removed, and
  no other.
\<close>

theorem requests_end_with_their_answer:
  fixes w :: "('g, 'm) client_world"
  assumes doc: "documented_library (cw_lib w) (cw_env w)" and wire: "postcard_wire (cw_pc w)"
    and good: "good (cw_pc w) (en_store e)" and wf: "wf_response response"
    and run: "complete w m request response e = (Inr (), e')"
  shows "case response of
      Rejected reason \<Rightarrow>
        if reason \<in> {Overloaded, Quota, Internal} then e' = e
        else settled_in m (durable_db (en_store e)) (durable_db (en_store e'))
    | AppendAccepted event \<Rightarrow>
        request = AppendRoomOperation (ev_operation event) \<and> ev_id event = m \<and> ev_sender event = cw_user w
        \<and> recorded (cw_pc w) (durable_db (en_store e')) event
        \<and> cd_outbox (durable_db (en_store e')) = cd_outbox (durable_db (en_store e))
    | _ \<Rightarrow>
        (case response of
           RoomCreated room \<Rightarrow> \<exists>name. request = CreateRoom name
         | KeyPackagesPublished n \<Rightarrow> \<exists>packages. request = PublishKeyPackages packages \<and> n = of_nat (length packages)
         | FetchGrantSet \<Rightarrow> \<exists>requester allowed. request = SetFetchGrant requester allowed
         | KeyPackage recipient package \<Rightarrow> request = ReserveKeyPackage recipient
         | HeadConflict room head \<Rightarrow> \<exists>op. request = AppendRoomOperation op \<and> room = ap_room op \<and> head \<noteq> ap_parent op
         | Acknowledged \<Rightarrow> \<exists>events welcomes. request = Acknowledge events welcomes
         | _ \<Rightarrow> False)
        \<and> settled_in m (durable_db (en_store e)) (durable_db (en_store e'))"
proof -
  have rest: "at_rest (en_store e)" using good by (simp add: good_def)
  have finished: "settled_in m (durable_db (en_store e)) (durable_db (en_store e'))" if "finishes m op" "op e = (Inr (), e')" for op
    using that rest by (auto simp: finishes_def)
  note parts = finishes_complete [OF doc] finishes_settle
  show ?thesis
  proof (cases response)
    case (Rejected reason)
    with run finished [OF parts(3)] show ?thesis by (auto simp: complete_def ret_def split: if_splits)
  next
    case (AppendAccepted event)
    with run have op: "request = AppendRoomOperation (ev_operation event)" "ev_id event = m" "ev_sender event = cw_user w"
      and receive: "receive w event e = (Inr (), e')"
      by (cases request; auto simp: complete_def Let_def fail_def split: if_splits)+
    from receive_outcome [OF wire _ good receive] wf AppendAccepted
    have "recorded (cw_pc w) (durable_db (en_store e')) event" by (simp add: wf_response_def)
    with keeps_durable(2) [OF outbox_keeps_receive receive] op AppendAccepted show ?thesis by simp
  qed (use run in \<open>cases request; auto simp: complete_def Let_def fail_def split: if_splits intro: finished parts\<close>)+
qed

definition fx_asking :: "bytes Engine" where
  "fx_asking = \<lparr>en_store = fx_store\<lparr>st_db := add_outbox fx_request_id ''Delivery'' [1] (st_db fx_store)\<rparr>, en_groups = []\<rparr>"

theorem requests_end_with_their_answer_witness:
  "settled_in fx_request_id (durable_db (en_store fx_asking))
     (durable_db (en_store (snd (complete fx_world fx_request_id (SetFetchGrant fx_user True) FetchGrantSet fx_asking))))
   \<and> find_entry (durable_db (en_store fx_asking)) fx_request_id \<noteq> None"
proof -
  let ?run = "complete fx_world fx_request_id (SetFetchGrant fx_user True) FetchGrantSet fx_asking"
  have run: "?run = (Inr (), snd ?run)"
    by (simp add: complete_def settle_request_def remove_outbox_def in_store_def chain_def lock_def ret_def update_def fx_stmt
      fx_asking_def fx_db)
  have db: "cd_delivery_inbox (durable_db (en_store fx_asking)) = []" "at_rest (en_store fx_asking)"
    "find_entry (durable_db (en_store fx_asking)) fx_request_id \<noteq> None"
    by (simp_all add: fx_asking_def durable_db_def fx_db add_outbox_def find_entry_def at_rest_def idle_def)
  then have "good (cw_pc fx_world) (en_store fx_asking)" by (simp add: good_def inbox_ok_def)
  moreover have "wf_response FetchGrantSet" by (simp add: wf_response_def)
  ultimately show ?thesis
    using requests_end_with_their_answer [OF _ _ _ _ run] db(3) by (simp add: fx_documented fx_wire)
qed

section \<open>Pace\<close>

text \<open>An answer to the request, after any number of notifications.\<close>

definition turn :: "MessageId \<Rightarrow> nat \<times> Response \<Rightarrow> incoming list" where
  "turn m answer = replicate (fst answer) (Arrived DeliveryChanged) @ [Arrived (RelayDelivery m (snd answer))]"

lemma await_turn [simp]: "await m (turn m answer @ rest) = (Inr (snd answer), rest)"
proof -
  have "await m (replicate n (Arrived DeliveryChanged) @ Arrived (RelayDelivery m r) # rest) = (Inr r, rest)" for n r
    by (induction n) simp_all
  then show ?thesis by (simp add: turn_def)
qed

text \<open>A session after \<open>n\<close> copies of a request, with this much of the script left.\<close>

definition asked :: "MessageId \<Rightarrow> Request \<Rightarrow> nat \<Rightarrow> incoming list \<Rightarrow> 'g Client \<Rightarrow> 'g Client" where
  "asked m request n rest cl = cl\<lparr>cl_wire := (cl_wire cl)
     \<lparr>wr_incoming := rest, wr_sent := wr_sent (cl_wire cl) @ replicate n (m, request)\<rparr>\<rparr>"

lemma asked_simps [simp]:
  "wr_incoming (cl_wire (asked m request n rest cl)) = rest" "wr_fault (cl_wire (asked m request n rest cl)) = wr_fault (cl_wire cl)"
  "asked m request k rest' (asked m request n rest cl) = asked m request (n + k) rest' cl"
  by (simp_all add: asked_def replicate_add)

lemma wire_request_awaits:
  assumes "encode_as (ser_client_message (cw_pc w)) (ClientDelivery m request) = Inr bs" "\<And>n. wr_fault (cl_wire cl) n = None"
    and "await m (wr_incoming (cl_wire cl)) = (r, rest)"
  shows "wire_request w m request cl = (r, asked m request 1 rest cl)"
  using assms by (simp add: wire_request_def Let_def asked_def)

lemma read_loop_busy:
  assumes sent: "encode_as (ser_client_message (cw_pc w)) (ClientDelivery m request) = Inr bs" "\<And>n. wr_fault (cl_wire cl) n = None"
    and busy: "list_all (try_again \<circ> snd) busy" and script: "wr_incoming (cl_wire cl) = concat (map (turn m) busy) @ later"
  shows "read_loop w m request cl = read_loop w m request (asked m request (length busy) later cl)"
  using sent(2) busy script
proof (induction busy arbitrary: cl)
  case Nil
  moreover have "asked m request 0 (wr_incoming (cl_wire cl)) cl = cl" by (simp add: asked_def)
  ultimately show ?case by simp
next
  case (Cons answer busy)
  let ?cl = "asked m request 1 (concat (map (turn m) busy) @ later) cl"
  have "wire_request w m request cl = (Inr (snd answer), ?cl)"
    using Cons.prems by (intro wire_request_awaits [OF sent(1)]) simp_all
  then have "read_loop w m request cl = read_loop w m request ?cl"
    using Cons.prems(2) by (subst read_loop.simps) simp
  with Cons.IH [of ?cl] Cons.prems show ?case by simp
qed

lemma read_loop_ends:
  assumes sent: "encode_as (ser_client_message (cw_pc w)) (ClientDelivery m request) = Inr bs" "\<And>n. wr_fault (cl_wire cl) n = None"
    and busy: "list_all (try_again \<circ> snd) busy" and script: "wr_incoming (cl_wire cl) = concat (map (turn m) busy) @ later"
    and last: "await m later = (r, rest)" "case r of Inl _ \<Rightarrow> True | Inr response \<Rightarrow> \<not> try_again response"
  shows "read_loop w m request cl = (r, asked m request (Suc (length busy)) rest cl)"
proof -
  let ?cl = "asked m request (length busy) later cl"
  have "wire_request w m request ?cl = (r, asked m request 1 rest ?cl)"
    using sent(2) last(1) by (intro wire_request_awaits [OF sent(1)]) simp_all
  with last(2) show ?thesis
    unfolding read_loop_busy [OF sent busy script] by (subst read_loop.simps) (simp split: sum.splits)
qed

text \<open>
  Property C12. Pace. A read is repeated, with the same identifier, for as long as the relay asks for patience, and
  ends with the first other answer: if \<open>k\<close> answers ask for patience before it, exactly \<open>k + 1\<close> copies of the
  request were sent; notifications in between do not matter. Only the end of the connection ends a read that is
  always put off. And whatever the relay does, a whole session sends at most one request for every message it
  has used up, and one more if it fails.
\<close>

theorem sessions_are_in_lockstep:
  fixes w :: "('g, 'm) client_world"
  shows "(encode_as (ser_client_message (cw_pc w)) (ClientDelivery m request) = Inr bs \<and> (\<forall>n. wr_fault (cl_wire cl) n = None)
       \<and> list_all (try_again \<circ> snd) busy \<longrightarrow>
      (wr_incoming (cl_wire cl) = concat (map (turn m) busy) @ turn m answer @ later \<and> \<not> try_again (snd answer) \<longrightarrow>
        read_loop w m request cl = (Inr (snd answer), asked m request (Suc (length busy)) later cl))
      \<and> (wr_incoming (cl_wire cl) = concat (map (turn m) busy) \<longrightarrow>
        read_loop w m request cl = (Inl disconnected, asked m request (Suc (length busy)) [] cl)))
    \<and> length (wr_sent (cl_wire (snd (run_engine w picks cl)))) + length (wr_incoming (cl_wire (snd (run_engine w picks cl))))
      \<le> length (wr_sent (cl_wire cl)) + length (wr_incoming (cl_wire cl)) + (if isl (fst (run_engine w picks cl)) then 1 else 0)"
proof (intro conjI impI; (elim conjE)?)
  assume sent: "encode_as (ser_client_message (cw_pc w)) (ClientDelivery m request) = Inr bs" "\<forall>n. wr_fault (cl_wire cl) n = None"
    and busy: "list_all (try_again \<circ> snd) busy"
  show "read_loop w m request cl = (Inr (snd answer), asked m request (Suc (length busy)) later cl)"
    if "wr_incoming (cl_wire cl) = concat (map (turn m) busy) @ turn m answer @ later" "\<not> try_again (snd answer)"
    using sent busy that by (intro read_loop_ends [where later = "turn m answer @ later"]) simp_all
  show "read_loop w m request cl = (Inl disconnected, asked m request (Suc (length busy)) [] cl)"
    if "wr_incoming (cl_wire cl) = concat (map (turn m) busy)"
    using sent busy that by (intro read_loop_ends [where later = "[]"]) simp_all
qed (use lockstep_run_engine [of w picks] in \<open>unfold lockstep_def, metis prod.collapse\<close>)

definition fx_put_off :: "bytes Client" where
  "fx_put_off = fx_client (concat (map (turn fx_request_id) [(1, Rejected Overloaded), (0, Rejected Internal)])
     @ turn fx_request_id (2, SyncIndexPage [] False))"

theorem sessions_are_in_lockstep_witness:
  "read_loop fx_world fx_request_id (SyncIndex None) fx_put_off
     = (Inr (SyncIndexPage [] False), asked fx_request_id (SyncIndex None) 3 [] fx_put_off)"
proof -
  have "\<exists>bs. encode_as (ser_client_message (cw_pc fx_world)) (ClientDelivery fx_request_id (SyncIndex None)) = Inr bs"
    by (simp add: fx_world_def encode_as_def encode_message_def MAX_PAYLOAD_def wire_eval fx_defs)
  moreover have "wr_fault (cl_wire fx_put_off) n = None" for n by (simp add: fx_put_off_def fx_client_def)
  moreover have "list_all (try_again \<circ> snd) [(1, Rejected Overloaded), (0, Rejected Internal)]" "\<not> try_again (snd (2, SyncIndexPage [] False))"
    by (simp_all add: try_again_def)
  moreover have "wr_incoming (cl_wire fx_put_off) = concat (map (turn fx_request_id) [(1, Rejected Overloaded), (0, Rejected Internal)])
      @ turn fx_request_id (2, SyncIndexPage [] False) @ []" by (simp add: fx_put_off_def fx_client_def)
  ultimately show ?thesis
    using sessions_are_in_lockstep [where w = fx_world and m = fx_request_id and request = "SyncIndex None" and cl = fx_put_off
        and busy = "[(1, Rejected Overloaded), (0, Rejected Internal)]" and answer = "(2, SyncIndexPage [] False)" and later = "[]"]
    by (auto simp: numeral_3_eq_3)
qed

end
