(* ===== verification/Client_Data_Claims.thy ===== *)
theory Client_Data_Claims
  imports Client_Contacts Client_Mls_Storage Client_Commands Protocol_Claims
begin

text \<open>
  Properties of the client's data: contact cards and what an import pins, the order of retained MLS
  epochs, and the commands the parser lets through.
\<close>

section \<open>Contact cards\<close>

definition wf_card :: "ContactCard \<Rightarrow> bool" where
  "wf_card cc \<longleftrightarrow> length (UserId_to_bytes (card_user cc)) = 16 \<and> length (card_transport_key cc) = 32
     \<and> length (card_mls_key cc) = 32 \<and> length (card_signature cc) = 64"

definition self_signed :: "(bytes \<Rightarrow> bool) \<Rightarrow> (bytes \<Rightarrow> bytes \<Rightarrow> bytes \<Rightarrow> bool) \<Rightarrow> ContactCard \<Rightarrow> bool" where
  "self_signed valid_key verify_strict cc \<longleftrightarrow>
     valid_key (card_transport_key cc) \<and> verify_strict (card_transport_key cc) (contact_transcript cc) (card_signature cc)"

lemma card_bytes_length: "wf_card cc \<Longrightarrow> length (card_bytes cc) = CARD_BYTES"
  by (simp add: wf_card_def card_bytes_def CARD_BYTES_def)

lemma card_of_bytes:
  assumes "wf_card cc"
  shows "\<lparr>card_user = UserId (take 16 (drop 1 (card_bytes cc))), card_transport_key = take 32 (drop 17 (card_bytes cc)),
     card_mls_key = take 32 (drop 49 (card_bytes cc)), card_signature = drop 81 (card_bytes cc)\<rparr> = cc"
  using assms by (cases cc; cases "card_user cc") (simp add: wf_card_def card_bytes_def)

lemma card_parse_encode:
  assumes "wf_card cc"
  shows "card_parse valid_key verify_strict (card_encode cc)
    = (if self_signed valid_key verify_strict cc then Inr cc else Inl (StoreInvalidData ''invalid contact signature''))"
proof -
  have "str_len (card_encode cc) = CARD_BYTES * 2" "is_ascii (card_encode cc)" "hex_pairs (card_encode cc) = Some (card_bytes cc)"
    using is_ascii_hex_string [of "card_bytes cc"] card_bytes_length [OF assms]
    by (simp_all add: card_encode_def is_ascii_utf8 hex_pairs_hex_string)
  moreover have "card_bytes cc ! 0 = 1" by (simp add: card_bytes_def)
  ultimately show ?thesis
    unfolding card_parse_def self_signed_def
    by (simp only: option.case simp_thms if_False card_of_bytes [OF assms] Let_def if_True not_True_eq_False)
qed

lemma card_parse_accepts:
  assumes "card_parse valid_key verify_strict text = Inr cc"
  shows "wf_card cc \<and> self_signed valid_key verify_strict cc \<and> hex_pairs text = Some (card_bytes cc)"
proof -
  from assms obtain bs where bs: "hex_pairs text = Some bs" "str_len text = CARD_BYTES * 2" "is_ascii text" "bs ! 0 = 1"
    and cc: "cc = \<lparr>card_user = UserId (take 16 (drop 1 bs)), card_transport_key = take 32 (drop 17 bs),
       card_mls_key = take 32 (drop 49 bs), card_signature = drop 81 bs\<rparr>" and signed: "self_signed valid_key verify_strict cc"
    by (auto simp: card_parse_def self_signed_def Let_def split: if_splits option.splits)
  have len: "length bs = 145"
    using hex_pairs_length [OF bs(1)] bs(2,3) by (simp add: is_ascii_utf8 CARD_BYTES_def)
  then have "wf_card cc" by (simp add: wf_card_def cc)
  moreover have "card_bytes cc = bs"
  proof -
    have "take 32 (drop 49 bs) @ drop 81 bs = drop 49 bs" using append_take_drop_id [of 32 "drop 49 bs"] by (simp add: add.commute)
    moreover have "take 32 (drop 17 bs) @ drop 49 bs = drop 17 bs" using append_take_drop_id [of 32 "drop 17 bs"] by (simp add: add.commute)
    moreover have "take 16 (drop 1 bs) @ drop 17 bs = drop 1 bs" using append_take_drop_id [of 16 "drop 1 bs"] by (simp add: add.commute)
    moreover have "[1] @ drop 1 bs = bs" using len bs(4) by (cases bs) auto
    ultimately show ?thesis by (simp add: card_bytes_def cc)
  qed
  ultimately show ?thesis using signed bs(1) by simp
qed

text \<open>
  Property C38. Contact cards. The text of a card parses back to the card exactly if the card is signed
  by its own transport key; and whatever text the parser accepts spells the bytes of such a card.
\<close>

theorem contact_cards_survive_their_text:
  "(wf_card cc \<longrightarrow> card_parse valid_key verify_strict (card_encode cc)
      = (if self_signed valid_key verify_strict cc then Inr cc else Inl (StoreInvalidData ''invalid contact signature'')))
   \<and> (card_parse valid_key verify_strict text = Inr cc' \<longrightarrow>
        wf_card cc' \<and> self_signed valid_key verify_strict cc' \<and> hex_pairs text = Some (card_bytes cc'))"
  by (simp add: card_parse_encode card_parse_accepts)

definition fx_contact :: ContactCard where
  "fx_contact = \<lparr>card_user = UserId (replicate 16 7), card_transport_key = replicate 32 5, card_mls_key = replicate 32 6,
     card_signature = replicate 64 9\<rparr>"

lemma fx_contact_wf: "wf_card fx_contact"
  by (simp add: wf_card_def fx_contact_def)

theorem contact_cards_survive_their_text_witness:
  "card_parse (\<lambda>_. True) (\<lambda>key transcript signature. signature = replicate 64 9) (card_encode fx_contact) = Inr fx_contact
   \<and> hex_pairs (card_encode fx_contact) = Some (card_bytes fx_contact)"
proof -
  have signed: "self_signed (\<lambda>_. True) (\<lambda>key transcript signature. signature = replicate 64 9) fx_contact"
    by (simp add: self_signed_def fx_contact_def)
  note both = contact_cards_survive_their_text [of _ "\<lambda>_. True" "\<lambda>key transcript signature. signature = replicate 64 9"]
  have "card_parse (\<lambda>_. True) (\<lambda>key transcript signature. signature = replicate 64 9) (card_encode fx_contact) = Inr fx_contact"
    using both [of fx_contact] fx_contact_wf signed by simp
  with both [of fx_contact "card_encode fx_contact" fx_contact] show ?thesis by simp
qed

text \<open>
  Property C37. Imports. An import never panics. If it fails, for whatever reason, no table changes. If it succeeds,
  the user supplied the fingerprint of exactly this card and the card proved itself; a user without a pin
  is then pinned to the MLS key and the bytes of the card, as one new row and nothing else, and for a user with a
  pin the pinned bytes are the card's and nothing changes, so that a pin is never replaced.
\<close>

theorem imports_pin_what_was_compared:
  assumes digest: "\<And>bs. length (sha256 bs) = 32"
  shows "\<exists>r s'. card_import env sha256 valid_key verify_strict cc text s = Some (r, s')
    \<and> (case r of
         Inl _ \<Rightarrow> st_db s' = st_db s
       | Inr _ \<Rightarrow> parse_fingerprint_hex text = Inr (sha256 (card_bytes cc))
           \<and> (\<exists>cc'. card_parse valid_key verify_strict (card_encode cc) = Inr cc')
           \<and> (case map_of (cd_verified_contacts (st_db s)) (card_user cc) of
                Some (key, old) \<Rightarrow> old = card_bytes cc \<and> st_db s' = st_db s
              | None \<Rightarrow> st_db s' = (st_db s)\<lparr>cd_verified_contacts :=
                  cd_verified_contacts (st_db s) @ [(card_user cc, card_mls_key cc, card_bytes cc)]\<rparr>))"
proof -
  let ?pinned = "map_of (cd_verified_contacts (st_db s)) (card_user cc)"
  let ?body = "chain (locked_query env (\<lambda>db. Inr (map_of (cd_verified_contacts db) (card_user cc)))) (\<lambda>existing.
    case existing of
      Some (_, old) \<Rightarrow>
        if old \<noteq> card_bytes cc then fail (StoreInvalidData ''contact keys changed; pin preserved'') else ret ()
    | None \<Rightarrow> chain (admit_new_data env CARD_BYTES) (\<lambda>_. locked_update env (pin_contact cc)))"
  have body: "case r of
         Inl _ \<Rightarrow> st_db s' = st_db s
       | Inr _ \<Rightarrow> (case ?pinned of
                Some (key, old) \<Rightarrow> old = card_bytes cc \<and> st_db s' = st_db s
              | None \<Rightarrow> st_db s' = (st_db s)\<lparr>cd_verified_contacts :=
                  cd_verified_contacts (st_db s) @ [(card_user cc, card_mls_key cc, card_bytes cc)]\<rparr>)"
    if "?body s = (r, s')" for r s'
    using that
    by (cases ?pinned; auto simp: chain_def lock_def ret_def fail_def query_def update_def stmt_def Let_def admit_new_data_def pin_contact_def
      split: if_splits prod.splits sum.splits)
  have fp: "parse_fingerprint_hex (card_fingerprint sha256 cc) = Inr (sha256 (card_bytes cc))"
    unfolding card_fingerprint_def by (rule parse_fingerprint_of_digest) (rule digest)
  consider e where "parse_fingerprint_hex text = Inl e"
    | given where "parse_fingerprint_hex text = Inr given" "given \<noteq> sha256 (card_bytes cc)"
    | e where "parse_fingerprint_hex text = Inr (sha256 (card_bytes cc))" "card_parse valid_key verify_strict (card_encode cc) = Inl e"
    | cc' where "parse_fingerprint_hex text = Inr (sha256 (card_bytes cc))" "card_parse valid_key verify_strict (card_encode cc) = Inr cc'"
    by (metis sum.exhaust)
  then show ?thesis
  proof cases
    case 4
    obtain r s' where run: "?body s = (r, s')" by (cases "?body s")
    with 4 fp have "card_import env sha256 valid_key verify_strict cc text s = Some (r, s')"
      unfolding card_import_def by simp
    with body [OF run] 4 show ?thesis by (intro exI [of _ r] exI [of _ s']) (auto split: sum.splits)
  qed (use fp in \<open>simp_all add: card_import_def\<close>)
qed

definition fx_plain_env :: client_env where
  "fx_plain_env = \<lparr>ce_fault = (\<lambda>_. False), ce_mutex_poisoned = False, ce_thread = 1, ce_page_size = 4096, ce_page_count = (\<lambda>_. 20),
     ce_random_user = None, ce_random_seed = None, ce_message_ids = (\<lambda>_. None)\<rparr>"

definition fx_fresh :: ClientStore where
  "fx_fresh = \<lparr>st_db = empty_client_db, st_begun = None, st_owner = None, st_poisoned = False,
     st_new_data_limit = 1024 * 1024 * 1024, st_ticks = 0\<rparr>"

theorem imports_pin_what_was_compared_witness:
  "\<exists>s'. card_import fx_plain_env (\<lambda>bs. take 32 (bs @ replicate 32 0)) (\<lambda>_. True) (\<lambda>key transcript signature. signature = replicate 64 9)
       fx_contact (hex_string (take 32 (card_bytes fx_contact))) fx_fresh = Some (Inr (), s')
     \<and> cd_verified_contacts (st_db s') = [(card_user fx_contact, card_mls_key fx_contact, card_bytes fx_contact)]"
proof -
  let ?sha = "\<lambda>bs :: bytes. take 32 (bs @ replicate 32 0)"
  let ?verify = "\<lambda>key transcript signature :: bytes. signature = replicate 64 9"
  let ?text = "hex_string (take 32 (card_bytes fx_contact))"
  have digest: "length (?sha bs) = 32" for bs by simp
  have "length (card_bytes fx_contact) = 145" using card_bytes_length [OF fx_contact_wf] by (simp add: CARD_BYTES_def)
  then have sha: "?sha (card_bytes fx_contact) = take 32 (card_bytes fx_contact)" by simp
  have fp: "parse_fingerprint_hex (card_fingerprint ?sha fx_contact) = Inr (take 32 (card_bytes fx_contact))"
    unfolding card_fingerprint_def using parse_fingerprint_of_digest [of ?sha "card_bytes fx_contact"] sha by simp
  then have given: "parse_fingerprint_hex ?text = Inr (take 32 (card_bytes fx_contact))"
    unfolding card_fingerprint_def fingerprint_eq_hex_string sha .
  have parsed: "card_parse (\<lambda>_. True) ?verify (card_encode fx_contact) = Inr fx_contact"
    by (simp add: card_parse_encode [OF fx_contact_wf] self_signed_def) (simp add: fx_contact_def)
  let ?body = "chain (locked_query fx_plain_env (\<lambda>db. Inr (map_of (cd_verified_contacts db) (card_user fx_contact)))) (\<lambda>existing.
    case existing of
      Some (_, old) \<Rightarrow>
        if old \<noteq> card_bytes fx_contact then fail (StoreInvalidData ''contact keys changed; pin preserved'') else ret ()
    | None \<Rightarrow> chain (admit_new_data fx_plain_env CARD_BYTES) (\<lambda>_. locked_update fx_plain_env (pin_contact fx_contact)))"
  have "\<exists>s'. ?body fx_fresh = (Inr (), s')"
    by (simp add: chain_def lock_def ret_def query_def update_def stmt_def Let_def admit_new_data_def
      fx_plain_env_def fx_fresh_def empty_client_db_def CARD_BYTES_def saturating_add_def saturating_mul_def)
  moreover have "card_import fx_plain_env ?sha (\<lambda>_. True) ?verify fx_contact ?text fx_fresh = Some (?body fx_fresh)"
    unfolding card_import_def given fp sum.case parsed by (simp only: simp_thms if_False sum.case)
  ultimately have "\<exists>s'. card_import fx_plain_env ?sha (\<lambda>_. True) ?verify fx_contact ?text fx_fresh = Some (Inr (), s')"
    by (simp only: option.inject)
  then obtain s' where s': "card_import fx_plain_env ?sha (\<lambda>_. True) ?verify fx_contact ?text fx_fresh = Some (Inr (), s')" by blast
  moreover have "cd_verified_contacts (st_db fx_fresh) = []" by (simp add: fx_fresh_def empty_client_db_def)
  ultimately show ?thesis
    using imports_pin_what_was_compared [of ?sha fx_plain_env "\<lambda>_. True" ?verify fx_contact ?text fx_fresh, OF digest] by auto
qed

section \<open>Retained epochs\<close>

lemma fold_max_Max: "fold max xs (x :: 'a :: linorder) = Max (insert x (set xs))"
proof (induction xs arbitrary: x)
  case (Cons y xs)
  have "fold max (y # xs) x = Max (insert (max y x) (set xs))" by (simp add: Cons.IH)
  also have "\<dots> = Max (insert x (set (y # xs)))" by (cases "xs = []") (auto simp: ac_simps)
  finally show ?case .
qed simp

text \<open>
  Property C39. Retained epochs. \<open>MAX\<close> over the stored blobs, which compares bytes, is the maximum of
  the epoch numbers: big-endian keys are ordered as the numbers they encode.
\<close>

theorem byte_order_is_epoch_order:
  assumes keys: "map (snd \<circ> fst) (filter (\<lambda>row. fst (fst row) = group_id) (cd_mls_epochs (st_db s))) = map u64_to_be_bytes epochs"
    and up: "\<not> st_poisoned s" "\<not> ce_mutex_poisoned env" "\<not> ce_fault env (st_ticks s)"
  shows "fst (max_epoch_id env group_id s) = Inr (if epochs = [] then None else Some (Max (set epochs)))"
proof (cases epochs)
  case Nil
  with assms show ?thesis
    by (simp add: max_epoch_id_def chain_def lock_provider_def ret_def query_def stmt_def Let_def select_max_epoch_def)
next
  case (Cons n ns)
  have "select_max_epoch (st_db s) group_id = Some (u64_to_be_bytes (Max (set epochs)))"
    using keys Cons by (simp add: select_max_epoch_def fold_max_u64) (simp add: fold_max_Max)
  with up Cons show ?thesis
    by (simp add: max_epoch_id_def chain_def lock_provider_def ret_def query_def stmt_def Let_def)
qed

theorem byte_order_is_epoch_order_witness:
  "fst (max_epoch_id fx_plain_env [9] (fx_fresh\<lparr>st_db := empty_client_db\<lparr>cd_mls_epochs :=
     [(([9], u64_to_be_bytes 255), [1]), (([9], u64_to_be_bytes 256), [2]), (([8], u64_to_be_bytes 999), [3])]\<rparr>\<rparr>))
   = Inr (Some (Max {255, 256}))"
  using byte_order_is_epoch_order [of "[9]" "fx_fresh\<lparr>st_db := empty_client_db\<lparr>cd_mls_epochs :=
     [(([9], u64_to_be_bytes 255), [1]), (([9], u64_to_be_bytes 256), [2]), (([8], u64_to_be_bytes 999), [3])]\<rparr>\<rparr>"
     "[255, 256]" fx_plain_env]
  by (simp add: fx_fresh_def fx_plain_env_def)

section \<open>Commands\<close>

lemma split_whitespace_parts:
  "part \<in> set (split_whitespace s) \<Longrightarrow> part \<noteq> [] \<and> \<not> list_ex is_whitespace part"
proof (induction s rule: split_whitespace.induct)
  case (1 s)
  show ?case
  proof (cases "trim_start s")
    case Nil
    with 1(2) show ?thesis by (subst (asm) split_whitespace.simps) simp
  next
    case (Cons c cs)
    have c: "\<not> is_whitespace c"
      using Cons by (simp add: trim_start_def dropWhile_eq_Cons_conv)
    from 1(2) Cons consider "part = c # takeWhile (\<lambda>x. \<not> is_whitespace x) cs"
      | "part \<in> set (split_whitespace (dropWhile (\<lambda>x. \<not> is_whitespace x) cs))"
      by (subst (asm) split_whitespace.simps) auto
    then show ?thesis
    proof cases
      case 1
      with c show ?thesis by (auto simp: list_ex_iff dest: set_takeWhileD)
    next
      case 2
      with "1.IH" [OF Cons] show ?thesis by simp
    qed
  qed
qed

text \<open>What the engine may rely on.\<close>

definition wf_command :: "UserCommand \<Rightarrow> bool" where
  "wf_command c \<longleftrightarrow>
     (case c of
        SetFetchGrantCommand requester _ \<Rightarrow> wf_user requester
      | ContactImport text fingerprint \<Rightarrow>
          text \<noteq> [] \<and> fingerprint \<noteq> [] \<and> \<not> list_ex is_whitespace text \<and> \<not> list_ex is_whitespace fingerprint
      | CreateRoomCommand name \<Rightarrow> normalize_room_name name = Inr name \<and> wf_name name
      | PublishKeyPackagesCommand count \<Rightarrow> 1 \<le> count \<and> count \<le> 64
      | AddToRoom room user \<Rightarrow> wf_room room \<and> wf_user user
      | SendRoomMessage room body \<Rightarrow> wf_room room \<and> 1 \<le> length body \<and> length body \<le> MAX_MESSAGE_BODY_BYTES
      | FetchRoomHistory room _ \<Rightarrow> wf_room room
      | _ \<Rightarrow> True)"

lemma id_from_str_ids:
  "id_from_str RoomId s = Inr room \<Longrightarrow> wf_room room" "id_from_str UserId s = Inr user \<Longrightarrow> wf_user user"
  by (auto simp: wf_ids elim!: id_from_str_wf)

lemma parse_room_id_wf: "parse_room_id parts = Inr (room, later) \<Longrightarrow> wf_room room"
  by (auto simp: parse_room_id_def and_then_Inr intro: id_from_str_ids split: list.splits)

lemma parse_import_wf: "parse_import arguments = Inr (Some c) \<Longrightarrow> wf_command c"
  using split_whitespace_parts [of _ arguments]
  by (auto simp: parse_import_def wf_command_def split: list.splits)

lemma parse_create_wf: "valid_str name \<Longrightarrow> parse_create name = Inr (Some c) \<Longrightarrow> wf_command c"
  using normalize_room_name_valid [of name]
  by (auto simp: parse_create_def wf_command_def and_then_Inr wf_name_def normalize_room_name_Inr trim_idem split: if_splits)

lemma parse_send_wf: "parse_send arguments = Inr (Some c) \<Longrightarrow> wf_command c"
  by (auto simp: parse_send_def wf_command_def Let_def and_then_Inr Suc_le_eq intro: id_from_str_ids split: if_splits)

lemma parse_publish_wf: "parse_publish arguments = Inr (Some c) \<Longrightarrow> wf_command c"
  by (auto simp: parse_publish_def wf_command_def Let_def and_then_Inr split: if_splits)

lemma parse_add_wf:
  assumes "parse_add parts = Inr (Some c)"
  shows "wf_command c"
proof -
  from assms obtain room later where room: "parse_room_id parts = Inr (room, later)"
    and "(case later of [] \<Rightarrow> Inl CommandUsage | part # rest \<Rightarrow>
         and_then (map_err InvalidUserId (id_from_str UserId part)) (\<lambda>user.
         if rest \<noteq> [] then Inl CommandUsage else Inr (Some (AddToRoom room user)))) = Inr (Some c)"
    by (auto simp: parse_add_def and_then_Inr)
  from this(2) obtain part user where "id_from_str UserId part = Inr user" "c = AddToRoom room user"
    by (cases later) (auto simp: and_then_Inr split: if_splits)
  with parse_room_id_wf [OF room] show ?thesis by (simp add: wf_command_def id_from_str_ids(2))
qed

lemma parse_history_wf: "parse_history parts = Inr (Some c) \<Longrightarrow> wf_command c"
  by (auto simp: parse_history_def wf_command_def and_then_Inr dest: parse_room_id_wf split: if_splits)

lemma strip_prefix_valid: "strip_prefix p s = Some r \<Longrightarrow> valid_str s \<Longrightarrow> valid_str r"
  by (auto simp: strip_prefix_def list_all_iff dest: in_set_dropD split: if_splits)

text \<open>
  Property C40. Commands. Whatever line is typed, a command that reaches the engine is well formed: its
  identifiers have their length, a room name is normalized and within the wire limit, a
  message is neither empty nor longer than 64 KiB, and the number of key packages is between 1 and 64.
\<close>

theorem commands_are_well_formed:
  assumes "valid_str line" "parse_command line = Inr (Some c)"
  shows "wf_command c"
proof -
  have valid: "valid_str (trim line)" using assms(1) by (rule valid_str_trim)
  show ?thesis
    using assms(2) unfolding parse_command_def Let_def
    by (auto simp: and_then_Inr wf_command_def [of ContactExport] wf_command_def [of ListContacts]
        wf_command_def [of ListRooms] wf_command_def [of SyncWelcomes] wf_command_def [of "SetFetchGrantCommand u b" for u b]
      intro: parse_import_wf parse_create_wf [OF strip_prefix_valid [OF _ valid]] parse_send_wf parse_publish_wf parse_add_wf
        parse_history_wf
      dest!: id_from_str_ids(2)
      split: if_splits option.splits list.splits)
qed

theorem commands_are_well_formed_witness:
  "parse_command (str_of ''/publish 64'') = Inr (Some (PublishKeyPackagesCommand 64)) \<and> wf_command (PublishKeyPackagesCommand 64)"
proof -
  have line: "valid_str (str_of ''/publish 64'')" by (simp add: str_of_def is_scalar_def)
  have parsed: "parse_command (str_of ''/publish 64'') = Inr (Some (PublishKeyPackagesCommand 64))"
    by (simp add: parse_command_def Let_def str_of_def trim_def trim_start_def trim_end_def is_whitespace_def strip_prefix_def
      parse_publish_def starts_blank_def from_str_radix_def to_digit_def)
  from commands_are_well_formed [OF line parsed] parsed show ?thesis by simp
qed

end
