(* ===== verification/Private_Files.thy ===== *)
theory Private_Files
  imports Fallible Protocol_Frame
begin

text \<open>
  Private files (\<open>private_file.rs\<close> of the relay and of the client, the same code but for one
  message): a database file is opened only if it, its directory and the files SQLite keeps beside it
  belong to the user alone, no ancestor can be replaced by somebody else, and no other process has it
  open. The file system is an explicit state; every system call may fail as the environment
  chooses. A path is looked up as it is written: the model has no \<open>..\<close>, and the checks
  refuse the symbolic links a path could meet. Modes are in hexadecimal: \<open>0x1C0\<close> is octal 700, \<open>0x180\<close> is 600,
  \<open>0x3F\<close> is 077, \<open>0x12\<close> is 022 and \<open>0x200\<close> is 1000.
\<close>

unbundle bit_operations_syntax

section \<open>Paths\<close>

datatype file_path = FilePath (is_absolute: bool) (components: "rstr list")

definition path_parent :: "file_path \<Rightarrow> file_path option" where
  "path_parent p =
     (if components p = [] then None else Some (FilePath (is_absolute p) (butlast (components p))))"

definition path_join :: "file_path \<Rightarrow> file_path \<Rightarrow> file_path" where
  "path_join p q = (if is_absolute q then q else FilePath (is_absolute p) (components p @ components q))"

text \<open>\<open>Path::ancestors\<close>: the path itself first, the root last.\<close>

definition path_ancestors :: "file_path \<Rightarrow> file_path list" where
  "path_ancestors p =
     map (\<lambda>n. FilePath (is_absolute p) (take n (components p))) (rev [0..<Suc (length (components p))])"

text \<open>The name with a suffix, and the current directory.\<close>

definition with_suffix :: "file_path \<Rightarrow> rstr \<Rightarrow> file_path" where
  "with_suffix p suffix =
     FilePath (is_absolute p)
       (if components p = [] then [suffix] else butlast (components p) @ [last (components p) @ suffix])"

abbreviation dot :: file_path where
  "dot \<equiv> FilePath False []"

section \<open>The file system\<close>

datatype file_kind = RegularFile | Directory | Symlink | OtherFile

record Node =
  nd_inode :: nat
  nd_kind :: file_kind
  nd_uid :: u32
  nd_mode :: u32
  nd_data :: bytes

record FileSystem =
  fs_nodes :: "file_path \<Rightarrow> Node option"
  fs_locked :: "nat set"
  fs_next :: nat
  fs_ticks :: nat

record file_env =
  fe_euid :: u32
  fe_umask :: u32
  fe_cwd :: file_path
  fe_fault :: "nat \<Rightarrow> io_kind option"
  fe_written :: "nat \<Rightarrow> nat" \<comment> \<open>what a failing write leaves: a prefix of this length\<close>
  fe_link_alive :: "file_path \<Rightarrow> bool" \<comment> \<open>whether a symbolic link leads to something\<close>

datatype file_error = OsError io_kind | FileError io_kind string

definition file_error_kind :: "file_error \<Rightarrow> io_kind" where
  "file_error_kind e = (case e of OsError k \<Rightarrow> k | FileError k _ \<Rightarrow> k)"

type_synonym 'a file_op = "FileSystem \<Rightarrow> (file_error + 'a) \<times> FileSystem"

text \<open>A system call: the environment makes it fail, or it does its work.\<close>

definition syscall :: "file_env \<Rightarrow> (FileSystem \<Rightarrow> (io_kind + 'a) \<times> FileSystem) \<Rightarrow> 'a file_op" where
  "syscall env f fs =
     (let fs' = fs\<lparr>fs_ticks := Suc (fs_ticks fs)\<rparr> in
      case fe_fault env (fs_ticks fs) of
        Some k \<Rightarrow> (Inl (OsError k), fs')
      | None \<Rightarrow> (let (r, fs'') = f fs' in (map_err OsError r, fs'')))"

definition resolve :: "file_env \<Rightarrow> file_path \<Rightarrow> file_path" where
  "resolve env p = path_join (fe_cwd env) p"

definition node_at :: "file_path \<Rightarrow> FileSystem \<Rightarrow> io_kind + Node" where
  "node_at p fs = (case fs_nodes fs p of None \<Rightarrow> Inl FileNotFound | Some n \<Rightarrow> Inr n)"

definition symlink_metadata :: "file_env \<Rightarrow> file_path \<Rightarrow> Node file_op" where
  "symlink_metadata env p = syscall env (\<lambda>fs. (node_at (resolve env p) fs, fs))"

definition add_node :: "file_path \<Rightarrow> file_kind \<Rightarrow> u32 \<Rightarrow> u32 \<Rightarrow> bytes \<Rightarrow> FileSystem \<Rightarrow> FileSystem" where
  "add_node p k uid mode contents fs =
     fs\<lparr>fs_nodes := (fs_nodes fs)(p \<mapsto>
          \<lparr>nd_inode = fs_next fs, nd_kind = k, nd_uid = uid, nd_mode = mode, nd_data = contents\<rparr>),
        fs_next := Suc (fs_next fs)\<rparr>"

text \<open>
  \<open>DirBuilder\<close> with \<open>recursive\<close>: every missing directory on the way is made. What exists has to be a
  directory; a link to one does not occur, because the ancestors were checked before.
\<close>

definition make_dir :: "file_env \<Rightarrow> file_path \<Rightarrow> unit file_op" where
  "make_dir env p fs =
     (case fs_nodes fs p of
        Some n \<Rightarrow> if nd_kind n = Directory then ret () fs else fail (OsError AlreadyExists) fs
      | None \<Rightarrow>
          syscall env (\<lambda>fs. (Inr (), add_node p Directory (fe_euid env) (0x1C0 AND NOT (fe_umask env)) [] fs)) fs)"

definition create_dirs :: "file_env \<Rightarrow> file_path \<Rightarrow> unit file_op" where
  "create_dirs env p = for_each (make_dir env) (rev (path_ancestors (resolve env p)))"

text \<open>
  Opening for reading and writing with \<open>create\<close>, \<open>O_NOFOLLOW\<close> and \<open>O_NONBLOCK\<close>. The handle is the path
  the name stands for.
\<close>

definition open_file :: "file_env \<Rightarrow> file_path \<Rightarrow> file_path file_op" where
  "open_file env p =
     syscall env (\<lambda>fs.
       let h = resolve env p in
       case fs_nodes fs h of
         None \<Rightarrow> (Inr h, add_node h RegularFile (fe_euid env) (0x180 AND NOT (fe_umask env)) [] fs)
       | Some n \<Rightarrow> (if nd_kind n \<in> {Symlink, Directory} then Inl OtherIo else Inr h, fs))"

definition file_metadata :: "file_env \<Rightarrow> file_path \<Rightarrow> Node file_op" where
  "file_metadata env h = syscall env (\<lambda>fs. (node_at h fs, fs))"

definition try_lock :: "file_env \<Rightarrow> file_path \<Rightarrow> unit file_op" where
  "try_lock env h =
     syscall env (\<lambda>fs.
       case node_at h fs of
         Inl k \<Rightarrow> (Inl k, fs)
       | Inr n \<Rightarrow>
           if nd_inode n \<in> fs_locked fs then (Inl WouldBlock, fs)
           else (Inr (), fs\<lparr>fs_locked := insert (nd_inode n) (fs_locked fs)\<rparr>))"

text \<open>Writing replaces the contents from the position of the handle on; here that is the whole file.\<close>

definition set_data :: "file_path \<Rightarrow> bytes \<Rightarrow> FileSystem \<Rightarrow> FileSystem" where
  "set_data h contents fs = fs\<lparr>fs_nodes := (fs_nodes fs)(h := map_option (nd_data_update (\<lambda>_. contents)) (fs_nodes fs h))\<rparr>"

definition write_all :: "file_env \<Rightarrow> file_path \<Rightarrow> bytes \<Rightarrow> unit file_op" where
  "write_all env h contents fs =
     (case fe_fault env (fs_ticks fs) of
        Some k \<Rightarrow> (Inl (OsError k), set_data h (take (fe_written env (fs_ticks fs)) contents) (fs\<lparr>fs_ticks := Suc (fs_ticks fs)\<rparr>))
      | None \<Rightarrow> (Inr (), set_data h contents (fs\<lparr>fs_ticks := Suc (fs_ticks fs)\<rparr>)))"

definition sync_all :: "file_env \<Rightarrow> unit file_op" where
  "sync_all env = syscall env (\<lambda>fs. (Inr (), fs))"

section \<open>The checks\<close>

definition owner_only :: "file_env \<Rightarrow> Node \<Rightarrow> bool" where
  "owner_only env n \<longleftrightarrow> nd_uid n = fe_euid env \<and> nd_mode n AND 0x3F = 0"

definition unsafe_ancestor :: "Node \<Rightarrow> bool" where
  "unsafe_ancestor n \<longleftrightarrow>
     nd_kind n \<noteq> Directory \<or> (nd_mode n AND 0x12 \<noteq> 0 \<and> \<not> nd_mode n AND 0x200 \<noteq> 0)"

text \<open>A lookup that tolerates what does not exist.\<close>

definition check_existing :: "file_env \<Rightarrow> (Node \<Rightarrow> bool) \<Rightarrow> string \<Rightarrow> file_path \<Rightarrow> unit file_op" where
  "check_existing env refused complaint p fs =
     (case symlink_metadata env p fs of
        (Inl error, fs') \<Rightarrow> if file_error_kind error = FileNotFound then ret () fs' else fail error fs'
      | (Inr n, fs') \<Rightarrow> if refused n then fail (FileError PermissionDenied complaint) fs' else ret () fs')"

definition check_ancestors :: "file_env \<Rightarrow> file_path \<Rightarrow> unit file_op" where
  "check_ancestors env p =
     chain (if is_absolute p then ret p
            else chain (syscall env (\<lambda>fs. (Inr (fe_cwd env), fs))) (\<lambda>d. ret (path_join d p))) (\<lambda>absolute.
     for_each (check_existing env unsafe_ancestor ''unsafe directory ancestor'') (path_ancestors absolute))"

definition check_sidecars :: "file_env \<Rightarrow> file_path \<Rightarrow> unit file_op" where
  "check_sidecars env p =
     for_each (\<lambda>suffix. check_existing env (\<lambda>n. nd_kind n \<noteq> RegularFile \<or> \<not> owner_only env n)
         ''unsafe database sidecar'' (with_suffix p (str_of suffix)))
       [''-wal'', ''-shm'', ''-journal'']"

definition parent_dir :: "file_path \<Rightarrow> file_path" where
  "parent_dir p =
     (case path_parent p of None \<Rightarrow> dot | Some q \<Rightarrow> if q = FilePath False [] then dot else q)"

definition ensure_parent :: "file_env \<Rightarrow> file_path \<Rightarrow> unit file_op" where
  "ensure_parent env p =
     (let parent = parent_dir p in
      chain (check_ancestors env parent) (\<lambda>_.
      chain (create_dirs env parent) (\<lambda>_.
      chain (check_ancestors env parent) (\<lambda>_.
      chain (symlink_metadata env parent) (\<lambda>meta.
      if nd_kind meta \<noteq> Directory \<or> \<not> owner_only env meta
      then fail (FileError PermissionDenied ''database directory must be owned by this user with mode 0700'')
      else ret ())))))"

definition lock_or_refuse :: "file_env \<Rightarrow> file_path \<Rightarrow> unit file_op" where
  "lock_or_refuse env h fs =
     (case try_lock env h fs of
        (Inl _, fs') \<Rightarrow> (Inl (FileError WouldBlock ''database is already in use''), fs')
      | (Inr _, fs') \<Rightarrow> (Inr (), fs'))"

definition open_locked :: "file_env \<Rightarrow> file_path \<Rightarrow> file_path file_op" where
  "open_locked env p =
     chain (ensure_parent env p) (\<lambda>_.
     chain (check_sidecars env p) (\<lambda>_.
     chain (open_file env p) (\<lambda>h.
     chain (file_metadata env h) (\<lambda>meta.
     if nd_kind meta \<noteq> RegularFile \<or> \<not> owner_only env meta
     then fail (FileError PermissionDenied ''database must be a regular owner-only file'')
     else chain (lock_or_refuse env h) (\<lambda>_. ret h)))))"

text \<open>Dropping the handle releases the lock.\<close>

definition close_file :: "file_path \<Rightarrow> FileSystem \<Rightarrow> FileSystem" where
  "close_file h fs =
     (case fs_nodes fs h of None \<Rightarrow> fs | Some n \<Rightarrow> fs\<lparr>fs_locked := fs_locked fs - {nd_inode n}\<rparr>)"

section \<open>What the operations keep\<close>

text \<open>A file system that has what the other one has, unchanged.\<close>

definition extends :: "FileSystem \<Rightarrow> FileSystem \<Rightarrow> bool" where
  "extends fs fs' \<longleftrightarrow> fs_nodes fs \<subseteq>\<^sub>m fs_nodes fs' \<and> fs_locked fs \<subseteq> fs_locked fs'"

definition honest_kernel :: "file_env \<Rightarrow> bool" where
  "honest_kernel env \<longleftrightarrow> is_absolute (fe_cwd env) \<and> (\<forall>n. fe_fault env n \<noteq> Some FileNotFound)"

definition extending :: "(FileSystem \<Rightarrow> ('e + 'a) \<times> FileSystem) \<Rightarrow> bool" where
  "extending m \<longleftrightarrow> (\<forall>fs r fs'. m fs = (r, fs') \<longrightarrow> extends fs fs')"

definition reading :: "(FileSystem \<Rightarrow> ('e + 'a) \<times> FileSystem) \<Rightarrow> bool" where
  "reading m \<longleftrightarrow> (\<forall>fs r fs'. m fs = (r, fs') \<longrightarrow> fs_nodes fs' = fs_nodes fs \<and> fs_locked fs' = fs_locked fs)"

named_theorems file_ops

lemma extends_refl [simp]: "extends fs fs"
  by (simp add: extends_def)

lemma extends_trans: "extends a b \<Longrightarrow> extends b c \<Longrightarrow> extends a c"
  by (auto simp: extends_def intro: map_le_trans)

lemma extends_node: "extends fs fs' \<Longrightarrow> fs_nodes fs p = Some n \<Longrightarrow> fs_nodes fs' p = Some n"
  by (auto simp: extends_def map_le_def dom_def)

lemma extends_ticks: "extends fs (fs'\<lparr>fs_ticks := n\<rparr>) = extends fs fs'" "extends (fs\<lparr>fs_ticks := n\<rparr>) fs' = extends fs fs'"
  by (simp_all add: extends_def)

lemma extendsI: "fs_nodes fs \<subseteq>\<^sub>m fs_nodes fs' \<Longrightarrow> fs_locked fs \<subseteq> fs_locked fs' \<Longrightarrow> extends fs fs'"
  by (simp add: extends_def)

lemma reading_extending: "reading m \<Longrightarrow> extending m"
  by (auto simp: reading_def extending_def intro!: extendsI)

lemma readingD: "reading m \<Longrightarrow> m fs = (r, fs') \<Longrightarrow> fs_nodes fs' = fs_nodes fs \<and> fs_locked fs' = fs_locked fs"
  by (simp add: reading_def)

lemma extendingD: "extending m \<Longrightarrow> m fs = (r, fs') \<Longrightarrow> extends fs fs'"
  by (simp add: extending_def)

lemma extending_chain [file_ops]:
  assumes "extending m" "\<And>v. extending (f v)" shows "extending (chain m f)"
  unfolding extending_def
  by (auto elim!: chain_cases dest: extendingD [OF assms(1)] extendingD [OF assms(2)] intro: extends_trans)

lemma reading_chain [file_ops]:
  assumes "reading m" "\<And>v. reading (f v)" shows "reading (chain m f)"
  unfolding reading_def by (auto elim!: chain_cases dest!: readingD [OF assms(1)] readingD [OF assms(2)])

lemma basic_ops [file_ops]: "reading (ret v)" "reading (fail e)" "extending (ret v)" "extending (fail e)"
  by (auto simp: reading_def extending_def ret_def fail_def)

lemma cond_ops [file_ops]:
  "reading m \<Longrightarrow> reading k \<Longrightarrow> reading (if b then m else k)" "extending m \<Longrightarrow> extending k \<Longrightarrow> extending (if b then m else k)"
  by simp_all

lemma reading_for_each [file_ops]: "(\<And>x. reading (f x)) \<Longrightarrow> reading (for_each f xs)"
  by (induction xs) (auto intro: file_ops)

lemma extending_for_each [file_ops]: "(\<And>x. extending (f x)) \<Longrightarrow> extending (for_each f xs)"
  by (induction xs) (auto intro: file_ops)

lemma reading_syscall [file_ops]: "(\<And>fs r fs'. f fs = (r, fs') \<Longrightarrow> fs' = fs) \<Longrightarrow> reading (syscall env f)"
  by (fastforce simp: reading_def syscall_def Let_def split: option.splits prod.splits)

lemma extending_syscall: "(\<And>fs r fs'. f fs = (r, fs') \<Longrightarrow> extends fs fs') \<Longrightarrow> extending (syscall env f)"
  by (fastforce simp: extending_def syscall_def Let_def extends_def split: option.splits prod.splits)

lemma add_node_extends: "fs_nodes fs p = None \<Longrightarrow> extends fs (add_node p k uid mode contents fs)"
  by (auto simp: extends_def add_node_def map_le_def dom_def)

lemma reading_lookup [file_ops]: "reading (symlink_metadata env p)" "reading (file_metadata env h)"
  by (auto simp: symlink_metadata_def file_metadata_def intro!: file_ops)

lemma reading_check_existing [file_ops]: "reading (check_existing env refused complaint p)"
  using readingD [OF reading_lookup(1)]
  by (fastforce simp: reading_def check_existing_def ret_def fail_def split: prod.splits sum.splits if_splits)

lemma reading_checks [file_ops]: "reading (check_ancestors env p)" "reading (check_sidecars env p)"
  unfolding check_ancestors_def check_sidecars_def by (intro file_ops; simp)+

lemma extending_make_dir [file_ops]: "extending (make_dir env p)"
  unfolding extending_def
proof (intro allI impI)
  fix fs r fs' assume run: "make_dir env p fs = (r, fs')"
  show "extends fs fs'"
  proof (cases "fs_nodes fs p")
    case None
    with run add_node_extends [of "fs\<lparr>fs_ticks := Suc (fs_ticks fs)\<rparr>" p] show ?thesis
      by (auto simp: make_dir_def syscall_def Let_def extends_ticks split: option.splits prod.splits)
  next
    case (Some n)
    with run show ?thesis by (auto simp: make_dir_def ret_def fail_def split: if_splits)
  qed
qed

lemma extending_calls [file_ops]: "extending (create_dirs env p)" "extending (open_file env p)" "extending (try_lock env h)"
proof -
  show "extending (create_dirs env p)" unfolding create_dirs_def by (intro file_ops)
  show "extending (open_file env p)" unfolding open_file_def
    by (rule extending_syscall) (auto simp: Let_def split: option.splits if_splits intro: add_node_extends)
  show "extending (try_lock env h)" unfolding try_lock_def
    by (rule extending_syscall) (auto simp: extends_def split: sum.splits if_splits)
qed

lemma extending_lock_or_refuse [file_ops]: "extending (lock_or_refuse env h)"
  using extendingD [OF extending_calls(3)]
  by (fastforce simp: extending_def lock_or_refuse_def split: prod.splits sum.splits)

lemma extending_reading [file_ops]:
  "extending (symlink_metadata env p)" "extending (check_ancestors env p)" "extending (check_sidecars env p)" "extending (file_metadata env h)"
  by (simp_all add: reading_extending reading_lookup reading_checks)

lemma extending_ensure_parent [file_ops]: "extending (ensure_parent env p)"
  unfolding ensure_parent_def Let_def by (intro file_ops)

lemma extending_open_locked [file_ops]: "extending (open_locked env p)"
  unfolding open_locked_def by (intro file_ops)

lemma write_all_nodes:
  assumes "write_all env h contents fs = (r, fs')"
  shows "fs_locked fs' = fs_locked fs" "h' \<noteq> h \<Longrightarrow> fs_nodes fs' h' = fs_nodes fs h'"
  using assms by (auto simp: write_all_def set_data_def split: option.splits)

section \<open>What a success means\<close>

lemma syscall_Inr:
  assumes "syscall env f fs = (Inr v, fs')"
  shows "f (fs\<lparr>fs_ticks := Suc (fs_ticks fs)\<rparr>) = (Inr v, fs')"
  using assms by (auto simp: syscall_def Let_def map_err_Inr split: option.splits prod.splits)

lemma lookup_Inr:
  "symlink_metadata env p fs = (Inr n, fs') \<Longrightarrow> fs_nodes fs (resolve env p) = Some n"
  "file_metadata env h fs = (Inr n, fs') \<Longrightarrow> fs_nodes fs h = Some n"
  by (auto simp: symlink_metadata_def file_metadata_def node_at_def dest!: syscall_Inr split: option.splits)

lemma lookup_missing:
  assumes "honest_kernel env" "symlink_metadata env p fs = (Inl error, fs')" "file_error_kind error = FileNotFound"
  shows "fs_nodes fs (resolve env p) = None"
  using assms
  by (auto simp: symlink_metadata_def syscall_def node_at_def honest_kernel_def file_error_kind_def Let_def
      split: option.splits file_error.splits)

definition tolerated :: "(Node \<Rightarrow> bool) \<Rightarrow> Node option \<Rightarrow> bool" where
  "tolerated refused n = (case n of None \<Rightarrow> True | Some n \<Rightarrow> \<not> refused n)"

lemma check_existing_Inr:
  assumes "honest_kernel env" "check_existing env refused complaint p fs = (Inr u, fs')"
  shows "tolerated refused (fs_nodes fs (resolve env p))"
  using assms(2) lookup_Inr(1) [of env p fs] lookup_missing [OF assms(1), of p fs]
  by (auto simp: check_existing_def tolerated_def ret_def fail_def split: prod.splits sum.splits if_splits option.splits)

lemma check_all_Inr:
  assumes "honest_kernel env" "for_each (\<lambda>x. check_existing env refused complaint (f x)) xs fs = (Inr u, fs')" "x \<in> set xs"
  shows "tolerated refused (fs_nodes fs (resolve env (f x)))"
  using assms(2,3)
proof (induction xs arbitrary: fs)
  case (Cons y ys)
  from Cons.prems(1) obtain fs1 where one: "check_existing env refused complaint (f y) fs = (Inr (), fs1)"
    and rest: "for_each (\<lambda>x. check_existing env refused complaint (f x)) ys fs1 = (Inr u, fs')"
    by (auto elim: chainE)
  note same = readingD [OF reading_check_existing one]
  show ?case
  proof (cases "x = y")
    case True
    with check_existing_Inr [OF assms(1) one] show ?thesis by simp
  next
    case False
    with Cons.prems(2) Cons.IH [OF rest] same show ?thesis by simp
  qed
qed simp

lemma resolve_absolute: "is_absolute p \<Longrightarrow> resolve env p = p"
  by (simp add: resolve_def path_join_def)

lemma ancestors_absolute: "a \<in> set (path_ancestors p) \<Longrightarrow> is_absolute a = is_absolute p"
  by (auto simp: path_ancestors_def)

lemma self_ancestor: "p \<in> set (path_ancestors p)"
  by (cases p) (simp add: path_ancestors_def)

lemma check_ancestors_Inr:
  assumes "honest_kernel env" "check_ancestors env p fs = (Inr u, fs')" "a \<in> set (path_ancestors (resolve env p))"
  shows "tolerated unsafe_ancestor (fs_nodes fs a)"
proof -
  have abs: "is_absolute (resolve env p)" using assms(1) by (auto simp: honest_kernel_def resolve_def path_join_def)
  from assms(2) obtain fs1 where same: "fs_nodes fs1 = fs_nodes fs"
    and all: "for_each (check_existing env unsafe_ancestor ''unsafe directory ancestor'') (path_ancestors (resolve env p)) fs1 = (Inr u, fs')"
  proof (cases "is_absolute p")
    case True
    with assms(2) that [of fs] show thesis by (auto simp: check_ancestors_def resolve_absolute)
  next
    case False
    with assms(2) that [of "fs\<lparr>fs_ticks := Suc (fs_ticks fs)\<rparr>"] show thesis
      by (auto simp: check_ancestors_def resolve_def ret_def dest!: syscall_Inr elim!: chainE)
  qed
  from check_all_Inr [where f = "\<lambda>x. x", OF assms(1) all assms(3)] ancestors_absolute [OF assms(3)] abs same
  show ?thesis by (simp add: resolve_absolute)
qed

lemma make_dir_Inr: "make_dir env p fs = (Inr u, fs') \<Longrightarrow> fs_nodes fs' p \<noteq> None"
  by (auto simp: make_dir_def ret_def fail_def add_node_def dest!: syscall_Inr split: option.splits if_splits)

lemma make_dirs_Inr:
  "for_each (make_dir env) ps fs = (Inr u, fs') \<Longrightarrow> p \<in> set ps \<Longrightarrow> fs_nodes fs' p \<noteq> None"
proof (induction ps arbitrary: fs)
  case (Cons q qs)
  from Cons.prems(1) obtain fs1 where one: "make_dir env q fs = (Inr (), fs1)"
    and rest: "for_each (make_dir env) qs fs1 = (Inr u, fs')" by (auto elim: chainE)
  from extendingD [OF extending_for_each [OF extending_make_dir] rest] have "extends fs1 fs'" .
  with make_dir_Inr [OF one] Cons.IH [OF rest] Cons.prems(2) show ?case
    by (cases "p = q") (auto dest: extends_node)
qed simp

text \<open>The directory of a private file, and the whole of the path to it.\<close>

definition private_dir :: "file_env \<Rightarrow> file_path \<Rightarrow> FileSystem \<Rightarrow> bool" where
  "private_dir env p fs \<longleftrightarrow>
     (\<exists>d. fs_nodes fs p = Some d \<and> nd_kind d = Directory \<and> owner_only env d)
     \<and> (\<forall>a\<in>set (path_ancestors p). \<exists>n. fs_nodes fs a = Some n \<and> \<not> unsafe_ancestor n)"

lemma private_dir_extends: "private_dir env p fs \<Longrightarrow> extends fs fs' \<Longrightarrow> private_dir env p fs'"
  unfolding private_dir_def by (blast dest: extends_node)

lemma ensure_parent_Inr:
  assumes "honest_kernel env" "ensure_parent env p fs = (Inr u, fs')"
  shows "private_dir env (resolve env (parent_dir p)) fs'"
proof -
  let ?q = "resolve env (parent_dir p)"
  from assms(2) obtain fs1 fs2 fs3 d where made: "create_dirs env (parent_dir p) fs1 = (Inr (), fs2)"
    and checked: "check_ancestors env (parent_dir p) fs2 = (Inr (), fs3)"
    and d: "symlink_metadata env (parent_dir p) fs3 = (Inr d, fs')" "nd_kind d = Directory" "owner_only env d"
    by (auto simp: ensure_parent_def Let_def ret_def fail_def elim!: chainE split: if_splits)
  note same = readingD [OF reading_checks(1) checked] readingD [OF reading_lookup(1) d(1)]
  have "\<exists>n. fs_nodes fs' a = Some n \<and> \<not> unsafe_ancestor n" if a: "a \<in> set (path_ancestors ?q)" for a
    using make_dirs_Inr [OF made [unfolded create_dirs_def], of a] check_ancestors_Inr [OF assms(1) checked a] a same
    by (auto simp: tolerated_def)
  with lookup_Inr(1) [OF d(1)] d(2,3) same show ?thesis by (auto simp: private_dir_def)
qed

lemma open_file_Inr: "open_file env p fs = (Inr h, fs') \<Longrightarrow> h = resolve env p"
  by (auto simp: open_file_def Let_def dest!: syscall_Inr split: option.splits if_splits)

lemma lock_Inr:
  assumes "lock_or_refuse env h fs = (Inr u, fs')"
  shows "\<exists>n. fs_nodes fs h = Some n \<and> fs_nodes fs' = fs_nodes fs \<and> nd_inode n \<notin> fs_locked fs
    \<and> fs_locked fs' = insert (nd_inode n) (fs_locked fs)"
  using assms
  by (auto simp: lock_or_refuse_def try_lock_def node_at_def dest!: syscall_Inr split: prod.splits sum.splits option.splits if_splits)

lemma locked_refused:
  assumes "fs_nodes fs h = Some n" "nd_inode n \<in> fs_locked fs"
  shows "isl (fst (lock_or_refuse env h fs))"
  using assms by (auto simp: lock_or_refuse_def try_lock_def syscall_def node_at_def Let_def split: option.splits prod.splits)

lemma open_locked_run:
  assumes "open_locked env p fs = (Inr h, fs')"
  obtains fs1 fs2 fs3 fs4 m where "ensure_parent env p fs = (Inr (), fs1)" "check_sidecars env p fs1 = (Inr (), fs2)"
    "open_file env p fs2 = (Inr h, fs3)" "file_metadata env h fs3 = (Inr m, fs4)"
    "nd_kind m = RegularFile" "owner_only env m" "lock_or_refuse env h fs4 = (Inr (), fs')"
    "h = resolve env p" "extends fs fs1" "extends fs1 fs4" "extends fs4 fs'"
proof -
  from assms obtain fs1 fs2 fs3 fs4 m where run: "ensure_parent env p fs = (Inr (), fs1)" "check_sidecars env p fs1 = (Inr (), fs2)"
    "open_file env p fs2 = (Inr h, fs3)" "file_metadata env h fs3 = (Inr m, fs4)"
    "nd_kind m = RegularFile" "owner_only env m" "lock_or_refuse env h fs4 = (Inr (), fs')"
    by (auto simp: open_locked_def ret_def fail_def elim!: chainE split: if_splits)
  have "extends fs1 fs4"
    using extendingD [OF extending_reading(3) run(2)] extendingD [OF extending_calls(2) run(3)]
      extendingD [OF extending_reading(4) run(4)] by (blast intro: extends_trans)
  from that [OF run open_file_Inr [OF run(3)] extendingD [OF extending_ensure_parent run(1)] this
      extendingD [OF extending_lock_or_refuse run(7)]] show thesis .
qed

lemma open_locked_in_use:
  assumes "fs_nodes fs (resolve env p) = Some n" "nd_inode n \<in> fs_locked fs"
  shows "isl (fst (open_locked env p fs))"
proof (cases "open_locked env p fs")
  case (Pair r fs')
  show ?thesis
  proof (cases r)
    case (Inr h)
    with Pair obtain fs1 fs4 where run: "lock_or_refuse env (resolve env p) fs4 = (Inr (), fs')"
      "extends fs fs1" "extends fs1 fs4" by (auto elim: open_locked_run)
    from extends_trans [OF run(2,3)] have "extends fs fs4" .
    then have "fs_nodes fs4 (resolve env p) = Some n" "nd_inode n \<in> fs_locked fs4"
      using extends_node [OF _ assms(1)] assms(2) by (simp, auto simp: extends_def)
    from locked_refused [OF this, of env] run(1) show ?thesis by simp
  qed (use Pair in simp)
qed

text \<open>Everything a successful \<open>open_locked\<close> establishes.\<close>

lemma open_locked_Inr:
  assumes "honest_kernel env" "open_locked env p fs = (Inr h, fs')"
  shows "h = resolve env p" "private_dir env (resolve env (parent_dir p)) fs'"
    "\<exists>n. fs_nodes fs' h = Some n \<and> nd_kind n = RegularFile \<and> owner_only env n
       \<and> nd_inode n \<notin> fs_locked fs \<and> nd_inode n \<in> fs_locked fs'"
    "\<exists>fs1. extends fs fs1 \<and> extends fs1 fs' \<and> (\<forall>suffix\<in>{''-wal'', ''-shm'', ''-journal''}.
       tolerated (\<lambda>n. nd_kind n \<noteq> RegularFile \<or> \<not> owner_only env n)
         (fs_nodes fs1 (resolve env (with_suffix p (str_of suffix)))))"
proof -
  from assms(2) obtain fs1 fs2 fs3 fs4 m where run: "ensure_parent env p fs = (Inr (), fs1)" "check_sidecars env p fs1 = (Inr (), fs2)"
    "file_metadata env h fs3 = (Inr m, fs4)"
    and m: "nd_kind m = RegularFile" "owner_only env m" and lock: "lock_or_refuse env h fs4 = (Inr (), fs')"
    and h: "h = resolve env p" and grow: "extends fs fs1" "extends fs1 fs4" "extends fs4 fs'"
    by (rule open_locked_run)
  have tail: "extends fs1 fs'" and front: "extends fs fs4" using grow by (blast intro: extends_trans)+
  show "h = resolve env p" by (fact h)
  from private_dir_extends [OF ensure_parent_Inr [OF assms(1) run(1)] tail]
  show "private_dir env (resolve env (parent_dir p)) fs'" .
  have "fs_nodes fs4 h = Some m" using lookup_Inr(2) [OF run(3)] readingD [OF reading_lookup(2) run(3)] by simp
  with lock_Inr [OF lock] m front
  show "\<exists>n. fs_nodes fs' h = Some n \<and> nd_kind n = RegularFile \<and> owner_only env n
       \<and> nd_inode n \<notin> fs_locked fs \<and> nd_inode n \<in> fs_locked fs'"
    by (auto simp: extends_def)
  have "tolerated (\<lambda>n. nd_kind n \<noteq> RegularFile \<or> \<not> owner_only env n)
      (fs_nodes fs1 (resolve env (with_suffix p (str_of suffix))))" if "suffix \<in> {''-wal'', ''-shm'', ''-journal''}" for suffix
    using check_all_Inr [OF assms(1) run(2) [unfolded check_sidecars_def], of suffix] that by simp
  with grow(1) tail show "\<exists>fs1. extends fs fs1 \<and> extends fs1 fs' \<and> (\<forall>suffix\<in>{''-wal'', ''-shm'', ''-journal''}.
       tolerated (\<lambda>n. nd_kind n \<noteq> RegularFile \<or> \<not> owner_only env n)
         (fs_nodes fs1 (resolve env (with_suffix p (str_of suffix)))))" by blast
qed

text \<open>A file that did not exist is opened empty.\<close>

lemma make_dirs_new:
  assumes "for_each (make_dir env) ps fs = (r, fs')" "fs_nodes fs q = None" "fs_nodes fs' q = Some n"
  shows "nd_kind n = Directory"
  using assms
proof (induction ps arbitrary: fs)
  case (Cons p ps)
  from Cons.prems(1) have "for_each (make_dir env) (p # ps) fs = (r, fs')" .
  then obtain x fs1 where one: "make_dir env p fs = (x, fs1)"
    and rest: "fs1 = fs' \<or> for_each (make_dir env) ps fs1 = (r, fs')"
    by (auto elim: chain_cases)
  show ?case
  proof (cases "fs_nodes fs1 q")
    case None
    with rest Cons.IH Cons.prems(3) show ?thesis by auto
  next
    case (Some m)
    with one Cons.prems(2) have "nd_kind m = Directory"
      by (auto simp: make_dir_def syscall_def add_node_def ret_def fail_def Let_def split: option.splits if_splits)
    moreover have "fs_nodes fs' q = Some m"
      using rest extends_node [OF extendingD [OF extending_for_each [OF extending_make_dir]] Some] Some by auto
    ultimately show ?thesis using Cons.prems(3) by simp
  qed
qed (simp add: ret_def)

lemma ensure_parent_new:
  assumes "ensure_parent env p fs = (Inr u, fs')" "fs_nodes fs q = None" "fs_nodes fs' q = Some n"
  shows "nd_kind n = Directory"
proof -
  from assms(1) obtain fs1 fs2 fs3 d where run: "check_ancestors env (parent_dir p) fs = (Inr (), fs1)"
    "create_dirs env (parent_dir p) fs1 = (Inr (), fs2)" "check_ancestors env (parent_dir p) fs2 = (Inr (), fs3)"
    "symlink_metadata env (parent_dir p) fs3 = (Inr d, fs')"
    by (auto simp: ensure_parent_def Let_def ret_def fail_def elim!: chainE split: if_splits)
  with make_dirs_new [OF run(2) [unfolded create_dirs_def]] assms(2,3) readingD [OF reading_checks(1) run(1)]
    readingD [OF reading_checks(1) run(3)] readingD [OF reading_lookup(1) run(4)]
  show ?thesis by simp
qed

lemma open_locked_contents:
  assumes "open_locked env p fs = (Inr h, fs')" "fs_nodes fs' h = Some n"
  shows "fs_nodes fs h = Some n \<or> fs_nodes fs h = None \<and> nd_data n = []"
proof (cases "fs_nodes fs h")
  case (Some m)
  with assms extends_node [OF extendingD [OF extending_open_locked assms(1)] Some] show ?thesis by simp
next
  case None
  from assms(1) obtain fs1 fs2 fs3 fs4 m where run: "ensure_parent env p fs = (Inr (), fs1)" "check_sidecars env p fs1 = (Inr (), fs2)"
    "open_file env p fs2 = (Inr h, fs3)" "file_metadata env h fs3 = (Inr m, fs4)" "nd_kind m = RegularFile"
    and lock: "lock_or_refuse env h fs4 = (Inr (), fs')" and h: "h = resolve env p"
    by (rule open_locked_run)
  have m: "fs_nodes fs3 h = Some m" "n = m"
    using lookup_Inr(2) [OF run(4)] readingD [OF reading_lookup(2) run(4)] lock_Inr [OF lock] assms(2) by auto
  have same: "fs_nodes fs2 = fs_nodes fs1" using readingD [OF reading_checks(2) run(2)] by simp
  show ?thesis
  proof (cases "fs_nodes fs1 h")
    case (Some k)
    with extends_node [OF extendingD [OF extending_calls(2) run(3)], of h k] same m ensure_parent_new [OF run(1) None Some] run(5)
    show ?thesis by simp
  next
    case new: None
    then have "nd_data m = []" using syscall_Inr [OF run(3) [unfolded open_file_def]] m(1) same h
      by (auto simp: Let_def add_node_def)
    with None m show ?thesis by simp
  qed
qed

section \<open>When the checks succeed\<close>

text \<open>Without failures of the kernel, on a file system with these nodes, an operation reads a value and changes nothing.\<close>

definition no_failures :: "file_env \<Rightarrow> bool" where
  "no_failures env \<longleftrightarrow> is_absolute (fe_cwd env) \<and> (\<forall>n. fe_fault env n = None)"

definition yields :: "(file_path \<Rightarrow> Node option) \<Rightarrow> (FileSystem \<Rightarrow> ('e + 'a) \<times> FileSystem) \<Rightarrow> 'a \<Rightarrow> bool" where
  "yields nodes m v \<longleftrightarrow> (\<forall>fs. fs_nodes fs = nodes \<longrightarrow> (\<exists>t. m fs = (Inr v, fs\<lparr>fs_ticks := t\<rparr>)))"

lemma yieldsI: "(\<And>fs. fs_nodes fs = nodes \<Longrightarrow> \<exists>t. m fs = (Inr v, fs\<lparr>fs_ticks := t\<rparr>)) \<Longrightarrow> yields nodes m v"
  by (simp add: yields_def)

lemma yieldsD: "yields (fs_nodes fs) m v \<Longrightarrow> fst (m fs) = Inr v \<and> fs_nodes (snd (m fs)) = fs_nodes fs"
  unfolding yields_def by (metis FileSystem.select_convs(1) FileSystem.surjective FileSystem.update_convs(4) fst_conv snd_conv)

lemma yields_ret: "yields nodes (ret v) v"
  by (rule yieldsI) (metis FileSystem.surjective FileSystem.update_convs(4) ret_def)

lemma yields_chain:
  assumes "yields nodes m v" "yields nodes (f v) u" shows "yields nodes (chain m f) u"
proof (rule yieldsI)
  fix fs :: FileSystem assume fs: "fs_nodes fs = nodes"
  with assms(1) obtain t where t: "m fs = (Inr v, fs\<lparr>fs_ticks := t\<rparr>)" by (auto simp: yields_def)
  from fs have "fs_nodes (fs\<lparr>fs_ticks := t\<rparr>) = nodes" by simp
  with assms(2) obtain t' where "f v (fs\<lparr>fs_ticks := t\<rparr>) = (Inr u, fs\<lparr>fs_ticks := t\<rparr>\<lparr>fs_ticks := t'\<rparr>)"
    unfolding yields_def by blast
  with t show "\<exists>t. chain m f fs = (Inr u, fs\<lparr>fs_ticks := t\<rparr>)" by (auto simp: chain_def)
qed

lemma yields_for_each: "(\<And>x. x \<in> set xs \<Longrightarrow> yields nodes (f x) ()) \<Longrightarrow> yields nodes (for_each f xs) ()"
  by (induction xs) (auto intro: yields_ret yields_chain)

lemma yields_syscall:
  assumes "no_failures env" "\<And>fs. fs_nodes fs = nodes \<Longrightarrow> f fs = (Inr v, fs)"
  shows "yields nodes (syscall env f) v"
  using assms by (auto simp: yields_def syscall_def no_failures_def Let_def intro!: exI)

lemma yields_lookup:
  assumes "no_failures env"
  shows "nodes (resolve env p) = Some n \<Longrightarrow> yields nodes (symlink_metadata env p) n"
    "nodes h = Some n \<Longrightarrow> yields nodes (file_metadata env h) n"
  unfolding symlink_metadata_def file_metadata_def
  by (auto intro!: yields_syscall [OF assms] simp: node_at_def)

lemma yields_check_existing:
  assumes "no_failures env" "nodes (resolve env p) = Some n" "\<not> refused n"
  shows "yields nodes (check_existing env refused complaint p) ()"
proof (rule yieldsI)
  fix fs :: FileSystem assume fs: "fs_nodes fs = nodes"
  with yields_lookup(1) [where nodes = nodes and p = p, OF assms(1,2)] obtain t where "symlink_metadata env p fs = (Inr n, fs\<lparr>fs_ticks := t\<rparr>)"
    by (auto simp: yields_def)
  with assms(3) show "\<exists>t. check_existing env refused complaint p fs = (Inr (), fs\<lparr>fs_ticks := t\<rparr>)"
    by (auto simp: check_existing_def ret_def)
qed

lemma resolve_is_absolute: "is_absolute (fe_cwd env) \<Longrightarrow> is_absolute (resolve env p)"
  by (simp add: resolve_def path_join_def)

lemma yields_check_ancestors:
  assumes "no_failures env" "\<And>a. a \<in> set (path_ancestors (resolve env p)) \<Longrightarrow> \<exists>n. nodes a = Some n \<and> \<not> unsafe_ancestor n"
  shows "yields nodes (check_ancestors env p) ()"
proof -
  have "yields nodes (if is_absolute p then ret p
      else chain (syscall env (\<lambda>fs. (Inr (fe_cwd env), fs))) (\<lambda>d. ret (path_join d p))) (resolve env p)"
  proof (cases "is_absolute p")
    case True
    then show ?thesis by (simp add: yields_ret resolve_absolute)
  next
    case False
    have "yields nodes (syscall env (\<lambda>fs. (Inr (fe_cwd env), fs))) (fe_cwd env)"
      by (rule yields_syscall [OF assms(1)]) simp
    from yields_chain [OF this, of "\<lambda>d. ret (path_join d p)", OF yields_ret] False show ?thesis by (simp add: resolve_def)
  qed
  moreover have "yields nodes (for_each (check_existing env unsafe_ancestor ''unsafe directory ancestor'')
      (path_ancestors (resolve env p))) ()"
  proof (rule yields_for_each)
    fix a assume a: "a \<in> set (path_ancestors (resolve env p))"
    then have "resolve env a = a"
      using ancestors_absolute [OF a] resolve_is_absolute [of env p] assms(1) by (simp add: resolve_absolute no_failures_def)
    with assms(2) [OF a] show "yields nodes (check_existing env unsafe_ancestor ''unsafe directory ancestor'' a) ()"
      by (auto intro: yields_check_existing [OF assms(1)])
  qed
  ultimately show ?thesis unfolding check_ancestors_def by (rule yields_chain)
qed

lemma yields_ensure_parent:
  assumes "no_failures env" "private_dir env (resolve env (parent_dir p)) fs"
  shows "yields (fs_nodes fs) (ensure_parent env p) ()"
proof -
  let ?q = "resolve env (parent_dir p)"
  from assms(2) obtain d where d: "fs_nodes fs ?q = Some d" "nd_kind d = Directory" "owner_only env d"
    and safe: "\<And>a. a \<in> set (path_ancestors ?q) \<Longrightarrow> \<exists>n. fs_nodes fs a = Some n \<and> \<not> unsafe_ancestor n"
    by (auto simp: private_dir_def)
  have "yields (fs_nodes fs) (make_dir env a) ()" if a: "a \<in> set (path_ancestors ?q)" for a
  proof (rule yieldsI)
    fix fs' :: FileSystem assume "fs_nodes fs' = fs_nodes fs"
    with safe [OF a] have "make_dir env a fs' = (Inr (), fs')"
      by (auto simp: make_dir_def ret_def unsafe_ancestor_def)
    then show "\<exists>t. make_dir env a fs' = (Inr (), fs'\<lparr>fs_ticks := t\<rparr>)" by (intro exI [of _ "fs_ticks fs'"]) simp
  qed
  then have made: "yields (fs_nodes fs) (create_dirs env (parent_dir p)) ()"
    unfolding create_dirs_def by (intro yields_for_each) simp
  have checked: "yields (fs_nodes fs) (check_ancestors env (parent_dir p)) ()"
    by (rule yields_check_ancestors [OF assms(1) safe])
  have found: "yields (fs_nodes fs) (symlink_metadata env (parent_dir p)) d"
    using d(1) by (rule yields_lookup(1) [OF assms(1)])
  show ?thesis unfolding ensure_parent_def Let_def
    by (rule yields_chain, rule checked made found)+ (simp add: d yields_ret)
qed

end
