(* ===== verification/Client_Connection.thy ===== *)
theory Client_Connection
  imports Client_Delivery Private_Files
begin

text \<open>
  How the client gets a session (\<open>grotto-client/src/lib.rs\<close>, \<open>connect\<close>, the module \<open>tls\<close> and the loop of
  \<open>run_inner\<close>, and the reader task of \<open>delivery.rs\<close>): the relay's certificate is compared with a pin, the
  login of three exchanges follows, a task turns the bytes of the connection into messages, and when
  the connection is lost the client waits and tries again. TCP, TLS and the clock are arguments.
\<close>

section \<open>The reader task\<close>

text \<open>\<open>read_client_frame\<close>: one byte without a deadline, then the frame it starts.\<close>

definition read_client_frame :: "bool \<Rightarrow> reader \<Rightarrow> (client_error + bytes option) \<times> reader" where
  "read_client_frame timed_out r =
     (case read_some 1 r of
        (Inl e, r') \<Rightarrow> (Inl (ClientIo e), r')
      | (Inr [], r') \<Rightarrow> (Inr None, r')
      | (Inr first, r') \<Rightarrow>
          if timed_out then (Inl ClientElapsed, r')
          else (case read_frame (Chunk first # r') of
                  (Inl e, r'') \<Rightarrow> (Inl (ClientIo (error_kind e)), r'')
                | (Inr frame, r'') \<Rightarrow> (Inr frame, r'')))"

definition read_message :: "postcard \<Rightarrow> bool \<Rightarrow> reader \<Rightarrow> incoming \<times> reader" where
  "read_message pc timed_out r =
     (case read_client_frame timed_out r of
        (Inr (Some bs), r') \<Rightarrow>
          (case decode_message (take_relay_message pc) bs of
             Inl e \<Rightarrow> (Broken (ClientDecode e), r') | Inr message \<Rightarrow> (Arrived message, r'))
      | (Inr None, r') \<Rightarrow> (Broken disconnected, r')
      | (Inl e, r') \<Rightarrow> (Broken e, r'))"

text \<open>The bytes a reader still holds: a complete frame uses up at least its header.\<close>

definition bytes_left :: "reader \<Rightarrow> nat" where
  "bytes_left r = sum_list (map (\<lambda>ev. case ev of Chunk c \<Rightarrow> length c | ReadError _ \<Rightarrow> 0) r)"

lemma bytes_left_simps [simp]:
  "bytes_left [] = 0" "bytes_left (Chunk c # r) = length c + bytes_left r" "bytes_left (ReadError e # r) = bytes_left r"
  by (simp_all add: bytes_left_def)

lemma read_some_uses: "read_some k r = (q, r') \<Longrightarrow> bytes_left r' + (case q of Inl _ \<Rightarrow> 0 | Inr c \<Rightarrow> length c) = bytes_left r"
  by (induction k r rule: read_some.induct) (auto simp: min_def split: if_splits)

lemma read_exact_uses:
  "read_exact k got r = (Inr bs, r') \<Longrightarrow> length got \<le> length bs \<and> bytes_left r' + (length bs - length got) = bytes_left r"
proof (induction k got r rule: read_exact.induct)
  case (1 k got r)
  show ?case
  proof (cases "length got < k")
    case True
    obtain q r1 where some: "read_some (k - length got) r = (q, r1)" by (cases "read_some (k - length got) r")
    with 1(2) True obtain c where c: "q = Inr c" "c \<noteq> []" and rest: "read_exact k (got @ c) r1 = (Inr bs, r')"
      by (subst (asm) read_exact.simps) (auto split: sum.splits if_splits)
    from 1(1) [OF True some [unfolded c(1), symmetric] refl c(2) rest] read_some_uses [OF some] c(1) show ?thesis by auto
  next
    case False
    with 1(2) show ?thesis by (subst (asm) read_exact.simps) simp
  qed
qed

lemma read_header_uses:
  "read_header header r = (Inr (Some bs), r') \<Longrightarrow>
   length header \<le> length bs \<and> 4 \<le> length bs \<and> bytes_left r' + (length bs - length header) = bytes_left r"
proof (induction header r rule: read_header.induct)
  case (1 header r)
  show ?case
  proof (cases "length header < 4")
    case True
    obtain q r1 where some: "read_some (4 - length header) r = (q, r1)" by (cases "read_some (4 - length header) r")
    note uses = read_some_uses [OF some]
    show ?thesis
    proof (cases q)
      case (Inl e)
      with 1(3) True some have "e = Interrupted" "read_header header r1 = (Inr (Some bs), r')"
        by (subst (asm) read_header.simps, auto split: if_splits)+
      with 1(1) [OF True some [unfolded Inl, symmetric] refl] uses Inl show ?thesis by auto
    next
      case (Inr c)
      with 1(3) True some have c: "c \<noteq> []" "read_header (header @ c) r1 = (Inr (Some bs), r')"
        by (subst (asm) read_header.simps, auto split: if_splits)+
      with 1(2) [OF True some [unfolded Inr, symmetric] refl] uses Inr show ?thesis by auto
    qed
  next
    case False
    with 1(3) show ?thesis by (subst (asm) read_header.simps) simp
  qed
qed

lemma read_frame_uses: "read_frame r = (Inr (Some payload), r') \<Longrightarrow> bytes_left r' < bytes_left r"
  by (auto simp: read_frame_def Let_def dest!: read_header_uses read_exact_uses
      split: prod.splits sum.splits option.splits if_splits)

lemma read_message_uses: "read_message pc timed_out r = (Arrived message, r') \<Longrightarrow> bytes_left r' < bytes_left r"
proof -
  assume run: "read_message pc timed_out r = (Arrived message, r')"
  obtain q r1 where some: "read_some 1 r = (q, r1)" by (cases "read_some 1 r")
  with run obtain first payload where "q = Inr first" "read_frame (Chunk first # r1) = (Inr (Some payload), r')"
    by (auto simp: read_message_def read_client_frame_def split: sum.splits list.splits option.splits if_splits prod.splits)
  with read_some_uses [OF some] read_frame_uses [OF this(2)] show ?thesis by simp
qed

text \<open>
  The task: messages until the first failure, which it hands over as well. The deadlines of the frames are
  numbered.
\<close>

function reader_task :: "postcard \<Rightarrow> (nat \<Rightarrow> bool) \<Rightarrow> nat \<Rightarrow> reader \<Rightarrow> incoming list" where
  "reader_task pc timed_out n r =
     (case read_message pc (timed_out n) r of
        (Arrived message, r') \<Rightarrow> Arrived message # reader_task pc timed_out (Suc n) r'
      | (result, _) \<Rightarrow> [result])"
  by pat_completeness auto
termination
  by (relation "measure (\<lambda>(pc, timed_out, n, r). bytes_left r)") (auto intro: read_message_uses dest: sym)

declare reader_task.simps [simp del]

section \<open>The login\<close>

text \<open>The connection during the login: what the relay sends, the frames written, and failures of writes.\<close>

record Socket =
  so_reader :: reader
  so_sent :: "bytes list"
  so_fault :: "nat \<Rightarrow> io_error option"

type_synonym 'a socket_op = "Socket \<Rightarrow> (client_error + 'a) \<times> Socket"

definition socket_send :: "postcard \<Rightarrow> ClientMessage \<Rightarrow> unit socket_op" where
  "socket_send pc message so =
     (case encode_as (ser_client_message pc) message of
        Inl e \<Rightarrow> (Inl e, so)
      | Inr encoded \<Rightarrow>
          (case so_fault so (length (so_sent so)) of
             Some e \<Rightarrow> (Inl (ClientIo (error_kind e)), so)
           | None \<Rightarrow> (Inr (), so\<lparr>so_sent := so_sent so @ [encoded]\<rparr>)))"

definition socket_receive :: "postcard \<Rightarrow> RelayMessage socket_op" where
  "socket_receive pc so =
     (case read_frame (so_reader so) of
        (Inl e, r) \<Rightarrow> (Inl (ClientIo (error_kind e)), so\<lparr>so_reader := r\<rparr>)
      | (Inr None, r) \<Rightarrow> (Inl disconnected, so\<lparr>so_reader := r\<rparr>)
      | (Inr (Some bs), r) \<Rightarrow> (decode_as (take_relay_message pc) bs, so\<lparr>so_reader := r\<rparr>))"

definition login_hello :: "postcard \<Rightarrow> unit socket_op" where
  "login_hello pc =
     chain (socket_send pc (ClientHello PROTOCOL_VERSION)) (\<lambda>_.
     chain (socket_receive pc) (\<lambda>response.
     case response of
       ServerHello version \<Rightarrow>
         if version \<noteq> PROTOCOL_VERSION then fail (ClientMessageText ''unsupported protocol version'') else ret ()
     | ProtocolErrorMessage _ error \<Rightarrow> fail (ClientProtocol error)
     | _ \<Rightarrow> fail (ClientMessageText ''unexpected handshake message'')))"

definition login_identify ::
  "postcard \<Rightarrow> UserId \<Rightarrow> Ed25519PublicKeyBytes \<Rightarrow> bytes option \<Rightarrow> AuthenticationChallenge socket_op" where
  "login_identify pc user key enrollment =
     chain (socket_send pc (ClientIdentify user key enrollment)) (\<lambda>_.
     chain (socket_receive pc) (\<lambda>response.
     case response of
       ServerAuthenticationChallenge challenge \<Rightarrow> ret challenge
     | ProtocolErrorMessage _ error \<Rightarrow> fail (ClientProtocol error)
     | _ \<Rightarrow> fail (ClientMessageText ''expected ServerAuthenticationChallenge'')))"

definition login_accept :: "postcard \<Rightarrow> UserId \<Rightarrow> Ed25519SignatureBytes \<Rightarrow> unit socket_op" where
  "login_accept pc user signature =
     chain (socket_send pc (ClientAuthenticationResponse signature)) (\<lambda>_.
     chain (socket_receive pc) (\<lambda>response.
     case response of
       ServerIdentifyAccepted accepted \<Rightarrow>
         if accepted \<noteq> user then fail (ClientMessageText ''relay acknowledged wrong user ID'') else ret ()
     | ProtocolErrorMessage _ error \<Rightarrow> fail (ClientProtocol error)
     | _ \<Rightarrow> fail (ClientMessageText ''unexpected identity response'')))"

text \<open>\<open>GROTTO_ENROLLMENT_TOKEN\<close>, if it is set.\<close>

definition enrollment_token :: "rstr option \<Rightarrow> client_error + bytes option" where
  "enrollment_token var =
     (case var of
        None \<Rightarrow> Inr None
      | Some text \<Rightarrow>
          (case parse_fingerprint_hex text of
             Inl _ \<Rightarrow> Inl (ClientMessageText ''invalid enrollment token'') | Inr token \<Rightarrow> Inr (Some token)))"

definition login :: "('g, 'm) client_world \<Rightarrow> bytes \<Rightarrow> rstr option \<Rightarrow> unit socket_op" where
  "login w seed token_var =
     (let user = cw_user w; key = Ed25519PublicKeyBytes (cw_public_of w seed) in
      chain (login_hello (cw_pc w)) (\<lambda>_.
      chain (from_result (enrollment_token token_var)) (\<lambda>enrollment.
      chain (login_identify (cw_pc w) user key enrollment) (\<lambda>challenge.
      login_accept (cw_pc w) user
        (Ed25519SignatureBytes (cw_sign w seed (authentication_transcript PROTOCOL_VERSION user key challenge)))))))"

section \<open>The pinned certificate\<close>

text \<open>
  \<open>str::lines\<close>: the pieces ended by a line feed, each without one carriage return before it, and what
  follows the last line feed if that is not empty.
\<close>

definition chomp :: "rstr \<Rightarrow> rstr" where
  "chomp line = (if line \<noteq> [] \<and> last line = 13 then butlast line else line)"

lemma tl_dropWhile_shorter: "dropWhile P s \<noteq> [] \<Longrightarrow> length (tl (dropWhile P s)) < length s"
proof -
  assume "dropWhile P s \<noteq> []"
  then have "length (tl (dropWhile P s)) < length (dropWhile P s)" by simp
  also have "\<dots> \<le> length s" by (rule length_dropWhile_le)
  finally show ?thesis .
qed

function text_lines :: "rstr \<Rightarrow> rstr list" where
  "text_lines s =
     (if s = [] then []
      else let line = takeWhile (\<lambda>c. c \<noteq> 10) s; rest = dropWhile (\<lambda>c. c \<noteq> 10) s in
        if rest = [] then [line] else chomp line # text_lines (tl rest))"
  by pat_completeness auto
termination
  by (relation "measure length") (auto intro!: tl_dropWhile_shorter simp: dropWhile_eq_Nil_conv simp del: length_tl)

declare text_lines.simps [simp del]

definition PIN_LIMIT :: nat where
  "PIN_LIMIT = 64 * 1024"

definition malformed_pin :: "rstr \<Rightarrow> bool" where
  "malformed_pin line \<longleftrightarrow>
     (case split_whitespace line of [_, fingerprint] \<Rightarrow> isl (parse_fingerprint_hex fingerprint) | _ \<Rightarrow> True)"

text \<open>The loop over the lines: the first entry of the address decides.\<close>

fun find_pin :: "rstr \<Rightarrow> rstr \<Rightarrow> rstr list \<Rightarrow> bool option" where
  "find_pin addr fingerprint [] = None"
| "find_pin addr fingerprint (line # rest) =
     (case split_whitespace line of
        a # parts \<Rightarrow>
          if a = addr then Some (case parts of pinned # _ \<Rightarrow> pinned = fingerprint | [] \<Rightarrow> False)
          else find_pin addr fingerprint rest
      | [] \<Rightarrow> find_pin addr fingerprint rest)"

datatype pin_answer = PinKnown | PinNew rstr | PinError string

text \<open>What the contents of the pin file say about an address.\<close>

definition consult_pins :: "rstr \<Rightarrow> rstr \<Rightarrow> rstr \<Rightarrow> pin_answer" where
  "consult_pins addr fingerprint existing =
     (if existing \<noteq> [] \<and> last existing \<noteq> 10 then PinError ''incomplete relay pin record''
      else if list_ex malformed_pin (text_lines existing) then PinError ''malformed relay pin record''
      else case find_pin addr fingerprint (text_lines existing) of
        Some True \<Rightarrow> PinKnown
      | Some False \<Rightarrow> PinError ''relay fingerprint mismatch''
      | None \<Rightarrow>
          let line = addr @ [32] @ fingerprint @ [10] in
          if str_len existing + str_len line > PIN_LIMIT then PinError ''relay pin file exceeds its size budget''
          else PinNew line)"

type_synonym 'a disk_op = "FileSystem \<Rightarrow> (client_error + 'a) \<times> FileSystem"

definition on_disk :: "'a file_op \<Rightarrow> 'a disk_op" where
  "on_disk m fs = (let (r, fs') = m fs in (map_err (\<lambda>e. ClientIo (file_error_kind e)) r, fs'))"

text \<open>\<open>write_all\<close> at the end of the file, after the seek.\<close>

definition append_all :: "file_env \<Rightarrow> file_path \<Rightarrow> bytes \<Rightarrow> bytes \<Rightarrow> unit file_op" where
  "append_all env h old contents fs =
     (case fe_fault env (fs_ticks fs) of
        Some k \<Rightarrow> (Inl (OsError k), set_data h (old @ take (fe_written env (fs_ticks fs)) contents) (fs\<lparr>fs_ticks := Suc (fs_ticks fs)\<rparr>))
      | None \<Rightarrow> (Inr (), set_data h (old @ contents) (fs\<lparr>fs_ticks := Suc (fs_ticks fs)\<rparr>)))"

definition pin_body :: "file_env \<Rightarrow> file_path \<Rightarrow> rstr \<Rightarrow> rstr \<Rightarrow> bool disk_op" where
  "pin_body env h addr fingerprint =
     chain (on_disk (file_metadata env h)) (\<lambda>meta.
     if length (nd_data meta) > PIN_LIMIT then fail (ClientMessageText ''relay pin file exceeds its size budget'')
     else
       chain (on_disk (file_metadata env h)) (\<lambda>meta.
       case utf8_decode (nd_data meta) of
         None \<Rightarrow> fail (ClientIo InvalidData)
       | Some existing \<Rightarrow>
           (case consult_pins addr fingerprint existing of
              PinKnown \<Rightarrow> ret False
            | PinError t \<Rightarrow> fail (ClientMessageText t)
            | PinNew line \<Rightarrow>
                chain (on_disk (append_all env h (nd_data meta) (utf8_encode line))) (\<lambda>_.
                chain (on_disk (sync_all env)) (\<lambda>_.
                ret True)))))"

definition ensure_pinned :: "file_env \<Rightarrow> file_path \<Rightarrow> rstr \<Rightarrow> rstr \<Rightarrow> bool disk_op" where
  "ensure_pinned env p addr fingerprint =
     chain (on_disk (open_locked env p)) (\<lambda>h fs.
     let (r, fs') = pin_body env h addr fingerprint fs in (r, close_file h fs'))"

text \<open>The place of the pin file (\<open>pin_file\<close>, \<open>default_identity_directory\<close> of \<open>identity.rs\<close>).\<close>

definition default_identity_directory :: "file_path option \<Rightarrow> file_path option \<Rightarrow> client_error + file_path" where
  "default_identity_directory xdg_data_home home =
     (let fallback = (case home of
         None \<Rightarrow> Inl (ClientMessageText ''cannot locate identity directory: neither absolute XDG_DATA_HOME nor HOME is set'')
       | Some p \<Rightarrow> Inr (path_join p (FilePath False [str_of ''.local'', str_of ''share'', str_of ''grotto''])))
      in case xdg_data_home of
           None \<Rightarrow> fallback
         | Some p \<Rightarrow> if is_absolute p then Inr (path_join p (FilePath False [str_of ''grotto''])) else fallback)"

definition default_store_path :: "file_path option \<Rightarrow> file_path option \<Rightarrow> client_error + file_path" where
  "default_store_path xdg_data_home home =
     and_then (default_identity_directory xdg_data_home home) (\<lambda>dir.
     Inr (path_join dir (FilePath False [str_of ''client.db''])))"

definition pin_file :: "file_path option \<Rightarrow> file_path option \<Rightarrow> file_path option \<Rightarrow> client_error + file_path" where
  "pin_file pin_path_var xdg_data_home home =
     (case pin_path_var of
        Some p \<Rightarrow> Inr p
      | None \<Rightarrow>
          and_then (default_identity_directory xdg_data_home home) (\<lambda>dir.
          Inr (path_join dir (FilePath False [str_of ''relay_pins'']))))"

text \<open>
  The comparison of \<open>tls::connect\<close> after the handshake: a pin given in the environment, or the pin file.
  \<open>to_lowercase\<close> is Unicode's and an argument.
\<close>

definition check_certificate ::
  "file_env \<Rightarrow> (bytes \<Rightarrow> bytes) \<Rightarrow> (rstr \<Rightarrow> rstr) \<Rightarrow> rstr option \<Rightarrow> client_error + file_path
   \<Rightarrow> rstr \<Rightarrow> bytes option \<Rightarrow> bool disk_op" where
  "check_certificate env sha256 to_lowercase fingerprint_var pins addr presented =
     (case presented of
        None \<Rightarrow> fail (ClientMessageText ''TLS peer presented no certificate'')
      | Some cert \<Rightarrow>
          let fingerprint = cert_fingerprint_sha256_hex sha256 cert in
          (case fingerprint_var of
             Some text \<Rightarrow>
               let pinned = to_lowercase (trim text) in
               if isl (parse_fingerprint_hex pinned) then fail (ClientMessageText ''invalid GROTTO_RELAY_FINGERPRINT'')
               else if pinned \<noteq> fingerprint then fail (ClientMessageText ''relay fingerprint mismatch'')
               else ret False
           | None \<Rightarrow> chain (from_result pins) (\<lambda>p. ensure_pinned env p addr fingerprint)))"

section \<open>Connecting\<close>

text \<open>
  \<open>server_name_for\<close>: the host part of the address without brackets; whether it is an IP address or
  a host name is decided by the libraries' parsers.
\<close>

definition host_of :: "rstr \<Rightarrow> rstr" where
  "host_of address =
     (let host = (if 58 \<in> set address then rev (tl (dropWhile (\<lambda>c. c \<noteq> 58) (rev address))) else address);
          bracket = (\<lambda>c. c = 91 \<or> c = 93) in
      rev (dropWhile bracket (rev (dropWhile bracket host))))"

record client_config =
  cg_address :: rstr
  cg_fingerprint :: "rstr option"
  cg_pins :: "client_error + file_path"
  cg_token :: "rstr option"
  cg_to_lowercase :: "rstr \<Rightarrow> rstr"
  cg_is_ip :: "rstr \<Rightarrow> bool"
  cg_is_dns_name :: "rstr \<Rightarrow> bool"

definition server_name_for :: "client_config \<Rightarrow> client_error + rstr" where
  "server_name_for cfg =
     (let host = host_of (cg_address cfg) in
      if cg_is_ip cfg host \<or> cg_is_dns_name cfg host then Inr host
      else Inl (ClientMessageText ''invalid relay hostname''))"

text \<open>
  What an attempt to connect meets. The deadline of ten seconds ends the attempt while it waits: before
  the certificate is there, or during the login.
\<close>

datatype deadline = InTime | LateHandshake | LateLogin

record connect_env =
  cn_deadline :: deadline
  cn_tcp :: "io_kind option"
  cn_tls :: "io_kind option"
  cn_presented :: "bytes option"
  cn_disk :: file_env
  cn_reader :: reader
  cn_fault :: "nat \<Rightarrow> io_error option"

definition handshake_failure :: "client_config \<Rightarrow> connect_env \<Rightarrow> client_error option" where
  "handshake_failure cfg ce =
     (case cn_tcp ce of
        Some k \<Rightarrow> Some (ClientIo k)
      | None \<Rightarrow>
          (case server_name_for cfg of
             Inl e \<Rightarrow> Some e
           | Inr _ \<Rightarrow> map_option ClientIo (cn_tls ce)))"

definition connect :: "('g, 'm) client_world \<Rightarrow> client_config \<Rightarrow> bytes \<Rightarrow> connect_env \<Rightarrow> Socket disk_op" where
  "connect w cfg seed ce =
     (case handshake_failure cfg ce of
        Some e \<Rightarrow> fail e
      | None \<Rightarrow>
          if cn_deadline ce = LateHandshake then fail ClientElapsed
          else
            chain (check_certificate (cn_disk ce) (cw_sha256 w) (cg_to_lowercase cfg) (cg_fingerprint cfg) (cg_pins cfg)
                     (cg_address cfg) (cn_presented ce)) (\<lambda>_ fs.
            if cn_deadline ce = LateLogin then (Inl ClientElapsed, fs)
            else (case login w seed (cg_token cfg) \<lparr>so_reader = cn_reader ce, so_sent = [], so_fault = cn_fault ce\<rparr> of
                    (Inl e, _) \<Rightarrow> (Inl e, fs)
                  | (Inr _, so) \<Rightarrow> (Inr so, fs))))"

section \<open>Reconnecting\<close>

definition retryable :: "client_error \<Rightarrow> bool" where
  "retryable error =
     (case error of
        ClientElapsed \<Rightarrow> True
      | ClientIo k \<Rightarrow>
          k \<in> {ConnectionReset, ConnectionRefused, ConnectionAborted, TimedOut, BrokenPipe, UnexpectedEof, NotConnected}
      | _ \<Rightarrow> False)"

definition wait_millis :: "u64 \<Rightarrow> u8 \<Rightarrow> u64" where
  "wait_millis delay jitter = min (delay * 1000 + ucast jitter * delay * 2) 30000"

definition next_delay :: "u64 \<Rightarrow> u64" where
  "next_delay delay = min (delay * 2) 30"

text \<open>
  Time passes between the messages of the relay: before each of them the waiting side may have seen any
  number of deadlines pass.
\<close>

fun interleave :: "nat list \<Rightarrow> incoming list \<Rightarrow> incoming list" where
  "interleave [] script = script"
| "interleave (n # ns) [] = replicate n Silence"
| "interleave (n # ns) (x # script) = replicate n Silence @ x # interleave ns script"

record round =
  rd_connect :: connect_env
  rd_timed_out :: "nat \<Rightarrow> bool"
  rd_silences :: "nat list"
  rd_wire_fault :: "nat \<Rightarrow> client_error option"
  rd_picks :: "pick list"
  rd_slow :: bool
  rd_input_done :: bool
  rd_jitter :: "u8 option"

definition session_wire :: "('g, 'm) client_world \<Rightarrow> round \<Rightarrow> Socket \<Rightarrow> Wire" where
  "session_wire w rd so =
     \<lparr>wr_incoming = interleave (rd_silences rd) (reader_task (cw_pc w) (rd_timed_out rd) 0 (so_reader so)),
      wr_sent = [], wr_fault = rd_wire_fault rd\<rparr>"

text \<open>
  One round of the loop: connect, then run a session on a fresh MLS session over the same store. The
  value is \<open>None\<close> while the session goes on.
\<close>

definition run_round ::
  "('g, 'm) client_world \<Rightarrow> client_config \<Rightarrow> bytes \<Rightarrow> round \<Rightarrow> 'g Engine \<times> FileSystem
   \<Rightarrow> (client_error + unit) option \<times> 'g Engine \<times> FileSystem" where
  "run_round w cfg seed rd st =
     (case st of (e, fs) \<Rightarrow>
      case connect w cfg seed (rd_connect rd) fs of
        (Inl error, fs') \<Rightarrow> (Some (Inl error), e, fs')
      | (Inr so, fs') \<Rightarrow>
          (case run_engine w (rd_picks rd) \<lparr>cl_engine = e\<lparr>en_groups := []\<rparr>, cl_wire = session_wire w rd so\<rparr> of
             (Inl error, cl) \<Rightarrow> (Some (Inl error), cl_engine cl, fs')
           | (Inr True, cl) \<Rightarrow> (None, cl_engine cl, fs')
           | (Inr False, cl) \<Rightarrow> (Some (Inr ()), cl_engine cl, fs')))"

text \<open>The loop of \<open>run_inner\<close>, with the times it slept.\<close>

fun run_rounds ::
  "('g, 'm) client_world \<Rightarrow> client_config \<Rightarrow> bytes \<Rightarrow> u64 \<Rightarrow> round list \<Rightarrow> 'g Engine \<times> FileSystem
   \<Rightarrow> ((client_error + unit) option \<times> u64 list) \<times> 'g Engine \<times> FileSystem" where
  "run_rounds w cfg seed delay [] st = ((None, []), st)"
| "run_rounds w cfg seed delay (rd # rds) st =
     (case run_round w cfg seed rd st of
        (None, st') \<Rightarrow> ((None, []), st')
      | (Some (Inr _), st') \<Rightarrow> ((Some (Inr ()), []), st')
      | (Some (Inl error), st') \<Rightarrow>
          if \<not> retryable error then ((Some (Inl error), []), st')
          else if rd_input_done rd then ((Some (Inr ()), []), st')
          else
            let delay = (if rd_slow rd then 1 else delay) in
            (case rd_jitter rd of
               None \<Rightarrow> ((Some (Inl ClientRandomness), []), st')
             | Some jitter \<Rightarrow>
                 (case run_rounds w cfg seed (next_delay delay) rds st' of
                    ((r, waits), st'') \<Rightarrow> ((r, wait_millis delay jitter # waits), st''))))"

section \<open>Reading a pin file\<close>

lemma utf8_take_append: "utf8_take bs = Some (c, rest) \<Longrightarrow> utf8_take (bs @ xs) = Some (c, rest @ xs)"
  by (cases bs) (auto simp: Let_def split: if_splits list.splits)

lemma utf8_decode_append:
  "utf8_decode bs = Some s \<Longrightarrow> valid_str t \<Longrightarrow> utf8_decode (bs @ utf8_encode t) = Some (s @ t)"
proof (induction bs arbitrary: s rule: utf8_decode.induct)
  case (1 bs)
  show ?case
  proof (cases "bs = []")
    case True
    with 1 show ?thesis by (simp add: utf8_roundtrip)
  next
    case False
    with "1.prems"(1) obtain c rest u where one: "utf8_take bs = Some (c, rest)" "utf8_decode rest = Some u" "s = c # u"
      by (subst (asm) utf8_decode.simps) (auto split: option.splits)
    from "1.IH" [OF False one(1) refl one(2) "1.prems"(2)] utf8_take_append [OF one(1)] False one(3)
    show ?thesis by (subst utf8_decode.simps) simp
  qed
qed

lemma takeWhile_line: "10 \<notin> set line \<Longrightarrow> takeWhile (\<lambda>c. c \<noteq> 10) (line @ 10 # rest) = line"
  by (induction line) auto

lemma dropWhile_line: "10 \<notin> set line \<Longrightarrow> dropWhile (\<lambda>c. c \<noteq> 10) (line @ 10 # rest) = 10 # rest"
  by (induction line) auto

lemma text_lines_add:
  assumes "10 \<notin> set line" "line = [] \<or> last line \<noteq> 13"
  shows "existing = [] \<or> last existing = 10 \<Longrightarrow> text_lines (existing @ line @ [10]) = text_lines existing @ [line]"
proof (induction existing rule: text_lines.induct)
  case (1 s)
  show ?case
  proof (cases "s = []")
    case True
    with assms show ?thesis
      by (subst text_lines.simps) (auto simp: takeWhile_line dropWhile_line text_lines.simps chomp_def Let_def)
  next
    case False
    with "1.prems" have ends: "last s = 10" "10 \<in> set s" using last_in_set [OF False] by auto
    then obtain front rest where s: "s = front @ 10 # rest" "10 \<notin> set front" by (metis split_list_first)
    have "text_lines (rest @ line @ [10]) = text_lines rest @ [line]"
      using "1.IH" [OF False refl refl] ends s by (simp add: takeWhile_line dropWhile_line split: if_splits)
    then show ?thesis using s False
      by (subst text_lines.simps, subst (2) text_lines.simps) (simp add: takeWhile_line dropWhile_line Let_def)
  qed
qed

text \<open>A word: not empty, without white space.\<close>

definition is_word :: "rstr \<Rightarrow> bool" where
  "is_word s \<longleftrightarrow> s \<noteq> [] \<and> valid_str s \<and> \<not> list_ex is_whitespace s"

lemma split_words:
  assumes "is_word a" "is_word b"
  shows "split_whitespace (a @ 32 # b) = [a, b]"
proof -
  have word: "trim_start (x @ r) = x @ r" if "is_word x" for x r
    using that by (cases x) (auto simp: is_word_def trim_start_def)
  have whole: "takeWhile (\<lambda>x. \<not> is_whitespace x) x = x" "dropWhile (\<lambda>x. \<not> is_whitespace x) x = []"
    if "\<not> list_ex is_whitespace x" for x
    using that by (auto simp: list_ex_iff)
  have cut: "takeWhile (\<lambda>x. \<not> is_whitespace x) (x @ 32 # r) = x" "dropWhile (\<lambda>x. \<not> is_whitespace x) (x @ 32 # r) = 32 # r"
    if "\<not> list_ex is_whitespace x" for x r
    using that by (induction x) (auto simp: is_whitespace_def)
  have blank: "trim_start (32 # r) = trim_start r" for r by (simp add: trim_start_def is_whitespace_def)
  have empty: "split_whitespace [] = []" by (subst split_whitespace.simps) (simp add: trim_start_def)
  obtain x xs y ys where ab: "a = x # xs" "b = y # ys" using assms by (auto simp: is_word_def neq_Nil_conv)
  have "\<not> list_ex is_whitespace xs" "\<not> list_ex is_whitespace ys" using assms ab by (auto simp: is_word_def)
  moreover have "trim_start (x # xs @ 32 # y # ys) = x # xs @ 32 # y # ys" "trim_start (y # ys) = y # ys"
    using word [OF assms(1), of "32 # b"] word [OF assms(2), of "[]"] ab by simp_all
  moreover have "split_whitespace (32 # y # ys) = [y # ys]"
    by (subst split_whitespace.simps) (simp add: blank calculation whole empty)
  ultimately show ?thesis unfolding ab by (subst split_whitespace.simps) (simp add: cut)
qed

lemma find_pin_append:
  "find_pin addr fingerprint (ls @ [line]) =
     (case find_pin addr fingerprint ls of Some b \<Rightarrow> Some b | None \<Rightarrow> find_pin addr fingerprint [line])"
proof (induction ls)
  case (Cons l ls)
  then show ?case by (cases "split_whitespace l") simp_all
qed simp

lemma word_chars: "is_word s \<Longrightarrow> 10 \<notin> set s \<and> 13 \<notin> set s"
proof -
  assume "is_word s"
  then have "\<forall>c\<in>set s. \<not> is_whitespace c" by (simp add: is_word_def list_ex_iff)
  moreover have "is_whitespace 10" "is_whitespace 13" by (simp_all add: is_whitespace_def)
  ultimately show ?thesis by blast
qed

lemma pin_line_read:
  assumes "is_word addr" "is_word fp" "existing = [] \<or> last existing = 10"
  shows "text_lines (existing @ addr @ 32 # fp @ [10]) = text_lines existing @ [addr @ 32 # fp]"
proof -
  have "10 \<notin> set (addr @ 32 # fp)" "last (addr @ 32 # fp) \<noteq> 13"
    using word_chars [OF assms(1)] word_chars [OF assms(2)] last_in_set [of fp] assms(2)
    by (auto simp: is_word_def simp del: last_in_set)
  with text_lines_add [of "addr @ 32 # fp" existing] assms(3) show ?thesis by simp
qed

end
