(* ===== verification/Relay_Identity.thy ===== *)
theory Relay_Identity
  imports Private_Files
begin

text \<open>
  The TLS identity of the relay (\<open>grotto-relay/src/lib.rs\<close>, module \<open>tls\<close>, and \<open>default_directory\<close>): a
  certificate and a key in two private files, generated when neither exists. Generating and parsing
  PEM is the work of third-party crates and an argument of the model.
\<close>

unbundle bit_operations_syntax

section \<open>Where the state is kept\<close>

definition default_directory :: "file_path option \<Rightarrow> file_path option \<Rightarrow> io_kind + file_path" where
  "default_directory xdg_data_home home =
     (case (case xdg_data_home of Some p \<Rightarrow> if is_absolute p then Some p else None | None \<Rightarrow> None) of
        Some p \<Rightarrow> Inr (path_join p (FilePath False [str_of ''grotto-relay'']))
      | None \<Rightarrow>
          (case home of
             None \<Rightarrow> Inl FileNotFound
           | Some p \<Rightarrow> Inr (path_join p (FilePath False [str_of ''.local'', str_of ''share'', str_of ''grotto-relay'']))))"

section \<open>Reading and writing\<close>

definition try_exists :: "file_env \<Rightarrow> file_path \<Rightarrow> bool file_op" where
  "try_exists env p =
     syscall env (\<lambda>fs.
       (case fs_nodes fs (resolve env p) of
          None \<Rightarrow> Inr False
        | Some n \<Rightarrow> Inr (nd_kind n \<noteq> Symlink \<or> fe_link_alive env (resolve env p)), fs))"

definition create_new :: "file_env \<Rightarrow> file_path \<Rightarrow> u32 \<Rightarrow> file_path file_op" where
  "create_new env p mode =
     syscall env (\<lambda>fs.
       let h = resolve env p in
       case fs_nodes fs h of
         None \<Rightarrow> (Inr h, add_node h RegularFile (fe_euid env) (mode AND NOT (fe_umask env)) [] fs)
       | Some _ \<Rightarrow> (Inl AlreadyExists, fs))"

definition write_with_mode :: "file_env \<Rightarrow> file_path \<Rightarrow> bytes \<Rightarrow> u32 \<Rightarrow> unit file_op" where
  "write_with_mode env p contents mode =
     chain (create_new env p mode) (\<lambda>h.
     chain (write_all env h contents) (\<lambda>_.
     sync_all env))"

definition open_read :: "file_env \<Rightarrow> file_path \<Rightarrow> file_path file_op" where
  "open_read env p =
     syscall env (\<lambda>fs.
       let h = resolve env p in
       case fs_nodes fs h of
         None \<Rightarrow> (Inl FileNotFound, fs)
       | Some n \<Rightarrow> (if nd_kind n = Symlink then Inl OtherIo else Inr h, fs))"

definition IDENTITY_LIMIT :: nat where
  "IDENTITY_LIMIT = 64 * 1024"

definition read_private :: "file_env \<Rightarrow> file_path \<Rightarrow> bytes file_op" where
  "read_private env p =
     chain (open_read env p) (\<lambda>h.
     chain (file_metadata env h) (\<lambda>meta.
     if nd_kind meta \<noteq> RegularFile \<or> \<not> owner_only env meta
     then fail (FileError PermissionDenied ''TLS identity must be a regular owner-only file'')
     else if length (nd_data meta) > IDENTITY_LIMIT then fail (FileError InvalidData ''TLS identity file too large'')
     else
       chain (file_metadata env h) (\<lambda>meta.
       let bs = take (IDENTITY_LIMIT + 1) (nd_data meta) in
       if length bs > IDENTITY_LIMIT then fail (FileError InvalidData ''TLS identity file too large'') else ret bs)))"

section \<open>The identity\<close>

record tls_library =
  tl_generate :: "(bytes \<times> bytes) option"
  tl_certs :: "bytes \<Rightarrow> bytes list option"
  tl_private_key :: "bytes \<Rightarrow> bytes option option"
  tl_accepts :: "bytes list \<Rightarrow> bytes \<Rightarrow> bool"
  tl_sha256 :: "bytes \<Rightarrow> bytes"

datatype tls_error = TlsFile file_error | TlsText string

record TlsIdentity =
  ti_certs :: "bytes list"
  ti_key :: bytes
  ti_fingerprint :: rstr

definition load_from_pem :: "tls_library \<Rightarrow> bytes \<Rightarrow> bytes \<Rightarrow> tls_error + TlsIdentity" where
  "load_from_pem lib cert_pem key_pem =
     (case tl_certs lib cert_pem of
        None \<Rightarrow> Inl (TlsText ''parsing TLS certificate PEM'')
      | Some [] \<Rightarrow> Inl (TlsText ''TLS certificate PEM contains no certificates'')
      | Some (cert # certs) \<Rightarrow>
          (case tl_private_key lib key_pem of
             None \<Rightarrow> Inl (TlsText ''parsing TLS key PEM'')
           | Some None \<Rightarrow> Inl (TlsText ''TLS key PEM contains no private key'')
           | Some (Some key) \<Rightarrow>
               if \<not> tl_accepts lib (cert # certs) key then Inl (TlsText ''building TLS server config'')
               else Inr \<lparr>ti_certs = cert # certs, ti_key = key,
                      ti_fingerprint = cert_fingerprint_sha256_hex (tl_sha256 lib) cert\<rparr>))"

type_synonym 'a tls_op = "FileSystem \<Rightarrow> (tls_error + 'a) \<times> FileSystem"

definition in_files :: "'a file_op \<Rightarrow> 'a tls_op" where
  "in_files m fs = (let (r, fs') = m fs in (map_err TlsFile r, fs'))"

definition generate_identity :: "file_env \<Rightarrow> tls_library \<Rightarrow> file_path \<Rightarrow> file_path \<Rightarrow> unit tls_op" where
  "generate_identity env lib cert_path key_path =
     (case tl_generate lib of
        None \<Rightarrow> fail (TlsText ''generating self-signed cert'')
      | Some (cert_pem, key_pem) \<Rightarrow>
          in_files (chain (write_with_mode env cert_path cert_pem 0x180) (\<lambda>_.
                    write_with_mode env key_path key_pem 0x180)))"

definition load_or_generate_at :: "file_env \<Rightarrow> tls_library \<Rightarrow> file_path \<Rightarrow> file_path \<Rightarrow> TlsIdentity tls_op" where
  "load_or_generate_at env lib cert_path key_path =
     chain (in_files (ensure_parent env cert_path)) (\<lambda>_.
     chain (in_files (ensure_parent env key_path)) (\<lambda>_.
     chain (in_files (try_exists env cert_path)) (\<lambda>cert_exists.
     chain (in_files (try_exists env key_path)) (\<lambda>key_exists.
     if cert_exists \<noteq> key_exists
     then fail (TlsText ''incomplete TLS identity: refusing to replace an existing certificate or key'')
     else
       chain (if \<not> cert_exists then generate_identity env lib cert_path key_path else ret ()) (\<lambda>_.
       chain (in_files (read_private env cert_path)) (\<lambda>cert_pem.
       chain (in_files (read_private env key_path)) (\<lambda>key_pem fs.
       (load_from_pem lib cert_pem key_pem, fs))))))))"

definition load_or_generate_identity ::
  "file_env \<Rightarrow> tls_library \<Rightarrow> file_path option \<Rightarrow> file_path option \<Rightarrow> file_path option \<Rightarrow> file_path option \<Rightarrow> TlsIdentity tls_op" where
  "load_or_generate_identity env lib xdg_data_home home cert_var key_var =
     (case default_directory xdg_data_home home of
        Inl k \<Rightarrow> fail (TlsFile (OsError k))
      | Inr dir \<Rightarrow>
          load_or_generate_at env lib
            (case cert_var of Some p \<Rightarrow> p | None \<Rightarrow> path_join dir (FilePath False [str_of ''grotto-tls-cert.pem'']))
            (case key_var of Some p \<Rightarrow> p | None \<Rightarrow> path_join dir (FilePath False [str_of ''grotto-tls-key.pem''])))"

section \<open>Nothing that exists is changed\<close>

lemma create_new_Inr:
  assumes "create_new env p mode fs = (Inr h, fs1)"
  shows "h = resolve env p" "fs_nodes fs h = None"
    "fs_nodes fs1 = (fs_nodes fs)(h \<mapsto> \<lparr>nd_inode = fs_next fs, nd_kind = RegularFile, nd_uid = fe_euid env,
       nd_mode = mode AND NOT (fe_umask env), nd_data = []\<rparr>)"
    "fs_locked fs1 = fs_locked fs"
  using syscall_Inr [OF assms [unfolded create_new_def]]
  by (auto simp: add_node_def Let_def split: option.splits)

lemma extending_create_new [file_ops]: "extending (create_new env p mode)"
  unfolding create_new_def
  by (rule extending_syscall) (auto simp: Let_def split: option.splits intro: add_node_extends)

lemma extending_write_with_mode [file_ops]: "extending (write_with_mode env p contents mode)"
  unfolding extending_def
proof (intro allI impI)
  fix fs r fs' assume run: "write_with_mode env p contents mode fs = (r, fs')"
  have sync: "fs_nodes b = fs_nodes a \<and> fs_locked b = fs_locked a" if "sync_all env a = (q, b)" for q a b
    using that by (auto simp: sync_all_def syscall_def Let_def split: option.splits)
  from run consider x where "create_new env p mode fs = (Inl x, fs')"
    | h fs1 q fs2 where "create_new env p mode fs = (Inr h, fs1)" "write_all env h contents fs1 = (q, fs2)"
        "fs_nodes fs' = fs_nodes fs2" "fs_locked fs' = fs_locked fs2"
    unfolding write_with_mode_def by (elim chain_cases) (auto dest: sync)
  then show "extends fs fs'"
  proof cases
    case 1
    then show ?thesis by (rule extendingD [OF extending_create_new])
  next
    case 2
    note new = create_new_Inr [OF 2(1)]
    have "fs_nodes fs \<subseteq>\<^sub>m fs_nodes fs'" unfolding map_le_def
    proof
      fix q' assume "q' \<in> dom (fs_nodes fs)"
      with new(2) have "q' \<noteq> h" by auto
      with new(3) 2(3) write_all_nodes(2) [OF 2(2)] show "fs_nodes fs q' = fs_nodes fs' q'" by simp
    qed
    with new(4) 2(4) write_all_nodes(1) [OF 2(2)] show ?thesis by (simp add: extends_def)
  qed
qed

lemma reading_reads [file_ops]: "reading (try_exists env p)" "reading (open_read env p)"
  unfolding try_exists_def open_read_def by (intro file_ops; auto simp: Let_def split: option.splits)+

lemma reading_read_private [file_ops]: "reading (read_private env p)"
  unfolding read_private_def Let_def by (intro file_ops)

lemma in_files_cases: "in_files m fs = (r, fs') \<Longrightarrow> \<exists>q. m fs = (q, fs') \<and> r = map_err TlsFile q"
  by (auto simp: in_files_def split: prod.splits)

lemma in_files_Inr: "in_files m fs = (Inr v, fs') \<longleftrightarrow> m fs = (Inr v, fs')"
  by (cases "m fs") (auto simp: in_files_def map_err_Inr)

lemma extending_in_files [file_ops]: "extending m \<Longrightarrow> extending (in_files m)"
  unfolding extending_def by (blast dest: in_files_cases)

lemma read_private_Inr:
  assumes "read_private env p fs = (Inr bs, fs')"
  shows "\<exists>n. fs_nodes fs (resolve env p) = Some n \<and> nd_kind n = RegularFile \<and> owner_only env n
    \<and> length (nd_data n) \<le> IDENTITY_LIMIT \<and> bs = nd_data n"
proof -
  from assms obtain h fs1 n fs2 n' fs3 where run: "open_read env p fs = (Inr h, fs1)"
    "file_metadata env h fs1 = (Inr n, fs2)" "file_metadata env h fs2 = (Inr n', fs3)"
    and n: "nd_kind n = RegularFile" "owner_only env n" "length (nd_data n) \<le> IDENTITY_LIMIT"
    and bs: "bs = take (IDENTITY_LIMIT + 1) (nd_data n')"
    by (auto simp: read_private_def Let_def ret_def fail_def elim!: chainE split: if_splits)
  have "h = resolve env p" using syscall_Inr [OF run(1) [unfolded open_read_def]]
    by (auto simp: Let_def split: option.splits if_splits)
  moreover have "fs_nodes fs h = Some n" "n' = n"
    using lookup_Inr(2) [OF run(2)] lookup_Inr(2) [OF run(3)] readingD [OF reading_reads(2) run(1)]
      readingD [OF reading_lookup(2) run(2)] by simp_all
  ultimately show ?thesis using n bs by simp
qed

lemma extending_generate [file_ops]: "extending (generate_identity env lib cp kp)"
  unfolding generate_identity_def by (cases "tl_generate lib") (auto intro!: file_ops)

lemma extending_load: "extending (load_or_generate_at env lib cp kp)"
proof -
  have pure: "extending (\<lambda>fs. (load_from_pem lib c k, fs))" for c k by (simp add: extending_def)
  show ?thesis unfolding load_or_generate_at_def by (intro file_ops pure reading_extending)
qed

section \<open>The identity that was loaded\<close>

definition private_file :: "file_env \<Rightarrow> file_path \<Rightarrow> FileSystem \<Rightarrow> bytes \<Rightarrow> bool" where
  "private_file env p fs contents \<longleftrightarrow>
     private_dir env (resolve env (parent_dir p)) fs
     \<and> (\<exists>n. fs_nodes fs (resolve env p) = Some n \<and> nd_kind n = RegularFile \<and> owner_only env n \<and> nd_data n = contents)"

lemma private_file_extends: "private_file env p fs contents \<Longrightarrow> extends fs fs' \<Longrightarrow> private_file env p fs' contents"
  unfolding private_file_def by (blast dest: private_dir_extends extends_node)

text \<open>The identity on the disk: two private files of bounded size that parse to it.\<close>

definition stored_identity :: "file_env \<Rightarrow> tls_library \<Rightarrow> file_path \<Rightarrow> file_path \<Rightarrow> TlsIdentity \<Rightarrow> FileSystem \<Rightarrow> bool" where
  "stored_identity env lib cp kp ident fs \<longleftrightarrow>
     (\<exists>c k. private_file env cp fs c \<and> private_file env kp fs k
        \<and> length c \<le> IDENTITY_LIMIT \<and> length k \<le> IDENTITY_LIMIT \<and> load_from_pem lib c k = Inr ident)"

lemma stored_identity_extends: "stored_identity env lib cp kp ident fs \<Longrightarrow> extends fs fs' \<Longrightarrow> stored_identity env lib cp kp ident fs'"
  unfolding stored_identity_def by (blast intro: private_file_extends)

lemma load_stores:
  assumes honest: "honest_kernel env" and run: "load_or_generate_at env lib cp kp fs = (Inr ident, fs')"
  shows "stored_identity env lib cp kp ident fs'"
proof -
  from run obtain fs1 fs2 a fs3 b fs4 where
    parents: "ensure_parent env cp fs = (Inr (), fs1)" "ensure_parent env kp fs1 = (Inr (), fs2)"
    and exist: "try_exists env cp fs2 = (Inr a, fs3)" "try_exists env kp fs3 = (Inr b, fs4)"
    and rest: "(if a \<noteq> b
      then fail (TlsText ''incomplete TLS identity: refusing to replace an existing certificate or key'')
      else
        chain (if \<not> a then generate_identity env lib cp kp else ret ()) (\<lambda>_.
        chain (in_files (read_private env cp)) (\<lambda>cert_pem.
        chain (in_files (read_private env kp)) (\<lambda>key_pem fs.
        (load_from_pem lib cert_pem key_pem, fs))))) fs4 = (Inr ident, fs')"
    unfolding load_or_generate_at_def in_files_Inr by (elim chainE) (simp add: in_files_Inr)
  from rest obtain fs5 c fs6 k where gen: "(if \<not> a then generate_identity env lib cp kp else ret ()) fs4 = (Inr (), fs5)"
    and reads: "read_private env cp fs5 = (Inr c, fs6)" "read_private env kp fs6 = (Inr k, fs')"
    and pem: "load_from_pem lib c k = Inr ident"
    by (cases "a = b") (auto simp: fail_def in_files_Inr elim!: chainE)
  have grow: "extends fs1 fs2" "extends fs2 fs3" "extends fs3 fs4" "extends fs4 fs5" "extends fs5 fs6" "extends fs6 fs'"
    using extendingD [OF extending_ensure_parent parents(2)] extendingD [OF reading_extending [OF reading_reads(1)] exist(1)]
      extendingD [OF reading_extending [OF reading_reads(1)] exist(2)]
      extendingD [OF cond_ops(2) [OF extending_generate basic_ops(3)] gen]
      extendingD [OF reading_extending [OF reading_read_private] reads(1)]
      extendingD [OF reading_extending [OF reading_read_private] reads(2)] by simp_all
  have "extends fs2 fs'" using grow(2-6) by (blast intro: extends_trans)
  note late = this extends_trans [OF grow(1) this]
  note dirs = private_dir_extends [OF ensure_parent_Inr [OF honest parents(1)] late(2)]
    private_dir_extends [OF ensure_parent_Inr [OF honest parents(2)] late(1)]
  obtain n m where n: "fs_nodes fs5 (resolve env cp) = Some n" "nd_kind n = RegularFile" "owner_only env n"
      "length c \<le> IDENTITY_LIMIT" "nd_data n = c"
    and m: "fs_nodes fs6 (resolve env kp) = Some m" "nd_kind m = RegularFile" "owner_only env m"
      "length k \<le> IDENTITY_LIMIT" "nd_data m = k"
    using read_private_Inr [OF reads(1)] read_private_Inr [OF reads(2)] by blast
  have "fs_nodes fs' (resolve env cp) = Some n" "fs_nodes fs' (resolve env kp) = Some m"
    using extends_node [OF extends_trans [OF grow(5,6)] n(1)] extends_node [OF grow(6) m(1)] by simp_all
  with n m dirs pem show ?thesis unfolding stored_identity_def private_file_def by blast
qed

lemma yields_in_files: "yields nodes m v \<Longrightarrow> yields nodes (in_files m) v"
  by (fastforce simp: yields_def in_files_def)

lemma yields_file_reads:
  assumes "no_failures env" "private_file env p fs contents" "length contents \<le> IDENTITY_LIMIT"
  shows "yields (fs_nodes fs) (try_exists env p) True" "yields (fs_nodes fs) (read_private env p) contents"
proof -
  from assms(2) obtain n where n: "fs_nodes fs (resolve env p) = Some n" "nd_kind n = RegularFile"
    "owner_only env n" "nd_data n = contents" by (auto simp: private_file_def)
  from n show "yields (fs_nodes fs) (try_exists env p) True"
    unfolding try_exists_def by (intro yields_syscall [OF assms(1)]) simp
  have opened: "yields (fs_nodes fs) (open_read env p) (resolve env p)"
    unfolding open_read_def using n by (intro yields_syscall [OF assms(1)]) (simp add: Let_def)
  have found: "yields (fs_nodes fs) (file_metadata env (resolve env p)) n"
    using n(1) by (rule yields_lookup(2) [OF assms(1)])
  show "yields (fs_nodes fs) (read_private env p) contents" unfolding read_private_def
  proof (rule yields_chain [OF opened], rule yields_chain [OF found])
    have "yields (fs_nodes fs) (chain (file_metadata env (resolve env p)) (\<lambda>meta.
        let bs = take (IDENTITY_LIMIT + 1) (nd_data meta) in
        if length bs > IDENTITY_LIMIT then fail (FileError InvalidData ''TLS identity file too large'') else ret bs)) contents"
      by (rule yields_chain [OF found]) (use n assms(3) in \<open>simp add: yields_ret\<close>)
    with n assms(3) show "yields (fs_nodes fs)
       (if nd_kind n \<noteq> RegularFile \<or> \<not> owner_only env n
        then fail (FileError PermissionDenied ''TLS identity must be a regular owner-only file'')
        else if IDENTITY_LIMIT < length (nd_data n) then fail (FileError InvalidData ''TLS identity file too large'')
        else chain (file_metadata env (resolve env p)) (\<lambda>meta.
          let bs = take (IDENTITY_LIMIT + 1) (nd_data meta) in
          if length bs > IDENTITY_LIMIT then fail (FileError InvalidData ''TLS identity file too large'') else ret bs)) contents"
      by simp
  qed
qed

lemma load_again:
  assumes "no_failures env" "stored_identity env lib cp kp ident fs"
  shows "yields (fs_nodes fs) (load_or_generate_at env lib cp kp) ident"
proof -
  from assms(2) obtain c k where c: "private_file env cp fs c" "length c \<le> IDENTITY_LIMIT"
    and k: "private_file env kp fs k" "length k \<le> IDENTITY_LIMIT" and pem: "load_from_pem lib c k = Inr ident"
    by (auto simp: stored_identity_def)
  have dirs: "yields (fs_nodes fs) (ensure_parent env cp) ()" "yields (fs_nodes fs) (ensure_parent env kp) ()"
    using c(1) k(1) by (auto simp: private_file_def intro: yields_ensure_parent [OF assms(1)])
  note reads = yields_file_reads [OF assms(1) c] yields_file_reads [OF assms(1) k]
  have last: "yields (fs_nodes fs) (\<lambda>fs. (load_from_pem lib c k, fs)) ident"
    unfolding pem using yields_ret [of "fs_nodes fs" ident] by (simp add: ret_def [abs_def])
  show ?thesis unfolding load_or_generate_at_def
    by (rule yields_chain, rule yields_in_files, rule dirs reads)+
      (simp, (rule yields_chain, rule yields_in_files yields_ret, (rule reads)?)+, rule last)
qed

end
