(* ===== verification/File_Claims.thy ===== *)
theory File_Claims
  imports Relay_Identity
begin

text \<open>
  The properties of the private files and of the relay's TLS identity, with a small file system as
  their example: a root directory, a home directory of the user, and nothing else.
\<close>

unbundle bit_operations_syntax

section \<open>The example\<close>

definition fx_root_dir :: Node where
  "fx_root_dir = \<lparr>nd_inode = 2, nd_kind = Directory, nd_uid = 0, nd_mode = 0x1ED, nd_data = []\<rparr>"

definition fx_home_dir :: Node where
  "fx_home_dir = \<lparr>nd_inode = 3, nd_kind = Directory, nd_uid = 1000, nd_mode = 0x1C0, nd_data = []\<rparr>"

definition fx_root_path :: file_path where
  "fx_root_path = FilePath True []"

definition fx_home_path :: file_path where
  "fx_home_path = FilePath True [[104]]"

definition fx_file :: "nat \<Rightarrow> file_path" where
  "fx_file c = FilePath True [[104], [c]]"

definition fx_disk :: FileSystem where
  "fx_disk = \<lparr>fs_nodes = [fx_root_path \<mapsto> fx_root_dir, fx_home_path \<mapsto> fx_home_dir], fs_locked = {}, fs_next = 4, fs_ticks = 0\<rparr>"

definition fx_kernel :: file_env where
  "fx_kernel = \<lparr>fe_euid = 1000, fe_umask = 0x12, fe_cwd = fx_home_path, fe_fault = (\<lambda>_. None), fe_written = (\<lambda>_. 0),
     fe_link_alive = (\<lambda>_. False)\<rparr>"

lemmas fx_paths = fx_root_path_def fx_home_path_def fx_file_def

lemma fx_kernel_honest: "honest_kernel fx_kernel"
  by (simp add: honest_kernel_def fx_kernel_def fx_paths)

lemma fx_opened: "fst (open_locked fx_kernel (fx_file 100) fx_disk) = Inr (fx_file 100)"
  by (simp add: open_locked_def ensure_parent_def check_ancestors_def check_existing_def check_sidecars_def create_dirs_def
    make_dir_def open_file_def file_metadata_def lock_or_refuse_def try_lock_def symlink_metadata_def syscall_def node_at_def
    add_node_def resolve_def path_join_def path_ancestors_def with_suffix_def path_parent_def parent_dir_def owner_only_def
    unsafe_ancestor_def chain_def ret_def fail_def Let_def fx_kernel_def fx_disk_def fx_root_dir_def fx_home_dir_def fx_paths
    str_of_def file_error_kind_def)

section \<open>Private files\<close>

text \<open>
  Property C19. Private files. When \<open>open_locked\<close> succeeds, the file is a regular file of the user
  that nobody else can read or write; its directory belongs to the user alone; every directory above it exists and
  cannot be changed by others, or is sticky; the files SQLite may find beside it were private too; and
  nothing that existed was changed. The file was not in use, and as long as the handle is open every
  further attempt to open it fails.
\<close>

theorem private_files_are_owner_only:
  assumes honest: "honest_kernel env" and run: "open_locked env p fs = (Inr h, fs')"
  shows "\<exists>n. h = resolve env p \<and> fs_nodes fs' h = Some n \<and> nd_kind n = RegularFile \<and> owner_only env n
      \<and> nd_inode n \<notin> fs_locked fs
      \<and> private_dir env (resolve env (parent_dir p)) fs' \<and> extends fs fs'
      \<and> (\<forall>suffix\<in>{''-wal'', ''-shm'', ''-journal''}.
           tolerated (\<lambda>m. nd_kind m \<noteq> RegularFile \<or> \<not> owner_only env m) (fs_nodes fs (resolve env (with_suffix p (str_of suffix)))))
      \<and> (\<forall>env' p'. resolve env' p' = h \<longrightarrow> isl (fst (open_locked env' p' fs')))"
proof -
  note opened = open_locked_Inr [OF honest run]
  from opened(3) obtain n where n: "fs_nodes fs' h = Some n" "nd_kind n = RegularFile" "owner_only env n"
    "nd_inode n \<notin> fs_locked fs" "nd_inode n \<in> fs_locked fs'" by blast
  have sidecars: "tolerated (\<lambda>m. nd_kind m \<noteq> RegularFile \<or> \<not> owner_only env m) (fs_nodes fs q)"
    if ext: "extends fs fs1" and later: "tolerated (\<lambda>m. nd_kind m \<noteq> RegularFile \<or> \<not> owner_only env m) (fs_nodes fs1 q)" for q fs1
    using later extends_node [OF ext, of q] by (auto simp: tolerated_def split: option.splits)
  from opened(4) have "\<forall>suffix\<in>{''-wal'', ''-shm'', ''-journal''}.
      tolerated (\<lambda>m. nd_kind m \<noteq> RegularFile \<or> \<not> owner_only env m) (fs_nodes fs (resolve env (with_suffix p (str_of suffix))))"
    using sidecars by blast
  moreover have "isl (fst (open_locked env' p' fs'))" if "resolve env' p' = h" for env' p'
    using open_locked_in_use [of fs' env' p' n] n that by simp
  ultimately show ?thesis using opened(1,2) n extendingD [OF extending_open_locked run] by blast
qed

theorem private_files_are_owner_only_witness:
  "isl (fst (open_locked fx_kernel (fx_file 100) (snd (open_locked fx_kernel (fx_file 100) fx_disk))))
   \<and> private_dir fx_kernel (resolve fx_kernel (parent_dir (fx_file 100))) (snd (open_locked fx_kernel (fx_file 100) fx_disk))"
proof -
  have "open_locked fx_kernel (fx_file 100) fx_disk = (Inr (fx_file 100), snd (open_locked fx_kernel (fx_file 100) fx_disk))"
    using fx_opened by (metis prod.collapse)
  from private_files_are_owner_only [OF fx_kernel_honest this] show ?thesis by auto
qed

section \<open>The identity of the relay\<close>

definition fx_tls_library :: tls_library where
  "fx_tls_library = \<lparr>tl_generate = Some ([1], [2]), tl_certs = (\<lambda>pem. Some [pem]), tl_private_key = (\<lambda>pem. Some (Some pem)),
     tl_accepts = (\<lambda>_ _. True), tl_sha256 = (\<lambda>bs. replicate 32 (hd bs))\<rparr>"

definition fx_tls_identity :: TlsIdentity where
  "fx_tls_identity = \<lparr>ti_certs = [[1]], ti_key = [2],
     ti_fingerprint = cert_fingerprint_sha256_hex (tl_sha256 fx_tls_library) [1]\<rparr>"

lemma fx_generated: "fst (load_or_generate_at fx_kernel fx_tls_library (fx_file 99) (fx_file 107) fx_disk) = Inr fx_tls_identity"
  by (simp add: load_or_generate_at_def in_files_def generate_identity_def write_with_mode_def create_new_def write_all_def
    sync_all_def read_private_def open_read_def try_exists_def set_data_def load_from_pem_def IDENTITY_LIMIT_def
    ensure_parent_def check_ancestors_def check_existing_def create_dirs_def make_dir_def file_metadata_def symlink_metadata_def
    syscall_def node_at_def add_node_def resolve_def path_join_def path_ancestors_def path_parent_def parent_dir_def owner_only_def
    unsafe_ancestor_def chain_def ret_def fail_def Let_def fx_disk_def fx_root_dir_def fx_home_dir_def fx_paths
    fx_kernel_def fx_tls_library_def fx_tls_identity_def)

lemma load_from_pem_generate: "load_from_pem (lib\<lparr>tl_generate := g\<rparr>) = load_from_pem lib"
  by (auto simp: fun_eq_iff load_from_pem_def split: option.splits list.splits)

text \<open>
  Property C23. The relay's TLS identity is never replaced. Whatever fails, no file that existed is
  changed; an identity that was loaded or generated is on the disk in two private files; and from then
  on every start that reaches the disk loads the same identity, with the same fingerprint for
  the clients to compare, whatever a generator would produce.
\<close>

theorem relay_identity_is_stable:
  assumes honest: "honest_kernel env" and run: "load_or_generate_at env lib cp kp fs = (r, fs')"
  shows "extends fs fs'
    \<and> (\<forall>ident. r = Inr ident \<longrightarrow> stored_identity env lib cp kp ident fs'
         \<and> (\<forall>env' fs'' g. no_failures env' \<and> fe_euid env' = fe_euid env \<and> fe_cwd env' = fe_cwd env \<and> extends fs' fs'' \<longrightarrow>
              fst (load_or_generate_at env' (lib\<lparr>tl_generate := g\<rparr>) cp kp fs'') = Inr ident))"
proof (intro conjI allI impI)
  show "extends fs fs'" using run by (rule extendingD [OF extending_load])
  fix ident assume r: "r = Inr ident"
  from load_stores [OF honest run [unfolded r]] show stored: "stored_identity env lib cp kp ident fs'" .
  fix env' fs'' g assume env': "no_failures env' \<and> fe_euid env' = fe_euid env \<and> fe_cwd env' = fe_cwd env \<and> extends fs' fs''"
  have "resolve env' = resolve env" "owner_only env' = owner_only env"
    using env' by (simp_all add: fun_eq_iff resolve_def owner_only_def)
  then have "private_file env' = private_file env" by (simp add: fun_eq_iff private_file_def private_dir_def)
  then have "stored_identity env' (lib\<lparr>tl_generate := g\<rparr>) cp kp ident fs''"
    using stored_identity_extends [OF stored] env' by (simp add: stored_identity_def load_from_pem_generate)
  with env' have "yields (fs_nodes fs'') (load_or_generate_at env' (lib\<lparr>tl_generate := g\<rparr>) cp kp) ident"
    by (intro load_again) simp_all
  then show "fst (load_or_generate_at env' (lib\<lparr>tl_generate := g\<rparr>) cp kp fs'') = Inr ident" by (auto dest: yieldsD)
qed

theorem relay_identity_is_stable_witness:
  "fst (load_or_generate_at fx_kernel (fx_tls_library\<lparr>tl_generate := Some ([7], [8])\<rparr>) (fx_file 99) (fx_file 107)
     (snd (load_or_generate_at fx_kernel fx_tls_library (fx_file 99) (fx_file 107) fx_disk))) = Inr fx_tls_identity"
proof -
  have run: "load_or_generate_at fx_kernel fx_tls_library (fx_file 99) (fx_file 107) fx_disk
      = (Inr fx_tls_identity, snd (load_or_generate_at fx_kernel fx_tls_library (fx_file 99) (fx_file 107) fx_disk))"
    using fx_generated by (metis prod.collapse)
  have "no_failures fx_kernel" by (simp add: no_failures_def fx_kernel_def fx_paths)
  with relay_identity_is_stable [OF _ run] fx_kernel_honest show ?thesis by simp
qed

end
