(* ===== verification/Connection_Claims.thy ===== *)
theory Connection_Claims
  imports Client_Connection Client_Fixture Relay_Server_Claims File_Claims
begin

text \<open>
  The life of a client from connection to connection: the login of the client against the login of the
  relay, the pinned certificate, the waiting between attempts, and the durable state through any
  number of sessions.
\<close>

section \<open>What the reader task hands over\<close>

lemma read_message_ok:
  assumes "postcard_wire pc" "read_message pc timed_out r = (Arrived message, r')"
  shows "wf_relay_message message"
proof -
  from assms(2) obtain bs where "decode_message (take_relay_message pc) bs = Inr message"
    by (auto simp: read_message_def split: prod.splits sum.splits option.splits)
  then show ?thesis using postcard_wire.relay_message_decoded [OF assms(1)]
    by (auto simp: decode_message_def split: option.splits if_splits prod.splits)
qed

lemma reader_task_ok: "postcard_wire pc \<Longrightarrow> script_ok (reader_task pc timed_out n r)"
proof (induction pc timed_out n r rule: reader_task.induct)
  case (1 pc timed_out n r)
  obtain i r' where read: "read_message pc (timed_out n) r = (i, r')" by (cases "read_message pc (timed_out n) r")
  show ?case
  proof (cases i)
    case (Arrived message)
    with 1(1) [OF _ _ 1(2)] read_message_ok [OF 1(2)] read show ?thesis
      by (subst reader_task.simps) (auto simp: script_ok_def)
  qed (use read in \<open>subst reader_task.simps, simp add: script_ok_def\<close>)+
qed

lemma interleave_set: "set (interleave ns script) \<subseteq> insert Silence (set script)"
  by (induction ns script rule: interleave.induct) auto

lemma session_wire_ok: "postcard_wire (cw_pc w) \<Longrightarrow> script_ok (wr_incoming (session_wire w rd so))"
  using reader_task_ok [of "cw_pc w" "rd_timed_out rd" 0 "so_reader so"]
    interleave_set [of "rd_silences rd" "reader_task (cw_pc w) (rd_timed_out rd) 0 (so_reader so)"]
  by (auto simp: session_wire_def script_ok_def)

section \<open>The durable state from session to session\<close>

definition lasting :: "postcard \<Rightarrow> 'g Engine \<Rightarrow> 'g Engine \<Rightarrow> bool" where
  "lasting pc e e' \<longleftrightarrow>
     good pc (en_store e') \<and> app_grows (durable_db (en_store e)) (durable_db (en_store e'))
     \<and> pins_kept (durable_db (en_store e)) (durable_db (en_store e'))"

lemma lasting_refl: "good pc (en_store e) \<Longrightarrow> lasting pc e e"
  by (simp add: lasting_def app_grows_refl)

lemma lasting_trans: "lasting pc a b \<Longrightarrow> lasting pc b c \<Longrightarrow> lasting pc a c"
  unfolding lasting_def by (blast intro: app_grows_trans pins_kept_trans)

lemma run_round_lasts:
  assumes "documented_library (cw_lib w) (cw_env w)" "postcard_wire (cw_pc w)" "good (cw_pc w) (en_store e)"
    and "run_round w cfg seed rd (e, fs) = (r, e', fs')"
  shows "lasting (cw_pc w) e e'"
proof -
  obtain q fs1 where con: "connect w cfg seed (rd_connect rd) fs = (q, fs1)" by (cases "connect w cfg seed (rd_connect rd) fs")
  show ?thesis
  proof (cases q)
    case (Inl error)
    with assms(3,4) con show ?thesis by (simp add: run_round_def lasting_refl)
  next
    case (Inr so)
    let ?cl = "\<lparr>cl_engine = e\<lparr>en_groups := []\<rparr>, cl_wire = session_wire w rd so\<rparr>"
    obtain v cl where run: "run_engine w (rd_picks rd) ?cl = (v, cl)" by (cases "run_engine w (rd_picks rd) ?cl")
    have e': "e' = cl_engine cl" using assms(4) con Inr run by (auto simp: run_round_def split: sum.splits bool.splits)
    have "ready (cw_pc w) ?cl" using assms(3) session_wire_ok [OF assms(2)] by (simp add: ready_def)
    from session_keeps_history [OF assms(1,2) this run] session_keeps_pins [OF assms(1) _ _ run] assms(3)
      session_wire_ok [OF assms(2), of rd so]
    show ?thesis by (auto simp: lasting_def ready_def good_def e')
  qed
qed

lemma run_rounds_last:
  assumes "documented_library (cw_lib w) (cw_env w)" "postcard_wire (cw_pc w)" "good (cw_pc w) (en_store e)"
    and "run_rounds w cfg seed delay rds (e, fs) = (r, e', fs')"
  shows "lasting (cw_pc w) e e'"
  using assms(3,4)
proof (induction rds arbitrary: delay e fs r)
  case (Cons rd rds)
  obtain q e1 fs1 where one: "run_round w cfg seed rd (e, fs) = (q, e1, fs1)" by (cases "run_round w cfg seed rd (e, fs)")
  note first = run_round_lasts [OF assms(1,2) Cons.prems(1) one]
  from Cons.prems(2) one have "e' = e1 \<or> (\<exists>d r1. run_rounds w cfg seed d rds (e1, fs1) = (r1, e', fs'))"
    by (auto simp: Let_def split: option.splits sum.splits if_splits prod.splits)
  then show ?case
  proof
    assume "\<exists>d r1. run_rounds w cfg seed d rds (e1, fs1) = (r1, e', fs')"
    then obtain d r1 where "run_rounds w cfg seed d rds (e1, fs1) = (r1, e', fs')" by blast
    from lasting_trans [OF first Cons.IH [OF _ this]] first show ?thesis by (simp add: lasting_def)
  qed (use first in simp)
qed (simp add: lasting_refl)

section \<open>Pinned certificates\<close>

text \<open>What a pin file says, an absent one nothing.\<close>

definition pin_text :: "file_env \<Rightarrow> file_path \<Rightarrow> FileSystem \<Rightarrow> rstr option" where
  "pin_text env p fs = (case fs_nodes fs (resolve env p) of None \<Rightarrow> Some [] | Some n \<Rightarrow> utf8_decode (nd_data n))"

lemma on_disk_Inr: "on_disk m fs = (Inr v, fs') \<longleftrightarrow> m fs = (Inr v, fs')"
  by (cases "m fs") (auto simp: on_disk_def map_err_Inr)

lemma pin_body_Inr:
  assumes "pin_body env h addr fingerprint fs = (Inr b, fs')" "fs_nodes fs h = Some n"
  shows "\<exists>existing. utf8_decode (nd_data n) = Some existing
    \<and> (\<not> b \<and> consult_pins addr fingerprint existing = PinKnown \<and> fs_nodes fs' h = Some n
       \<or> b \<and> (\<exists>line. consult_pins addr fingerprint existing = PinNew line
            \<and> fs_nodes fs' h = Some (n\<lparr>nd_data := nd_data n @ utf8_encode line\<rparr>)))"
proof -
  from assms(1) obtain m1 fs1 m2 fs2 where looked: "file_metadata env h fs = (Inr m1, fs1)" "file_metadata env h fs1 = (Inr m2, fs2)"
    and rest: "(case utf8_decode (nd_data m2) of
         None \<Rightarrow> fail (ClientIo InvalidData)
       | Some existing \<Rightarrow>
           (case consult_pins addr fingerprint existing of
              PinKnown \<Rightarrow> ret False
            | PinError t \<Rightarrow> fail (ClientMessageText t)
            | PinNew line \<Rightarrow>
                chain (on_disk (append_all env h (nd_data m2) (utf8_encode line))) (\<lambda>_.
                chain (on_disk (sync_all env)) (\<lambda>_. ret True)))) fs2 = (Inr b, fs')"
    by (auto simp: pin_body_def fail_def on_disk_Inr elim!: chainE split: if_splits)
  have m2: "m2 = n" "fs_nodes fs2 h = Some n"
    using lookup_Inr(2) [OF looked(1)] lookup_Inr(2) [OF looked(2)] readingD [OF reading_lookup(2) looked(1)]
      readingD [OF reading_lookup(2) looked(2)] assms(2) by simp_all
  have sync: "fs_nodes c = fs_nodes a" if "sync_all env a = (q, c)" for q a c
    using that by (auto simp: sync_all_def syscall_def Let_def split: option.splits)
  from rest m2 show ?thesis
    by (auto simp: fail_def ret_def on_disk_Inr append_all_def set_data_def split: option.splits pin_answer.splits
        elim!: chainE dest!: sync)
qed

lemma ensure_pinned_Inr:
  assumes "honest_kernel env" "ensure_pinned env p addr fingerprint fs = (Inr b, fs')"
  shows "\<exists>old. pin_text env p fs = Some old
    \<and> (\<not> b \<and> consult_pins addr fingerprint old = PinKnown \<and> pin_text env p fs' = Some old
       \<or> b \<and> (\<exists>line. consult_pins addr fingerprint old = PinNew line
            \<and> (valid_str line \<longrightarrow> pin_text env p fs' = Some (old @ line))))"
proof -
  from assms(2) obtain h fs1 fs2 where "open_locked env p fs = (Inr h, fs1)" "pin_body env h addr fingerprint fs1 = (Inr b, fs2)"
    "fs' = close_file h fs2"
    by (auto simp: ensure_pinned_def on_disk_Inr Let_def elim!: chainE split: prod.splits)
  with open_locked_Inr(1) [OF assms(1)] have opened: "open_locked env p fs = (Inr (resolve env p), fs1)"
    and body: "pin_body env (resolve env p) addr fingerprint fs1 = (Inr b, fs2)" and fs': "fs' = close_file (resolve env p) fs2"
    by simp_all
  obtain n where n: "fs_nodes fs1 (resolve env p) = Some n" using open_locked_Inr(3) [OF assms(1) opened] by blast
  have same: "fs_nodes fs' = fs_nodes fs2" by (simp add: fs' close_file_def split: option.splits)
  have "utf8_decode (nd_data n) = pin_text env p fs"
    using open_locked_contents [OF opened n] by (auto simp: pin_text_def)
  with pin_body_Inr [OF body n] same show ?thesis
    by (auto simp: pin_text_def utf8_decode_append)
qed

lemma find_pin_decides:
  "find_pin addr f ls = Some b \<Longrightarrow> \<exists>b'. find_pin addr f' ls = Some b' \<and> (b \<and> f \<noteq> f' \<longrightarrow> \<not> b')"
  by (induction ls) (auto split: list.splits if_splits)

lemma consult_known:
  "consult_pins addr f t = PinKnown \<longleftrightarrow>
     (t = [] \<or> last t = 10) \<and> \<not> list_ex malformed_pin (text_lines t) \<and> find_pin addr f (text_lines t) = Some True"
  by (auto simp: consult_pins_def Let_def split: option.splits bool.splits)

lemma hex_digit_word: "n < 16 \<Longrightarrow> is_scalar (hex_digit n) \<and> \<not> is_whitespace (hex_digit n)"
  by (auto simp: hex_digit_def is_scalar_def is_whitespace_def split: if_splits)

lemma fingerprint_word:
  assumes "\<And>bs. length (sha256 bs) = 32"
  shows "is_word (cert_fingerprint_sha256_hex sha256 cert)"
    "\<not> isl (parse_fingerprint_hex (cert_fingerprint_sha256_hex sha256 cert))"
proof -
  show "\<not> isl (parse_fingerprint_hex (cert_fingerprint_sha256_hex sha256 cert))"
    by (simp add: parse_fingerprint_of_digest assms)
  have "cert_fingerprint_sha256_hex sha256 cert = hex_string (sha256 cert)" by (rule fingerprint_eq_hex_string)
  moreover have "hex_string (sha256 cert) \<noteq> []"
    using assms [of cert] by (cases "sha256 cert") (auto simp: hex_string_def hex_byte_def)
  moreover have "is_scalar c \<and> \<not> is_whitespace c" if "c \<in> set (hex_string bs)" for c bs
    using that hex_digit_word [OF nibbles(1)] hex_digit_word [OF nibbles(2)] by (auto simp: hex_string_def hex_byte_def)
  ultimately show "is_word (cert_fingerprint_sha256_hex sha256 cert)"
    by (simp add: is_word_def list_all_iff list_ex_iff)
qed

text \<open>A pin file only grows: whatever a call of \<open>ensure_pinned\<close> ends with, what the file said is still there.\<close>

lemma pin_body_appends:
  assumes run: "pin_body env h addr fingerprint fs = (r, fs')" and n: "fs_nodes fs h = Some n"
  shows "\<exists>added. fs_nodes fs' h = Some (n\<lparr>nd_data := nd_data n @ added\<rparr>)"
proof -
  have look: "fs_nodes c = fs_nodes a \<and> (\<forall>m. q = Inr m \<longrightarrow> fs_nodes a h = Some m)"
    if "on_disk (file_metadata env h) a = (q, c)" for q a c
    using that readingD [OF reading_lookup(2)] lookup_Inr(2)
    by (fastforce simp: on_disk_def map_err_Inr split: prod.splits)
  have sync: "fs_nodes c = fs_nodes a" if "on_disk (sync_all env) a = (q, c)" for q a c
    using that by (auto simp: on_disk_def sync_all_def syscall_def Let_def split: option.splits prod.splits)
  have same: "\<exists>added. Some n = Some (n\<lparr>nd_data := nd_data n @ added\<rparr>)" by (intro exI [of _ "[]"]) simp
  have written: "\<exists>added. fs_nodes c h = Some (n\<lparr>nd_data := nd_data n @ added\<rparr>)"
    if "on_disk (append_all env h (nd_data n) line) a = (q, c)" "fs_nodes a h = Some n" for line q a c
    using that by (auto simp: on_disk_def append_all_def set_data_def split: option.splits prod.splits)
  obtain q1 fs1 where one: "on_disk (file_metadata env h) fs = (q1, fs1)" by (cases "on_disk (file_metadata env h) fs")
  obtain q2 fs2 where two: "on_disk (file_metadata env h) fs1 = (q2, fs2)" by (cases "on_disk (file_metadata env h) fs1")
  note seen = look [OF one] look [OF two]
  have nodes: "fs_nodes fs1 h = Some n" "fs_nodes fs2 h = Some n" "\<And>m. q2 = Inr m \<Longrightarrow> m = n" using seen n by auto
  consider "fs' = fs1" | "fs' = fs2"
    | line q3 fs3 where "on_disk (append_all env h (nd_data n) (utf8_encode line)) fs2 = (q3, fs3)"
        "fs' = fs3 \<or> (\<exists>q4. on_disk (sync_all env) fs3 = (q4, fs'))"
    using run one two nodes(3)
    by (auto simp: pin_body_def chain_def ret_def fail_def split: sum.splits if_splits option.splits pin_answer.splits prod.splits)
  then show ?thesis
    by cases (use nodes same written sync in \<open>metis+\<close>)
qed

lemma ensure_pinned_appends:
  assumes honest: "honest_kernel env" and run: "ensure_pinned env p addr fingerprint fs = (r, fs')"
    and n: "fs_nodes fs (resolve env p) = Some n"
  shows "\<exists>added. fs_nodes fs' (resolve env p) = Some (n\<lparr>nd_data := nd_data n @ added\<rparr>)"
proof -
  obtain q fs1 where opened: "open_locked env p fs = (q, fs1)" by (cases "open_locked env p fs")
  have n1: "fs_nodes fs1 (resolve env p) = Some n"
    using extends_node [OF extendingD [OF extending_open_locked opened] n] .
  show ?thesis
  proof (cases q)
    case (Inl x)
    with run opened have "fs' = fs1" by (auto simp: ensure_pinned_def chain_def on_disk_def)
    with n1 show ?thesis by (intro exI [of _ "[]"]) simp
  next
    case (Inr h)
    have h: "h = resolve env p" using open_locked_Inr(1) [OF honest opened [unfolded Inr]] .
    obtain r2 fs2 where body: "pin_body env h addr fingerprint fs1 = (r2, fs2)" by (cases "pin_body env h addr fingerprint fs1")
    have "fs' = close_file h fs2"
      using run opened Inr body by (simp add: ensure_pinned_def chain_def on_disk_def)
    then have "fs_nodes fs' = fs_nodes fs2" by (simp add: close_file_def split: option.splits)
    with pin_body_appends [OF body] n1 show ?thesis by (simp add: h)
  qed
qed

lemma text_lines_append: "t = [] \<or> last t = 10 \<Longrightarrow> text_lines (t @ u) = text_lines t @ text_lines u"
proof (induction t rule: text_lines.induct)
  case (1 t)
  show ?case
  proof (cases "t = []")
    case False
    with "1.prems" have ends: "last t = 10" "10 \<in> set t" using last_in_set [OF False] by auto
    then obtain front rest where t: "t = front @ 10 # rest" "10 \<notin> set front" by (metis split_list_first)
    have "text_lines (rest @ u) = text_lines rest @ text_lines u"
      using "1.IH" [OF False refl refl] ends t by (simp add: takeWhile_line dropWhile_line split: if_splits)
    then show ?thesis using t False
      by (subst text_lines.simps, subst (2) text_lines.simps) (simp add: takeWhile_line dropWhile_line Let_def)
  qed (simp add: text_lines.simps [of "[]"])
qed

lemma find_pin_first: "find_pin addr f ls = Some b \<Longrightarrow> find_pin addr f (ls @ tail) = Some b"
  by (induction ls) (auto split: list.splits if_splits)

lemma utf8_decode_prefix:
  "utf8_decode bs = Some t \<Longrightarrow> utf8_decode (bs @ tail) = Some s \<Longrightarrow> \<exists>u. s = t @ u"
proof (induction bs arbitrary: t s rule: utf8_decode.induct)
  case (1 bs)
  show ?case
  proof (cases "bs = []")
    case False
    with "1.prems"(1) obtain c rest t' where one: "utf8_take bs = Some (c, rest)" "utf8_decode rest = Some t'" "t = c # t'"
      by (subst (asm) utf8_decode.simps) (auto split: option.splits)
    with "1.prems"(2) False utf8_take_append [OF one(1), of tail] obtain s' where "utf8_decode (rest @ tail) = Some s'" "s = c # s'"
      by (subst (asm) utf8_decode.simps) (auto split: option.splits)
    with "1.IH" [OF False one(1) refl one(2)] one(3) show ?thesis by auto
  qed (use "1.prems" in simp)
qed

text \<open>The file at \<open>h\<close> begins with complete lines that pin the address to the fingerprint.\<close>

definition holds_pin :: "rstr \<Rightarrow> rstr \<Rightarrow> file_path \<Rightarrow> FileSystem \<Rightarrow> bool" where
  "holds_pin addr f h fs \<longleftrightarrow>
     (\<exists>n base tail t. fs_nodes fs h = Some n \<and> nd_data n = base @ tail \<and> utf8_decode base = Some t \<and> last t = 10
        \<and> t \<noteq> [] \<and> find_pin addr f (text_lines t) = Some True)"

text \<open>
  What may happen to the file afterwards: calls of \<open>ensure_pinned\<close>, for this address or others, with any
  certificate and any failure, and everything that leaves the file alone.
\<close>

definition pin_activity :: "file_path \<Rightarrow> FileSystem \<Rightarrow> FileSystem \<Rightarrow> bool" where
  "pin_activity h fs fs' \<longleftrightarrow> fs_nodes fs' h = fs_nodes fs h
     \<or> (\<exists>env p addr f r. honest_kernel env \<and> resolve env p = h \<and> ensure_pinned env p addr f fs = (r, fs'))"

interpretation pinned_file: step_invariant "pin_activity h" "holds_pin addr f h" for h addr f
proof
  fix fs fs' assume step: "pin_activity h fs fs'" and held: "holds_pin addr f h fs"
  from held obtain n base tail t where h: "fs_nodes fs h = Some n" "nd_data n = base @ tail" "utf8_decode base = Some t"
    "last t = 10" "t \<noteq> []" "find_pin addr f (text_lines t) = Some True" by (auto simp: holds_pin_def)
  from step ensure_pinned_appends h(1) have "\<exists>added. fs_nodes fs' h = Some (n\<lparr>nd_data := nd_data n @ added\<rparr>)"
    unfolding pin_activity_def by (elim disjE exE conjE) (auto intro: exI [of _ "[]"])
  with h show "holds_pin addr f h fs'" by (fastforce simp: holds_pin_def)
qed

lemma held_pin_decides:
  assumes held: "holds_pin addr fp (resolve env p) fs" and honest: "honest_kernel env"
    and run: "ensure_pinned env p addr f fs = (Inr b, fs')"
  shows "f = fp \<and> \<not> b"
proof -
  from held obtain n base tail t where h: "fs_nodes fs (resolve env p) = Some n" "nd_data n = base @ tail" "utf8_decode base = Some t"
    "last t = 10" "find_pin addr fp (text_lines t) = Some True" by (auto simp: holds_pin_def)
  from ensure_pinned_Inr [OF honest run] obtain old where old: "pin_text env p fs = Some old"
    and cases: "\<not> b \<and> consult_pins addr f old = PinKnown \<or> b \<and> (\<exists>line. consult_pins addr f old = PinNew line)" by blast
  from old h have "utf8_decode (base @ tail) = Some old" by (simp add: pin_text_def)
  then obtain u where "old = t @ u" using utf8_decode_prefix [OF h(3)] by blast
  then have lines: "text_lines old = text_lines t @ text_lines u" using h(4) text_lines_append by simp
  obtain b' where b': "find_pin addr f (text_lines t) = Some b'" "f \<noteq> fp \<longrightarrow> \<not> b'"
    using find_pin_decides [OF h(5), of f] by auto
  then have "find_pin addr f (text_lines old) = Some b'" using lines find_pin_first by simp
  with cases b'(2) show ?thesis
    by (auto simp: consult_pins_def Let_def split: if_splits bool.splits)
qed

lemma accepted_pin_is_written:
  assumes honest: "honest_kernel env" and digest: "\<And>bs. length (sha256 bs) = 32" and word: "is_word addr"
    and run: "ensure_pinned env p addr (cert_fingerprint_sha256_hex sha256 cert) fs = (Inr b, fs')"
  shows "\<exists>old new. pin_text env p fs = Some old \<and> pin_text env p fs' = Some new
    \<and> consult_pins addr (cert_fingerprint_sha256_hex sha256 cert) new = PinKnown
    \<and> (\<forall>f. f \<noteq> cert_fingerprint_sha256_hex sha256 cert \<longrightarrow> consult_pins addr f new = PinError ''relay fingerprint mismatch'')
    \<and> (\<forall>a f. a \<noteq> addr \<longrightarrow> find_pin a f (text_lines new) = find_pin a f (text_lines old))
    \<and> (b \<longleftrightarrow> find_pin addr (cert_fingerprint_sha256_hex sha256 cert) (text_lines old) = None)"
proof -
  let ?fp = "cert_fingerprint_sha256_hex sha256 cert"
  have fp: "is_word ?fp" "\<not> isl (parse_fingerprint_hex ?fp)" by (rule fingerprint_word, rule digest)+
  have other: "consult_pins addr f new = PinError ''relay fingerprint mismatch''"
    if "consult_pins addr ?fp new = PinKnown" "f \<noteq> ?fp" for f new
  proof -
    have "find_pin addr f (text_lines new) = Some False"
      using that find_pin_decides [of addr ?fp "text_lines new" True f] by (auto simp: consult_known)
    with that(1) show ?thesis unfolding consult_known by (auto simp: consult_pins_def)
  qed
  from ensure_pinned_Inr [OF honest run] obtain old where old: "pin_text env p fs = Some old"
    and cases: "\<not> b \<and> consult_pins addr ?fp old = PinKnown \<and> pin_text env p fs' = Some old
       \<or> b \<and> (\<exists>line. consult_pins addr ?fp old = PinNew line
            \<and> (valid_str line \<longrightarrow> pin_text env p fs' = Some (old @ line)))" by blast
  show ?thesis
  proof (cases b)
    case False
    with cases have known: "consult_pins addr ?fp old = PinKnown" "pin_text env p fs' = Some old" by auto
    then have "find_pin addr ?fp (text_lines old) \<noteq> None" by (simp add: consult_known)
    with known old other [OF known(1)] False show ?thesis by (intro exI [of _ old]) simp
  next
    case True
    let ?new = "old @ addr @ 32 # ?fp @ [10]"
    from cases True have told: "old = [] \<or> last old = 10" "\<not> list_ex malformed_pin (text_lines old)"
        "find_pin addr ?fp (text_lines old) = None"
      and new: "valid_str (addr @ 32 # ?fp @ [10]) \<longrightarrow> pin_text env p fs' = Some ?new"
      by (auto simp: consult_pins_def Let_def split: if_splits option.splits bool.splits)
    have new: "pin_text env p fs' = Some ?new" using new word fp(1) by (simp add: is_word_def is_scalar_def)
    note lines = pin_line_read [OF word fp(1) told(1)] and split = split_words [OF word fp(1)]
    have "\<not> malformed_pin (addr @ 32 # ?fp)" using fp(2) by (simp add: malformed_pin_def split)
    with told lines split have known: "consult_pins addr ?fp ?new = PinKnown"
      by (simp add: consult_known find_pin_append)
    have "find_pin a f (text_lines ?new) = find_pin a f (text_lines old)" if "a \<noteq> addr" for a f
      using that by (simp add: lines find_pin_append split split: option.splits)
    with known new old other [OF known] told(3) True show ?thesis by (intro exI [of _ old] exI [of _ ?new]) simp
  qed
qed

text \<open>
  Property C18. Trust on first use. When \<open>ensure_pinned\<close> accepts a certificate for an address, the pin
  file says so: the same fingerprint is known, every other one is refused for this address, and no other address is
  affected. The pin is new exactly if the file said nothing about the address. And this lasts: whatever is
  presented afterwards, for this address or others, and however those calls end, even in a torn write, no
  other certificate is ever accepted for the address, and the accepted one is never taken for a new one.
\<close>

theorem relay_pins_are_kept:
  assumes honest: "honest_kernel env" and digest: "\<And>bs. length (sha256 bs) = 32" and word: "is_word addr"
    and run: "ensure_pinned env p addr (cert_fingerprint_sha256_hex sha256 cert) fs = (Inr b, fs')"
  shows "(\<exists>old new. pin_text env p fs = Some old \<and> pin_text env p fs' = Some new
    \<and> consult_pins addr (cert_fingerprint_sha256_hex sha256 cert) new = PinKnown
    \<and> (\<forall>f. f \<noteq> cert_fingerprint_sha256_hex sha256 cert \<longrightarrow> consult_pins addr f new = PinError ''relay fingerprint mismatch'')
    \<and> (\<forall>a f. a \<noteq> addr \<longrightarrow> find_pin a f (text_lines new) = find_pin a f (text_lines old))
    \<and> (b \<longleftrightarrow> find_pin addr (cert_fingerprint_sha256_hex sha256 cert) (text_lines old) = None))
    \<and> (\<forall>later env' p' f b' fs''. (pin_activity (resolve env p))\<^sup>*\<^sup>* fs' later \<and> honest_kernel env' \<and> resolve env' p' = resolve env p
         \<and> ensure_pinned env' p' addr f later = (Inr b', fs'') \<longrightarrow> f = cert_fingerprint_sha256_hex sha256 cert \<and> \<not> b')"
proof (intro conjI allI impI; (elim conjE)?)
  let ?fp = "cert_fingerprint_sha256_hex sha256 cert"
  show written: "\<exists>old new. pin_text env p fs = Some old \<and> pin_text env p fs' = Some new
    \<and> consult_pins addr ?fp new = PinKnown
    \<and> (\<forall>f. f \<noteq> ?fp \<longrightarrow> consult_pins addr f new = PinError ''relay fingerprint mismatch'')
    \<and> (\<forall>a f. a \<noteq> addr \<longrightarrow> find_pin a f (text_lines new) = find_pin a f (text_lines old))
    \<and> (b \<longleftrightarrow> find_pin addr ?fp (text_lines old) = None)" by (rule accepted_pin_is_written [OF assms])
  fix later env' p' f b' fs'' assume steps: "(pin_activity (resolve env p))\<^sup>*\<^sup>* fs' later"
    and call: "honest_kernel env'" "resolve env' p' = resolve env p" "ensure_pinned env' p' addr f later = (Inr b', fs'')"
  from written obtain new where new: "pin_text env p fs' = Some new" "new = [] \<or> last new = 10" "find_pin addr ?fp (text_lines new) = Some True"
    unfolding consult_known by blast
  have "new \<noteq> []" using new(3) by (auto simp: text_lines.simps [of "[]"])
  with new have "holds_pin addr ?fp (resolve env p) fs'"
    by (auto simp: holds_pin_def pin_text_def text_lines.simps [of "[]"] split: option.splits intro: exI [of _ "[]"])
  from pinned_file.run_inv [OF steps this] have held: "holds_pin addr ?fp (resolve env' p') later" by (simp add: call(2))
  show "f = ?fp" "\<not> b'" using held_pin_decides [OF held call(1,3)] by auto
qed

definition fx_digest :: "bytes \<Rightarrow> bytes" where
  "fx_digest bs = replicate 32 (if bs = [] then 0 else hd bs)"

definition fx_pin :: "bool disk_op" where
  "fx_pin = ensure_pinned fx_kernel (fx_file 112) [104, 58, 49] (cert_fingerprint_sha256_hex fx_digest [5])"

lemma fx_pin_new: "fst (fx_pin fx_disk) = Inr True"
proof -
  have empty: "text_lines [] = []" by (subst text_lines.simps) simp
  have "length (cert_fingerprint_sha256_hex fx_digest [5]) = 64"
    by (simp add: fingerprint_eq_hex_string length_hex_string fx_digest_def)
  then have "str_len (104 # 58 # 49 # 32 # cert_fingerprint_sha256_hex fx_digest [5] @ [10]) \<le> 4 * 69"
    using str_len_le [of "104 # 58 # 49 # 32 # cert_fingerprint_sha256_hex fx_digest [5] @ [10]"] by simp
  then have "consult_pins [104, 58, 49] (cert_fingerprint_sha256_hex fx_digest [5]) []
      = PinNew (104 # 58 # 49 # 32 # cert_fingerprint_sha256_hex fx_digest [5] @ [10])"
    by (simp add: consult_pins_def empty PIN_LIMIT_def str_len_def utf8_encode_def)
  then show ?thesis
    by (simp add: fx_pin_def ensure_pinned_def pin_body_def on_disk_def append_all_def sync_all_def set_data_def close_file_def
      PIN_LIMIT_def open_locked_def ensure_parent_def check_ancestors_def check_existing_def check_sidecars_def create_dirs_def
      make_dir_def open_file_def file_metadata_def lock_or_refuse_def try_lock_def symlink_metadata_def syscall_def node_at_def
      add_node_def resolve_def path_join_def path_ancestors_def with_suffix_def path_parent_def parent_dir_def owner_only_def
      unsafe_ancestor_def chain_def ret_def fail_def Let_def fx_kernel_def fx_disk_def fx_root_dir_def fx_home_dir_def fx_paths
      str_of_def file_error_kind_def)
qed

theorem relay_pins_are_kept_witness:
  "\<exists>new. pin_text fx_kernel (fx_file 112) (snd (fx_pin fx_disk)) = Some new
     \<and> consult_pins [104, 58, 49] (cert_fingerprint_sha256_hex fx_digest [5]) new = PinKnown
     \<and> consult_pins [104, 58, 49] (cert_fingerprint_sha256_hex fx_digest [6]) new = PinError ''relay fingerprint mismatch''
     \<and> isl (fst (ensure_pinned fx_kernel (fx_file 112) [104, 58, 49] (cert_fingerprint_sha256_hex fx_digest [6]) (snd (fx_pin fx_disk))))"
proof -
  have run: "ensure_pinned fx_kernel (fx_file 112) [104, 58, 49] (cert_fingerprint_sha256_hex fx_digest [5]) fx_disk
      = (Inr True, snd (fx_pin fx_disk))"
    using fx_pin_new unfolding fx_pin_def by (metis prod.collapse)
  have digest: "length (fx_digest bs) = 32" for bs by (simp add: fx_digest_def)
  have word: "is_word [104, 58, 49]" by (simp add: is_word_def is_scalar_def is_whitespace_def)
  have "hex_pairs (hex_string (fx_digest [6])) \<noteq> hex_pairs (hex_string (fx_digest [5]))"
    by (simp add: hex_pairs_hex_string fx_digest_def)
  then have "cert_fingerprint_sha256_hex fx_digest [6] \<noteq> cert_fingerprint_sha256_hex fx_digest [5]"
    by (auto simp: fingerprint_eq_hex_string)
  note kept = relay_pins_are_kept [OF fx_kernel_honest digest word run] and other = this
  have "isl (fst (ensure_pinned fx_kernel (fx_file 112) [104, 58, 49] (cert_fingerprint_sha256_hex fx_digest [6]) (snd (fx_pin fx_disk))))"
  proof (rule ccontr)
    assume "\<not> ?thesis"
    then obtain b fs where "ensure_pinned fx_kernel (fx_file 112) [104, 58, 49] (cert_fingerprint_sha256_hex fx_digest [6]) (snd (fx_pin fx_disk))
        = (Inr b, fs)" by (metis isl_def prod.collapse sum.exhaust)
    with conjunct2 [OF kept] other fx_kernel_honest show False by blast
  qed
  with conjunct1 [OF kept] other show ?thesis by blast
qed

section \<open>Waiting between attempts\<close>

lemma wait_millis_eq:
  "unat d \<le> 30 \<Longrightarrow> unat (wait_millis d j) = min (unat d * 1000 + unat j * unat d * 2) 30000"
proof -
  assume d: "unat d \<le> 30"
  have j: "unat j < 256" by (rule unat_u8_less)
  then have "unat j \<le> 255" by linarith
  then have "unat j * unat d \<le> 255 * 30" using d by (rule mult_mono) simp_all
  then have "unat j * unat d * 2 \<le> 255 * 30 * 2" by (rule mult_right_mono) simp
  also have "\<dots> < 2 ^ 64" by simp
  finally have small: "unat j * unat d * 2 < 2 ^ 64" .
  have "unat (ucast j :: u64) = unat j" using \<open>unat j \<le> 255\<close> by (simp add: unsigned_ucast_eq take_bit_eq_mod)
  then have "unat (ucast j * d * 2 :: u64) = unat j * unat d * 2 mod 2 ^ 64"
    by (simp add: unat_word_ariths mod_mult_left_eq)
  also have "\<dots> = unat j * unat d * 2" using small by (rule mod_less)
  finally have "unat (ucast j * d * 2 :: u64) = unat j * unat d * 2" .
  moreover have "unat (d * 1000) = unat d * 1000" using d by (simp add: unat_word_ariths)
  ultimately have "unat (d * 1000 + ucast j * d * 2) = unat d * 1000 + unat j * unat d * 2"
    using d \<open>unat j * unat d \<le> 255 * 30\<close> by (simp add: unat_word_ariths)
  then show ?thesis by (auto simp: wait_millis_def min_def word_le_nat_alt)
qed

lemma next_delay_eq: "unat d \<le> 30 \<Longrightarrow> unat (next_delay d) = min (unat d * 2) 30"
  by (auto simp: next_delay_def min_def word_le_nat_alt unat_word_ariths)

text \<open>The loop with the states between its rounds: who is waited for, and how it ends.\<close>

lemma run_rounds_trace:
  fixes w :: "('g, 'm) client_world"
  assumes "run_rounds w cfg seed delay rds st = ((r, waits), st')"
  shows "length waits \<le> length rds \<and> (\<exists>sts. sts 0 = st
    \<and> (\<forall>i < length waits. \<exists>error. run_round w cfg seed (rds ! i) (sts i) = (Some (Inl error), sts (Suc i))
         \<and> retryable error \<and> \<not> rd_input_done (rds ! i))
    \<and> (\<forall>q. r = Some q \<longrightarrow> length waits < length rds
         \<and> (\<exists>q'. run_round w cfg seed (rds ! length waits) (sts (length waits)) = (Some q', st')
              \<and> (q' = q \<and> (\<forall>error. q = Inl error \<longrightarrow> \<not> retryable error)
                 \<or> (\<exists>error. q' = Inl error \<and> retryable error
                      \<and> (if rd_input_done (rds ! length waits) then q = Inr ()
                         else rd_jitter (rds ! length waits) = None \<and> q = Inl ClientRandomness))))))"
  using assms
proof (induction rds arbitrary: delay st waits)
  case (Cons rd rds)
  obtain q st1 where one: "run_round w cfg seed rd st = (q, st1)" by (cases "run_round w cfg seed rd st")
  show ?case
  proof (cases waits)
    case Nil
    with Cons.prems one show ?thesis
      by (intro conjI exI [of _ "\<lambda>_. st"]) (auto simp: Let_def split: option.splits sum.splits if_splits prod.splits)
  next
    case (Cons wait rest)
    with Cons.prems one obtain error d where error: "q = Some (Inl error)" "retryable error" "\<not> rd_input_done rd" "rd_jitter rd \<noteq> None"
      and later: "run_rounds w cfg seed d rds st1 = ((r, rest), st')"
      by (auto simp: Let_def split: option.splits sum.splits if_splits prod.splits)
    from Cons.IH [OF later] obtain sts where "length rest \<le> length rds" "sts 0 = st1"
      "\<forall>i < length rest. \<exists>error. run_round w cfg seed (rds ! i) (sts i) = (Some (Inl error), sts (Suc i))
         \<and> retryable error \<and> \<not> rd_input_done (rds ! i)"
      "\<forall>q. r = Some q \<longrightarrow> length rest < length rds
         \<and> (\<exists>q'. run_round w cfg seed (rds ! length rest) (sts (length rest)) = (Some q', st')
              \<and> (q' = q \<and> (\<forall>error. q = Inl error \<longrightarrow> \<not> retryable error)
                 \<or> (\<exists>error. q' = Inl error \<and> retryable error
                      \<and> (if rd_input_done (rds ! length rest) then q = Inr ()
                         else rd_jitter (rds ! length rest) = None \<and> q = Inl ClientRandomness))))" by blast
    with one error Cons show ?thesis
      by (intro conjI exI [of _ "case_nat st sts"]) (auto simp: less_Suc_eq_0_disj)
  qed
qed auto

text \<open>The length of a wait after a delay of \<open>d\<close> seconds.\<close>

definition waited :: "round \<Rightarrow> nat \<Rightarrow> u64 \<Rightarrow> bool" where
  "waited rd d wait \<longleftrightarrow>
     (\<exists>jitter. rd_jitter rd = Some jitter \<and> unat wait = min (1000 * d + 2 * unat jitter * d) 30000)"

lemma run_rounds_step:
  assumes "run_rounds w cfg seed delay (rd # rds) st = ((r, wait # waits), st')" "unat delay \<le> 30"
  shows "\<exists>st1. run_rounds w cfg seed (next_delay (if rd_slow rd then 1 else delay)) rds st1 = ((r, waits), st')
    \<and> waited rd (unat (if rd_slow rd then 1 else delay)) wait"
  using assms wait_millis_eq [of "if rd_slow rd then 1 else delay"]
  by (auto simp: Let_def waited_def algebra_simps split: option.splits sum.splits if_splits prod.splits)

lemma run_rounds_waits:
  assumes "unat delay = min (2 ^ c) 30" "run_rounds w cfg seed delay rds st = ((r, waits), st')" "i < length waits"
  shows "(\<forall>j\<le>i. rd_slow (rds ! j) \<and> (\<forall>k. j < k \<and> k \<le> i \<longrightarrow> \<not> rd_slow (rds ! k)) \<longrightarrow> waited (rds ! i) (min (2 ^ (i - j)) 30) (waits ! i))
    \<and> ((\<forall>k\<le>i. \<not> rd_slow (rds ! k)) \<longrightarrow> waited (rds ! i) (min (2 ^ (c + i)) 30) (waits ! i))"
  using assms
proof (induction rds arbitrary: delay c st waits i)
  case (Cons rd rds)
  let ?d = "if rd_slow rd then 1 else delay" and ?c = "if rd_slow rd then 0 else c"
  from Cons.prems(3) obtain wait rest where waits: "waits = wait # rest" by (cases waits) auto
  have "unat delay \<le> 30" and d: "unat ?d = min (2 ^ ?c) 30" using Cons.prems(1) by simp_all
  from run_rounds_step [OF Cons.prems(2) [unfolded waits] this(1)] obtain st1 where
    later: "run_rounds w cfg seed (next_delay ?d) rds st1 = ((r, rest), st')" and wait: "waited rd (unat ?d) wait" by blast
  show ?case
  proof (cases i)
    case 0
    then show ?thesis using wait d by (auto simp: waits)
  next
    case (Suc k)
    have "unat (next_delay ?d) = min (unat ?d * 2) 30" using d by (intro next_delay_eq) simp
    also have "\<dots> = min (2 ^ Suc ?c) 30" unfolding d by (simp add: min_def)
    finally have next_d: "unat (next_delay ?d) = min (2 ^ Suc ?c) 30" .
    have k: "k < length rest" using Cons.prems(3) Suc waits by simp
    note ih = Cons.IH [OF next_d later k]
    have first: "waited (rds ! k) (min (2 ^ (Suc ?c + k)) 30) (rest ! k)" if "\<forall>n. 0 < n \<and> n \<le> i \<longrightarrow> \<not> rd_slow ((rd # rds) ! n)"
      using ih that Suc by force
    have "waited (rds ! k) (min (2 ^ (i - j)) 30) (rest ! k)"
      if "j \<le> i" "rd_slow ((rd # rds) ! j)" "\<forall>n. j < n \<and> n \<le> i \<longrightarrow> \<not> rd_slow ((rd # rds) ! n)" for j
    proof (cases j)
      case 0
      with first that Suc show ?thesis by simp
    next
      case (Suc m)
      with ih that \<open>i = Suc k\<close> show ?thesis by force
    qed
    moreover have "waited (rds ! k) (min (2 ^ (c + i)) 30) (rest ! k)" if "\<forall>n\<le>i. \<not> rd_slow ((rd # rds) ! n)"
      using first that Suc by force
    ultimately show ?thesis by (simp add: waits Suc)
  qed
qed simp

text \<open>
  Property C33. Back-off. Between two attempts the client waits only after an error that trying again may cure, with the
  input still open. The length of the wait is exact: \<open>d\<close> seconds and up to about half as much again at random, at
  most thirty seconds in all, where \<open>d\<close> is one after a connection that lasted and doubles with every further attempt up to
  thirty. The loop ends without an error when a session does, or when the connection is lost and the input is closed; with an
  error only if trying again would not cure it, or if there is no randomness.
\<close>

theorem reconnects_back_off:
  fixes w :: "('g, 'm) client_world"
  assumes run: "run_rounds w cfg seed 1 rds st = ((r, waits), st')"
  shows "(\<forall>i < length waits. \<forall>j\<le>i. (j = 0 \<or> rd_slow (rds ! j)) \<and> (\<forall>k. j < k \<and> k \<le> i \<longrightarrow> \<not> rd_slow (rds ! k)) \<longrightarrow>
      (\<exists>jitter. rd_jitter (rds ! i) = Some jitter
         \<and> unat (waits ! i) = min (1000 * min (2 ^ (i - j)) 30 + 2 * unat jitter * min (2 ^ (i - j)) 30) 30000))
    \<and> (\<exists>sts. sts 0 = st
      \<and> (\<forall>i < length waits. \<exists>error. run_round w cfg seed (rds ! i) (sts i) = (Some (Inl error), sts (Suc i))
           \<and> retryable error \<and> \<not> rd_input_done (rds ! i))
      \<and> (\<forall>q. r = Some q \<longrightarrow> length waits < length rds
           \<and> (\<exists>q'. run_round w cfg seed (rds ! length waits) (sts (length waits)) = (Some q', st')
                \<and> (q' = q \<and> (\<forall>error. q = Inl error \<longrightarrow> \<not> retryable error)
                   \<or> (\<exists>error. q' = Inl error \<and> retryable error
                        \<and> (if rd_input_done (rds ! length waits) then q = Inr ()
                           else rd_jitter (rds ! length waits) = None \<and> q = Inl ClientRandomness))))))"
proof (intro conjI allI impI)
  fix i j assume "i < length waits" "j \<le> i" "(j = 0 \<or> rd_slow (rds ! j)) \<and> (\<forall>k. j < k \<and> k \<le> i \<longrightarrow> \<not> rd_slow (rds ! k))"
  with run_rounds_waits [of 1 0 w cfg seed rds st r waits st' i] run
  have "waited (rds ! i) (min (2 ^ (i - j)) 30) (waits ! i)"
    by (cases "rd_slow (rds ! j)") (auto, metis not_gr_zero)
  then show "\<exists>jitter. rd_jitter (rds ! i) = Some jitter
      \<and> unat (waits ! i) = min (1000 * min (2 ^ (i - j)) 30 + 2 * unat jitter * min (2 ^ (i - j)) 30) 30000"
    by (simp add: waited_def)
qed (rule conjunct2 [OF run_rounds_trace [OF run]])

definition fx_config :: client_config where
  "fx_config = \<lparr>cg_address = [104, 58, 49], cg_fingerprint = None, cg_pins = Inr (fx_file 112), cg_token = None,
     cg_to_lowercase = (\<lambda>s. s), cg_is_ip = (\<lambda>_. False), cg_is_dns_name = (\<lambda>_. True)\<rparr>"

definition fx_connect :: "io_kind option \<Rightarrow> reader \<Rightarrow> connect_env" where
  "fx_connect refused r = \<lparr>cn_deadline = InTime, cn_tcp = refused, cn_tls = None, cn_presented = Some [5], cn_disk = fx_kernel,
     cn_reader = r, cn_fault = (\<lambda>_. None)\<rparr>"

definition fx_attempt :: "io_kind option \<Rightarrow> reader \<Rightarrow> round" where
  "fx_attempt refused r = \<lparr>rd_connect = fx_connect refused r, rd_timed_out = (\<lambda>_. False), rd_silences = [], rd_wire_fault = (\<lambda>_. None),
     rd_picks = [PickTimer, PickWire], rd_slow = False, rd_input_done = False, rd_jitter = Some 3\<rparr>"

lemma fx_refused:
  "run_round fx_world fx_config seed (fx_attempt (Some ConnectionRefused) r) (e, fs) = (Some (Inl (ClientIo ConnectionRefused)), e, fs)"
  by (simp add: run_round_def fx_attempt_def connect_def handshake_failure_def fx_connect_def fail_def)

lemma fx_waits:
  "run_rounds fx_world fx_config seed 1 [fx_attempt (Some ConnectionRefused) [], fx_attempt (Some ConnectionRefused) []] (e, fs)
    = ((None, [1006, 2012]), e, fs)"
proof -
  have sel: "\<not> rd_slow (fx_attempt k r)" "\<not> rd_input_done (fx_attempt k r)" "rd_jitter (fx_attempt k r) = Some 3" for k r
    by (simp_all add: fx_attempt_def)
  show ?thesis by (simp add: fx_refused sel retryable_def wait_millis_def next_delay_def)
qed

theorem reconnects_back_off_witness:
  "\<exists>waits st'. run_rounds fx_world fx_config [] 1 [fx_attempt (Some ConnectionRefused) [], fx_attempt (Some ConnectionRefused) []]
       (fx_engine 0, fx_disk) = ((None, waits), st')
     \<and> length waits = 2 \<and> unat (waits ! 1) = 1000 * 2 + 2 * 3 * 2"
proof -
  let ?rds = "[fx_attempt (Some ConnectionRefused) [], fx_attempt (Some ConnectionRefused) []]"
  have calm: "\<not> rd_slow (?rds ! k)" "rd_jitter (?rds ! k) = Some 3" if "k \<le> 1" for k
    using that by (cases k; simp add: fx_attempt_def)+
  note run = fx_waits [of "[]" "fx_engine 0" fx_disk]
  from conjunct1 [OF reconnects_back_off [OF run]] calm(1)
  have "\<exists>jitter. rd_jitter (?rds ! 1) = Some jitter
      \<and> unat ([1006, 2012 :: u64] ! 1) = min (1000 * min (2 ^ (1 - 0)) 30 + 2 * unat jitter * min (2 ^ (1 - 0)) 30) 30000"
    by (elim allE [where x = 1] allE [where x = 0] impE) auto
  with calm(2) [of 1] have second: "unat ([1006, 2012 :: u64] ! 1) = 1000 * 2 + 2 * 3 * 2" by simp
  show ?thesis by (rule exI, rule exI, rule conjI [OF run], rule conjI [OF _ second]) simp
qed

section \<open>The durable state through all connections\<close>

text \<open>
  Property C5. State survives. Through any number of connections, lost or refused, with any relay
  and any failures of the disk: the inbox stays in order, no recorded event is changed or forgotten, the cursor
  of a room only moves forward, over events that are recorded and settled, and a verified contact keeps its card and
  signing key.
\<close>

theorem state_survives_reconnects:
  fixes w :: "('g, 'm) client_world"
  assumes "documented_library (cw_lib w) (cw_env w)" "postcard_wire (cw_pc w)" "good (cw_pc w) (en_store e)"
    and e': "e' = fst (snd (run_rounds w cfg seed delay rds (e, fs)))"
  shows "inbox_ok (cw_pc w) (durable_db (en_store e'))
    \<and> inbox_grows (durable_db (en_store e)) (durable_db (en_store e'))
    \<and> (\<forall>room n. cd_delivery_cursors (durable_db (en_store e)) room = Some n \<longrightarrow>
         (\<exists>n'. cd_delivery_cursors (durable_db (en_store e')) room = Some n' \<and> n \<le> n' \<and> covers (durable_db (en_store e')) room n n'))
    \<and> (\<forall>user pin. map_of (cd_verified_contacts (durable_db (en_store e))) user = Some pin \<longrightarrow>
         map_of (cd_verified_contacts (durable_db (en_store e'))) user = Some pin)"
proof -
  obtain r fs' where "run_rounds w cfg seed delay rds (e, fs) = (r, e', fs')" using e' by (metis prod.collapse)
  from run_rounds_last [OF assms(1-3) this] show ?thesis
    by (auto simp: lasting_def good_def app_grows_def cursors_advance_def pins_kept_def map_le_def dom_def)
qed

theorem state_survives_reconnects_witness:
  "map_of (cd_verified_contacts (durable_db (en_store (fst (snd (run_rounds fx_world fx_config [] 1
       [fx_attempt (Some ConnectionRefused) [], fx_attempt None [Chunk [0]]] (fx_engine 0, fx_disk))))))) fx_user
     = Some (card_mls_key (fx_card fx_user), card_bytes (fx_card fx_user))"
proof -
  have "good (cw_pc fx_world) (en_store (fx_engine 0))"
    using fx_ready [OF fx_page_ok] by (simp add: ready_def fx_start)
  moreover have "map_of (cd_verified_contacts (durable_db (en_store (fx_engine 0)))) fx_user
      = Some (card_mls_key (fx_card fx_user), card_bytes (fx_card fx_user))"
    by (simp add: fx_engine_def durable_db_def fx_store_def pin_contact_def empty_client_db_def fx_card_def fx_users)
  ultimately show ?thesis
    using state_survives_reconnects [OF _ _ _ refl, of fx_world "fx_engine 0" fx_config "[]" 1
        "[fx_attempt (Some ConnectionRefused) [], fx_attempt None [Chunk [0]]]" fx_disk]
    by (simp add: fx_documented fx_wire)
qed

section \<open>The two sides of the login\<close>

definition frames :: "bytes list \<Rightarrow> bytes" where
  "frames payloads = concat (map frame_of payloads)"

lemma frames_simps [simp]: "frames [] = []" "frames (p # ps) = frame_of p @ frames ps"
  by (simp_all add: frames_def)

lemma socket_send_ok:
  assumes "length (ser_client_message pc message) \<le> MAX_PAYLOAD" "so_fault so = (\<lambda>_. None)"
  shows "socket_send pc message so = (Inr (), so\<lparr>so_sent := so_sent so @ [ser_client_message pc message]\<rparr>)"
  using assms by (simp add: socket_send_def encode_as_def encode_message_def)

lemma socket_receive_ok:
  assumes "postcard_wire pc" "wf_relay_message message" "length (ser_relay_message pc message) \<le> MAX_PAYLOAD"
    and "delivers (so_reader so) (frame_of (ser_relay_message pc message) @ rest)"
  shows "\<exists>r. socket_receive pc so = (Inr message, so\<lparr>so_reader := r\<rparr>) \<and> delivers r rest"
proof -
  have "length (ser_relay_message pc message) \<le> 1048576" using assms(3) by (simp add: MAX_PAYLOAD_def)
  from read_frame_written [OF this assms(4)] obtain r where
    "read_frame (so_reader so) = (Inr (Some (ser_relay_message pc message)), r)" "delivers r rest" by blast
  moreover have "decode_as (take_relay_message pc) (ser_relay_message pc message) = Inr message"
    using assms(3) postcard_wire.relay_message_roundtrip [OF assms(1,2), of "[]"] by (simp add: decode_as_def decode_message_def)
  ultimately show ?thesis by (intro exI [of _ r]) (simp add: socket_receive_def)
qed

lemma enrollment_token_length: "enrollment_token var = Inr enrollment \<Longrightarrow> pred_option (\<lambda>t. length t = 32) enrollment"
  by (auto simp: enrollment_token_def dest: parse_fingerprint_length split: option.splits sum.splits)

abbreviation relay_replies :: "postcard \<Rightarrow> AuthenticationChallenge \<Rightarrow> UserId \<Rightarrow> bytes list" where
  "relay_replies pc h user \<equiv>
     map (ser_relay_message pc) [ServerHello PROTOCOL_VERSION, ServerAuthenticationChallenge h, ServerIdentifyAccepted user]"

abbreviation client_requests :: "postcard \<Rightarrow> UserId \<Rightarrow> Ed25519PublicKeyBytes \<Rightarrow> bytes option \<Rightarrow> Ed25519SignatureBytes \<Rightarrow> bytes list" where
  "client_requests pc user key enrollment g \<equiv>
     map (ser_client_message pc) [ClientHello PROTOCOL_VERSION, ClientIdentify user key enrollment, ClientAuthenticationResponse g]"

lemma login_hello_ok:
  assumes "postcard_wire pc" "so_fault so = (\<lambda>_. None)"
    and "delivers (so_reader so) (frame_of (ser_relay_message pc (ServerHello PROTOCOL_VERSION)) @ rest)"
  shows "\<exists>r. login_hello pc so = (Inr (), so\<lparr>so_sent := so_sent so @ [ser_client_message pc (ClientHello PROTOCOL_VERSION)], so_reader := r\<rparr>)
    \<and> delivers r rest"
proof -
  note sizes = postcard_wire.size_login [OF assms(1)]
  from socket_receive_ok [OF assms(1) _ sizes(4), of PROTOCOL_VERSION
      "so\<lparr>so_sent := so_sent so @ [ser_client_message pc (ClientHello PROTOCOL_VERSION)]\<rparr>" rest] assms(3)
  show ?thesis
    by (auto simp: login_hello_def chain_Inr ret_def socket_send_ok [OF sizes(1) assms(2)] wf_relay_message_def)
qed

lemma login_identify_ok:
  assumes "postcard_wire pc" "so_fault so = (\<lambda>_. None)" "wf_user user" "wf_public_key key"
    and "pred_option (\<lambda>t. length t = 32) enrollment" "wf_challenge h"
    and "delivers (so_reader so) (frame_of (ser_relay_message pc (ServerAuthenticationChallenge h)) @ rest)"
  shows "\<exists>r. login_identify pc user key enrollment so
      = (Inr h, so\<lparr>so_sent := so_sent so @ [ser_client_message pc (ClientIdentify user key enrollment)], so_reader := r\<rparr>)
    \<and> delivers r rest"
proof -
  note sizes = postcard_wire.size_login [OF assms(1)]
  from socket_receive_ok [OF assms(1) _ sizes(5) [OF assms(6)],
      of "so\<lparr>so_sent := so_sent so @ [ser_client_message pc (ClientIdentify user key enrollment)]\<rparr>" rest] assms(6,7)
  show ?thesis
    by (auto simp: login_identify_def chain_Inr ret_def socket_send_ok [OF sizes(2) [OF assms(3-5)] assms(2)] wf_relay_message_def)
qed

lemma login_accept_ok:
  assumes "postcard_wire pc" "so_fault so = (\<lambda>_. None)" "wf_user user" "wf_signature g"
    and "delivers (so_reader so) (frame_of (ser_relay_message pc (ServerIdentifyAccepted user)) @ rest)"
  shows "\<exists>r. login_accept pc user g so
      = (Inr (), so\<lparr>so_sent := so_sent so @ [ser_client_message pc (ClientAuthenticationResponse g)], so_reader := r\<rparr>)
    \<and> delivers r rest"
proof -
  note sizes = postcard_wire.size_login [OF assms(1)]
  from socket_receive_ok [OF assms(1) _ sizes(6) [OF assms(3)],
      of "so\<lparr>so_sent := so_sent so @ [ser_client_message pc (ClientAuthenticationResponse g)]\<rparr>" rest] assms(3,5)
  show ?thesis
    by (auto simp: login_accept_def chain_Inr ret_def socket_send_ok [OF sizes(3) [OF assms(4)] assms(2)] wf_relay_message_def)
qed

text \<open>The key and the signature the client presents.\<close>

abbreviation login_key :: "('g, 'm) client_world \<Rightarrow> bytes \<Rightarrow> Ed25519PublicKeyBytes" where
  "login_key w seed \<equiv> Ed25519PublicKeyBytes (cw_public_of w seed)"

abbreviation login_signature :: "('g, 'm) client_world \<Rightarrow> bytes \<Rightarrow> AuthenticationChallenge \<Rightarrow> Ed25519SignatureBytes" where
  "login_signature w seed h \<equiv>
     Ed25519SignatureBytes (cw_sign w seed (authentication_transcript PROTOCOL_VERSION (cw_user w) (login_key w seed) h))"

lemma login_ok:
  fixes w :: "('g, 'm) client_world"
  assumes wire: "postcard_wire (cw_pc w)" and wf: "wf_user (cw_user w)" "wf_public_key (login_key w seed)" "wf_signature (login_signature w seed h)" "wf_challenge h"
    and token: "enrollment_token var = Inr enrollment"
    and so: "so_fault so = (\<lambda>_. None)" "delivers (so_reader so) (frames (relay_replies (cw_pc w) h (cw_user w)) @ later)"
  shows "\<exists>r. login w seed var so
      = (Inr (), so\<lparr>so_sent := so_sent so @ client_requests (cw_pc w) (cw_user w) (login_key w seed) enrollment (login_signature w seed h), so_reader := r\<rparr>)
    \<and> delivers r later"
proof -
  let ?pc = "cw_pc w"
  from login_hello_ok [OF wire so(1)] so(2) obtain r1 where
    hello: "login_hello ?pc so = (Inr (), so\<lparr>so_sent := so_sent so @ [ser_client_message ?pc (ClientHello PROTOCOL_VERSION)], so_reader := r1\<rparr>)"
    and r1: "delivers r1 (frame_of (ser_relay_message ?pc (ServerAuthenticationChallenge h))
        @ frame_of (ser_relay_message ?pc (ServerIdentifyAccepted (cw_user w))) @ later)"
    by fastforce
  let ?so1 = "so\<lparr>so_sent := so_sent so @ [ser_client_message ?pc (ClientHello PROTOCOL_VERSION)], so_reader := r1\<rparr>"
  from login_identify_ok [OF wire _ wf(1,2) enrollment_token_length [OF token] wf(4), of ?so1] r1 so(1) obtain r2 where
    identify: "login_identify ?pc (cw_user w) (login_key w seed) enrollment ?so1
      = (Inr h, ?so1\<lparr>so_sent := so_sent ?so1 @ [ser_client_message ?pc (ClientIdentify (cw_user w) (login_key w seed) enrollment)], so_reader := r2\<rparr>)"
    and r2: "delivers r2 (frame_of (ser_relay_message ?pc (ServerIdentifyAccepted (cw_user w))) @ later)"
    by fastforce
  let ?so2 = "?so1\<lparr>so_sent := so_sent ?so1 @ [ser_client_message ?pc (ClientIdentify (cw_user w) (login_key w seed) enrollment)], so_reader := r2\<rparr>"
  from login_accept_ok [OF wire _ wf(1,3), of ?so2] r2 so(1) obtain r3 where
    accept: "login_accept ?pc (cw_user w) (login_signature w seed h) ?so2
      = (Inr (), ?so2\<lparr>so_sent := so_sent ?so2 @ [ser_client_message ?pc (ClientAuthenticationResponse (login_signature w seed h))], so_reader := r3\<rparr>)"
    and r3: "delivers r3 later"
    by fastforce
  from r3 accept show ?thesis
    by (intro exI [of _ r3]) (simp add: login_def Let_def chain_Inr hello token from_result_def identify)
qed

text \<open>
  One side alone sees a part of what the other sends and then waits; what it has written until then does not depend on
  what comes later. In the model it meets the end of the input there, and writes nothing more.
\<close>

lemma delivers_nothing [simp]: "delivers r [] \<longleftrightarrow> r = []"
proof -
  have "cs = []" if "[] \<notin> set cs" "[] = concat cs" for cs :: "bytes list" using that by (cases cs) auto
  then show ?thesis by (auto simp: delivers_def)
qed

lemma read_frame_nothing [simp]: "read_frame [] = (Inr None, [])"
  by (simp add: read_frame_def read_header.simps)

lemma socket_receive_waits: "so_reader so = [] \<Longrightarrow> socket_receive pc so = (Inl disconnected, so)"
  by (simp add: socket_receive_def)

lemma login_waits:
  assumes "postcard_wire pc" "so_fault so = (\<lambda>_. None)" "so_reader so = []"
  shows "login_hello pc so = (Inl disconnected, so\<lparr>so_sent := so_sent so @ [ser_client_message pc (ClientHello PROTOCOL_VERSION)]\<rparr>)"
    "wf_user user \<Longrightarrow> wf_public_key key \<Longrightarrow> pred_option (\<lambda>t. length t = 32) enrollment \<Longrightarrow>
     login_identify pc user key enrollment so
       = (Inl disconnected, so\<lparr>so_sent := so_sent so @ [ser_client_message pc (ClientIdentify user key enrollment)]\<rparr>)"
    "wf_signature g \<Longrightarrow> login_accept pc user g so
       = (Inl disconnected, so\<lparr>so_sent := so_sent so @ [ser_client_message pc (ClientAuthenticationResponse g)]\<rparr>)"
  using postcard_wire.size_login(1-3) [OF assms(1)] assms(2,3)
  by (simp_all add: login_hello_def login_identify_def login_accept_def chain_def socket_send_ok socket_receive_waits)

definition client_side :: "('g, 'm) client_world \<Rightarrow> bytes \<Rightarrow> rstr option \<Rightarrow> (bytes \<Rightarrow> reader) \<Rightarrow> bytes list \<Rightarrow> bytes list" where
  "client_side w seed var pieces replies =
     so_sent (snd (login w seed var \<lparr>so_reader = pieces (frames replies), so_sent = [], so_fault = (\<lambda>_. None)\<rparr>))"

definition relay_side ::
  "postcard \<Rightarrow> (bytes \<Rightarrow> bytes) \<Rightarrow> login_env \<Rightarrow> Server \<Rightarrow> (bytes \<Rightarrow> reader) \<Rightarrow> bytes list \<Rightarrow> bytes list" where
  "relay_side pc sha256 le sv pieces requests =
     snd (fst (authenticate pc sha256 (\<lambda>_. le) AwaitHello (pieces (frames requests)) sv))"

text \<open>
  The two sides joined: in every round each side has what the other had written by the round before. At first nothing is
  under way.
\<close>

fun exchange :: "(bytes list \<Rightarrow> bytes list) \<Rightarrow> (bytes list \<Rightarrow> bytes list) \<Rightarrow> nat \<Rightarrow> bytes list \<times> bytes list" where
  "exchange client relay 0 = ([], [])"
| "exchange client relay (Suc n) = (client (snd (exchange client relay n)), relay (fst (exchange client relay n)))"

lemma exchange_takes_turns:
  assumes "\<And>k. client (take k replies) = take (Suc k) requests" "\<And>k. relay (take k requests) = take k replies"
  shows "exchange client relay n = (take ((n + 1) div 2) requests, take (n div 2) replies)"
  by (induction n) (simp_all add: assms)

lemma client_side_waits:
  fixes w :: "('g, 'm) client_world"
  assumes wire: "postcard_wire (cw_pc w)" and wf: "wf_user (cw_user w)" "wf_public_key (login_key w seed)" "wf_signature (login_signature w seed h)" "wf_challenge h"
    and token: "enrollment_token var = Inr enrollment" and pieces: "\<And>bs. delivers (pieces bs) bs"
  shows "client_side w seed var pieces (take k (relay_replies (cw_pc w) h (cw_user w)))
    = take (Suc k) (client_requests (cw_pc w) (cw_user w) (login_key w seed) enrollment (login_signature w seed h))"
proof -
  let ?pc = "cw_pc w"
  let ?so = "\<lambda>replies. \<lparr>so_reader = pieces (frames replies), so_sent = [], so_fault = (\<lambda>_. None)\<rparr>"
  note len = enrollment_token_length [OF token] and waits = login_waits [OF wire]
  have tail: "delivers (pieces (frames (m # ms))) (frame_of m @ frames ms)" for m ms using pieces [of "frames (m # ms)"] by simp
  consider "k = 0" | "k = 1" | "k = 2" | "3 \<le> k" by linarith
  then show ?thesis
  proof cases
    case 1
    have "pieces [] = []" using pieces [of "[]"] by simp
    with 1 waits(1) [of "?so []"] show ?thesis by (simp add: client_side_def login_def Let_def chain_def)
  next
    case 2
    let ?one = "[ser_relay_message ?pc (ServerHello PROTOCOL_VERSION)]"
    let ?so1 = "\<lparr>so_reader = [], so_sent = [ser_client_message ?pc (ClientHello PROTOCOL_VERSION)], so_fault = (\<lambda>_. None)\<rparr>"
    have "login_hello ?pc (?so ?one) = (Inr (), ?so1)"
      using login_hello_ok [OF wire, of "?so ?one" "[]"] tail [of _ "[]"] by auto
    with 2 waits(2) [of ?so1] wf(1,2) len show ?thesis
      by (simp add: client_side_def login_def Let_def chain_def from_result_def token)
  next
    case 3
    let ?ch = "ser_relay_message ?pc (ServerAuthenticationChallenge h)"
    let ?two = "[ser_relay_message ?pc (ServerHello PROTOCOL_VERSION), ?ch]"
    let ?sent = "map (ser_client_message ?pc) [ClientHello PROTOCOL_VERSION, ClientIdentify (cw_user w) (login_key w seed) enrollment]"
    let ?so1 = "\<lambda>r. \<lparr>so_reader = r, so_sent = [ser_client_message ?pc (ClientHello PROTOCOL_VERSION)], so_fault = (\<lambda>_. None)\<rparr>"
    let ?so2 = "\<lparr>so_reader = [], so_sent = ?sent, so_fault = (\<lambda>_. None)\<rparr>"
    obtain r where hello: "login_hello ?pc (?so ?two) = (Inr (), ?so1 r)" and r: "delivers r (frame_of ?ch @ [])"
      using login_hello_ok [OF wire, of "?so ?two" "frame_of ?ch"] tail [of _ "[?ch]"] by auto
    have "login_identify ?pc (cw_user w) (login_key w seed) enrollment (?so1 r) = (Inr h, ?so2)"
      using login_identify_ok [OF wire _ wf(1,2) len wf(4), of "?so1 r" "[]"] r by auto
    with 3 hello waits(3) [of ?so2] wf(3) show ?thesis
      by (simp add: client_side_def login_def Let_def chain_def from_result_def token numeral_2_eq_2)
  next
    case 4
    from login_ok [OF wire wf token, of "?so (relay_replies ?pc h (cw_user w))" "[]"] pieces [of "frames (relay_replies ?pc h (cw_user w))"] 4
    show ?thesis by (auto simp: client_side_def)
  qed
qed

lemma relay_waits:
  assumes "awaits_frame p" "\<not> le_timed_out le"
  shows "authenticate pc sha256 (\<lambda>_. le) p [] sv = ((Inr (Ended None), []), [], sv)"
  using assms
  by (cases p; subst authenticate.simps; subst authenticate.simps)
    (simp_all add: read_handshake_frame_def auth_hello_def auth_identify_def auth_response_def handshake_message_def)

lemma relay_side_waits:
  assumes wire: "postcard_wire pc" and wf: "wf_user u" "wf_public_key k" "pred_option (\<lambda>t. length t = 32) e" "wf_signature g"
    and le: "\<not> le_timed_out le" "le_fault le = None" "le_refused le = None" "le_valid_key le (public_key_bytes k)"
      "le_generate le = Some h" "wf_challenge h" "verify_authentication_signature (le_verify_strict le) u k h g"
      "register_enrolled_identity sha256 (le_env le) (sv_relay sv) u k e = Some (Inr ok, s)" "u \<notin> set (hub_active_identities (sv_hub sv))"
    and pieces: "\<And>bs. delivers (pieces bs) bs"
  shows "relay_side pc sha256 le sv pieces (take n (client_requests pc u k e g)) = take n (relay_replies pc h u)"
proof -
  have max: "MAX_PAYLOAD \<le> 1048576" by (simp add: MAX_PAYLOAD_def)
  note sizes = postcard_wire.size_login [OF wire] and wait = relay_waits [OF _ le(1)]
  have tail: "delivers (pieces (frames (m # ms))) (frame_of m @ frames ms)" for m ms using pieces [of "frames (m # ms)"] by simp
  note steps = postcard_wire.honest_hello [OF wire le(2)] postcard_wire.honest_identify [OF wire wf(1-3) le(6,2,4,5)]
  consider "n = 0" | "n = 1" | "n = 2" | "3 \<le> n" by linarith
  then show ?thesis
  proof cases
    case 1
    have "pieces [] = []" using pieces [of "[]"] by simp
    with 1 wait [of AwaitHello] show ?thesis by (simp add: relay_side_def)
  next
    case 2
    let ?r = "pieces (frames [ser_client_message pc (ClientHello PROTOCOL_VERSION)])"
    have "read_frame ?r = (Inr (Some (ser_client_message pc (ClientHello PROTOCOL_VERSION))), [])"
      using read_frame_written [OF le_trans [OF sizes(1) max] tail [of _ "[]"]] by auto
    with 2 steps(1) [of sha256 sv] wait [of AwaitIdentify] le(1) show ?thesis
      unfolding relay_side_def by (subst authenticate.simps) (simp add: Let_def read_handshake_frame_def del: auth_step.simps)
  next
    case 3
    let ?r = "pieces (frames [ser_client_message pc (ClientHello PROTOCOL_VERSION), ser_client_message pc (ClientIdentify u k e)])"
    obtain r1 where r1: "read_frame ?r = (Inr (Some (ser_client_message pc (ClientHello PROTOCOL_VERSION))), r1)"
      "delivers r1 (frame_of (ser_client_message pc (ClientIdentify u k e)) @ [])"
      using read_frame_written [OF le_trans [OF sizes(1) max] tail [of _ "[ser_client_message pc (ClientIdentify u k e)]"]] by auto
    have "read_frame r1 = (Inr (Some (ser_client_message pc (ClientIdentify u k e))), [])"
      using read_frame_written [OF le_trans [OF sizes(2) [OF wf(1-3)] max] r1(2)] by auto
    then have "authenticate pc sha256 (\<lambda>_. le) AwaitIdentify r1 sv = ((Inr (Ended None), [ser_relay_message pc (ServerAuthenticationChallenge h)]), [], sv)"
      using steps(2) [of sha256 sv] wait le(1)
      by (subst authenticate.simps) (simp add: Let_def read_handshake_frame_def del: auth_step.simps)
    with 3 r1(1) steps(1) [of sha256 sv] le(1) show ?thesis
      unfolding relay_side_def
      by (subst authenticate.simps) (simp add: Let_def read_handshake_frame_def numeral_2_eq_2 del: auth_step.simps)
  next
    case 4
    have "delivers (pieces (frames (client_requests pc u k e g))) (frame_of (ser_client_message pc (ClientHello PROTOCOL_VERSION))
        @ frame_of (ser_client_message pc (ClientIdentify u k e)) @ frame_of (ser_client_message pc (ClientAuthenticationResponse g)) @ [])"
      using pieces [of "frames (client_requests pc u k e g)"] by simp
    from honest_clients_log_in [OF wire wf le(1-6,7,8,9) this] 4 show ?thesis by (auto simp: relay_side_def)
  qed
qed

text \<open>
  Property C16. The two sides of the login fit together and neither waits for the other in vain. If the signature
  scheme is correct and the relay admits the user, then, starting with nothing under way and each side seeing only what the
  other has already written, in whatever pieces it arrives, they take turns: after \<open>n\<close> rounds the client has written the
  first \<open>(n + 1) div 2\<close> of its three messages and the relay the first \<open>n div 2\<close> of its three replies. With what
  has been written after six rounds the client returns from its login, the relay has an established session for exactly this
  user and key, and what either side sends after the login is left to be read.
\<close>

theorem client_and_relay_agree:
  fixes w :: "('g, 'm) client_world"
  assumes wire: "postcard_wire (cw_pc w)"
    and wf: "wf_user (cw_user w)" "wf_public_key (login_key w seed)" "wf_challenge h"
    and scheme: "\<And>m. length (cw_sign w seed m) = 64" "\<And>m. le_verify_strict le (cw_public_of w seed) m (cw_sign w seed m)"
    and token: "enrollment_token var = Inr enrollment"
    and relay: "\<not> le_timed_out le" "le_fault le = None" "le_refused le = None"
      "le_valid_key le (cw_public_of w seed)" "le_generate le = Some h"
      "register_enrolled_identity sha256 (le_env le) (sv_relay sv) (cw_user w) (login_key w seed) enrollment = Some (Inr ok, s)"
      "cw_user w \<notin> set (hub_active_identities (sv_hub sv))"
    and pieces: "\<And>bs. delivers (pieces bs) bs" "\<And>bs. delivers (pieces' bs) bs"
    and written: "written = exchange (client_side w seed var pieces) (relay_side (cw_pc w) sha256 le sv pieces')"
    and socket: "so_fault so = (\<lambda>_. None)" "so_sent so = []"
    and login: "login w seed var so = (result, so')"
    and authenticate: "authenticate (cw_pc w) sha256 (\<lambda>_. le) AwaitHello r sv = ((outcome, replies), r', sv')"
    and to_client: "delivers (so_reader so) (frames (snd (written 6)) @ later)"
    and to_relay: "delivers r (frames (fst (written 6)) @ rest)"
  shows "(\<forall>n. written n = (take ((n + 1) div 2) (client_requests (cw_pc w) (cw_user w) (login_key w seed) enrollment (login_signature w seed h)),
        take (n div 2) (relay_replies (cw_pc w) h (cw_user w))))
    \<and> result = Inr () \<and> so_sent so' = fst (written 6) \<and> replies = snd (written 6)
    \<and> (\<exists>c n. outcome = Inr (Established c n) \<and> cr_user c = cw_user w \<and> cr_key c = login_key w seed)
    \<and> cw_user w \<in> set (hub_active_identities (sv_hub sv'))
    \<and> delivers (so_reader so') later \<and> delivers r' rest"
proof -
  let ?requests = "client_requests (cw_pc w) (cw_user w) (login_key w seed) enrollment (login_signature w seed h)"
    and ?replies = "relay_replies (cw_pc w) h (cw_user w)"
  note len = enrollment_token_length [OF token]
  have g: "wf_signature (login_signature w seed h)"
    "verify_authentication_signature (le_verify_strict le) (cw_user w) (login_key w seed) h (login_signature w seed h)"
    using scheme by (simp_all add: wf_signature_def verify_authentication_signature_def)
  have valid: "le_valid_key le (public_key_bytes (login_key w seed))" using relay(4) by simp
  have turns: "written n = (take ((n + 1) div 2) ?requests, take (n div 2) ?replies)" for n
    unfolding written
    by (intro exchange_takes_turns client_side_waits [OF wire wf(1,2) g(1) wf(3) token pieces(1)]
        relay_side_waits [OF wire wf(1,2) len g(1) relay(1-3) valid relay(5) wf(3) g(2) relay(6,7) pieces(2)])
  then have six: "written 6 = (?requests, ?replies)" by simp
  from login_ok [OF wire wf(1,2) g(1) wf(3) token socket(1), of later] to_client [unfolded six] socket(2) login
  have client: "result = Inr ()" "so_sent so' = ?requests" "delivers (so_reader so') later" by auto
  from honest_clients_log_in [OF wire wf(1,2) len g(1) relay(1-3) valid relay(5) wf(3) g(2) relay(6,7)] to_relay [unfolded six] authenticate
  have "replies = ?replies"
    "\<exists>c n. outcome = Inr (Established c n) \<and> cr_user c = cw_user w \<and> cr_key c = login_key w seed"
    "cw_user w \<in> set (hub_active_identities (sv_hub sv'))" "delivers r' rest" by fastforce+
  with client turns six show ?thesis by simp
qed

definition fx_member :: "(bytes, bytes) client_world" where
  "fx_member = fx_world\<lparr>cw_user := fx_user, cw_sign := (\<lambda>_ _. replicate 64 9)\<rparr>"

definition fx_socket :: Socket where
  "fx_socket = \<lparr>so_reader = [Chunk (frames (relay_replies postcard_v1 fx_challenge fx_user))], so_sent = [], so_fault = (\<lambda>_. None)\<rparr>"

definition fx_calls :: bytes where
  "fx_calls = frames (client_requests postcard_v1 fx_user fx_key None fx_signature)"

text \<open>Everything in one piece.\<close>

definition fx_whole :: "bytes \<Rightarrow> reader" where
  "fx_whole bs = (if bs = [] then [] else [Chunk bs])"

lemma fx_whole_delivers: "delivers (fx_whole bs) bs"
  by (auto simp: fx_whole_def delivers_def intro: exI [of _ "[bs]"])

lemma fx_member_sel:
  "cw_pc fx_member = postcard_v1" "cw_user fx_member = fx_user" "cw_public_of fx_member (replicate 32 5) = replicate 32 5"
  "cw_sign fx_member seed m = replicate 64 9"
  by (simp_all add: fx_member_def fx_world_def)

lemma fx_member_key:
  "login_key fx_member (replicate 32 5) = fx_key" "login_signature fx_member (replicate 32 5) h = fx_signature"
  by (simp_all add: fx_member_sel fx_key_def fx_signature_def)

lemma fx_member_hyps:
  "postcard_wire (cw_pc fx_member)" "wf_user (cw_user fx_member)" "wf_public_key (login_key fx_member (replicate 32 5))"
  "length (cw_sign fx_member seed m) = 64" "le_verify_strict fx_login (cw_public_of fx_member (replicate 32 5)) m (cw_sign fx_member seed m)"
  "enrollment_token None = Inr None" "le_valid_key fx_login (cw_public_of fx_member (replicate 32 5))"
  "register_enrolled_identity fx_sha (le_env fx_login) (sv_relay fx_server) (cw_user fx_member) (login_key fx_member (replicate 32 5)) None
    = Some (Inr Existing, fx_home)"
  "cw_user fx_member \<notin> set (hub_active_identities (sv_hub fx_server))" "so_fault fx_socket = (\<lambda>_. None)" "so_sent fx_socket = []"
proof -
  have relay: "sv_relay fx_server = fx_home" "sv_hub fx_server = default_hub" by (simp_all add: fx_server_def initial_relay_def)
  show "postcard_wire (cw_pc fx_member)" "wf_user (cw_user fx_member)" "wf_public_key (login_key fx_member (replicate 32 5))"
    "length (cw_sign fx_member seed m) = 64" "le_verify_strict fx_login (cw_public_of fx_member (replicate 32 5)) m (cw_sign fx_member seed m)"
    "enrollment_token None = Inr None" "le_valid_key fx_login (cw_public_of fx_member (replicate 32 5))"
    "register_enrolled_identity fx_sha (le_env fx_login) (sv_relay fx_server) (cw_user fx_member) (login_key fx_member (replicate 32 5)) None
      = Some (Inr Existing, fx_home)"
    "cw_user fx_member \<notin> set (hub_active_identities (sv_hub fx_server))" "so_fault fx_socket = (\<lambda>_. None)" "so_sent fx_socket = []"
    unfolding fx_member_key using fx_wf fx_home_known fx_login_facts
    by (simp_all only: fx_member_sel relay fx_postcard enrollment_token_def option.simps fx_key_def Ed25519PublicKeyBytes.sel)
      (simp_all add: default_hub_def fx_socket_def fx_verify_def fx_key_def fx_signature_def)
qed

lemma fx_channels:
  "exchange (client_side fx_member (replicate 32 5) None fx_whole) (relay_side (cw_pc fx_member) fx_sha fx_login fx_server fx_whole) 6
   = (client_requests postcard_v1 fx_user fx_key None fx_signature, relay_replies postcard_v1 fx_challenge fx_user)"
proof -
  note h = fx_member_hyps and f = fx_login_facts
  have g: "wf_signature (login_signature fx_member (replicate 32 5) fx_challenge)"
    "verify_authentication_signature (le_verify_strict fx_login) (cw_user fx_member) (login_key fx_member (replicate 32 5)) fx_challenge
       (login_signature fx_member (replicate 32 5) fx_challenge)"
    using h(4,5) by (simp_all add: wf_signature_def verify_authentication_signature_def)
  have valid: "le_valid_key fx_login (public_key_bytes (login_key fx_member (replicate 32 5)))" using h(7) by simp
  note turns = exchange_takes_turns [OF client_side_waits [OF h(1-3) g(1) fx_wf(4) h(6) fx_whole_delivers]
      relay_side_waits [OF h(1-3) enrollment_token_length [OF h(6)] g(1) f(4,1,2) valid f(3) fx_wf(4) g(2) h(8,9) fx_whole_delivers], of 6]
  then show ?thesis unfolding fx_member_key unfolding fx_member_sel by (simp add: fx_key_def fx_signature_def)
qed

theorem client_and_relay_agree_witness:
  "fst (login fx_member (replicate 32 5) None fx_socket) = Inr ()
    \<and> (\<exists>c n. fst (fst (authenticate postcard_v1 fx_sha (\<lambda>_. fx_login) AwaitHello [Chunk fx_calls] fx_server)) = Inr (Established c n)
         \<and> cr_user c = fx_user \<and> cr_key c = fx_key)"
proof -
  have channels: "delivers (so_reader fx_socket) (frames (snd (exchange (client_side fx_member (replicate 32 5) None fx_whole)
      (relay_side (cw_pc fx_member) fx_sha fx_login fx_server fx_whole) 6)) @ [])"
    "delivers [Chunk fx_calls] (frames (fst (exchange (client_side fx_member (replicate 32 5) None fx_whole)
      (relay_side (cw_pc fx_member) fx_sha fx_login fx_server fx_whole) 6)) @ [])"
    unfolding fx_channels using delivers_whole by (simp_all add: fx_calls_def fx_socket_def)
  obtain result so' where l: "login fx_member (replicate 32 5) None fx_socket = (result, so')" by fastforce
  obtain outcome replies r' sv' where
    a: "authenticate (cw_pc fx_member) fx_sha (\<lambda>_. fx_login) AwaitHello [Chunk fx_calls] fx_server = ((outcome, replies), r', sv')"
    by (metis prod.collapse)
  note h = fx_member_hyps and f = fx_login_facts
  note agree = client_and_relay_agree [OF h(1-3) fx_wf(4) h(4,5,6) f(4,1,2) h(7) f(3) h(8,9) fx_whole_delivers fx_whole_delivers refl
      h(10,11) l a channels]
  from agree have "\<exists>c n. outcome = Inr (Established c n) \<and> cr_user c = fx_user \<and> cr_key c = fx_key"
    unfolding fx_member_key unfolding fx_member_sel by (elim conjE)
  with agree have "result = Inr () \<and> (\<exists>c n. outcome = Inr (Established c n) \<and> cr_user c = fx_user \<and> cr_key c = fx_key)"
    by (intro conjI) (elim conjE)
  then show ?thesis using l a by (simp add: fx_member_sel)
qed

end
