(* ===== verification/Client_Start.thy ===== *)
theory Client_Start
  imports Client_Connection
begin

text \<open>
  The client from its command line to the end (\<open>run_inner\<close> of \<open>grotto-client/src/lib.rs\<close>): where the
  database is, what stops it from being opened, the identity and the keys that are loaded or made, the own
  card, the offline commands, and the loop of connections. Environment variables, randomness and the
  contents of the database file are arguments.
\<close>

section \<open>Opening the database\<close>

record start_env =
  se_disk :: file_env
  se_store_var :: "file_path option"
  se_xdg_data_home :: "file_path option"
  se_home :: "file_path option"
  se_budget_var :: "rstr option"
  se_mls_path_set :: bool
  se_open_fault :: "nat \<Rightarrow> bool"
  se_generated_keys :: "(bytes \<times> bytes) option" \<comment> \<open>public and secret key\<close>

text \<open>The argument of \<open>unwrap_or\<close> is evaluated in any case, so its error is returned even if the variable is set.\<close>

definition store_path :: "start_env \<Rightarrow> client_error + file_path" where
  "store_path se =
     and_then (default_store_path (se_xdg_data_home se) (se_home se)) (\<lambda>default_path.
     Inr (case se_store_var se of Some p \<Rightarrow> p | None \<Rightarrow> default_path))"

definition LEGACY_FILES :: "rstr list" where
  "LEGACY_FILES = [str_of ''identity.key'', str_of ''identity.toml'', str_of ''mls.db'']"

text \<open>Whatever can be seen there is legacy state; what cannot be looked at counts as absent.\<close>

fun find_legacy :: "file_env \<Rightarrow> file_path \<Rightarrow> rstr list \<Rightarrow> FileSystem \<Rightarrow> bool \<times> FileSystem" where
  "find_legacy env parent [] fs = (False, fs)"
| "find_legacy env parent (legacy # rest) fs =
     (case symlink_metadata env (path_join parent (FilePath False [legacy])) fs of
        (Inr _, fs') \<Rightarrow> (True, fs')
      | (Inl _, fs') \<Rightarrow> find_legacy env parent rest fs')"

definition legacy_state :: "file_env \<Rightarrow> file_path \<Rightarrow> FileSystem \<Rightarrow> bool \<times> FileSystem" where
  "legacy_state env p fs =
     (case path_parent p of None \<Rightarrow> (False, fs) | Some parent \<Rightarrow> find_legacy env parent LEGACY_FILES fs)"

text \<open>\<open>ClientStore::open\<close>: an error after the lock was taken closes the file again.\<close>

definition open_client :: "start_env \<Rightarrow> client_file \<Rightarrow> file_path \<Rightarrow> FileSystem \<Rightarrow> (client_error + ClientStore) \<times> FileSystem" where
  "open_client se f p fs =
     (case legacy_state (se_disk se) p fs of
        (True, fs) \<Rightarrow>
          (Inl (ClientMessageText ''legacy client state found; choose a fresh directory (no migrations are performed)''), fs)
      | (False, fs) \<Rightarrow>
          (case open_locked (se_disk se) p fs of
             (Inl e, fs) \<Rightarrow> (Inl (ClientStoreError (StoreIo (file_error_kind e))), fs)
           | (Inr h, fs) \<Rightarrow>
               (case open_store (Inr ()) (se_open_fault se) (se_budget_var se) f of
                  Inl e \<Rightarrow> (Inl (ClientStoreError e), close_file h fs)
                | Inr s \<Rightarrow> (Inr s, fs))))"

section \<open>Identity, keys and card\<close>

definition load_keys :: "client_env \<Rightarrow> (bytes \<times> bytes) option \<Rightarrow> ('g, bytes \<times> bytes) engine_op" where
  "load_keys env generated =
     chain (in_store (load_mls_identity env)) (\<lambda>stored.
     case stored of
       Some keys \<Rightarrow> ret keys
     | None \<Rightarrow>
         (case generated of
            None \<Rightarrow> fail ClientRandomness
          | Some (public, secret) \<Rightarrow>
              chain (in_store (save_mls_identity env public secret)) (\<lambda>_. ret (public, secret))))"

text \<open>What the client is: its user, the seed of its transport key, its MLS keys and its card.\<close>

record Self =
  self_user :: UserId
  self_seed :: bytes
  self_keys :: "bytes \<times> bytes"
  self_card :: ContactCard

definition prepare :: "('g, 'm) client_world \<Rightarrow> start_env \<Rightarrow> ('g, Self) engine_op" where
  "prepare w se =
     chain (in_store (identity (cw_env w))) (\<lambda>(user, seed).
     chain (load_keys (cw_env w) (se_generated_keys se)) (\<lambda>keys.
     if se_mls_path_set se
     then fail (ClientMessageText ''separate MLS databases are unsupported; use a fresh unified client database'')
     else
       chain (in_store (card_own (cw_env w) (cw_public_of w) (cw_sign w))) (\<lambda>own.
       chain (import_card w own (card_fingerprint (cw_sha256 w) own)) (\<lambda>_.
       ret \<lparr>self_user = user, self_seed = seed, self_keys = keys, self_card = own\<rparr>))))"

section \<open>The command line\<close>

datatype start_outcome = ShownHelp | ShownCard | ContactVerified | GoOnline Self

definition start_action :: "('g, 'm) client_world \<Rightarrow> rstr list \<Rightarrow> Self \<Rightarrow> ('g, start_outcome) engine_op" where
  "start_action w arguments self =
     (case arguments of
        [] \<Rightarrow> ret (GoOnline self)
      | option # rest \<Rightarrow>
          if option = str_of ''--contact-export'' \<and> rest = [] then ret ShownCard
          else if option = str_of ''--contact-import'' \<and> length rest = 2
          then chain (from_result (parse_card w (rest ! 0))) (\<lambda>cc.
               chain (import_card w cc (rest ! 1)) (\<lambda>_. ret ContactVerified))
          else fail (ClientMessageText ''invalid arguments; use --help''))"

definition client_start ::
  "('g, 'm) client_world \<Rightarrow> start_env \<Rightarrow> rstr list \<Rightarrow> client_file \<Rightarrow> FileSystem
   \<Rightarrow> ((client_error + start_outcome) \<times> 'g Engine option) \<times> FileSystem" where
  "client_start w se arguments f fs =
     (if arguments \<noteq> [] \<and> hd arguments = str_of ''--help'' then ((Inr ShownHelp, None), fs)
      else case store_path se of
             Inl e \<Rightarrow> ((Inl e, None), fs)
           | Inr p \<Rightarrow>
               (case open_client se f p fs of
                  (Inl e, fs) \<Rightarrow> ((Inl e, None), fs)
                | (Inr s, fs) \<Rightarrow>
                    let (r, e) = chain (prepare w se) (start_action w arguments) \<lparr>en_store = s, en_groups = []\<rparr>
                    in ((r, Some e), fs)))"

section \<open>The whole run\<close>

text \<open>
  \<open>run_inner\<close>. The result is \<open>None\<close> while the client runs. The tables left behind are those of the
  engine that is returned; the lock on the file goes with the process.
\<close>

definition run_inner ::
  "('g, 'm) client_world \<Rightarrow> start_env \<Rightarrow> client_config \<Rightarrow> rstr list \<Rightarrow> round list \<Rightarrow> client_file \<Rightarrow> FileSystem
   \<Rightarrow> (client_error + unit) option \<times> 'g Engine option \<times> FileSystem" where
  "run_inner w se cfg arguments rds f fs =
     (case client_start w se arguments f fs of
        ((Inl error, e), fs) \<Rightarrow> (Some (Inl error), e, fs)
      | ((Inr (GoOnline self), Some e), fs) \<Rightarrow>
          (case run_rounds (w\<lparr>cw_user := self_user self\<rparr>) cfg (self_seed self) 1 rds (e, fs) of
             ((r, _), e', fs') \<Rightarrow> (r, Some e', fs'))
      | ((Inr _, e), fs) \<Rightarrow> (Some (Inr ()), e, fs))"

end
