(* ===== verification/Relay_Listener.thy ===== *)
theory Relay_Listener
  imports Relay_Hub
begin

text \<open>
  The loop of \<open>run\<close> that accepts connections (\<open>grotto-relay/src/lib.rs\<close>) with what it hands out: a permit for every
  connection, a lease for every unfinished handshake, and the payload budget, two MiB for a handshake and for
  every frame that is read, executed and answered. Each task is in one stage; a task that serves a connection is
  \<open>read_inbound_with_budget\<close> and the loop of \<open>handle_connection\<close> side by side, seen from what they hold and wait for. What happens to
  a task is an event, and the events of a run are a list, so every interleaving of the tasks and their parts is one. A shutdown is
  seen only where the code races it.
\<close>

section \<open>State\<close>

definition PAYLOAD_OPERATION :: nat where
  "PAYLOAD_OPERATION = 2 * 1024 * 1024"

text \<open>
  Where a task stands: it waits for its share of the budget, shakes hands, logs in, or serves. A serving
  connection has two parts. Its reader waits for a byte, holds a share and waits for the connection's own permit, or
  reads a frame with both; or it has ended. Its loop selects among what may happen, waits for the database, writes
  an answer or a notification, or writes a refusal. A decoded message that the loop has not taken yet, and the message
  the loop works on, hold a share and the permit.
\<close>

datatype reader_at = ReaderIdle | ReaderWaits | ReaderReads | ReaderEnded

datatype loop_at = Selecting | InDatabase | Answering | Refusing

datatype 'ip stage =
    AwaitPayload 'ip
  | TlsHandshake 'ip
  | Authenticating 'ip
  | Serving reader_at (message_waits: bool) (lease_held: bool) loop_at

datatype listening = Accepting | Draining | Finished

record 'ip Listener =
  ls_listening :: listening
  ls_permits :: nat
  ls_pending :: "'ip pending"
  ls_budget :: nat
  ls_tasks :: "'ip stage list"
  ls_orphans :: nat
  ls_timeouts :: u64

definition start_listener :: "RuntimeLimits \<Rightarrow> 'ip Listener" where
  "start_listener config = \<lparr>ls_listening = Accepting, ls_permits = rt_connections config, ls_pending = [],
     ls_budget = rt_payload_bytes config, ls_tasks = [], ls_orphans = 0, ls_timeouts = 0\<rparr>"

section \<open>Accepting\<close>

text \<open>
  A connection that finds no permit is dropped, and so is one that gets no lease; then the permit
  it had taken is returned.
\<close>

definition accept_connection :: "RuntimeLimits \<Rightarrow> bool \<Rightarrow> 'ip \<Rightarrow> 'ip Listener \<Rightarrow> 'ip Listener" where
  "accept_connection config poisoned ip ls =
     (if ls_permits ls = 0 then ls
      else case lease_acquire config poisoned ip (ls_pending ls) of
             None \<Rightarrow> ls
           | Some pending \<Rightarrow> ls\<lparr>ls_permits := ls_permits ls - 1, ls_pending := pending,
               ls_tasks := ls_tasks ls @ [AwaitPayload ip]\<rparr>)"

section \<open>Tasks\<close>

text \<open>What a stage holds: its lease, and its shares of the budget.\<close>

definition lease_of :: "'ip stage \<Rightarrow> 'ip option" where
  "lease_of s = (case s of AwaitPayload ip \<Rightarrow> Some ip | TlsHandshake ip \<Rightarrow> Some ip | Authenticating ip \<Rightarrow> Some ip | Serving _ _ _ _ \<Rightarrow> None)"

definition shares :: "'ip stage \<Rightarrow> nat" where
  "shares s = (case s of AwaitPayload _ \<Rightarrow> 0 | TlsHandshake _ \<Rightarrow> 1 | Authenticating _ \<Rightarrow> 1
     | Serving reader waits held pos \<Rightarrow> of_bool (reader \<in> {ReaderWaits, ReaderReads}) + of_bool waits + of_bool held)"

definition drop_lease :: "'ip option \<Rightarrow> 'ip Listener \<Rightarrow> 'ip Listener" where
  "drop_lease lease ls = (case lease of None \<Rightarrow> ls | Some ip \<Rightarrow> ls\<lparr>ls_pending := lease_drop ip (ls_pending ls)\<rparr>)"

definition give_back :: "nat \<Rightarrow> 'ip Listener \<Rightarrow> 'ip Listener" where
  "give_back k ls = ls\<lparr>ls_budget := ls_budget ls + k * PAYLOAD_OPERATION\<rparr>"

text \<open>A task ends and drops what it holds. A command the database has taken keeps its share until it has run.\<close>

definition end_task :: "nat \<Rightarrow> bool \<Rightarrow> 'ip Listener \<Rightarrow> 'ip Listener" where
  "end_task n queued ls =
     (let s = ls_tasks ls ! n; left = (if queued then 1 else 0);
          ls = give_back (shares s - left) (drop_lease (lease_of s) ls) in
      ls\<lparr>ls_permits := ls_permits ls + 1, ls_orphans := ls_orphans ls + left,
        ls_tasks := take n (ls_tasks ls) @ drop (Suc n) (ls_tasks ls)\<rparr>)"

datatype reader_event = FrameStarted | PermitTaken | FrameDecoded | ReaderFailed bool

datatype loop_event =
    RequestAdmitted | RequestRefused | NotificationTaken
  | CommandAnswered | CommandRejected
  | WriteDone | WriteFailed bool
  | SessionEnded

datatype task_event =
    PayloadGranted | PayloadLate
  | TlsAccepted | TlsFailed
  | LoggedIn | LoginEnded bool
  | ReaderEvent reader_event
  | LoopEvent loop_event
  | ShutDown bool

definition to_stage :: "nat \<Rightarrow> 'ip stage \<Rightarrow> 'ip Listener \<Rightarrow> 'ip Listener" where
  "to_stage n s ls = ls\<lparr>ls_tasks := (ls_tasks ls)[n := s]\<rparr>"

text \<open>Take a share of the budget, if it is there.\<close>

definition take_share :: "'ip Listener \<Rightarrow> 'ip Listener option" where
  "take_share ls =
     (if ls_budget ls < PAYLOAD_OPERATION then None
      else Some (ls\<lparr>ls_budget := ls_budget ls - PAYLOAD_OPERATION\<rparr>))"

definition count_timeout :: "bool \<Rightarrow> 'ip Listener \<Rightarrow> 'ip Listener" where
  "count_timeout late ls = ls\<lparr>ls_timeouts := ls_timeouts ls + (if late then 1 else 0)\<rparr>"

text \<open>
  The reader of a connection; \<open>None\<close> where it is not in the state for the event. It takes its share of the budget
  before the connection's permit, which is free while no message waits and the loop holds none. A failure (the end of
  the stream, an error, or the deadline of a frame) ends it.
\<close>

fun reader_step :: "nat \<Rightarrow> reader_at \<Rightarrow> bool \<Rightarrow> bool \<Rightarrow> loop_at \<Rightarrow> reader_event \<Rightarrow> 'ip Listener \<Rightarrow> 'ip Listener option" where
  "reader_step n ReaderIdle waits held pos FrameStarted ls = map_option (to_stage n (Serving ReaderWaits waits held pos)) (take_share ls)"
| "reader_step n ReaderWaits False False pos PermitTaken ls = Some (to_stage n (Serving ReaderReads False False pos) ls)"
| "reader_step n ReaderReads waits held pos FrameDecoded ls = Some (to_stage n (Serving ReaderIdle True held pos) ls)"
| "reader_step n ReaderIdle waits held pos (ReaderFailed late) ls =
     Some (count_timeout late (to_stage n (Serving ReaderEnded waits held pos) ls))"
| "reader_step n ReaderWaits waits held pos (ReaderFailed late) ls =
     Some (count_timeout late (to_stage n (Serving ReaderEnded waits held pos) (give_back 1 ls)))"
| "reader_step n ReaderReads waits held pos (ReaderFailed late) ls =
     Some (count_timeout late (to_stage n (Serving ReaderEnded waits held pos) (give_back 1 ls)))"
| "reader_step n reader waits held pos event ls = None"

text \<open>
  The loop of a connection. A request that the rate limit refuses, or a message that is no request, is answered with
  a refusal. The database keeps the lease of a command it has taken and hands it back with the result; one that it
  does not take is dropped. The write of an answer returns the lease. A write that fails, or takes too long, ends
  the session.
\<close>

fun loop_step :: "nat \<Rightarrow> reader_at \<Rightarrow> bool \<Rightarrow> bool \<Rightarrow> loop_at \<Rightarrow> loop_event \<Rightarrow> 'ip Listener \<Rightarrow> 'ip Listener option" where
  "loop_step n reader True held Selecting RequestAdmitted ls = Some (to_stage n (Serving reader False True InDatabase) ls)"
| "loop_step n reader True held Selecting RequestRefused ls = Some (to_stage n (Serving reader False True Refusing) ls)"
| "loop_step n reader waits held Selecting NotificationTaken ls = Some (to_stage n (Serving reader waits held Answering) ls)"
| "loop_step n reader waits held InDatabase CommandAnswered ls = Some (to_stage n (Serving reader waits held Answering) ls)"
| "loop_step n reader waits held InDatabase CommandRejected ls =
     Some (to_stage n (Serving reader waits False Answering) (give_back (of_bool held) ls))"
| "loop_step n reader waits held Answering WriteDone ls =
     Some (to_stage n (Serving reader waits False Selecting) (give_back (of_bool held) ls))"
| "loop_step n reader waits held Refusing WriteDone ls =
     Some (to_stage n (Serving reader waits False Selecting) (give_back (of_bool held) ls))"
| "loop_step n reader waits held Answering (WriteFailed late) ls = Some (count_timeout late (end_task n False ls))"
| "loop_step n reader waits held Refusing (WriteFailed late) ls = Some (count_timeout late (end_task n False ls))"
| "loop_step n reader waits held Selecting SessionEnded ls = Some (end_task n False ls)"
| "loop_step n reader waits held pos event ls = None"

text \<open>
  Whether a task sees a shutdown where it stands: every wait is raced against it, except for the write of a refusal, which only
  its own deadline bounds. A command may be in the queue of the database when the shutdown comes.
\<close>

definition sees_shutdown :: "'ip stage \<Rightarrow> bool" where
  "sees_shutdown s = (case s of Serving _ _ _ pos \<Rightarrow> pos \<noteq> Refusing | _ \<Rightarrow> True)"

definition in_database :: "'ip stage \<Rightarrow> bool" where
  "in_database s = (case s of Serving _ _ _ pos \<Rightarrow> pos = InDatabase | _ \<Rightarrow> False)"

text \<open>One event of a task.\<close>

fun task_step :: "nat \<Rightarrow> 'ip stage \<Rightarrow> task_event \<Rightarrow> 'ip Listener \<Rightarrow> 'ip Listener option" where
  "task_step n (AwaitPayload ip) PayloadGranted ls = map_option (to_stage n (TlsHandshake ip)) (take_share ls)"
| "task_step n (AwaitPayload ip) PayloadLate ls = Some (count_timeout True (end_task n False ls))"
| "task_step n (TlsHandshake ip) TlsAccepted ls = Some (to_stage n (Authenticating ip) ls)"
| "task_step n (TlsHandshake ip) TlsFailed ls = Some (end_task n False ls)"
| "task_step n (Authenticating ip) LoggedIn ls =
     Some (to_stage n (Serving ReaderIdle False False Selecting) (give_back 1 (drop_lease (Some ip) ls)))"
| "task_step n (Authenticating ip) (LoginEnded late) ls = Some (count_timeout late (end_task n False ls))"
| "task_step n (Serving reader waits held pos) (ReaderEvent event) ls = reader_step n reader waits held pos event ls"
| "task_step n (Serving reader waits held pos) (LoopEvent event) ls = loop_step n reader waits held pos event ls"
| "task_step n s (ShutDown queued) ls =
     (if ls_listening ls = Draining \<and> sees_shutdown s \<and> (queued \<longrightarrow> in_database s) then Some (end_task n queued ls) else None)"
| "task_step n s event ls = None"

section \<open>The loop\<close>

datatype 'ip listen_event =
    Accepted bool 'ip
  | AcceptError
  | MetricsTick
  | ShutdownTick bool
  | TaskEvent nat task_event
  | CommandRun
  | AllJoined

definition listen_step :: "RuntimeLimits \<Rightarrow> 'ip listen_event \<Rightarrow> 'ip Listener \<Rightarrow> 'ip Listener option" where
  "listen_step config event ls =
     (case event of
        Accepted poisoned ip \<Rightarrow> if ls_listening ls = Accepting then Some (accept_connection config poisoned ip ls) else None
      | AcceptError \<Rightarrow> if ls_listening ls = Accepting then Some ls else None
      | MetricsTick \<Rightarrow> if ls_listening ls = Accepting then Some ls else None
      | ShutdownTick requested \<Rightarrow>
          if ls_listening ls = Accepting then Some (if requested then ls\<lparr>ls_listening := Draining\<rparr> else ls) else None
      | TaskEvent n ev \<Rightarrow> if n < length (ls_tasks ls) then task_step n (ls_tasks ls ! n) ev ls else None
      | CommandRun \<Rightarrow>
          if ls_orphans ls = 0 then None else Some (give_back 1 (ls\<lparr>ls_orphans := ls_orphans ls - 1\<rparr>))
      | AllJoined \<Rightarrow>
          if ls_listening ls = Draining \<and> ls_tasks ls = [] then Some (ls\<lparr>ls_listening := Finished\<rparr>) else None)"

fun listen :: "RuntimeLimits \<Rightarrow> 'ip listen_event list \<Rightarrow> 'ip Listener \<Rightarrow> 'ip Listener option" where
  "listen config [] ls = Some ls"
| "listen config (event # events) ls =
     (case listen_step config event ls of None \<Rightarrow> None | Some ls' \<Rightarrow> listen config events ls')"

lemma listen_append:
  "listen config (xs @ ys) ls = (case listen config xs ls of None \<Rightarrow> None | Some ls' \<Rightarrow> listen config ys ls')"
  by (induction xs arbitrary: ls) (auto split: option.splits)

section \<open>Counting leases\<close>

definition leases :: "'ip pending \<Rightarrow> 'ip \<Rightarrow> nat" where
  "leases counts ip = (case map_of counts ip of None \<Rightarrow> 0 | Some n \<Rightarrow> n)"

definition counts_ok :: "'ip pending \<Rightarrow> bool" where
  "counts_ok counts \<longleftrightarrow> distinct (map fst counts) \<and> (\<forall>n \<in> set (map snd counts). 0 < n)"

lemma counts_ok_Nil [simp]: "counts_ok []" "leases [] ip = 0"
  by (simp_all add: counts_ok_def leases_def)

lemma leases_Cons: "leases ((k, n) # counts) ip = (if ip = k then n else leases counts ip)"
  by (simp add: leases_def)

lemma counts_ok_Cons: "counts_ok ((k, n) # counts) \<longleftrightarrow> k \<notin> fst ` set counts \<and> 0 < n \<and> counts_ok counts"
  by (auto simp: counts_ok_def)

lemma leases_absent: "ip \<notin> fst ` set counts \<Longrightarrow> leases counts ip = 0"
  by (induction counts) (auto simp: leases_Cons)

lemma count_up_keys: "fst ` set (count_up ip counts) = insert ip (fst ` set counts)"
  by (induction ip counts rule: count_up.induct) (simp_all add: insert_commute)

lemma count_up_ok:
  "counts_ok counts \<Longrightarrow> counts_ok (count_up ip counts)"
  "leases (count_up ip counts) k = leases counts k + of_bool (k = ip)"
  "sum_list (map snd (count_up ip counts)) = sum_list (map snd counts) + 1"
  by (induction ip counts rule: count_up.induct) (auto simp: counts_ok_Cons count_up_keys leases_Cons)

lemma lease_drop_keys: "fst ` set (lease_drop ip counts) \<subseteq> fst ` set counts"
  by (induction ip counts rule: lease_drop.induct) (simp_all, blast+)

lemma lease_drop_ok:
  assumes "counts_ok counts" "0 < leases counts ip"
  shows "counts_ok (lease_drop ip counts)"
    "leases (lease_drop ip counts) k = leases counts k - of_bool (k = ip)"
    "sum_list (map snd (lease_drop ip counts)) + 1 = sum_list (map snd counts)"
proof -
  show "counts_ok (lease_drop ip counts)" using assms
  proof (induction ip counts rule: lease_drop.induct)
    case (2 ip k n counts)
    then show ?case using lease_drop_keys [of ip counts] by (cases "k = ip") (auto simp: counts_ok_Cons leases_Cons)
  qed simp
  show "leases (lease_drop ip counts) k = leases counts k - of_bool (k = ip)" using assms
    by (induction ip counts rule: lease_drop.induct) (auto simp: counts_ok_Cons leases_Cons leases_absent)
  show "sum_list (map snd (lease_drop ip counts)) + 1 = sum_list (map snd counts)" using assms
    by (induction ip counts rule: lease_drop.induct) (simp_all add: counts_ok_Cons leases_Cons split: if_splits)
qed

lemma no_leases:
  assumes "counts_ok counts" "\<And>ip. leases counts ip = 0"
  shows "counts = []"
proof (cases counts)
  case (Cons p rest)
  with assms(1) assms(2) [of "fst p"] show ?thesis by (cases p) (simp add: counts_ok_Cons leases_Cons)
qed simp

section \<open>Nothing is lost\<close>

text \<open>How many tasks hold a lease, one for this address, and how many shares are out.\<close>

definition holders :: "('ip stage \<Rightarrow> bool) \<Rightarrow> 'ip Listener \<Rightarrow> nat" where
  "holders P ls = length (filter P (ls_tasks ls))"

definition shares_out :: "'ip Listener \<Rightarrow> nat" where
  "shares_out ls = sum_list (map shares (ls_tasks ls)) + ls_orphans ls"

abbreviation leased :: "'ip stage \<Rightarrow> bool" where
  "leased s \<equiv> lease_of s \<noteq> None"

text \<open>The connection's permit is held once at most, and where the loop stands says whether it holds a message.\<close>

definition stage_ok :: "'ip stage \<Rightarrow> bool" where
  "stage_ok s = (case s of
     Serving reader waits held pos \<Rightarrow>
       of_bool (reader = ReaderReads) + of_bool waits + of_bool held \<le> (1 :: nat)
       \<and> (pos = Selecting \<longrightarrow> \<not> held) \<and> (pos \<in> {InDatabase, Refusing} \<longrightarrow> held)
   | _ \<Rightarrow> True)"

definition listener_ok :: "RuntimeLimits \<Rightarrow> 'ip Listener \<Rightarrow> bool" where
  "listener_ok config ls \<longleftrightarrow>
     ls_permits ls + length (ls_tasks ls) = rt_connections config
     \<and> ls_budget ls + shares_out ls * PAYLOAD_OPERATION = rt_payload_bytes config
     \<and> counts_ok (ls_pending ls)
     \<and> (\<forall>ip. leases (ls_pending ls) ip = holders (\<lambda>s. lease_of s = Some ip) ls)
     \<and> sum_list (map snd (ls_pending ls)) = holders leased ls
     \<and> holders leased ls \<le> rt_handshakes config
     \<and> (\<forall>ip. holders (\<lambda>s. lease_of s = Some ip) ls \<le> rt_handshakes_per_ip config)
     \<and> list_all stage_ok (ls_tasks ls)
     \<and> (ls_listening ls = Finished \<longrightarrow> ls_tasks ls = [])"

lemma start_listener_ok: "listener_ok config (start_listener config)"
  by (simp add: listener_ok_def start_listener_def shares_out_def holders_def)

lemma accept_ok: "listener_ok config ls \<Longrightarrow> ls_listening ls = Accepting \<Longrightarrow> listener_ok config (accept_connection config poisoned ip ls)"
  by (auto simp: listener_ok_def accept_connection_def lease_acquire_def shares_out_def holders_def count_up_ok shares_def lease_of_def
      leases_def [symmetric] stage_ok_def split: option.splits if_splits)

text \<open>The task in question, and the others.\<close>

lemma task_split:
  assumes "n < length ts"
  obtains xs s ys where "ts = xs @ s # ys" "length xs = n" "s = ts ! n"
  using id_take_nth_drop [OF assms] assms by (metis length_take min.absorb4)

lemma end_task_ok:
  assumes ok: "listener_ok config ls" and n: "n < length (ls_tasks ls)" and queued: "queued \<Longrightarrow> 0 < shares (ls_tasks ls ! n)"
    and state: "ls_listening ls \<noteq> Finished"
  shows "listener_ok config (end_task n queued ls)"
proof -
  obtain xs s ys where ts: "ls_tasks ls = xs @ s # ys" "length xs = n" "s = ls_tasks ls ! n" by (rule task_split [OF n])
  let ?left = "if queued then 1 else (0 :: nat)"
  have left: "?left \<le> shares s" using queued ts(3) by auto
  have budget: "ls_budget ls + (shares s - ?left) * PAYLOAD_OPERATION
      + (sum_list (map shares (xs @ ys)) + (ls_orphans ls + ?left)) * PAYLOAD_OPERATION = rt_payload_bytes config"
  proof -
    have "shares_out ls = shares s - ?left + (sum_list (map shares (xs @ ys)) + (ls_orphans ls + ?left))"
      using left by (simp add: shares_out_def ts(1))
    then show ?thesis using ok by (simp add: listener_ok_def algebra_simps)
  qed
  have ends: "end_task n queued ls = (give_back (shares s - ?left) (drop_lease (lease_of s) ls))
      \<lparr>ls_permits := ls_permits ls + 1, ls_orphans := ls_orphans ls + ?left, ls_tasks := xs @ ys\<rparr>"
    by (simp add: end_task_def Let_def drop_lease_def give_back_def ts(1) ts(2) [symmetric] split: option.splits)
  note unfold = listener_ok_def ends drop_lease_def give_back_def shares_out_def holders_def ts(1)
  show ?thesis
  proof (cases "lease_of s")
    case None
    with ok budget state show ?thesis by (simp add: unfold)
  next
    case (Some ip)
    have "counts_ok (ls_pending ls)" "0 < leases (ls_pending ls) ip"
      using ok Some by (simp_all add: listener_ok_def holders_def ts(1))
    note lease = lease_drop_ok [OF this]
    have "of_bool (k = ip) + length (filter (\<lambda>s. lease_of s = Some k) (xs @ ys)) = leases (ls_pending ls) k" for k
      using ok Some by (simp add: listener_ok_def holders_def ts(1))
    then have "leases (ls_pending ls) k - of_bool (k = ip) = length (filter (\<lambda>s. lease_of s = Some k) (xs @ ys))" for k
      by (metis add_diff_cancel_left')
    with ok budget state Some lease(3) show ?thesis
      by (auto simp: unfold lease(1,2) intro: Suc_leD split: if_splits)
  qed
qed

lemma stage_simps [simp]:
  "lease_of (AwaitPayload ip) = Some ip" "lease_of (TlsHandshake ip) = Some ip" "lease_of (Authenticating ip) = Some ip"
  "lease_of (Serving reader waits held pos) = None" "shares (AwaitPayload ip) = 0" "shares (TlsHandshake ip) = 1"
  "shares (Authenticating ip) = 1"
  "shares (Serving reader waits held pos) = of_bool (reader \<in> {ReaderWaits, ReaderReads}) + of_bool waits + of_bool held"
  "stage_ok (AwaitPayload ip)" "stage_ok (TlsHandshake ip)" "stage_ok (Authenticating ip)"
  "stage_ok (Serving reader waits held pos) \<longleftrightarrow> of_bool (reader = ReaderReads) + of_bool waits + of_bool held \<le> (1 :: nat)
     \<and> (pos = Selecting \<longrightarrow> \<not> held) \<and> (pos \<in> {InDatabase, Refusing} \<longrightarrow> held)"
  by (simp_all add: lease_of_def shares_def stage_ok_def)

lemma same_lease_ok:
  assumes ok: "listener_ok config ls" and n: "n < length (ls_tasks ls)" and lease: "lease_of s' = lease_of (ls_tasks ls ! n)"
    and stage: "stage_ok s'"
    and budget: "budget + shares s' * PAYLOAD_OPERATION = ls_budget ls + shares (ls_tasks ls ! n) * PAYLOAD_OPERATION"
  shows "listener_ok config (to_stage n s' (ls\<lparr>ls_budget := budget\<rparr>))"
proof -
  obtain xs s ys where ts: "ls_tasks ls = xs @ s # ys" "length xs = n" "s = ls_tasks ls ! n" by (rule task_split [OF n])
  have moved: "to_stage n s' (ls\<lparr>ls_budget := budget\<rparr>) = ls\<lparr>ls_budget := budget, ls_tasks := xs @ s' # ys\<rparr>"
    by (simp add: to_stage_def ts(1) ts(2) [symmetric])
  let ?rest = "sum_list (map shares (xs @ ys)) + ls_orphans ls"
  have "ls_budget ls + (shares s + ?rest) * PAYLOAD_OPERATION = rt_payload_bytes config"
    using ok by (simp add: listener_ok_def shares_out_def ts(1) add_ac)
  then have "budget + (shares s' + ?rest) * PAYLOAD_OPERATION = rt_payload_bytes config"
    using budget by (simp only: add_mult_distrib ts(3) [symmetric])
  moreover have "shares_out (ls\<lparr>ls_budget := budget, ls_tasks := xs @ s' # ys\<rparr>) = shares s' + ?rest"
    by (simp add: shares_out_def)
  moreover have "holders (\<lambda>s. lease_of s = Some ip) (ls\<lparr>ls_budget := budget, ls_tasks := xs @ s' # ys\<rparr>) = holders (\<lambda>s. lease_of s = Some ip) ls"
    "holders leased (ls\<lparr>ls_budget := budget, ls_tasks := xs @ s' # ys\<rparr>) = holders leased ls" for ip
    using lease unfolding ts(3) [symmetric] by (simp_all add: holders_def ts(1))
  ultimately show ?thesis
    using ok stage unfolding moved listener_ok_def by (simp add: ts(1))
qed

lemma logged_in_ok:
  assumes ok: "listener_ok config ls" and n: "n < length (ls_tasks ls)" and s: "ls_tasks ls ! n = Authenticating ip"
  shows "listener_ok config (to_stage n (Serving ReaderIdle False False Selecting) (give_back 1 (drop_lease (Some ip) ls)))"
proof -
  obtain xs ys where ts: "ls_tasks ls = xs @ Authenticating ip # ys" "length xs = n" using task_split [OF n] s by metis
  have served: "to_stage n (Serving ReaderIdle False False Selecting) (give_back 1 (drop_lease (Some ip) ls))
      = ls\<lparr>ls_pending := lease_drop ip (ls_pending ls), ls_budget := ls_budget ls + PAYLOAD_OPERATION, ls_tasks := xs @ Serving ReaderIdle False False Selecting # ys\<rparr>"
    by (simp add: to_stage_def give_back_def drop_lease_def ts(1) ts(2) [symmetric])
  note unfold = listener_ok_def shares_out_def holders_def ts(1)
  have "counts_ok (ls_pending ls)" "0 < leases (ls_pending ls) ip"
    using ok by (simp_all add: listener_ok_def holders_def ts(1))
  note lease = lease_drop_ok [OF this]
  have "of_bool (k = ip) + length (filter (\<lambda>s. lease_of s = Some k) (xs @ ys)) = leases (ls_pending ls) k" for k
    using ok by (simp add: listener_ok_def holders_def ts(1))
  then have "leases (ls_pending ls) k - of_bool (k = ip) = length (filter (\<lambda>s. lease_of s = Some k) (xs @ ys))" for k
    by (metis add_diff_cancel_left')
  with ok lease(3) show ?thesis
    unfolding served by (auto simp: unfold lease(1,2) intro: Suc_leD split: if_splits)
qed

lemma count_timeout_ok [simp]: "listener_ok config (count_timeout late ls) \<longleftrightarrow> listener_ok config ls"
  by (simp add: listener_ok_def count_timeout_def shares_out_def holders_def)

lemma stage_ok_at: "listener_ok config ls \<Longrightarrow> n < length (ls_tasks ls) \<Longrightarrow> stage_ok (ls_tasks ls ! n)"
  by (simp add: listener_ok_def list_all_length)

text \<open>A serving task that takes a share, keeps what it has, or gives shares back.\<close>

lemma serving_ok:
  fixes ls :: "'ip Listener"
  assumes ok: "listener_ok config ls" and n: "n < length (ls_tasks ls)" and s: "lease_of (ls_tasks ls ! n) = None"
    and stage: "stage_ok (Serving reader waits held pos :: 'ip stage)"
  shows "take_share ls = Some ls' \<Longrightarrow> shares (Serving reader waits held pos :: 'ip stage) = Suc (shares (ls_tasks ls ! n)) \<Longrightarrow>
      listener_ok config (to_stage n (Serving reader waits held pos) ls')"
    "shares (Serving reader waits held pos :: 'ip stage) + k = shares (ls_tasks ls ! n) \<Longrightarrow>
      listener_ok config (to_stage n (Serving reader waits held pos) (give_back k ls))"
proof -
  note moved = same_lease_ok [OF ok n _ stage]
  show "listener_ok config (to_stage n (Serving reader waits held pos) ls')"
    if "take_share ls = Some ls'" "shares (Serving reader waits held pos :: 'ip stage) = Suc (shares (ls_tasks ls ! n))"
    using moved [of "ls_budget ls - PAYLOAD_OPERATION"] that s by (auto simp: take_share_def simp del: stage_simps(8) split: if_splits)
  show "listener_ok config (to_stage n (Serving reader waits held pos) (give_back k ls))"
    if "shares (Serving reader waits held pos :: 'ip stage) + k = shares (ls_tasks ls ! n)"
    using moved [of "ls_budget ls + k * PAYLOAD_OPERATION"] s
    by (simp add: give_back_def that [symmetric] add_mult_distrib del: stage_simps(8))
qed

lemma give_back_0 [simp]: "give_back 0 ls = ls"
  by (simp add: give_back_def)

lemma reader_step_ok:
  fixes ls :: "'ip Listener"
  assumes ok: "listener_ok config ls" and n: "n < length (ls_tasks ls)" and s: "ls_tasks ls ! n = Serving reader waits held pos"
    and step: "reader_step n reader waits held pos event ls = Some ls'"
  shows "listener_ok config ls'"
proof -
  have stage: "stage_ok (Serving reader waits held pos :: 'ip stage)" and lease: "lease_of (ls_tasks ls ! n) = None"
    using stage_ok_at [OF ok n] s by simp_all
  note moves = serving_ok [OF ok n lease] and kept = serving_ok(2) [OF ok n lease, where k = 0, simplified]
  from step stage show ?thesis
    by (cases "(n, reader, waits, held, pos, event, ls)" rule: reader_step.cases)
      (auto simp: s intro!: moves kept split: if_splits)
qed

lemma loop_step_ok:
  fixes ls :: "'ip Listener"
  assumes ok: "listener_ok config ls" and n: "n < length (ls_tasks ls)" and s: "ls_tasks ls ! n = Serving reader waits held pos"
    and step: "loop_step n reader waits held pos event ls = Some ls'"
  shows "listener_ok config ls'"
proof -
  have stage: "stage_ok (Serving reader waits held pos :: 'ip stage)" and lease: "lease_of (ls_tasks ls ! n) = None"
    and state: "ls_listening ls \<noteq> Finished"
    using stage_ok_at [OF ok n] s ok n by (auto simp: listener_ok_def)
  note moves = serving_ok(2) [OF ok n lease] and kept = serving_ok(2) [OF ok n lease, where k = 0, simplified]
    and ends = end_task_ok [OF ok n _ state]
  from step stage show ?thesis
    by (cases "(n, reader, waits, held, pos, event, ls)" rule: loop_step.cases)
      (auto simp: s intro!: moves kept ends split: if_splits)
qed

lemma task_step_ok:
  assumes ok: "listener_ok config ls" and n: "n < length (ls_tasks ls)" and step: "task_step n (ls_tasks ls ! n) event ls = Some ls'"
  shows "listener_ok config ls'"
proof (cases "ls_tasks ls ! n")
  case (Serving reader waits held pos)
  have state: "ls_listening ls \<noteq> Finished" using ok n by (auto simp: listener_ok_def)
  have queued: "0 < shares (ls_tasks ls ! n)" if "in_database (ls_tasks ls ! n)"
    using that stage_ok_at [OF ok n] Serving by (auto simp: in_database_def)
  show ?thesis
  proof (cases event)
    case (ShutDown q)
    with step Serving queued show ?thesis by (auto intro!: end_task_ok [OF ok n _ state] split: if_splits)
  qed (use step Serving reader_step_ok [OF ok n Serving] loop_step_ok [OF ok n Serving] in auto)
next
  case (AwaitPayload ip)
  have state: "ls_listening ls \<noteq> Finished" using ok n by (auto simp: listener_ok_def)
  note stage = same_lease_ok [OF ok n, of "TlsHandshake ip"] and ends = end_task_ok [OF ok n _ state]
  show ?thesis
    using step AwaitPayload by (cases event) (auto simp: take_share_def in_database_def intro!: stage ends split: if_splits)
next
  case (TlsHandshake ip)
  have state: "ls_listening ls \<noteq> Finished" using ok n by (auto simp: listener_ok_def)
  note stage = same_lease_ok [OF ok n, of "Authenticating ip" "ls_budget ls", simplified] and ends = end_task_ok [OF ok n _ state]
  show ?thesis
    using step TlsHandshake by (cases event) (auto simp: in_database_def intro!: stage ends split: if_splits)
next
  case (Authenticating ip)
  have state: "ls_listening ls \<noteq> Finished" using ok n by (auto simp: listener_ok_def)
  note ends = end_task_ok [OF ok n _ state] and served = logged_in_ok [OF ok n Authenticating, simplified]
  show ?thesis
    using step Authenticating by (cases event) (auto simp: in_database_def intro!: served ends split: if_splits)
qed

lemma listen_step_ok:
  assumes "listener_ok config ls" "listen_step config event ls = Some ls'"
  shows "listener_ok config ls'"
proof (cases event)
  case (TaskEvent n ev)
  with assms show ?thesis by (auto simp: listen_step_def intro: task_step_ok split: if_splits)
next
  case CommandRun
  with assms show ?thesis
    by (auto simp: listen_step_def listener_ok_def shares_out_def holders_def give_back_def algebra_simps dest: gr0_implies_Suc split: if_splits)
qed (use assms in \<open>auto simp: listen_step_def accept_ok split: if_splits, auto simp: listener_ok_def shares_out_def holders_def\<close>)

interpretation listener: step_invariant "\<lambda>ls ls'. \<exists>event. listen_step config event ls = Some ls'" "listener_ok config" for config
  by unfold_locales (auto intro: listen_step_ok)

lemma listen_steps: "listen config events ls = Some ls' \<Longrightarrow> (\<lambda>ls ls'. \<exists>event. listen_step config event ls = Some ls')\<^sup>*\<^sup>* ls ls'"
  by (induction events arbitrary: ls) (auto split: option.splits intro: converse_rtranclp_into_rtranclp)

lemma listen_ok: "listen config events (start_listener config) = Some ls \<Longrightarrow> listener_ok config ls"
  by (rule listener.run_inv [OF listen_steps start_listener_ok])

end
