(* ===== verification/Relay_Start.thy ===== *)
theory Relay_Start
  imports Relay_Identity Relay_Listener Relay_Server Relay_Worker
begin

text \<open>
  The relay from its command line to the loop that accepts connections (\<open>run\<close> of \<open>grotto-relay/src/lib.rs\<close> and
  \<open>RelayState::open\<close> of \<open>storage.rs\<close>): limits, the database file and its lock, the enrollment command, the
  database thread, the socket and the TLS identity, in the order in which each of them may stop the start.
\<close>

section \<open>Opening the repository\<close>

record relay_start_env =
  ra_disk :: file_env
  ra_var :: "string \<Rightarrow> rstr option"
  ra_database_var :: "file_path option"
  ra_xdg_data_home :: "file_path option"
  ra_home :: "file_path option"
  ra_cert_var :: "file_path option"
  ra_key_var :: "file_path option"
  ra_pragma_fault :: bool
  ra_batch_fault :: bool
  ra_spawn_fails :: bool
  ra_bind_fault :: "io_kind option"
  ra_signal_fault :: "io_kind option"
  ra_tls :: tls_library
  ra_sha256 :: "bytes \<Rightarrow> bytes"
  ra_env :: relay_env

datatype relay_error =
    RelayStorage StorageError
  | RelayIo io_kind
  | RelayTls tls_error
  | RelayId ParseIdError
  | RelayFingerprint ParseFingerprintError
  | RelayUsage
  | RelayPanic

text \<open>\<open>RelayState::open\<close>; an error after the lock was taken closes the file.\<close>

definition open_relay :: "relay_start_env \<Rightarrow> db_file \<Rightarrow> file_path \<Rightarrow> FileSystem \<Rightarrow> (StorageError + RelayState) \<times> FileSystem" where
  "open_relay ra f p fs =
     (case storage_environment (ra_var ra) of
        Inl e \<Rightarrow> (Inl e, fs)
      | Inr limits \<Rightarrow>
          (case open_locked (ra_disk ra) p fs of
             (Inl e, fs) \<Rightarrow> (Inl (File (file_error_kind e)), fs)
           | (Inr h, fs) \<Rightarrow>
               (case initialize (ra_pragma_fault ra) (ra_batch_fault ra) f of
                  Inl e \<Rightarrow> (Inl e, close_file h fs)
                | Inr f \<Rightarrow> (Inr \<lparr>rs_db = file_contents f, rs_limits = limits, rs_quota_rejections = 0, rs_commit_conflicts = 0\<rparr>, fs))))"

text \<open>The default directory is determined even if the variable is set.\<close>

definition database_path :: "relay_start_env \<Rightarrow> io_kind + file_path" where
  "database_path ra =
     and_then (default_directory (ra_xdg_data_home ra) (ra_home ra)) (\<lambda>dir.
     Inr (case ra_database_var ra of Some p \<Rightarrow> p | None \<Rightarrow> path_join dir (FilePath False [str_of ''relay.db''])))"

section \<open>The command line\<close>

datatype relay_outcome = RelayHelp | RelayToken rstr | RelayServes RuntimeLimits TlsIdentity

definition enroll :: "relay_start_env \<Rightarrow> rstr \<Rightarrow> rstr \<Rightarrow> RelayState \<Rightarrow> (relay_error + relay_outcome) \<times> RelayState" where
  "enroll ra user_text fingerprint_text s =
     (case id_from_str UserId user_text of
        Inl e \<Rightarrow> (Inl (RelayId e), s)
      | Inr user \<Rightarrow>
          (case parse_fingerprint_hex fingerprint_text of
             Inl e \<Rightarrow> (Inl (RelayFingerprint e), s)
           | Inr fingerprint \<Rightarrow>
               (case issue_enrollment (ra_sha256 ra) (ra_env ra) s user fingerprint of
                  None \<Rightarrow> (Inl RelayPanic, s)
                | Some (Inl e, s) \<Rightarrow> (Inl (RelayStorage e), s)
                | Some (Inr token, s) \<Rightarrow> (Inr (RelayToken token), s))))"

text \<open>Everything between the open database and the loop: the database thread, the socket, the identity, the signals.\<close>

definition start_serving ::
  "relay_start_env \<Rightarrow> RuntimeLimits \<Rightarrow> RelayState \<Rightarrow> FileSystem \<Rightarrow> (relay_error + relay_outcome) \<times> FileSystem" where
  "start_serving ra config s fs =
     (case (worker_start (ra_spawn_fails ra) s (rt_database_queue config) :: io_kind + (RelayState, unit) DatabaseWorker) of
        Inl k \<Rightarrow> (Inl (RelayIo k), fs)
      | Inr _ \<Rightarrow>
          (case ra_bind_fault ra of
             Some k \<Rightarrow> (Inl (RelayIo k), fs)
           | None \<Rightarrow>
               (case load_or_generate_identity (ra_disk ra) (ra_tls ra) (ra_xdg_data_home ra) (ra_home ra) (ra_cert_var ra) (ra_key_var ra) fs of
                  (Inl e, fs) \<Rightarrow> (Inl (RelayTls e), fs)
                | (Inr tls, fs) \<Rightarrow>
                    (case ra_signal_fault ra of
                       Some k \<Rightarrow> (Inl (RelayIo k), fs)
                     | None \<Rightarrow> (Inr (RelayServes config tls), fs)))))"

text \<open>
  The start. The repository is returned with what was written to it; unless the relay serves, its file is
  closed again.
\<close>

definition relay_start ::
  "relay_start_env \<Rightarrow> rstr list \<Rightarrow> db_file \<Rightarrow> FileSystem
   \<Rightarrow> ((relay_error + relay_outcome) \<times> RelayState option) \<times> FileSystem" where
  "relay_start ra arguments f fs =
     (if arguments = [str_of ''--help''] then ((Inr RelayHelp, None), fs)
      else case configure (ra_var ra) of
        Inl e \<Rightarrow> ((Inl (RelayStorage e), None), fs)
      | Inr config \<Rightarrow>
          (case database_path ra of
             Inl k \<Rightarrow> ((Inl (RelayIo k), None), fs)
           | Inr p \<Rightarrow>
               (case open_relay ra f p fs of
                  (Inl e, fs) \<Rightarrow> ((Inl (RelayStorage e), None), fs)
                | (Inr s, fs) \<Rightarrow>
                    let closed = close_file (resolve (ra_disk ra) p) in
                    if length arguments = 3 \<and> arguments ! 0 = str_of ''--enroll''
                    then let (r, s) = enroll ra (arguments ! 1) (arguments ! 2) s in ((r, Some s), closed fs)
                    else if arguments \<noteq> [] then ((Inl RelayUsage, Some s), closed fs)
                    else (case start_serving ra config s fs of
                            (Inl e, fs) \<Rightarrow> ((Inl e, Some s), closed fs)
                          | (Inr outcome, fs) \<Rightarrow> ((Inr outcome, Some s), fs)))))"

section \<open>What a start leaves behind\<close>

lemma start_serving_extends:
  assumes "start_serving ra config s fs = (r, fs')"
  shows "extends fs fs'"
proof -
  have ident: "extends fs fs1" if "load_or_generate_identity env lib xdg home cert key fs = (q, fs1)" for env lib xdg home cert key q fs1
    using that extending_load [of env lib] by (auto simp: load_or_generate_identity_def fail_def extending_def split: sum.splits)
  show ?thesis using assms ident
    by (auto simp: start_serving_def split: sum.splits option.splits prod.splits)
qed

end
