(* ===== verification/Start_Claims.thy ===== *)
theory Start_Claims
  imports Client_Start Relay_Start Client_Data_Claims Connection_Claims
begin

text \<open>
  What the two programs promise from one run to the next: a client stays who it is, a relay has its database
  for itself, and its loop neither loses nor exceeds what it hands out and always comes to an end.
\<close>

section \<open>The identity of a client\<close>

lemma identity_rows_Inr:
  "identity_rows env s = (Inr v, s') \<Longrightarrow> cd_transport_identity (st_db s') = Some v"
  by (auto simp: identity_rows_def chain_def lock_def query_def update_def stmt_def ret_def fail_def Let_def
      split: if_splits option.splits prod.splits sum.splits)

lemma identity_Inr:
  fixes e e' :: "'g Engine"
  assumes rest: "at_rest (en_store e)" and run: "in_store (identity env) e = (Inr v, e')"
  shows "cd_transport_identity (durable_db (en_store e')) = Some v"
proof -
  have body: "same_guard (en_store e1) (en_store e2) \<and> (\<forall>u. q = Inr u \<longrightarrow> cd_transport_identity (st_db (en_store e2)) = Some u)"
    if "in_store (identity_rows env) e1 = (q, e2)" for q and e1 e2 :: "'g Engine"
    using that identity_rows_effect [of env "en_store e1"] identity_rows_Inr [of env "en_store e1"]
    by (auto simp: in_store_def split: prod.splits)
  have "at_rest (en_store e') \<and> ((\<exists>x. Inr v = (Inl x :: client_error + UserId \<times> bytes)) \<and> durable_db (en_store e') = durable_db (en_store e)
      \<or> idle (en_store e') \<and> committed env (in_store (identity_rows env)) e (Inr v) (durable_db (en_store e')))"
    by (rule transaction_outcome [OF rest run [unfolded identity_def in_store_transaction]]) (use body in blast)
  then show ?thesis using body by (fastforce simp: committed_def)
qed

lemma load_keys_step:
  fixes e e' :: "'g Engine"
  assumes "at_rest (en_store e)" "load_keys env generated e = (r, e')"
  shows "at_rest (en_store e') \<and> pins_kept (durable_db (en_store e)) (durable_db (en_store e'))
    \<and> (\<forall>keys. r = Inr keys \<longrightarrow> cd_mls_identity (durable_db (en_store e')) = Some keys)"
  using assms
  by (auto simp: load_keys_def load_mls_identity_def save_mls_identity_def in_store_def chain_def lock_def query_def update_def stmt_def
      ret_def fail_def Let_def at_rest_def idle_def durable_db_def pins_kept_def
      split: if_splits option.splits prod.splits sum.splits)

lemma pinning_card_own: "pinning (in_store (card_own env public_of sign))"
  unfolding card_own_def in_store_chain
  by (intro pinning_intros) (auto simp: in_store_chain Let_def intro!: keeps_pinning keep_intros split: prod.splits option.splits)

text \<open>The card of a user with this seed and these keys.\<close>

definition card_for :: "('g, 'm) client_world \<Rightarrow> UserId \<Rightarrow> bytes \<Rightarrow> bytes \<Rightarrow> ContactCard" where
  "card_for w user seed public =
     (let cc = \<lparr>card_user = user, card_transport_key = cw_public_of w seed, card_mls_key = public, card_signature = replicate 64 0\<rparr>
      in cc\<lparr>card_signature := cw_sign w seed (contact_transcript cc)\<rparr>)"

lemma card_own_Inr:
  fixes e e' :: "'g Engine"
  assumes rest: "at_rest (en_store e)" and run: "in_store (card_own (cw_env w) (cw_public_of w) (cw_sign w)) e = (Inr own, e')"
    and stored: "cd_transport_identity (durable_db (en_store e)) = Some (user, seed)" "cd_mls_identity (durable_db (en_store e)) = Some keys"
  shows "own = card_for w user seed (fst keys)"
proof -
  from run obtain v e1 where one: "in_store (identity (cw_env w)) e = (Inr v, e1)"
    and two: "in_store (case v of (user, seed) \<Rightarrow> chain (load_mls_identity (cw_env w)) (\<lambda>keys.
       case keys of
         None \<Rightarrow> fail (StoreInvalidData ''MLS identity missing'')
       | Some (public, _) \<Rightarrow>
           if length public \<noteq> 32 then fail (StoreInvalidData ''invalid MLS public key'')
           else let cc = \<lparr>card_user = user, card_transport_key = cw_public_of w seed, card_mls_key = public,
                  card_signature = replicate 64 0\<rparr>
             in ret (cc\<lparr>card_signature := cw_sign w seed (contact_transcript cc)\<rparr>))) e1 = (Inr own, e')"
    unfolding card_own_def in_store_chain by (elim chainE)
  have kept: "at_rest (en_store e1)" "pins_kept (durable_db (en_store e)) (durable_db (en_store e1))"
    using pinningD [OF pinning_identity rest one] by simp_all
  have "v = (user, seed)" using identity_Inr [OF rest one] kept(2) stored(1) by (simp add: pins_kept_def)
  moreover have "cd_mls_identity (st_db (en_store e1)) = Some keys"
  proof -
    have "\<not> st_poisoned (en_store e1)"
      using two by (auto simp: in_store_def chain_def load_mls_identity_def lock_def fail_def split: prod.splits if_splits)
    then have "durable_db (en_store e1) = st_db (en_store e1)" using kept(1) by (simp add: at_rest_def idle_def durable_db_def)
    with kept(2) stored(2) show ?thesis by (simp add: pins_kept_def)
  qed
  ultimately show ?thesis using two
    by (auto simp: card_for_def Let_def in_store_def chain_def load_mls_identity_def lock_def query_def stmt_def ret_def fail_def
        split: prod.splits if_splits option.splits)
qed

lemma import_card_Inr:
  fixes e e' :: "'g Engine"
  assumes "at_rest (en_store e)" "import_card w cc fingerprint e = (Inr (), e')"
  shows "\<exists>k. map_of (cd_verified_contacts (durable_db (en_store e'))) (card_user cc) = Some (k, card_bytes cc)"
  using assms
  by (auto simp: import_card_def card_import_def admit_new_data_def chain_def lock_def query_def update_def stmt_def ret_def fail_def Let_def
      at_rest_def idle_def durable_db_def pin_contact_def map_add_def
      split: if_splits option.splits prod.splits sum.splits)

lemma prepare_step:
  fixes w :: "('g, 'm) client_world"
  assumes rest: "at_rest (en_store e)" and run: "prepare w se e = (r, e')"
  shows "at_rest (en_store e') \<and> pins_kept (durable_db (en_store e)) (durable_db (en_store e'))
    \<and> (\<forall>self. r = Inr self \<longrightarrow> cd_transport_identity (durable_db (en_store e')) = Some (self_user self, self_seed self)
         \<and> cd_mls_identity (durable_db (en_store e')) = Some (self_keys self)
         \<and> self_card self = card_for w (self_user self) (self_seed self) (fst (self_keys self))
         \<and> (\<exists>k. map_of (cd_verified_contacts (durable_db (en_store e'))) (self_user self) = Some (k, card_bytes (self_card self))))"
proof -
  obtain q1 e1 where one: "in_store (identity (cw_env w)) e = (q1, e1)" by (cases "in_store (identity (cw_env w)) e")
  note k1 = pinningD [OF pinning_identity rest one]
  obtain q2 e2 where two: "load_keys (cw_env w) (se_generated_keys se) e1 = (q2, e2)" by (cases "load_keys (cw_env w) (se_generated_keys se) e1")
  note k2 = load_keys_step [OF conjunct1 [OF k1] two]
  obtain q3 e3 where three: "in_store (card_own (cw_env w) (cw_public_of w) (cw_sign w)) e2 = (q3, e3)"
    by (cases "in_store (card_own (cw_env w) (cw_public_of w) (cw_sign w)) e2")
  note k3 = pinningD [OF pinning_card_own conjunct1 [OF k2] three]
  have k4: "at_rest (en_store e4) \<and> pins_kept (durable_db (en_store e3)) (durable_db (en_store e4))"
    if "import_card w own fp e3 = (q, e4)" for own fp q e4
    using pinningD [OF pinning_import_card _ that] k3 by blast
  note runs = run [unfolded prepare_def chain_def] one two three
  show ?thesis
  proof (cases "\<exists>self. r = Inr self")
    case False
    have upto: "pins_kept (durable_db (en_store e)) (durable_db (en_store e2))" "pins_kept (durable_db (en_store e)) (durable_db (en_store e3))"
      using k1 k2 k3 by (blast intro: pins_kept_trans)+
    with False runs k1 k2 k3 k4 pins_kept_trans [OF upto(2)] show ?thesis
      by (auto simp: fail_def ret_def split: sum.splits if_splits prod.splits)
  next
    case True
    then obtain self where self: "r = Inr self" by blast
    with runs obtain own where q: "q1 = Inr (self_user self, self_seed self)" "q2 = Inr (self_keys self)" "q3 = Inr own"
      and four: "import_card w own (card_fingerprint (cw_sha256 w) own) e3 = (Inr (), e')" and own: "self_card self = own"
      by (auto simp: fail_def ret_def split: sum.splits if_splits prod.splits)
    note k4 = k4 [OF four]
    have ids: "cd_transport_identity (durable_db (en_store e2)) = Some (self_user self, self_seed self)"
      "cd_mls_identity (durable_db (en_store e2)) = Some (self_keys self)"
      using identity_Inr [OF rest one [unfolded q]] k2 q(2) by (simp_all add: pins_kept_def)
    have card: "own = card_for w (self_user self) (self_seed self) (fst (self_keys self))"
      by (rule card_own_Inr [OF conjunct1 [OF k2] three [unfolded q] ids])
    then have "card_user own = self_user self" by (simp add: card_for_def Let_def)
    with import_card_Inr [OF conjunct1 [OF k3] four] have pinned:
      "\<exists>k. map_of (cd_verified_contacts (durable_db (en_store e'))) (self_user self) = Some (k, card_bytes own)" by simp
    have all: "pins_kept (durable_db (en_store e2)) (durable_db (en_store e'))" using k3 k4 by (blast intro: pins_kept_trans)
    then have "cd_transport_identity (durable_db (en_store e')) = Some (self_user self, self_seed self)"
      "cd_mls_identity (durable_db (en_store e')) = Some (self_keys self)" using ids by (simp_all add: pins_kept_def)
    moreover have "pins_kept (durable_db (en_store e)) (durable_db (en_store e'))" using k1 k2 all by (blast intro: pins_kept_trans)
    ultimately show ?thesis using k4 own card pinned self by simp
  qed
qed

lemma start_action_step:
  assumes "at_rest (en_store e)" "start_action w arguments self e = (r, e')"
  shows "at_rest (en_store e') \<and> pins_kept (durable_db (en_store e)) (durable_db (en_store e'))
    \<and> (\<forall>self'. r = Inr (GoOnline self') \<longrightarrow> self' = self)"
proof -
  have "pinning (start_action w arguments self)"
    unfolding start_action_def by (cases arguments) (auto intro!: pinning_intros)
  from pinningD [OF this assms] assms(2) show ?thesis
    by (auto simp: start_action_def ret_def fail_def chain_def from_result_def split: list.splits if_splits sum.splits prod.splits)
qed

text \<open>The engine a start hands over: on the tables of the file, with the identity written.\<close>

lemma client_start_online:
  fixes w :: "('g, 'm) client_world"
  assumes "client_start w se arguments f fs = ((Inr (GoOnline self), Some e), fs')"
  shows "at_rest (en_store e)"
    "cd_transport_identity (durable_db (en_store e)) = Some (self_user self, self_seed self)"
    "cd_mls_identity (durable_db (en_store e)) = Some (self_keys self)"
    "self_card self = card_for w (self_user self) (self_seed self) (fst (self_keys self))"
    "\<exists>k. map_of (cd_verified_contacts (durable_db (en_store e))) (self_user self) = Some (k, card_bytes (self_card self))"
    "cf_user_version f = 9 \<Longrightarrow> cf_application_id f = 0x4752433a \<Longrightarrow> pins_kept (cf_contents f) (durable_db (en_store e))"
proof -
  from assms obtain p s fs1 where opened: "open_client se f p fs = (Inr s, fs1)"
    and run: "chain (prepare w se) (start_action w arguments) \<lparr>en_store = s, en_groups = []\<rparr> = (Inr (GoOnline self), e)"
    by (auto simp: client_start_def Let_def split: if_splits sum.splits prod.splits)
  from opened have fresh: "at_rest s" "cf_user_version f = 9 \<Longrightarrow> cf_application_id f = 0x4752433a \<Longrightarrow> durable_db s = cf_contents f"
    by (auto simp: open_client_def open_store_def client_initialize_def at_rest_def idle_def durable_db_def
        split: prod.splits sum.splits bool.splits if_splits)
  from run obtain self1 e1 where one: "prepare w se \<lparr>en_store = s, en_groups = []\<rparr> = (Inr self1, e1)"
    and two: "start_action w arguments self1 e1 = (Inr (GoOnline self), e)" by (elim chainE)
  have k1: "at_rest (en_store e1)" "pins_kept (durable_db s) (durable_db (en_store e1))"
    "cd_transport_identity (durable_db (en_store e1)) = Some (self_user self1, self_seed self1)"
    "cd_mls_identity (durable_db (en_store e1)) = Some (self_keys self1)"
    "self_card self1 = card_for w (self_user self1) (self_seed self1) (fst (self_keys self1))"
    "\<exists>k. map_of (cd_verified_contacts (durable_db (en_store e1))) (self_user self1) = Some (k, card_bytes (self_card self1))"
    using prepare_step [OF _ one] fresh(1) by auto
  from start_action_step [OF k1(1) two] have k2: "at_rest (en_store e)" "pins_kept (durable_db (en_store e1)) (durable_db (en_store e))"
    "self1 = self" by auto
  show "at_rest (en_store e)" by (rule k2(1))
  show "cd_transport_identity (durable_db (en_store e)) = Some (self_user self, self_seed self)"
    "cd_mls_identity (durable_db (en_store e)) = Some (self_keys self)"
    "self_card self = card_for w (self_user self) (self_seed self) (fst (self_keys self))"
    "\<exists>k. map_of (cd_verified_contacts (durable_db (en_store e))) (self_user self) = Some (k, card_bytes (self_card self))"
    using k1 k2 by (auto simp: pins_kept_def map_le_def dom_def)
  show "cf_user_version f = 9 \<Longrightarrow> cf_application_id f = 0x4752433a \<Longrightarrow> pins_kept (cf_contents f) (durable_db (en_store e))"
    using fresh(2) k1(2) k2(2) by (auto intro: pins_kept_trans)
qed

text \<open>The loop of connections keeps the pins and the identity.\<close>

lemma run_round_pins:
  assumes "documented_library (cw_lib w) (cw_env w)" "postcard_wire (cw_pc w)" "at_rest (en_store e)"
    and "run_round w cfg seed rd (e, fs) = (r, e', fs')"
  shows "at_rest (en_store e') \<and> pins_kept (durable_db (en_store e)) (durable_db (en_store e'))"
proof -
  obtain q fs1 where con: "connect w cfg seed (rd_connect rd) fs = (q, fs1)" by (cases "connect w cfg seed (rd_connect rd) fs")
  show ?thesis
  proof (cases q)
    case (Inl error)
    with assms(3,4) con show ?thesis by (simp add: run_round_def)
  next
    case (Inr so)
    let ?cl = "\<lparr>cl_engine = e\<lparr>en_groups := []\<rparr>, cl_wire = session_wire w rd so\<rparr>"
    obtain v cl where run: "run_engine w (rd_picks rd) ?cl = (v, cl)" by (cases "run_engine w (rd_picks rd) ?cl")
    have e': "e' = cl_engine cl" using assms(4) con Inr run by (auto simp: run_round_def split: sum.splits bool.splits)
    from client_keepsD [OF pinned.kept_run_engine _ _ run] assms(1,3) session_wire_ok [OF assms(2), of rd so]
    show ?thesis by (simp add: e')
  qed
qed

lemma run_rounds_pins:
  assumes "documented_library (cw_lib w) (cw_env w)" "postcard_wire (cw_pc w)" "at_rest (en_store e)"
    and "run_rounds w cfg seed delay rds (e, fs) = (r, e', fs')"
  shows "at_rest (en_store e') \<and> pins_kept (durable_db (en_store e)) (durable_db (en_store e'))"
  using assms(3,4)
proof (induction rds arbitrary: delay e fs r)
  case (Cons rd rds)
  obtain q e1 fs1 where one: "run_round w cfg seed rd (e, fs) = (q, e1, fs1)" by (cases "run_round w cfg seed rd (e, fs)")
  note first = run_round_pins [OF assms(1,2) Cons.prems(1) one]
  from Cons.prems(2) one have "e' = e1 \<or> (\<exists>d r1. run_rounds w cfg seed d rds (e1, fs1) = (r1, e', fs'))"
    by (auto simp: Let_def split: option.splits sum.splits if_splits prod.splits)
  with first Cons.IH show ?case by (blast intro: pins_kept_trans)
qed simp

text \<open>
  Property C17. A client stays who it is. After a run of the client, with any relay and any failures, the next
  run on the same database has the same user, transport key and MLS keys, whatever is drawn at random, and so
  the same card; and that card is a verified contact of the client itself.
\<close>

theorem restarts_keep_the_identity:
  fixes w :: "('g, 'm) client_world" and w' :: "('h, 'n) client_world"
  assumes library: "documented_library (cw_lib w) (cw_env w)" "postcard_wire (cw_pc w)"
    and start: "client_start w se arguments f fs = ((Inr (GoOnline self), Some e), fs1)"
    and run: "run_inner w se cfg arguments rds f fs = (result, Some e1, fs2)"
    and table_file: "cf_user_version f' = 9" "cf_application_id f' = 0x4752433a" "cf_contents f' = durable_db (en_store e1)"
    and again: "client_start w' se' arguments' f' fs' = ((Inr (GoOnline self'), Some e'), fs3)"
  shows "self_user self' = self_user self \<and> self_seed self' = self_seed self \<and> self_keys self' = self_keys self
    \<and> (cw_public_of w' = cw_public_of w \<and> cw_sign w' = cw_sign w \<longrightarrow> self_card self' = self_card self)
    \<and> (\<exists>k. map_of (cd_verified_contacts (durable_db (en_store e1))) (self_user self) = Some (k, card_bytes (self_card self)))"
proof -
  note first = client_start_online [OF start] and second = client_start_online [OF again]
  from run start obtain q where "run_rounds (w\<lparr>cw_user := self_user self\<rparr>) cfg (self_seed self) 1 rds (e, fs1) = (q, e1, fs2)"
    by (auto simp: run_inner_def split: prod.splits)
  from run_rounds_pins [OF _ _ first(1) this] library
  have "pins_kept (durable_db (en_store e)) (cf_contents f')" by (simp add: table_file(3))
  with second(6) [OF table_file(1,2)] have "pins_kept (durable_db (en_store e)) (durable_db (en_store e'))"
    by (blast intro: pins_kept_trans)
  with first second(2,3) have same: "self_user self' = self_user self" "self_seed self' = self_seed self" "self_keys self' = self_keys self"
    by (auto simp: pins_kept_def)
  moreover have "\<exists>k. map_of (cd_verified_contacts (durable_db (en_store e1))) (self_user self) = Some (k, card_bytes (self_card self))"
    using first(5) \<open>pins_kept (durable_db (en_store e)) (cf_contents f')\<close> table_file(3) by (auto simp: pins_kept_def map_le_def dom_def)
  ultimately show ?thesis using first(4) second(4) by (simp add: card_for_def Let_def)
qed

definition fx_start_env :: "bytes \<Rightarrow> start_env" where
  "fx_start_env secret = \<lparr>se_disk = fx_kernel, se_store_var = Some (fx_file 100), se_xdg_data_home = None, se_home = Some fx_home_path,
     se_budget_var = None, se_mls_path_set = False, se_open_fault = (\<lambda>_. False), se_generated_keys = Some (replicate 32 7, secret)\<rparr>"

definition fx_tables :: "int \<Rightarrow> int \<Rightarrow> ClientDb \<Rightarrow> client_file" where
  "fx_tables version application db = \<lparr>cf_user_version = version, cf_application_id = application, cf_schema_objects = 0, cf_contents = db\<rparr>"

definition fx_self :: Self where
  "fx_self = \<lparr>self_user = fx_me, self_seed = replicate 32 9, self_keys = (replicate 32 7, replicate 32 8),
     self_card = card_for fx_world fx_me (replicate 32 9) (replicate 32 7)\<rparr>"

definition fx_self_db :: ClientDb where
  "fx_self_db = pin_contact (self_card fx_self)
     (empty_client_db\<lparr>cd_transport_identity := Some (fx_me, replicate 32 9), cd_mls_identity := Some (replicate 32 7, replicate 32 8)\<rparr>)"

definition fx_opened_store :: "ClientDb \<Rightarrow> ClientStore" where
  "fx_opened_store db = \<lparr>st_db = db, st_begun = None, st_owner = None, st_poisoned = False,
     st_new_data_limit = 1024 * 1024 * 1024, st_ticks = 0\<rparr>"

lemma fx_open_client:
  assumes "open_store (Inr ()) (\<lambda>_. False) None f = Inr s"
  shows "\<exists>fs. open_client (fx_start_env secret) f (fx_file 100) fx_disk = (Inr s, fs)"
  using assms
  by (simp add: open_client_def legacy_state_def LEGACY_FILES_def fx_start_env_def open_locked_def ensure_parent_def check_ancestors_def
    check_existing_def check_sidecars_def create_dirs_def
    make_dir_def open_file_def file_metadata_def lock_or_refuse_def try_lock_def symlink_metadata_def syscall_def node_at_def
    add_node_def resolve_def path_join_def path_ancestors_def with_suffix_def path_parent_def parent_dir_def owner_only_def
    unsafe_ancestor_def chain_def ret_def fail_def Let_def fx_kernel_def fx_disk_def fx_root_dir_def fx_home_dir_def fx_paths
    str_of_def file_error_kind_def)

lemma fx_stores:
  "open_store (Inr ()) (\<lambda>_. False) None (fx_tables 0 0 db) = Inr (fx_opened_store empty_client_db)"
  "open_store (Inr ()) (\<lambda>_. False) None (fx_tables 9 0x4752433a db) = Inr (fx_opened_store db)"
  by (simp_all add: open_store_def client_initialize_def new_data_budget_def fx_tables_def fx_opened_store_def)

lemma fx_self_card:
  "parse_fingerprint_hex (card_fingerprint (cw_sha256 fx_world) (self_card fx_self)) = Inr (cw_sha256 fx_world (card_bytes (self_card fx_self)))"
  "card_parse (cw_valid_key fx_world) (cw_verify_strict fx_world) (card_encode (self_card fx_self)) = Inr (self_card fx_self)"
proof -
  show "parse_fingerprint_hex (card_fingerprint (cw_sha256 fx_world) (self_card fx_self)) = Inr (cw_sha256 fx_world (card_bytes (self_card fx_self)))"
    unfolding card_fingerprint_def by (rule parse_fingerprint_of_digest) (simp add: fx_world_def)
  have "wf_card (self_card fx_self)"
    by (simp add: wf_card_def fx_self_def card_for_def Let_def fx_world_def fx_me_def wf_ids)
  then show "card_parse (cw_valid_key fx_world) (cw_verify_strict fx_world) (card_encode (self_card fx_self)) = Inr (self_card fx_self)"
    by (simp add: card_parse_encode self_signed_def fx_world_def fx_self_def card_for_def Let_def)
qed

lemmas fx_store_steps = in_store_def in_transaction_def transaction_def commit_def chain_def lock_def query_def update_def stmt_def
  ret_def fail_def Let_def identity_def identity_rows_def load_keys_def load_mls_identity_def save_mls_identity_def card_own_def
  fx_opened_store_def fx_client_env_def

text \<open>The steps of the first start, and of every later one.\<close>

definition fx_at :: "ClientDb \<Rightarrow> nat \<Rightarrow> bytes Engine" where
  "fx_at db n = \<lparr>en_store = (fx_opened_store db)\<lparr>st_ticks := n\<rparr>, en_groups = []\<rparr>"

lemma fx_identity:
  "in_store (identity fx_client_env) (fx_at empty_client_db n)
    = (Inr (fx_me, replicate 32 9), fx_at (empty_client_db\<lparr>cd_transport_identity := Some (fx_me, replicate 32 9)\<rparr>) (n + 4))"
  by (simp add: fx_store_steps fx_at_def empty_client_db_def eval_nat_numeral)

lemma fx_identity_known:
  "cd_transport_identity db = Some (fx_me, replicate 32 9) \<Longrightarrow>
   in_store (identity fx_client_env) (fx_at db n) = (Inr (fx_me, replicate 32 9), fx_at db (n + 3))"
  by (simp add: fx_store_steps fx_at_def fx_me_def eval_nat_numeral)

lemma fx_keys:
  "cd_mls_identity db = None \<Longrightarrow> load_keys fx_client_env (Some (replicate 32 7, secret)) (fx_at db n)
    = (Inr (replicate 32 7, secret), fx_at (db\<lparr>cd_mls_identity := Some (replicate 32 7, secret)\<rparr>) (n + 3))"
  "cd_mls_identity db = Some keys \<Longrightarrow> load_keys fx_client_env generated (fx_at db n) = (Inr keys, fx_at db (n + 1))"
  by (simp_all add: fx_store_steps fx_at_def eval_nat_numeral)

lemma fx_own:
  assumes "cd_transport_identity db = Some (fx_me, replicate 32 9)" "cd_mls_identity db = Some (replicate 32 7, replicate 32 8)"
  shows "in_store (card_own fx_client_env (cw_public_of fx_world) (cw_sign fx_world)) (fx_at db n) = (Inr (self_card fx_self), fx_at db (n + 4))"
proof -
  have "in_store (load_mls_identity fx_client_env) (fx_at db k) = (Inr (Some (replicate 32 7, replicate 32 8)), fx_at db (k + 1))" for k
    using assms(2) by (simp add: fx_store_steps fx_at_def)
  with fx_identity_known [OF assms(1), of n] show ?thesis
    unfolding card_own_def in_store_chain
    by (simp add: chain_def in_store_chain Let_def fx_self_def card_for_def)
      (simp add: in_store_def ret_def add.commute)
qed

lemma fx_import:
  "map_of (cd_verified_contacts db) fx_me = None \<Longrightarrow>
   \<exists>k. import_card fx_world (self_card fx_self) (card_fingerprint (cw_sha256 fx_world) (self_card fx_self)) (fx_at db n)
     = (Inr (), fx_at (pin_contact (self_card fx_self) db) k)"
  "map_of (cd_verified_contacts db) fx_me = Some (key, card_bytes (self_card fx_self)) \<Longrightarrow>
   \<exists>k. import_card fx_world (self_card fx_self) (card_fingerprint (cw_sha256 fx_world) (self_card fx_self)) (fx_at db n) = (Inr (), fx_at db k)"
proof -
  have user: "card_user (self_card fx_self) = fx_me" by (simp add: fx_self_def card_for_def Let_def)
  show "\<exists>k. import_card fx_world (self_card fx_self) (card_fingerprint (cw_sha256 fx_world) (self_card fx_self)) (fx_at db n)
     = (Inr (), fx_at (pin_contact (self_card fx_self) db) k)" if "map_of (cd_verified_contacts db) fx_me = None"
    using that
    by (intro exI [of _ "n + 4"])
      (simp add: import_card_def card_import_def fx_self_card [unfolded fx_world_def, simplified] fx_world_def user fx_store_steps fx_at_def
        admit_new_data_def saturating_add_def saturating_mul_def CARD_BYTES_def)
  show "\<exists>k. import_card fx_world (self_card fx_self) (card_fingerprint (cw_sha256 fx_world) (self_card fx_self)) (fx_at db n) = (Inr (), fx_at db k)"
    if "map_of (cd_verified_contacts db) fx_me = Some (key, card_bytes (self_card fx_self))"
    using that
    by (intro exI [of _ "n + 1"])
      (simp add: import_card_def card_import_def fx_self_card [unfolded fx_world_def, simplified] fx_world_def user fx_store_steps fx_at_def)
qed

lemma fx_prepare:
  "\<exists>k. prepare fx_world (fx_start_env (replicate 32 8)) (fx_at empty_client_db 0) = (Inr fx_self, fx_at fx_self_db k)"
  "\<exists>k. prepare fx_world (fx_start_env secret) (fx_at fx_self_db 0) = (Inr fx_self, fx_at fx_self_db k)"
proof -
  let ?db1 = "empty_client_db\<lparr>cd_transport_identity := Some (fx_me, replicate 32 9)\<rparr>"
  let ?db2 = "?db1\<lparr>cd_mls_identity := Some (replicate 32 7, replicate 32 8)\<rparr>"
  have self: "\<lparr>self_user = fx_me, self_seed = replicate 32 9, self_keys = (replicate 32 7, replicate 32 8), self_card = self_card fx_self\<rparr> = fx_self"
    by (simp add: fx_self_def)
  have se: "se_generated_keys (fx_start_env s) = Some (replicate 32 7, s)" "\<not> se_mls_path_set (fx_start_env s)" for s
    by (simp_all add: fx_start_env_def)
  have env: "cw_env fx_world = fx_client_env" by (simp add: fx_world_def)
  obtain k where k: "import_card fx_world (self_card fx_self) (card_fingerprint (cw_sha256 fx_world) (self_card fx_self)) (fx_at ?db2 11)
      = (Inr (), fx_at fx_self_db k)"
    using fx_import(1) [of ?db2 11] by (auto simp: fx_self_db_def empty_client_db_def)
  show "\<exists>k. prepare fx_world (fx_start_env (replicate 32 8)) (fx_at empty_client_db 0) = (Inr fx_self, fx_at fx_self_db k)"
    using k fx_identity [of 0] fx_keys(1) [of ?db1 "replicate 32 8" 4] fx_own [of ?db2 7]
    by (intro exI [of _ k]) (simp add: prepare_def chain_def ret_def se env self empty_client_db_def)
  have known: "cd_transport_identity fx_self_db = Some (fx_me, replicate 32 9)" "cd_mls_identity fx_self_db = Some (replicate 32 7, replicate 32 8)"
    "\<exists>key. map_of (cd_verified_contacts fx_self_db) fx_me = Some (key, card_bytes (self_card fx_self))"
    by (simp_all add: fx_self_db_def pin_contact_def empty_client_db_def fx_self_def card_for_def Let_def)
  obtain k where k: "import_card fx_world (self_card fx_self) (card_fingerprint (cw_sha256 fx_world) (self_card fx_self)) (fx_at fx_self_db 8)
      = (Inr (), fx_at fx_self_db k)"
    using fx_import(2) [of fx_self_db _ 8] known(3) by blast
  show "\<exists>k. prepare fx_world (fx_start_env secret) (fx_at fx_self_db 0) = (Inr fx_self, fx_at fx_self_db k)"
    using k fx_identity_known [OF known(1), of 0] fx_keys(2) [OF known(2), of _ 3] fx_own [OF known(1,2), of 4]
    by (intro exI [of _ k]) (simp add: prepare_def chain_def ret_def se env self)
qed

lemma fx_online:
  "\<exists>k fs. client_start fx_world (fx_start_env (replicate 32 8)) [] (fx_tables 0 0 empty_client_db) fx_disk
     = ((Inr (GoOnline fx_self), Some (fx_at fx_self_db k)), fs)"
  "\<exists>k fs. client_start fx_world (fx_start_env secret) [] (fx_tables 9 0x4752433a fx_self_db) fx_disk
     = ((Inr (GoOnline fx_self), Some (fx_at fx_self_db k)), fs)"
proof -
  have path: "store_path (fx_start_env s) = Inr (fx_file 100)" for s
    by (simp add: store_path_def default_store_path_def default_identity_directory_def fx_start_env_def and_then_def)
  have at: "\<lparr>en_store = fx_opened_store db, en_groups = []\<rparr> = fx_at db 0" for db by (simp add: fx_at_def fx_opened_store_def)
  note start = client_start_def path chain_def start_action_def ret_def at
  from fx_open_client [OF fx_stores(1)] obtain fs where
    "open_client (fx_start_env (replicate 32 8)) (fx_tables 0 0 empty_client_db) (fx_file 100) fx_disk = (Inr (fx_opened_store empty_client_db), fs)" by blast
  with fx_prepare(1) show "\<exists>k fs. client_start fx_world (fx_start_env (replicate 32 8)) [] (fx_tables 0 0 empty_client_db) fx_disk
     = ((Inr (GoOnline fx_self), Some (fx_at fx_self_db k)), fs)" by (auto simp: start)
  from fx_open_client [OF fx_stores(2)] obtain fs where
    "open_client (fx_start_env secret) (fx_tables 9 0x4752433a fx_self_db) (fx_file 100) fx_disk = (Inr (fx_opened_store fx_self_db), fs)" by blast
  with fx_prepare(2) [of secret] show "\<exists>k fs. client_start fx_world (fx_start_env secret) [] (fx_tables 9 0x4752433a fx_self_db) fx_disk
     = ((Inr (GoOnline fx_self), Some (fx_at fx_self_db k)), fs)" by (auto simp: start)
qed

theorem restarts_keep_the_identity_witness:
  "\<exists>self' e' fs3. client_start fx_world (fx_start_env (replicate 32 4)) [] (fx_tables 9 0x4752433a fx_self_db) fx_disk
      = ((Inr (GoOnline self'), Some e'), fs3)
    \<and> self_user self' = self_user fx_self \<and> self_seed self' = self_seed fx_self \<and> self_keys self' = self_keys fx_self"
proof -
  obtain k fs where start: "client_start fx_world (fx_start_env (replicate 32 8)) [] (fx_tables 0 0 empty_client_db) fx_disk
      = ((Inr (GoOnline fx_self), Some (fx_at fx_self_db k)), fs)" using fx_online(1) by blast
  then have run: "run_inner fx_world (fx_start_env (replicate 32 8)) fx_config [] [] (fx_tables 0 0 empty_client_db) fx_disk
      = (None, Some (fx_at fx_self_db k), fs)" by (simp add: run_inner_def)
  obtain self' e' fs3 where again: "client_start fx_world (fx_start_env (replicate 32 4)) [] (fx_tables 9 0x4752433a fx_self_db) fx_disk
      = ((Inr (GoOnline self'), Some e'), fs3)" using fx_online(2) by blast
  have "self_user self' = self_user fx_self \<and> self_seed self' = self_seed fx_self \<and> self_keys self' = self_keys fx_self"
    using restarts_keep_the_identity [OF _ _ start run _ _ _ again]
    by (simp add: fx_documented fx_wire fx_tables_def fx_at_def fx_opened_store_def durable_db_def)
  with again show ?thesis by blast
qed

section \<open>One relay for a database\<close>

text \<open>
  Property C20. One relay for a database. While a relay serves, every other start on its database
  fails before it has read or written the repository, whether it wants to serve or to issue a token,
  and whatever happened to the rest of the file system.
\<close>

theorem one_relay_per_database:
  assumes honest: "honest_kernel (ra_disk ra)"
    and serves: "relay_start ra arguments f fs = ((Inr (RelayServes config tls), s), fs1)"
    and later: "extends fs1 fs2"
    and same: "database_path ra = Inr p" "database_path ra' = Inr p'" "resolve (ra_disk ra') p' = resolve (ra_disk ra) p"
    and other: "arguments' \<noteq> [str_of ''--help'']"
  shows "isl (fst (fst (relay_start ra' arguments' f' fs2))) \<and> snd (fst (relay_start ra' arguments' f' fs2)) = None"
proof -
  from serves same(1) obtain q fs3 where opened: "open_relay ra f p fs = (Inr q, fs3)"
    and served: "start_serving ra config q fs3 = (Inr (RelayServes config tls), fs1)"
    by (auto simp: relay_start_def Let_def start_serving_def enroll_def split: if_splits sum.splits prod.splits option.splits)
  from opened have "\<exists>h. open_locked (ra_disk ra) p fs = (Inr h, fs3)"
    by (auto simp: open_relay_def split: sum.splits prod.splits)
  with open_locked_Inr(1,3) [OF honest] obtain n where
    n: "fs_nodes fs3 (resolve (ra_disk ra) p) = Some n" "nd_inode n \<in> fs_locked fs3" by blast
  have "extends fs3 fs2" using start_serving_extends [OF served] later by (rule extends_trans)
  then have "fs_nodes fs2 (resolve (ra_disk ra) p) = Some n" "nd_inode n \<in> fs_locked fs2"
    using n by (auto simp: extends_def map_le_def dom_def)
  then have "isl (fst (open_locked (ra_disk ra') p' fs2))" using open_locked_in_use same(3) by metis
  then have refused: "\<exists>e fs. open_relay ra' f' p' fs2 = (Inl e, fs)"
    by (auto simp: open_relay_def split: sum.splits prod.splits)
  show ?thesis
  proof (cases "configure (ra_var ra')")
    case (Inr config')
    with refused other same(2) show ?thesis by (auto simp: relay_start_def)
  qed (use other in \<open>simp add: relay_start_def\<close>)
qed

definition fx_relay_start :: "file_path option \<Rightarrow> relay_start_env" where
  "fx_relay_start database = \<lparr>ra_disk = fx_kernel, ra_var = (\<lambda>_. None), ra_database_var = database, ra_xdg_data_home = None,
     ra_home = Some fx_home_path, ra_cert_var = Some (fx_file 99), ra_key_var = Some (fx_file 107), ra_pragma_fault = False,
     ra_batch_fault = False, ra_spawn_fails = False, ra_bind_fault = None, ra_signal_fault = None, ra_tls = fx_tls_library,
     ra_sha256 = fx_sha, ra_env = fx_env\<rparr>"

definition fx_db_file :: db_file where
  "fx_db_file = \<lparr>file_user_version = 0, file_application_id = 0, file_schema_objects = 0, file_contents = empty_db\<rparr>"

section \<open>What the loop hands out\<close>

lemma configure_payload: "configure var = Inr config \<Longrightarrow> PAYLOAD_OPERATION \<le> rt_payload_bytes config"
  by (auto simp: configure_def and_then_def Let_def PAYLOAD_OPERATION_def split: sum.splits if_splits)

lemma serving_configured:
  "relay_start ra arguments f fs = ((Inr (RelayServes config tls), s), fs') \<Longrightarrow> configure (ra_var ra) = Inr config"
  by (auto simp: relay_start_def Let_def start_serving_def enroll_def split: if_splits sum.splits prod.splits option.splits)

text \<open>A task that holds a share can always go on, with no shutdown, error or deadline to help it.\<close>

definition goes_on :: "RuntimeLimits \<Rightarrow> 'ip Listener \<Rightarrow> bool" where
  "goes_on config ls \<longleftrightarrow>
     (\<exists>n \<in> {..<length (ls_tasks ls)}.
        \<exists>ev \<in> {TlsAccepted, LoggedIn, ReaderEvent PermitTaken, ReaderEvent FrameDecoded,
               LoopEvent RequestAdmitted, LoopEvent CommandAnswered, LoopEvent WriteDone}.
        listen_step config (TaskEvent n ev) ls \<noteq> None)
     \<or> listen_step config CommandRun ls \<noteq> None"

lemma goes_onI:
  "n < length (ls_tasks ls) \<Longrightarrow>
   ev \<in> {TlsAccepted, LoggedIn, ReaderEvent PermitTaken, ReaderEvent FrameDecoded, LoopEvent RequestAdmitted,
          LoopEvent CommandAnswered, LoopEvent WriteDone} \<Longrightarrow>
   task_step n (ls_tasks ls ! n) ev ls \<noteq> None \<Longrightarrow> goes_on config ls"
  unfolding goes_on_def by (intro disjI1 bexI [of _ n] bexI [of _ ev]) (simp_all add: listen_step_def)

lemma positive_summand: "0 < sum_list (map f xs) \<Longrightarrow> \<exists>x \<in> set xs. 0 < (f x :: nat)"
  by (induction xs) auto

lemma serving_goes_on:
  assumes n: "n < length (ls_tasks ls)" "0 < shares (ls_tasks ls ! n)" and s: "ls_tasks ls ! n = Serving reader waits held pos"
    and ok: "stage_ok (ls_tasks ls ! n)"
  shows "goes_on config ls"
proof (cases "waits \<or> held")
  case True
  note go = goes_onI [OF n(1)]
  show ?thesis
  proof (cases pos)
    case Selecting
    with True ok s have waits by simp
    with Selecting s go [of "LoopEvent RequestAdmitted"] show ?thesis by simp
  qed (use s go [of "LoopEvent CommandAnswered"] go [of "LoopEvent WriteDone"] in simp_all)
next
  case False
  with n(2) s have "reader = ReaderWaits \<or> reader = ReaderReads" by (auto split: if_splits)
  with False show ?thesis
    using goes_onI [OF n(1), of "ReaderEvent PermitTaken"] goes_onI [OF n(1), of "ReaderEvent FrameDecoded"] s by auto
qed

lemma holder_goes_on:
  assumes ok: "listener_ok config ls" and out: "0 < shares_out ls"
  shows "goes_on config ls"
proof (cases "ls_orphans ls = 0")
  case True
  with out obtain s where "s \<in> set (ls_tasks ls)" "0 < shares s"
    by (auto simp: shares_out_def dest: positive_summand)
  then obtain n where n: "n < length (ls_tasks ls)" "0 < shares (ls_tasks ls ! n)" by (auto simp: in_set_conv_nth)
  note go = goes_onI [OF n(1)]
  show ?thesis
  proof (cases "ls_tasks ls ! n")
    case (Serving reader waits held pos)
    then show ?thesis by (rule serving_goes_on [OF n _ stage_ok_at [OF ok n(1)]])
  qed (use n go [of TlsAccepted] go [of LoggedIn] in simp_all)
qed (simp add: goes_on_def listen_step_def)

text \<open>
  Property C21. Nothing is lost or overdrawn. Whatever connections come and how they end: connections and free
  permits add up to the configured number, at most as many handshakes are unfinished as configured, in all and
  for each address, and the budget and the shares that are out add up to the configured bytes. When no
  task is left all permits are back and no address is counted. And the budget cannot block the relay: if it does
  not suffice for another operation, some task or queued command holds a share and can go on.
\<close>

theorem capacity_is_conserved:
  fixes ls :: "'ip Listener"
  assumes start: "relay_start ra arguments f fs = ((Inr (RelayServes config tls), s), fs')"
    and run: "listen config events (start_listener config) = Some ls"
  shows "ls_permits ls + length (ls_tasks ls) = rt_connections config
    \<and> holders leased ls \<le> rt_handshakes config
    \<and> (\<forall>ip. holders (\<lambda>s. lease_of s = Some ip) ls \<le> rt_handshakes_per_ip config)
    \<and> ls_budget ls + shares_out ls * PAYLOAD_OPERATION = rt_payload_bytes config
    \<and> (ls_tasks ls = [] \<longrightarrow> ls_permits ls = rt_connections config \<and> ls_pending ls = [])
    \<and> (ls_budget ls < PAYLOAD_OPERATION \<longrightarrow> goes_on config ls)"
proof -
  have ok: "listener_ok config ls" by (rule listen_ok [OF run])
  have "goes_on config ls" if "ls_budget ls < PAYLOAD_OPERATION"
  proof -
    have "PAYLOAD_OPERATION \<le> ls_budget ls + shares_out ls * PAYLOAD_OPERATION"
      using ok configure_payload [OF serving_configured [OF start]] by (simp add: listener_ok_def)
    with that have "0 < shares_out ls" by (cases "shares_out ls") auto
    then show ?thesis by (rule holder_goes_on [OF ok])
  qed
  moreover have "ls_pending ls = []" if "ls_tasks ls = []"
    using ok that by (intro no_leases) (simp_all add: listener_ok_def holders_def)
  ultimately show ?thesis using ok by (auto simp: listener_ok_def)
qed

text \<open>
  What ends a task without its peer: the shutdown where it is seen, a command that the database has taken staying there; the
  deadline of the write of a refusal, where it is not.
\<close>

definition last_event :: "'ip stage \<Rightarrow> task_event" where
  "last_event s = (if sees_shutdown s then ShutDown (in_database s) else LoopEvent (WriteFailed True))"

lemma ended_task:
  "ls_tasks (end_task n queued ls) = take n (ls_tasks ls) @ drop (Suc n) (ls_tasks ls)"
  "ls_orphans (end_task n queued ls) = ls_orphans ls + of_bool queued"
  "ls_listening (end_task n queued ls) = ls_listening ls"
  "ls_tasks (count_timeout late ls) = ls_tasks ls" "ls_orphans (count_timeout late ls) = ls_orphans ls"
  "ls_listening (count_timeout late ls) = ls_listening ls"
  by (simp_all add: end_task_def Let_def give_back_def drop_lease_def count_timeout_def split: option.splits)

lemma last_step:
  assumes "ls_listening ls = Draining" "n < length (ls_tasks ls)"
  shows "\<exists>ls'. listen_step config (TaskEvent n (last_event (ls_tasks ls ! n))) ls = Some ls'
    \<and> ls_tasks ls' = take n (ls_tasks ls) @ drop (Suc n) (ls_tasks ls) \<and> ls_listening ls' = Draining
    \<and> ls_orphans ls' = ls_orphans ls + of_bool (in_database (ls_tasks ls ! n))"
proof (cases "ls_tasks ls ! n")
  case (Serving reader waits held pos)
  with assms show ?thesis by (cases pos) (simp_all add: listen_step_def last_event_def sees_shutdown_def in_database_def ended_task)
qed (use assms in \<open>simp_all add: listen_step_def last_event_def sees_shutdown_def in_database_def ended_task\<close>)

text \<open>No step of a relay that shuts down opens a connection.\<close>

lemma drains:
  assumes "listen_step config event ls = Some ls'" "ls_listening ls = Draining"
  shows "ls_listening ls' \<noteq> Accepting \<and> length (ls_tasks ls') \<le> length (ls_tasks ls)"
proof (cases event)
  case (TaskEvent n ev)
  note sizes = ended_task to_stage_def give_back_def drop_lease_def take_share_def
  have n: "n < length (ls_tasks ls)" and step: "task_step n (ls_tasks ls ! n) ev ls = Some ls'"
    using assms(1) TaskEvent by (simp_all add: listen_step_def split: if_splits)
  have read: "?thesis" if "reader_step n reader waits held pos e ls = Some ls'" for reader waits held pos e
    using that n assms(2)
    by (cases "(n, reader, waits, held, pos, e, ls)" rule: reader_step.cases) (auto simp: sizes split: if_splits)
  have loop: "?thesis" if "loop_step n reader waits held pos e ls = Some ls'" for reader waits held pos e
    using that n assms(2)
    by (cases "(n, reader, waits, held, pos, e, ls)" rule: loop_step.cases) (auto simp: sizes split: if_splits)
  from step n assms(2) read loop show ?thesis
    by (cases "(n, ls_tasks ls ! n, ev, ls)" rule: task_step.cases) (auto simp: sizes split: if_splits)
qed (use assms in \<open>auto simp: listen_step_def give_back_def split: if_splits\<close>)

lemma drain_all:
  assumes "listener_ok config ls" "ls_listening ls = Draining"
  shows "\<exists>ls'. listen config (map (\<lambda>s. TaskEvent 0 (last_event s)) (ls_tasks ls)) ls = Some ls'
    \<and> listener_ok config ls' \<and> ls_listening ls' = Draining \<and> ls_tasks ls' = []
    \<and> ls_orphans ls' = ls_orphans ls + length (filter in_database (ls_tasks ls))"
  using assms
proof (induction "ls_tasks ls" arbitrary: ls)
  case (Cons t ts)
  have "0 < length (ls_tasks ls)" by (simp add: Cons.hyps(2) [symmetric])
  from last_step [OF Cons.prems(2) this, of config] obtain ls1 where
    step: "listen_step config (TaskEvent 0 (last_event t)) ls = Some ls1"
    and left: "ls_tasks ls1 = ts" "ls_listening ls1 = Draining" "ls_orphans ls1 = ls_orphans ls + of_bool (in_database t)"
    by (auto simp: Cons.hyps(2) [symmetric])
  from Cons.hyps(1) [of ls1] listen_step_ok [OF Cons.prems(1) step] left step Cons.hyps(2) [symmetric] show ?case by auto
qed auto

text \<open>The commands that their tasks left behind run and give their shares back.\<close>

lemma commands_run:
  "k \<le> ls_orphans ls \<Longrightarrow> listen config (replicate k CommandRun) ls
     = Some (ls\<lparr>ls_orphans := ls_orphans ls - k, ls_budget := ls_budget ls + k * PAYLOAD_OPERATION\<rparr>)"
  by (induction k arbitrary: ls) (simp_all add: listen_step_def give_back_def)

text \<open>
  Property C22. The shutdown completes, whatever the peers do. In every reachable state of a relay that shuts down, each
  task has an event that needs nothing of its peer and ends this task alone: the shutdown, or, for
  the write of a refusal, which does not see it, the write's deadline. No event starts another task or takes the shutdown back. And
  from every reachable state, with or without the request still to come, these events, one for every task, and the end of the loop
  lead to a finished relay: every permit and lease is back, and of the budget exactly the shares are missing of those commands
  that were at the database and have not run, however many of them have.
\<close>

theorem shutdown_completes:
  fixes ls :: "'ip Listener"
  assumes run: "listen config events (start_listener config) = Some ls" and active: "ls_listening ls \<noteq> Finished"
    and some_run: "k \<le> ls_orphans ls + length (filter in_database (ls_tasks ls))"
  shows "(ls_listening ls = Draining \<longrightarrow>
        (\<forall>n < length (ls_tasks ls). \<exists>ls'. listen_step config (TaskEvent n (last_event (ls_tasks ls ! n))) ls = Some ls'
            \<and> ls_tasks ls' = take n (ls_tasks ls) @ drop (Suc n) (ls_tasks ls))
        \<and> (\<forall>event ls'. listen_step config event ls = Some ls' \<longrightarrow>
            ls_listening ls' \<noteq> Accepting \<and> length (ls_tasks ls') \<le> length (ls_tasks ls)))
    \<and> (\<exists>ls'. listen config
            ((if ls_listening ls = Accepting then [ShutdownTick True] else [])
              @ map (\<lambda>s. TaskEvent 0 (last_event s)) (ls_tasks ls) @ replicate k CommandRun @ [AllJoined]) ls = Some ls'
        \<and> ls_listening ls' = Finished \<and> ls_tasks ls' = [] \<and> ls_permits ls' = rt_connections config \<and> ls_pending ls' = []
        \<and> ls_orphans ls' + k = ls_orphans ls + length (filter in_database (ls_tasks ls))
        \<and> ls_budget ls' + ls_orphans ls' * PAYLOAD_OPERATION = rt_payload_bytes config)"
proof -
  let ?ls = "ls\<lparr>ls_listening := Draining\<rparr>" and ?stop = "if ls_listening ls = Accepting then [ShutdownTick True] else []"
  have stop: "listen config ?stop ls = Some ?ls" using active by (cases "ls_listening ls") (simp_all add: listen_step_def)
  have "listener_ok config ?ls" by (rule listener.run_inv [OF listen_steps [OF stop] listen_ok [OF run]])
  from drain_all [OF this] obtain ls1 where
    all: "listen config (map (\<lambda>s. TaskEvent 0 (last_event s)) (ls_tasks ls)) ?ls = Some ls1" and ok: "listener_ok config ls1"
    and left: "ls_listening ls1 = Draining" "ls_tasks ls1 = []"
      "ls_orphans ls1 = ls_orphans ls + length (filter in_database (ls_tasks ls))" by auto
  let ?fin = "ls1\<lparr>ls_orphans := ls_orphans ls1 - k, ls_budget := ls_budget ls1 + k * PAYLOAD_OPERATION, ls_listening := Finished\<rparr>"
  have "listen config (?stop @ map (\<lambda>s. TaskEvent 0 (last_event s)) (ls_tasks ls) @ replicate k CommandRun @ [AllJoined]) ls = Some ?fin"
    using some_run left by (simp add: listen_append stop all commands_run) (simp add: listen_step_def left)
  moreover have "ls_pending ls1 = []"
    using ok left(2) by (intro no_leases) (simp_all add: listener_ok_def holders_def)
  moreover have "ls_permits ls1 = rt_connections config" "ls_budget ls1 + ls_orphans ls1 * PAYLOAD_OPERATION = rt_payload_bytes config"
    using ok left(2) by (simp_all add: listener_ok_def shares_out_def)
  moreover have "ls_budget ls1 + k * PAYLOAD_OPERATION + (ls_orphans ls1 - k) * PAYLOAD_OPERATION
      = ls_budget ls1 + ls_orphans ls1 * PAYLOAD_OPERATION"
    using some_run left(3) by (simp add: add_mult_distrib [symmetric])
  ultimately have "\<exists>ls'. listen config
            (?stop @ map (\<lambda>s. TaskEvent 0 (last_event s)) (ls_tasks ls) @ replicate k CommandRun @ [AllJoined]) ls = Some ls'
        \<and> ls_listening ls' = Finished \<and> ls_tasks ls' = [] \<and> ls_permits ls' = rt_connections config \<and> ls_pending ls' = []
        \<and> ls_orphans ls' + k = ls_orphans ls + length (filter in_database (ls_tasks ls))
        \<and> ls_budget ls' + ls_orphans ls' * PAYLOAD_OPERATION = rt_payload_bytes config"
    using some_run left by (intro exI [of _ ?fin]) simp
  then show ?thesis using last_step [of ls _ config] drains [of config _ ls] by blast
qed

section \<open>A relay of the fixtures\<close>

lemma fx_relay_serves:
  "\<exists>s fs. relay_start (fx_relay_start (Some (fx_file 100))) [] fx_db_file fx_disk
     = ((Inr (RelayServes default_runtime_limits fx_tls_identity), Some s), fs)"
proof -
  have config: "configure (\<lambda>_. None) = Inr default_runtime_limits"
    by (simp add: configure_def usize_variable_def deadline_variable_def and_then_def Let_def default_runtime_limits_def)
  have limits: "storage_environment (\<lambda>_. None) = Inr default_storage_limits"
    by (simp add: storage_environment_def storage_variable_def and_then_def default_storage_limits_def)
  have path: "database_path (fx_relay_start (Some (fx_file 100))) = Inr (fx_file 100)"
    by (simp add: database_path_def default_directory_def fx_relay_start_def and_then_def)
  have fresh: "initialize False False fx_db_file = Inr (fx_db_file\<lparr>file_user_version := 9, file_application_id := 1196577338,
      file_schema_objects := 18, file_contents := empty_db\<rparr>)"
    by (simp add: initialize_def fx_db_file_def)
  have ident: "fst (load_or_generate_at fx_kernel fx_tls_library (fx_file 99) (fx_file 107)
      (snd (open_locked fx_kernel (fx_file 100) fx_disk))) = Inr fx_tls_identity"
    by (simp add: load_or_generate_at_def in_files_def generate_identity_def write_with_mode_def create_new_def write_all_def
      sync_all_def read_private_def open_read_def try_exists_def set_data_def load_from_pem_def IDENTITY_LIMIT_def
      open_locked_def check_sidecars_def open_file_def lock_or_refuse_def try_lock_def with_suffix_def str_of_def file_error_kind_def
      ensure_parent_def check_ancestors_def check_existing_def create_dirs_def make_dir_def file_metadata_def symlink_metadata_def
      syscall_def node_at_def add_node_def resolve_def path_join_def path_ancestors_def path_parent_def parent_dir_def owner_only_def
      unsafe_ancestor_def chain_def ret_def fail_def Let_def fx_disk_def fx_root_dir_def fx_home_dir_def fx_paths
      fx_kernel_def fx_tls_library_def fx_tls_identity_def)
  obtain fs1 where opened: "open_locked fx_kernel (fx_file 100) fx_disk = (Inr (fx_file 100), fs1)"
    using fx_opened by (metis prod.collapse)
  obtain fs2 where loaded: "load_or_generate_at fx_kernel fx_tls_library (fx_file 99) (fx_file 107) fs1 = (Inr fx_tls_identity, fs2)"
    using ident opened by (metis prod.collapse snd_conv)
  have sel: "ra_disk (fx_relay_start d) = fx_kernel" "ra_var (fx_relay_start d) = (\<lambda>_. None)" "ra_xdg_data_home (fx_relay_start d) = None"
    "ra_home (fx_relay_start d) = Some fx_home_path" "ra_cert_var (fx_relay_start d) = Some (fx_file 99)"
    "ra_key_var (fx_relay_start d) = Some (fx_file 107)" "\<not> ra_pragma_fault (fx_relay_start d)" "\<not> ra_batch_fault (fx_relay_start d)"
    "\<not> ra_spawn_fails (fx_relay_start d)" "ra_bind_fault (fx_relay_start d) = None" "ra_signal_fault (fx_relay_start d) = None"
    "ra_tls (fx_relay_start d) = fx_tls_library" for d
    by (simp_all add: fx_relay_start_def)
  have queue: "rt_database_queue default_runtime_limits \<noteq> 0" by (simp add: default_runtime_limits_def)
  show ?thesis
    using opened loaded queue
    by (simp add: relay_start_def path open_relay_def start_serving_def worker_start_def load_or_generate_identity_def default_directory_def
        config limits fresh Let_def sel)
qed

theorem one_relay_per_database_witness:
  "isl (fst (fst (relay_start (fx_relay_start (Some (fx_file 100))) [str_of ''--enroll'', [], []] fx_db_file
      (snd (relay_start (fx_relay_start (Some (fx_file 100))) [] fx_db_file fx_disk)))))"
proof -
  obtain s fs where serves: "relay_start (fx_relay_start (Some (fx_file 100))) [] fx_db_file fx_disk
      = ((Inr (RelayServes default_runtime_limits fx_tls_identity), Some s), fs)" using fx_relay_serves by blast
  have path: "database_path (fx_relay_start (Some (fx_file 100))) = Inr (fx_file 100)"
    by (simp add: database_path_def default_directory_def fx_relay_start_def and_then_def)
  have "honest_kernel (ra_disk (fx_relay_start (Some (fx_file 100))))" by (simp add: fx_relay_start_def fx_kernel_honest)
  from one_relay_per_database [OF this serves extends_refl path path refl, of "[str_of ''--enroll'', [], []]" fx_db_file]
  show ?thesis by (simp add: serves)
qed

text \<open>
  Three connections: the first has a command at the database and another frame begun, the second shakes hands, the third is
  being refused.
\<close>

definition fx_listening :: "nat listen_event list" where
  "fx_listening = [Accepted False 7, TaskEvent 0 PayloadGranted, TaskEvent 0 TlsAccepted, TaskEvent 0 LoggedIn, Accepted False 7,
     TaskEvent 1 PayloadGranted, TaskEvent 0 (ReaderEvent FrameStarted), TaskEvent 0 (ReaderEvent PermitTaken),
     TaskEvent 0 (ReaderEvent FrameDecoded), TaskEvent 0 (LoopEvent RequestAdmitted), TaskEvent 0 (ReaderEvent FrameStarted),
     Accepted False 8, TaskEvent 2 PayloadGranted, TaskEvent 2 TlsAccepted, TaskEvent 2 LoggedIn, TaskEvent 2 (ReaderEvent FrameStarted),
     TaskEvent 2 (ReaderEvent PermitTaken), TaskEvent 2 (ReaderEvent FrameDecoded), TaskEvent 2 (LoopEvent RequestRefused)]"

definition fx_listener :: "nat Listener" where
  "fx_listener = \<lparr>ls_listening = Accepting, ls_permits = 125, ls_pending = [(7, 1)], ls_budget = 56 * 1024 * 1024,
     ls_tasks = [Serving ReaderWaits False True InDatabase, TlsHandshake 7, Serving ReaderIdle False True Refusing],
     ls_orphans = 0, ls_timeouts = 0\<rparr>"

lemma fx_listen: "listen default_runtime_limits fx_listening (start_listener default_runtime_limits) = Some fx_listener"
  by (simp add: fx_listening_def fx_listener_def listen_step_def start_listener_def accept_connection_def lease_acquire_def take_share_def
      to_stage_def give_back_def drop_lease_def default_runtime_limits_def PAYLOAD_OPERATION_def)

theorem capacity_is_conserved_witness:
  "ls_permits fx_listener + length (ls_tasks fx_listener) = rt_connections default_runtime_limits
    \<and> ls_budget fx_listener + shares_out fx_listener * PAYLOAD_OPERATION = rt_payload_bytes default_runtime_limits"
proof -
  obtain s fs where "relay_start (fx_relay_start (Some (fx_file 100))) [] fx_db_file fx_disk
      = ((Inr (RelayServes default_runtime_limits fx_tls_identity), Some s), fs)" using fx_relay_serves by blast
  from capacity_is_conserved [OF this fx_listen] show ?thesis by simp
qed

theorem shutdown_completes_witness:
  "\<exists>ls'. listen default_runtime_limits
      [ShutdownTick True, TaskEvent 0 (ShutDown True), TaskEvent 0 (ShutDown False), TaskEvent 0 (LoopEvent (WriteFailed True)),
       CommandRun, AllJoined] fx_listener = Some ls'
    \<and> ls_listening ls' = Finished \<and> ls_permits ls' = rt_connections default_runtime_limits
    \<and> ls_budget ls' = rt_payload_bytes default_runtime_limits"
  using shutdown_completes [OF fx_listen, of 1]
  by (auto simp: fx_listener_def last_event_def sees_shutdown_def in_database_def)

end
