(* ===== verification/Spec2Isabelle.thy ===== *)
theory Spec2Isabelle
  imports Protocol_Claims Relay_Policy_Claims Relay_Server_Claims Client_Claims Client_Request_Claims Client_Data_Claims
    Connection_Claims Start_Claims
begin

text \<open>
  Grotto is a private group messenger: clients exchange MLS messages through a relay that stores and orders what
  it cannot read. This development models the relay, the client and the protocol between them, and proves what
  makes them correct: ordered histories with one winner for every position, answers that survive retries,
  sessions that belong to authenticated users, clients that trust no relay, and files and identities that
  stay private and stay the same.

  \<^bold>\<open>The parts and how they interact.\<close>

  \<^item> \<open>grotto-protocol\<close>: identifiers, requests and responses, the messages of the login, their serialization, and frames.
  \<^item> \<open>grotto-relay\<close>: a repository on SQLite, one thread that owns it, a hub that knows the connected users, one task
    for every connection that logs a user in and then serves requests, and the loop that accepts connections.
  \<^item> \<open>grotto-client\<close>: a database for everything durable, contact cards that users compare by hand, a session with the MLS
    library, an engine that turns commands into requests and received events into history, and the loop that connects,
    logs in and connects again.
  \<^item> \<open>grotto-mls\<close>: the construction of the MLS library's client; the library is a parameter here.

  A client sends \<open>ClientMessage\<close> values in frames; the task of its connection hands the request to the database
  thread, which calls \<open>deliver\<close> on the repository, and sends the response back; an accepted append wakes every
  other connection through the hub, and the clients then fetch what they miss.

  \<^bold>\<open>Conventions.\<close> The model follows the code function by function and keeps its names. Rust integers are words of their
  width, and checked, saturating and wrapping arithmetic is written out (\<open>Prelude\<close>); strings are lists of Unicode scalars with
  UTF-8 and \<open>char\<close> predicates as in the standard library (\<open>Rust_Text\<close>). A fallible function returns a sum with the error on
  the left. Code that works on a state and may fail is a function from the state to a result and a state, composed by
  \<open>chain\<close>, Rust's question mark (\<open>Fallible\<close>). What is outside the repository is an argument: the records ending in
  \<open>_env\<close> hold which statement, system call or write fails, the clock and the random numbers; the signature scheme, SHA-256,
  the postcard primitives, TLS and the MLS library are functions with their documented behaviour as named hypotheses
  (\<open>postcard_wire\<close>, \<open>documented_library\<close>, \<open>honest_kernel\<close>, \<open>rounds_like_f64\<close>), and every property with such a hypothesis is applied
  to a concrete instance.

  \<^bold>\<open>The protocol.\<close> \<open>Wire\<close> has the postcard primitives and their laws (locale \<open>postcard_wire\<close>, interpreted by the
  concrete format \<open>postcard_v1\<close>; locale \<open>codec\<close> for a serializer and a deserializer that belong together). \<open>Protocol_Ids\<close>,
  \<open>Protocol_Delivery\<close> and \<open>Protocol_Messages\<close> have every type of the protocol with its hand-written or derived serde code and
  make each an instance of \<open>codec\<close>. \<open>Protocol_Frame\<close> has \<open>read_frame\<close> and \<open>write_frame\<close> over a transport that
  delivers bytes in any pieces. \<open>Protocol_Claims\<close> proves round trips, the bounds on whatever is decoded, frames
  under fragmentation, and that signed and hashed byte strings determine what they stand for.

  \<^bold>\<open>The relay's repository.\<close> \<open>Relay_Storage\<close> has the tables with their keys, \<open>Relay_Limits\<close> quotas and configuration,
  \<open>Relay_Delivery\<close> the arms of \<open>execute\<close> and the transaction of \<open>deliver\<close>, \<open>Relay_Enrollment\<close> tokens and registration.
  \<open>Relay_Effects\<close> says what every call does to the tables, \<open>Relay_Invariant\<close> proves the invariant, and \<open>Relay_System\<close> makes
  the repository a transition system with it (locales \<open>step_invariant\<close> and \<open>step_monotone\<close> of \<open>Transitions\<close>). \<open>Relay_Pages\<close> treats the page
  queries. \<open>Relay_Claims\<close>, \<open>Relay_Page_Claims\<close> and \<open>Relay_Policy_Claims\<close> prove idempotence, contiguous histories, one append per parent,
  Welcomes that match their events, pages without gaps, quotas, single-use tokens and key packages, the whole effect of an append on
  every branch, that failed calls leave no trace, and that refusals leave only their charge and their record.

  \<^bold>\<open>The relay's connections.\<close> \<open>Relay_Worker\<close> has the database thread, a refinement of sequential execution; \<open>Relay_Hub\<close> the
  hub, the token bucket over rounded reals and the handshake leases (\<open>register\<close> and \<open>notify\<close> as one step each, although the code releases the
  lock in between); \<open>Relay_Session\<close> the login step by step and the session loop; \<open>Relay_Server\<close>
  all connections as one transition system over the shared state; \<open>Relay_Listener\<close> the accept loop with its permits, leases and
  payload budget as an event-driven machine, every connection with its reader and its loop, which see a shutdown only where the code
  races it; \<open>Relay_Identity\<close> and \<open>Relay_Start\<close> the TLS identity and the start of the program.
  \<open>Relay_Server_Claims\<close> proves that sessions are authenticated and refine the repository, and that accepted appends wake everyone.

  \<^bold>\<open>The client's data.\<close> \<open>Client_Store\<close> has the tables and every operation of \<open>ClientStore\<close>, \<open>Client_Contacts\<close> the cards, pins and
  identity checks, \<open>Client_Mls_Storage\<close> the callbacks of the MLS library, \<open>Client_Commands\<close> the command line of the running
  client. \<open>Client_Data_Claims\<close> proves the text form of cards, what an import pins, the order of epochs and which commands
  reach the engine.

  \<^bold>\<open>The client's engine.\<close> \<open>Client_Session\<close> has the MLS session over the library's calls (locale \<open>storage_callback\<close> for
  what the callbacks may change), \<open>Client_Engine\<close> the engine on the database, \<open>Client_Delivery\<close> its exchange with the relay and the
  session loop, over a script of what the relay sends and an order in which the loop is woken. \<open>Client_Views\<close> (locale \<open>app_view\<close>) and
  \<open>Client_Transactions\<close> say which tables an operation leaves alone and what a transaction makes durable. \<open>Client_Loops\<close>
  (locale \<open>wire_loop\<close>) has one induction principle for the loops that wait for the relay and bounds their requests. \<open>Client_Contract\<close> (locale
  \<open>engine_contract\<close>) lifts a law of the engine's operations to the whole session; \<open>Client_Invariant\<close>, \<open>Client_Safety\<close> and
  \<open>Client_Recovery\<close> instantiate it for the received history, \<open>Client_Pins\<close> for contacts and identities. \<open>Client_Claims\<close> and
  \<open>Client_Request_Claims\<close> prove what is received, accepted into which group, joined, rolled back and finished by which answer, and how often a request
  is sent; \<open>Client_Fixture\<close> is the concrete client of their examples.

  \<^bold>\<open>Files, connections and runs.\<close> \<open>Private_Files\<close> has \<open>private_file.rs\<close> over a file system with failing system calls;
  \<open>Client_Connection\<close> the reader task, the login, the pinned certificate and the reconnection loop; \<open>Client_Start\<close> the
  client from its command line on. \<open>File_Claims\<close>, \<open>Connection_Claims\<close> and \<open>Start_Claims\<close> prove the properties that span
  components: the two sides of the login, each seeing only what the other has written, take turns to the end; pins and
  identities are kept from call to call and from run to run; the waits between connections are exact; the durable state survives
  every reconnection; one relay has its database for itself; and the accept loop conserves its capacity and can always
  shut down without the help of a peer.

  \<^bold>\<open>Loops and bounds.\<close> Every function of the model is total. The loops over rows, pages and bytes are structural or have a
  measure (the bytes a reader still holds, the messages of a script). What waits for the outside consumes a finite
  script: the messages of a relay, the choices of \<open>select!\<close>, the rounds of the reconnection loop, the events of the accept
  loop. The theorems hold for all scripts, so a script is a prefix of any behaviour and no bound is assumed. A loop that the
  relay can prolong for ever, the repetition of a request that is put off, lasts as long as its script, and \<open>sessions_are_in_lockstep\<close> says
  what ends it. Where something must be reached (\<open>recovery_reaches_the_head\<close>, \<open>client_and_relay_agree\<close>, \<open>shutdown_completes\<close>) the
  theorem says which script suffices.

  \<^bold>\<open>Not modelled.\<close> SQLite, TLS, postcard, the MLS library and the signature scheme are parameters, as is the kernel behind the
  system calls. The terminal thread, what is printed, the counters of \<open>metrics.rs\<close> beyond their increments, the installation of signal
  handlers in \<open>shutdown.rs\<close> and the two \<open>main.rs\<close> are process glue without state of their own. The construction of the
  MLS client in \<open>grotto-mls\<close> only calls the library. Time is not a quantity: a deadline is a choice of the environment to
  let it pass. Code under \<open>cfg(test)\<close> is left out; the byte fixtures of the tests are reproduced in
  \<open>Protocol_Claims\<close>.
\<close>

end
